(* ===== verification/Prelude.thy ===== *)
theory Prelude
  imports Main "HOL-Library.Word" "HOL-Library.Sublist" "HOL-Library.Char_ord" "HOL-Library.List_Lexorder"
begin

text \<open>
  Shared vocabulary of the development.  A \<open>std::string\<close> is a list of bytes
  (\<open>string = char list\<close>); the operations of the standard library that the sources
  use on it (\<open>find\<close>, \<open>rfind\<close>, \<open>substr\<close>, \<open>tolower\<close>, decimal and hexadecimal
  formatting) are defined here once, with the lemmas that the components share.
  \<open>char\<close> is signed on the platforms the program targets, so comparisons of a
  \<open>char\<close> with a number go through \<open>schar\<close>, and conversions of an \<open>int\<close> back to
  \<open>char\<close> through \<open>to_char\<close>, which keeps the low eight bits.
\<close>

unbundle bit_operations_syntax

named_theorems str_simps "equations of the string operations"
named_theorems inv_intros "preservation lemmas of the component invariants"

type_synonym u8 = "8 word"
type_synonym u16 = "16 word"
type_synonym u32 = "32 word"
type_synonym u64 = "64 word"

section \<open>Bytes and characters\<close>

abbreviation uchar :: "char \<Rightarrow> nat" where
  "uchar c \<equiv> of_char c"

definition schar :: "char \<Rightarrow> int" where
  "schar c = (let n = int (uchar c) in if n < 128 then n else n - 256)"

definition to_char :: "int \<Rightarrow> char" where
  "to_char i = char_of (nat (i mod 256))"

definition chr :: "nat \<Rightarrow> char" where
  "chr n = char_of n"

definition CR :: char where "CR = CHR 0x0D"
definition LF :: char where "LF = CHR 0x0A"

definition CRLF :: string where
  "CRLF = [CR, LF]"

lemma CR_neq_LF [simp]: "CR \<noteq> LF" "LF \<noteq> CR"
  by (simp_all add: CR_def LF_def)

lemma CRLF_length [simp]: "length CRLF = 2"
  by (simp add: CRLF_def)

lemma CRLF_not_Nil [simp]: "CRLF \<noteq> []"
  by (simp add: CRLF_def)

lemma to_char_schar [simp]: "to_char (schar c) = c"
proof -
  have "nat (schar c mod 256) = uchar c"
    using nat_of_char_less_256 [of c] by (simp add: schar_def Let_def)
  then show ?thesis by (simp add: to_char_def)
qed

lemma uchar_chr [simp]: "n < 256 \<Longrightarrow> uchar (chr n) = n"
  by (simp add: chr_def)

lemma chr_uchar [simp]: "chr (uchar c) = c"
  by (simp add: chr_def)

lemma unat_u8_less: "unat (b :: u8) < 256"
proof -
  have "unat b < 2 ^ LENGTH(8)" by (rule unsigned_less)
  then show ?thesis by simp
qed

text \<open>\<open>tolower\<close>/\<open>toupper\<close> of the C locale.\<close>

definition tolower :: "char \<Rightarrow> char" where
  "tolower c = (if 65 \<le> uchar c \<and> uchar c \<le> 90 then chr (uchar c + 32) else c)"

definition toupper :: "char \<Rightarrow> char" where
  "toupper c = (if 97 \<le> uchar c \<and> uchar c \<le> 122 then chr (uchar c - 32) else c)"

lemma tolower_idem [simp]: "tolower (tolower c) = tolower c"
  by (simp add: tolower_def)

lemma toupper_idem [simp]: "toupper (toupper c) = toupper c"
proof (cases "97 \<le> uchar c \<and> uchar c \<le> 122")
  case True
  then have "uchar (chr (uchar c - 32)) = uchar c - 32" by (intro uchar_chr) linarith
  with True show ?thesis by (auto simp: toupper_def)
next
  case False
  then show ?thesis by (auto simp: toupper_def)
qed

section \<open>Searching in strings\<close>

text \<open>\<open>s.find(pat)\<close>: the least index at which \<open>pat\<close> occurs (\<open>None\<close> is \<open>npos\<close>).\<close>

fun str_find :: "string \<Rightarrow> string \<Rightarrow> nat option" where
  "str_find pat [] = (if pat = [] then Some 0 else None)"
| "str_find pat (c # cs) =
     (if prefix pat (c # cs) then Some 0 else map_option Suc (str_find pat cs))"

text \<open>\<open>s.find(pat, pos)\<close>.\<close>

definition str_find_from :: "string \<Rightarrow> string \<Rightarrow> nat \<Rightarrow> nat option" where
  "str_find_from pat s p =
     (if length s < p then None else map_option (\<lambda>i. i + p) (str_find pat (drop p s)))"

text \<open>\<open>s.rfind(c)\<close> for one character.\<close>

fun str_rfind :: "char \<Rightarrow> string \<Rightarrow> nat option" where
  "str_rfind c [] = None"
| "str_rfind c (x # xs) =
     (case str_rfind c xs of Some i \<Rightarrow> Some (Suc i)
      | None \<Rightarrow> if x = c then Some 0 else None)"

text \<open>\<open>s.substr(pos, n)\<close> and \<open>s.substr(pos)\<close> for \<open>pos \<le> s.size()\<close>.\<close>

definition substr :: "string \<Rightarrow> nat \<Rightarrow> nat \<Rightarrow> string" where
  "substr s p n = take n (drop p s)"

lemma str_find_Some_prefix: "str_find pat s = Some i \<Longrightarrow> prefix pat (drop i s)"
  by (induction s arbitrary: i) (auto split: if_splits)

lemma str_find_Some_le: "str_find pat s = Some i \<Longrightarrow> i + length pat \<le> length s"
  by (induction s arbitrary: i) (auto split: if_splits dest: prefix_length_le)

lemma str_find_Some_least: "str_find pat s = Some i \<Longrightarrow> j < i \<Longrightarrow> \<not> prefix pat (drop j s)"
proof (induction s arbitrary: i j)
  case Nil
  then show ?case by (auto split: if_splits)
next
  case (Cons c cs)
  then show ?case by (cases j) (auto split: if_splits)
qed

lemma str_find_None_iff: "str_find pat s = None \<longleftrightarrow> (\<forall>j \<le> length s. \<not> prefix pat (drop j s))"
proof (induction s)
  case Nil
  then show ?case by auto
next
  case (Cons c cs)
  have "(\<forall>j \<le> length (c # cs). \<not> prefix pat (drop j (c # cs))) \<longleftrightarrow>
      \<not> prefix pat (c # cs) \<and> (\<forall>j \<le> length cs. \<not> prefix pat (drop j cs))"
    by (auto simp: All_less_Suc2 simp flip: less_Suc_eq_le)
  with Cons show ?case by auto
qed

lemma str_find_split:
  assumes "str_find pat s = Some i"
  shows "s = take i s @ pat @ drop (i + length pat) s"
proof -
  from str_find_Some_prefix [OF assms] obtain r where r: "drop i s = pat @ r"
    by (auto simp: prefix_def)
  then have "drop (length pat + i) s = r"
    by (metis append_eq_conv_conj drop_drop)
  with r show ?thesis by (metis add.commute append_take_drop_id)
qed

text \<open>An occurrence found in a prefix of the text is the one found in the whole text.\<close>

lemma str_find_append_Some:
  assumes "str_find pat s = Some i"
  shows "str_find pat (s @ t) = Some i"
  using assms
proof (induction s arbitrary: i)
  case Nil
  then show ?case by (cases t) (auto split: if_splits)
next
  case (Cons c cs)
  show ?case
  proof (cases "prefix pat (c # cs)")
    case True
    then have "prefix pat ((c # cs) @ t)" by (rule prefix_prefix)
    with True Cons.prems show ?thesis by simp
  next
    case False
    with Cons.prems obtain j where j: "str_find pat cs = Some j" "i = Suc j" by auto
    from str_find_Some_le [OF j(1)] have "length pat \<le> length (c # cs)" by simp
    with False have "\<not> prefix pat ((c # cs) @ t)"
      by (auto simp: prefix_append simp del: append_Cons)
    with j Cons.IH show ?thesis by simp
  qed
qed

lemma str_find_append_pat: "\<exists>i. str_find pat (s @ pat @ t) = Some i \<and> i \<le> length s"
proof (induction s)
  case Nil
  have "str_find pat (pat @ t) = Some 0"
    by (cases "pat @ t") (auto simp flip: append_Cons, metis prefixI)
  then show ?case by simp
next
  case (Cons c cs)
  then show ?case by (auto split: if_splits)
qed

text \<open>Lines: the first \<open>CRLF\<close> after text that holds none is the one that ends it.\<close>

lemma prefix_CRLF_Cons: "prefix CRLF (x # s) \<longleftrightarrow> x = CR \<and> s \<noteq> [] \<and> hd s = LF"
  by (cases s) (auto simp: CRLF_def)

lemma str_find_CRLF_line: "str_find CRLF l = None \<Longrightarrow> str_find CRLF (l @ CRLF @ t) = Some (length l)"
proof (induction l)
  case Nil
  then show ?case by (simp add: CRLF_def)
next
  case (Cons x l)
  then have "\<not> prefix CRLF (x # l)" "str_find CRLF l = None" by (auto split: if_splits)
  then have "\<not> prefix CRLF (x # l @ CRLF @ t)"
    by (cases l) (auto simp: prefix_CRLF_Cons, auto simp: CRLF_def)
  with Cons.IH [OF \<open>str_find CRLF l = None\<close>] show ?case by simp
qed

lemma str_find_CRLF_no_CR: "CR \<notin> set s \<Longrightarrow> str_find CRLF s = None"
  by (induction s) (auto simp: prefix_CRLF_Cons)

text \<open>Single characters.\<close>

lemma str_find_char: "str_find [c] s = (if c \<in> set s then Some (length (takeWhile (\<lambda>x. x \<noteq> c) s)) else None)"
  by (induction s) auto

lemma str_rfind_None_iff [simp]: "str_rfind c s = None \<longleftrightarrow> c \<notin> set s"
  by (induction s) (auto split: option.splits)

lemma str_rfind_Some:
  "str_rfind c s = Some i \<Longrightarrow> i < length s \<and> s ! i = c \<and> c \<notin> set (drop (Suc i) s)"
proof (induction s arbitrary: i)
  case Nil
  then show ?case by simp
next
  case (Cons x xs)
  then show ?case by (cases "str_rfind c xs") (auto split: if_splits)
qed

section \<open>Printing numbers\<close>

text \<open>Decimal and upper-case hexadecimal digits, as \<open>fmt\<close> and \<open>printf\<close> print them.\<close>

definition digit_char :: "nat \<Rightarrow> char" where
  "digit_char d = (if d < 10 then chr (48 + d) else chr (55 + d))"

function radix_str :: "nat \<Rightarrow> nat \<Rightarrow> string" where
  "radix_str b n =
     (if n < b \<or> b < 2 then [digit_char n] else radix_str b (n div b) @ [digit_char (n mod b)])"
  by pat_completeness auto
termination
  by (relation "measure (\<lambda>(b, n). n)") auto

declare radix_str.simps [simp del]

definition dec :: "nat \<Rightarrow> string" where
  "dec n = radix_str 10 n"

definition hex_upper :: "nat \<Rightarrow> string" where
  "hex_upper n = radix_str 16 n"

lemma radix_str_small: "n < b \<Longrightarrow> radix_str b n = [digit_char n]"
  by (simp add: radix_str.simps [of b n])

lemma radix_str_step: "b \<le> n \<Longrightarrow> 2 \<le> b \<Longrightarrow> radix_str b n = radix_str b (n div b) @ [digit_char (n mod b)]"
  by (simp add: radix_str.simps [of b n])

lemma radix_str_not_Nil [simp]: "radix_str b n \<noteq> []"
  by (subst radix_str.simps) simp

lemma dec_not_Nil [simp]: "dec n \<noteq> []"
  by (simp add: dec_def)

text \<open>Results that are mapped.\<close>

lemma map_sum_eq_Inr [simp]: "(map_sum f g x = Inr y) = (\<exists>b. x = Inr b \<and> y = g b)"
  by (cases x) auto

lemma map_sum_eq_Inl [simp]: "(map_sum f g x = Inl y) = (\<exists>a. x = Inl a \<and> y = f a)"
  by (cases x) auto

section \<open>Comparing memory\<close>

text \<open>\<open>memcmp(a, b, n)\<close>, on bytes that are ordered as unsigned numbers.\<close>

fun memcmp :: "'a::linorder list \<Rightarrow> 'a list \<Rightarrow> nat \<Rightarrow> int" where
  "memcmp a b 0 = 0"
| "memcmp a b (Suc n) =
     (case (a, b) of
        (x # xs, y # ys) \<Rightarrow> if x = y then memcmp xs ys n else if x < y then -1 else 1
      | _ \<Rightarrow> 0)"

lemma memcmp_eq_0: "n \<le> length a \<Longrightarrow> n \<le> length b \<Longrightarrow> memcmp a b n = 0 \<longleftrightarrow> take n a = take n b"
proof (induction a b n rule: memcmp.induct)
  case (2 a b n)
  then show ?case by (cases a; cases b) auto
qed simp

end
