(* ===== verification/ByteOrder.thy ===== *)
theory ByteOrder
  imports Prelude
begin

text \<open>
  \<open>gts/byte_order.cpp\<close> and \<open>gts/detail/byte_order.h\<close>: host byte order detection, the in-place
  reversal by three exclusive ors per pair of bytes, and \<open>hton\<close>/\<open>ntoh\<close>.  The host's order
  is a parameter; \<open>bytes_of\<close> is the object representation of an unsigned integer of \<open>n\<close>
  bytes on that host.
\<close>

datatype endian = Little | Big

definition le_bytes :: "nat \<Rightarrow> nat \<Rightarrow> u8 list" where
  "le_bytes n x = map (\<lambda>i. of_nat (x div 256 ^ i)) [0..<n]"

fun of_le_bytes :: "u8 list \<Rightarrow> nat" where
  "of_le_bytes [] = 0"
| "of_le_bytes (b # bs) = unat b + 256 * of_le_bytes bs"

definition bytes_of :: "endian \<Rightarrow> nat \<Rightarrow> nat \<Rightarrow> u8 list" where
  "bytes_of e n x = (case e of Little \<Rightarrow> le_bytes n x | Big \<Rightarrow> rev (le_bytes n x))"

definition of_bytes :: "endian \<Rightarrow> u8 list \<Rightarrow> nat" where
  "of_bytes e bs = (case e of Little \<Rightarrow> of_le_bytes bs | Big \<Rightarrow> of_le_bytes (rev bs))"

definition is_little_endian :: "endian \<Rightarrow> bool" where
  "is_little_endian e = (bytes_of e 4 0x12345678 ! 0 = 0x78)"

definition is_big_endian :: "endian \<Rightarrow> bool" where
  "is_big_endian e = (\<not> is_little_endian e)"

text \<open>\<open>*m ^= *n; *n ^= *m; *m ^= *n\<close> for the bytes at \<open>i\<close> and \<open>j\<close>.\<close>

definition xor_swap :: "u8 list \<Rightarrow> nat \<Rightarrow> nat \<Rightarrow> u8 list" where
  "xor_swap a i j =
     (let a1 = a[i := a ! i XOR a ! j];
          a2 = a1[j := a1 ! j XOR a1 ! i]
      in a2[i := a2 ! i XOR a2 ! j])"

function reverse_loop :: "u8 list \<Rightarrow> nat \<Rightarrow> nat \<Rightarrow> u8 list" where
  "reverse_loop a len i =
     (if i < len div 2 then reverse_loop (xor_swap a i (len - i - 1)) len (Suc i) else a)"
  by pat_completeness auto
termination
  by (relation "measure (\<lambda>(a, len, i). len div 2 - i)") auto

declare reverse_loop.simps [simp del]

definition reverse_buf :: "u8 list \<Rightarrow> nat \<Rightarrow> u8 list" where
  "reverse_buf a len = reverse_loop a len 0"

definition reverse_int :: "endian \<Rightarrow> nat \<Rightarrow> nat \<Rightarrow> nat" where
  "reverse_int e n t = of_bytes e (reverse_loop (bytes_of e n t) n 0)"

definition hton :: "endian \<Rightarrow> nat \<Rightarrow> nat \<Rightarrow> nat" where
  "hton e n t = (if is_big_endian e then t else reverse_int e n t)"

definition ntoh :: "endian \<Rightarrow> nat \<Rightarrow> nat \<Rightarrow> nat" where
  "ntoh e n t = (if is_big_endian e then t else reverse_int e n t)"

definition hton_buf :: "endian \<Rightarrow> u8 list \<Rightarrow> nat \<Rightarrow> u8 list" where
  "hton_buf e a len = (if is_big_endian e then a else reverse_buf a len)"

definition ntoh_buf :: "endian \<Rightarrow> u8 list \<Rightarrow> nat \<Rightarrow> u8 list" where
  "ntoh_buf e a len = (if is_big_endian e then a else reverse_buf a len)"

section \<open>The reversal\<close>

lemma xor_swap_eq:
  assumes "i \<noteq> j" "i < length a" "j < length a"
  shows "xor_swap a i j = a[i := a ! j, j := a ! i]"
proof -
  have x: "p XOR (q XOR p) = q" for p q :: u8
    by (rule bit_word_eqI) (auto simp: bit_simps)
  show ?thesis
    using assms by (intro nth_equalityI)
      (auto simp: xor_swap_def Let_def nth_list_update x xor.assoc)
qed

lemma xor_swap_length [simp]: "length (xor_swap a i j) = length a"
  by (simp add: xor_swap_def Let_def)

lemma reverse_loop_nth:
  assumes "len \<le> length a" "k < length a"
  shows "reverse_loop a len i ! k =
    (if i \<le> k \<and> k < len - i then a ! (len - k - 1) else a ! k)"
  using assms
proof (induction a len i rule: reverse_loop.induct)
  case (1 a len i)
  show ?case
  proof (cases "i < len div 2")
    case False
    then have "i \<le> k \<and> k < len - i \<Longrightarrow> len - k - 1 = k" by linarith
    with False show ?thesis by (subst reverse_loop.simps) auto
  next
    case True
    then have "i \<noteq> len - i - 1" "i < length a" "len - i - 1 < length a"
      using "1.prems" by linarith+
    then have s: "xor_swap a i (len - i - 1) = a[i := a ! (len - i - 1), len - i - 1 := a ! i]"
      by (rule xor_swap_eq)
    have IH: "reverse_loop (xor_swap a i (len - i - 1)) len (Suc i) ! k =
      (if Suc i \<le> k \<and> k < len - Suc i then xor_swap a i (len - i - 1) ! (len - k - 1)
       else xor_swap a i (len - i - 1) ! k)"
      using "1.IH" True "1.prems" by simp
    show ?thesis using True "1.prems" unfolding reverse_loop.simps [of a len i] if_P [OF True] IH
      unfolding s
      by (auto simp: nth_list_update)
  qed
qed

lemma reverse_loop_length [simp]: "length (reverse_loop a len i) = length a"
  by (induction a len i rule: reverse_loop.induct) (subst reverse_loop.simps, simp)

lemma reverse_loop_rev:
  assumes "len \<le> length a"
  shows "reverse_loop a len 0 = rev (take len a) @ drop len a"
  by (rule nth_equalityI) (use assms in \<open>auto simp: reverse_loop_nth nth_append rev_nth\<close>)

section \<open>Object representations\<close>

lemma le_bytes_length [simp]: "length (le_bytes n x) = n"
  by (simp add: le_bytes_def)

lemma bytes_of_length [simp]: "length (bytes_of e n x) = n"
  by (cases e) (simp_all add: bytes_of_def)

lemma le_bytes_Suc: "le_bytes (Suc n) x = of_nat x # le_bytes n (x div 256)"
  by (simp add: le_bytes_def map_upt_Suc div_mult2_eq del: upt_Suc)

lemma of_le_bytes_le_bytes: "of_le_bytes (le_bytes n x) = x mod 256 ^ n"
proof (induction n arbitrary: x)
  case 0
  then show ?case by (simp add: le_bytes_def)
next
  case (Suc n)
  have "unat (of_nat x :: u8) = x mod 256" by (simp add: unat_of_nat)
  with Suc show ?case by (simp add: le_bytes_Suc mod_mult2_eq)
qed

lemma le_bytes_of_le_bytes: "le_bytes (length bs) (of_le_bytes bs) = bs"
proof (induction bs)
  case Nil
  then show ?case by (simp add: le_bytes_def)
next
  case (Cons b bs)
  have b: "unat b < 256" by (rule unat_u8_less)
  then have "(unat b + 256 * of_le_bytes bs) div 256 = of_le_bytes bs" by simp
  moreover have "of_nat (unat b + 256 * of_le_bytes bs) = b"
  proof -
    have z: "(256 :: u8) = 0" by simp
    have "of_nat (unat b + 256 * of_le_bytes bs) = b + (256 :: u8) * of_nat (of_le_bytes bs)" by simp
    then show ?thesis by (simp only: z mult_zero_left add_0_right)
  qed
  ultimately show ?case using Cons by (simp add: le_bytes_Suc)
qed

lemma of_bytes_bytes_of: "of_bytes e (bytes_of e n x) = x mod 256 ^ n"
  by (cases e) (simp_all add: of_bytes_def bytes_of_def of_le_bytes_le_bytes)

lemma bytes_of_of_bytes: "length bs = n \<Longrightarrow> bytes_of e n (of_bytes e bs) = bs"
  using le_bytes_of_le_bytes [of bs] le_bytes_of_le_bytes [of "rev bs"]
  by (cases e) (auto simp: of_bytes_def bytes_of_def)

lemma is_little_endian_iff: "is_little_endian e \<longleftrightarrow> e = Little"
  by (cases e) (simp_all add: is_little_endian_def bytes_of_def le_bytes_def upt_rec)

lemma reverse_int_eq: "reverse_int e n t = of_bytes e (rev (bytes_of e n t))"
  by (simp add: reverse_int_def reverse_loop_rev)

text \<open>The exclusive-or reversal reverses the first \<open>len\<close> bytes of the buffer and leaves the rest.\<close>

theorem reverse_buf_correct:
  "reverse_buf a (min len (length a)) = rev (take len a) @ drop len a"
  by (simp add: reverse_buf_def reverse_loop_rev min_def)

text \<open>On a host of either order \<open>hton\<close> yields an integer whose bytes in memory are the
  big-endian representation of the argument, and \<open>ntoh\<close> undoes it.\<close>

theorem network_order:
  "bytes_of e n (hton e n x) = bytes_of Big n x \<and> ntoh e n (hton e n x) mod 256 ^ n = x mod 256 ^ n"
proof (cases e)
  case Little
  have h: "hton e n x = of_bytes e (rev (bytes_of e n x))"
    by (simp add: Little hton_def is_big_endian_def is_little_endian_iff reverse_int_eq)
  then have b: "bytes_of e n (hton e n x) = rev (bytes_of e n x)"
    by (simp add: bytes_of_of_bytes)
  have "ntoh e n (hton e n x) = of_bytes e (rev (bytes_of e n (hton e n x)))"
    by (simp add: Little ntoh_def is_big_endian_def is_little_endian_iff reverse_int_eq)
  with b show ?thesis by (simp add: of_bytes_bytes_of) (simp add: Little bytes_of_def)
next
  case Big
  then show ?thesis by (simp add: hton_def ntoh_def is_big_endian_def is_little_endian_iff)
qed

end
