(* ===== verification/Sha1.thy ===== *)
theory Sha1
  imports ByteOrder
begin

text \<open>
  \<open>gts/sha1.cpp\<close>: the incremental SHA-1 object.  \<open>process_block\<close> is the unrolled code: eighty
  macro calls that rename the five working variables instead of moving them, and a message
  schedule kept in a circular array of sixteen words.  The reference is the function of
  FIPS 180-4 (an eighty-word schedule, variables shifted each round, padded message); the
  refinement theorem says that \<open>append\<close>s followed by \<open>finalize\<close> leave its digest in
  \<open>m_state\<close>.  \<open>m_i\<close> is a natural number: the invariant keeps it below 64.
\<close>

record sha1_impl =
  m_state :: "u32 list"
  m_buf :: "u8 list"
  m_i :: nat
  m_n_bits :: u64

definition sha1_init :: sha1_impl where
  "sha1_init = \<lparr>m_state = [0x67452301, 0xEFCDAB89, 0x98BADCFE, 0x10325476, 0xC3D2E1F0],
     m_buf = replicate 64 0, m_i = 0, m_n_bits = 0\<rparr>"

section \<open>The compression function\<close>

definition make_word :: "u8 list \<Rightarrow> nat \<Rightarrow> u32" where
  "make_word p i =
     push_bit 24 (ucast (p ! i)) OR push_bit 16 (ucast (p ! (i + 1))) OR
     push_bit 8 (ucast (p ! (i + 2))) OR push_bit 0 (ucast (p ! (i + 3)))"

definition rol32 :: "u32 \<Rightarrow> nat \<Rightarrow> u32" where
  "rol32 x n = push_bit n x OR drop_bit (32 - n) x"

text \<open>The macros \<open>SHA1_LOAD\<close> and \<open>SHA1_ROUND_0\<close> to \<open>SHA1_ROUND_4\<close>; a call names its
  five variables by their positions in \<open>a, b, c, d, e\<close>.\<close>

definition sha1_load :: "u32 list \<Rightarrow> nat \<Rightarrow> u32 list" where
  "sha1_load w i =
     w[i mod 16 := rol32 (w ! ((i + 13) mod 16) XOR w ! ((i + 8) mod 16) XOR
                          w ! ((i + 2) mod 16) XOR w ! (i mod 16)) 1]"

definition sha1_mix :: "nat \<Rightarrow> u32 \<Rightarrow> u32 \<Rightarrow> u32 \<Rightarrow> u32" where
  "sha1_mix k u x y =
     (if k = 0 \<or> k = 1 then (u AND (x XOR y)) XOR y
      else if k = 3 then ((u OR x) AND y) OR (u AND x)
      else u XOR x XOR y)"

definition sha1_const :: "nat \<Rightarrow> u32" where
  "sha1_const k =
     (if k = 0 \<or> k = 1 then 0x5A827999
      else if k = 2 then 0x6ED9EBA1
      else if k = 3 then 0x8F1BBCDC
      else 0xCA62C1D6)"

definition sha1_round :: "nat \<Rightarrow> nat list \<Rightarrow> nat \<Rightarrow> u32 list \<times> u32 list \<Rightarrow> u32 list \<times> u32 list" where
  "sha1_round k vs i st =
     (let (r, w) = st;
          v = vs ! 0; u = vs ! 1; x = vs ! 2; y = vs ! 3; z = vs ! 4;
          w' = (if k = 0 then w else sha1_load w i);
          r' = r[z := r ! z + (sha1_mix k (r ! u) (r ! x) (r ! y) + w' ! (i mod 16) +
                               sha1_const k + rol32 (r ! v) 5)]
      in (r'[u := rol32 (r' ! u) 30], w'))"

text \<open>The eighty calls in source order: macro number, variables, round number.\<close>

definition sha1_calls :: "(nat \<times> nat list \<times> nat) list" where
  "sha1_calls =
   [
    (0, [0,1,2,3,4], 0), (0, [4,0,1,2,3], 1), (0, [3,4,0,1,2], 2), (0, [2,3,4,0,1], 3),
    (0, [1,2,3,4,0], 4), (0, [0,1,2,3,4], 5), (0, [4,0,1,2,3], 6), (0, [3,4,0,1,2], 7),
    (0, [2,3,4,0,1], 8), (0, [1,2,3,4,0], 9), (0, [0,1,2,3,4], 10), (0, [4,0,1,2,3], 11),
    (0, [3,4,0,1,2], 12), (0, [2,3,4,0,1], 13), (0, [1,2,3,4,0], 14), (0, [0,1,2,3,4], 15),
    (1, [4,0,1,2,3], 16), (1, [3,4,0,1,2], 17), (1, [2,3,4,0,1], 18), (1, [1,2,3,4,0], 19),
    (2, [0,1,2,3,4], 20), (2, [4,0,1,2,3], 21), (2, [3,4,0,1,2], 22), (2, [2,3,4,0,1], 23),
    (2, [1,2,3,4,0], 24), (2, [0,1,2,3,4], 25), (2, [4,0,1,2,3], 26), (2, [3,4,0,1,2], 27),
    (2, [2,3,4,0,1], 28), (2, [1,2,3,4,0], 29), (2, [0,1,2,3,4], 30), (2, [4,0,1,2,3], 31),
    (2, [3,4,0,1,2], 32), (2, [2,3,4,0,1], 33), (2, [1,2,3,4,0], 34), (2, [0,1,2,3,4], 35),
    (2, [4,0,1,2,3], 36), (2, [3,4,0,1,2], 37), (2, [2,3,4,0,1], 38), (2, [1,2,3,4,0], 39),
    (3, [0,1,2,3,4], 40), (3, [4,0,1,2,3], 41), (3, [3,4,0,1,2], 42), (3, [2,3,4,0,1], 43),
    (3, [1,2,3,4,0], 44), (3, [0,1,2,3,4], 45), (3, [4,0,1,2,3], 46), (3, [3,4,0,1,2], 47),
    (3, [2,3,4,0,1], 48), (3, [1,2,3,4,0], 49), (3, [0,1,2,3,4], 50), (3, [4,0,1,2,3], 51),
    (3, [3,4,0,1,2], 52), (3, [2,3,4,0,1], 53), (3, [1,2,3,4,0], 54), (3, [0,1,2,3,4], 55),
    (3, [4,0,1,2,3], 56), (3, [3,4,0,1,2], 57), (3, [2,3,4,0,1], 58), (3, [1,2,3,4,0], 59),
    (4, [0,1,2,3,4], 60), (4, [4,0,1,2,3], 61), (4, [3,4,0,1,2], 62), (4, [2,3,4,0,1], 63),
    (4, [1,2,3,4,0], 64), (4, [0,1,2,3,4], 65), (4, [4,0,1,2,3], 66), (4, [3,4,0,1,2], 67),
    (4, [2,3,4,0,1], 68), (4, [1,2,3,4,0], 69), (4, [0,1,2,3,4], 70), (4, [4,0,1,2,3], 71),
    (4, [3,4,0,1,2], 72), (4, [2,3,4,0,1], 73), (4, [1,2,3,4,0], 74), (4, [0,1,2,3,4], 75),
    (4, [4,0,1,2,3], 76), (4, [3,4,0,1,2], 77), (4, [2,3,4,0,1], 78), (4, [1,2,3,4,0], 79)]"

definition process_block :: "sha1_impl \<Rightarrow> u8 list \<Rightarrow> sha1_impl" where
  "process_block s ptr =
     (let w = map (\<lambda>i. make_word ptr (4 * i)) [0..<16];
          (r, w') = fold (\<lambda>(k, vs, i). sha1_round k vs i) sha1_calls (take 5 (m_state s), w)
      in s\<lparr>m_state := map (\<lambda>i. m_state s ! i + r ! i) [0..<5]\<rparr>)"

section \<open>Appending and finishing\<close>

definition add_byte_dont_count_bits :: "sha1_impl \<Rightarrow> u8 \<Rightarrow> sha1_impl" where
  "add_byte_dont_count_bits s x =
     (let s1 = s\<lparr>m_buf := (m_buf s)[m_i s := x], m_i := m_i s + 1\<rparr>
      in if 64 \<le> m_i s1 then process_block (s1\<lparr>m_i := 0\<rparr>) (m_buf s1) else s1)"

definition append_byte :: "sha1_impl \<Rightarrow> u8 \<Rightarrow> sha1_impl" where
  "append_byte s x =
     (let s1 = add_byte_dont_count_bits s x in s1\<lparr>m_n_bits := m_n_bits s1 + 8\<rparr>)"

text \<open>The three loops of \<open>append(data, size)\<close>.\<close>

fun append_head :: "sha1_impl \<Rightarrow> u8 list \<Rightarrow> sha1_impl \<times> u8 list" where
  "append_head s [] = (s, [])"
| "append_head s (b # bs) =
     (if m_i s mod 64 \<noteq> 0 then append_head (append_byte s b) bs else (s, b # bs))"

function append_blocks :: "sha1_impl \<Rightarrow> u8 list \<Rightarrow> sha1_impl \<times> u8 list" where
  "append_blocks s bs =
     (if 64 \<le> length bs then
        (let s1 = process_block s bs
         in append_blocks (s1\<lparr>m_n_bits := m_n_bits s1 + 512\<rparr>) (drop 64 bs))
      else (s, bs))"
  by pat_completeness auto
termination
  by (relation "measure (\<lambda>(s, bs). length bs)") auto

declare append_blocks.simps [simp del]

definition append_data :: "sha1_impl \<Rightarrow> u8 list \<Rightarrow> sha1_impl" where
  "append_data s bs =
     (let (s1, bs1) = append_head s bs;
          (s2, bs2) = append_blocks s1 bs1
      in fold (\<lambda>b s. append_byte s b) bs2 s2)"

definition str_bytes :: "string \<Rightarrow> u8 list" where
  "str_bytes t = map (\<lambda>c. of_nat (uchar c)) t"

text \<open>The object holds a pointer to its state; a moved-from object has none.\<close>

type_synonym sha1 = "sha1_impl option"

definition append_str :: "sha1 \<Rightarrow> string \<Rightarrow> sha1" where
  "append_str h text =
     (case h of None \<Rightarrow> None
      | Some s \<Rightarrow> if text = [] then Some s else Some (append_data s (str_bytes text)))"

function finalize_pad :: "sha1_impl \<Rightarrow> sha1_impl" where
  "finalize_pad s =
     (if m_i s mod 64 \<noteq> 56 then finalize_pad (add_byte_dont_count_bits s 0) else s)"
  by pat_completeness auto
termination
proof (relation "measure (\<lambda>s. if m_i s \<le> 56 then 56 - m_i s else if m_i s < 64 then 120 - m_i s else 200)",
    goal_cases)
  case 1
  show ?case by simp
next
  case (2 s)
  have "m_i (add_byte_dont_count_bits s 0) = (if 63 \<le> m_i s then 0 else m_i s + 1)"
    by (simp add: add_byte_dont_count_bits_def process_block_def Let_def split: prod.split)
  with 2 show ?case by auto
qed

declare finalize_pad.simps [simp del]

definition finalize_impl :: "sha1_impl \<Rightarrow> sha1_impl" where
  "finalize_impl s =
     (let s1 = finalize_pad (add_byte_dont_count_bits s 0x80)
      in fold (\<lambda>j s. add_byte_dont_count_bits s (ucast (drop_bit (8 * j) (m_n_bits s))))
           [7, 6, 5, 4, 3, 2, 1, 0] s1)"

definition finalize :: "sha1 \<Rightarrow> sha1" where
  "finalize h = map_option finalize_impl h"

definition sha1_new :: "string \<Rightarrow> sha1" where
  "sha1_new text = append_str (Some sha1_init) text"

section \<open>Printing\<close>

definition hex_alphabet :: "bool \<Rightarrow> string" where
  "hex_alphabet upper = (if upper then ''0123456789ABCDEF'' else ''0123456789abcdef'')"

definition sha1_hex :: "bool \<Rightarrow> sha1 \<Rightarrow> string" where
  "sha1_hex upper h =
     (case h of None \<Rightarrow> []
      | Some s \<Rightarrow>
          concat (map (\<lambda>i. map (\<lambda>j. hex_alphabet upper ! unat (drop_bit (4 * j) (m_state s ! i) AND 0x0F))
            [7, 6, 5, 4, 3, 2, 1, 0]) [0, 1, 2, 3, 4]))"

definition base64_table :: string where
  "base64_table =
     ''ABCDEFGHIJKLMNOPQRSTUVWXYZ'' @ ''abcdefghijklmnopqrstuvwxyz'' @ ''0123456789'' @ ''+/''"

definition sha1_triples :: "u32 list \<Rightarrow> u32 list" where
  "sha1_triples st =
     [drop_bit 8 (st ! 0 AND 0xFFFFFF00),
      push_bit 16 (st ! 0 AND 0x000000FF) OR drop_bit 16 (st ! 1 AND 0xFFFF0000),
      push_bit 8 (st ! 1 AND 0x0000FFFF) OR drop_bit 24 (st ! 2 AND 0xFF000000),
      push_bit 0 (st ! 2 AND 0x00FFFFFF),
      drop_bit 8 (st ! 3 AND 0xFFFFFF00),
      push_bit 16 (st ! 3 AND 0x000000FF) OR drop_bit 16 (st ! 4 AND 0xFFFF0000),
      push_bit 8 (st ! 4 AND 0x0000FFFF)]"

definition sha1_base64 :: "sha1 \<Rightarrow> string" where
  "sha1_base64 h =
     (case h of None \<Rightarrow> []
      | Some s \<Rightarrow>
          (concat (map (\<lambda>x. [base64_table ! unat (drop_bit 18 x mod 64),
                              base64_table ! unat (drop_bit 12 x mod 64),
                              base64_table ! unat (drop_bit 6 x mod 64),
                              base64_table ! unat (drop_bit 0 x mod 64)])
             (sha1_triples (m_state s))))[27 := CHR ''='']) "

section \<open>Copying\<close>

text \<open>\<open>memcpy(dst, src, n)\<close> between two arrays of 32-bit words copies \<open>n\<close> bytes.\<close>

fun words_of_bytes :: "endian \<Rightarrow> u8 list \<Rightarrow> u32 list" where
  "words_of_bytes e (a # b # c # d # r) = of_nat (of_bytes e [a, b, c, d]) # words_of_bytes e r"
| "words_of_bytes e _ = []"

definition memcpy_words :: "endian \<Rightarrow> u32 list \<Rightarrow> u32 list \<Rightarrow> nat \<Rightarrow> u32 list" where
  "memcpy_words e dst src n =
     (let bytes = (\<lambda>ws. concat (map (\<lambda>w. bytes_of e 4 (unat w)) ws))
      in words_of_bytes e (take n (bytes src) @ drop n (bytes dst)))"

text \<open>\<open>operator=(const sha1&)\<close>; a source without a state is dereferenced as a null pointer
  (\<open>None\<close>).  A moved-from object is the second component of the move operations.\<close>

definition sha1_assign :: "endian \<Rightarrow> sha1 \<Rightarrow> sha1 \<Rightarrow> sha1 option" where
  "sha1_assign e self other =
     (let s = (case self of Some s \<Rightarrow> s | None \<Rightarrow> sha1_init)
      in case other of None \<Rightarrow> None
         | Some src \<Rightarrow>
             Some (Some (s\<lparr>m_state := memcpy_words e (m_state s) (m_state src) 5,
                           m_buf := m_buf src, m_i := m_i src, m_n_bits := m_n_bits src\<rparr>)))"

definition sha1_copy :: "endian \<Rightarrow> sha1 \<Rightarrow> sha1 option" where
  "sha1_copy e other = sha1_assign e (Some sha1_init) other"

definition sha1_move :: "sha1 \<Rightarrow> sha1 \<times> sha1" where
  "sha1_move other = (other, None)"

section \<open>The reference: FIPS 180-4\<close>

function msg_sched :: "u32 list \<Rightarrow> nat \<Rightarrow> u32" where
  "msg_sched M t =
     (if t < 16 then M ! t
      else rol32 (msg_sched M (t - 3) XOR msg_sched M (t - 8) XOR msg_sched M (t - 14) XOR
                  msg_sched M (t - 16)) 1)"
  by pat_completeness auto
termination
  by (relation "measure (\<lambda>(M, t). t)") auto

declare msg_sched.simps [simp del]

definition fips_f :: "nat \<Rightarrow> u32 \<Rightarrow> u32 \<Rightarrow> u32 \<Rightarrow> u32" where
  "fips_f t b c d =
     (if t < 20 then (b AND c) XOR (NOT b AND d)
      else if t < 40 then b XOR c XOR d
      else if t < 60 then (b AND c) XOR (b AND d) XOR (c AND d)
      else b XOR c XOR d)"

definition fips_K :: "nat \<Rightarrow> u32" where
  "fips_K t =
     (if t < 20 then 0x5A827999 else if t < 40 then 0x6ED9EBA1
      else if t < 60 then 0x8F1BBCDC else 0xCA62C1D6)"

type_synonym hash5 = "u32 \<times> u32 \<times> u32 \<times> u32 \<times> u32"

definition fips_round :: "u32 list \<Rightarrow> nat \<Rightarrow> hash5 \<Rightarrow> hash5" where
  "fips_round M t s =
     (case s of (a, b, c, d, e) \<Rightarrow>
        (rol32 a 5 + fips_f t b c d + e + fips_K t + msg_sched M t, a, rol32 b 30, c, d))"

definition hash_list :: "hash5 \<Rightarrow> u32 list" where
  "hash_list s = (case s of (a, b, c, d, e) \<Rightarrow> [a, b, c, d, e])"

definition fips_block :: "u32 list \<Rightarrow> u32 list \<Rightarrow> u32 list" where
  "fips_block H M =
     map2 (+) H (hash_list (fold (fips_round M) [0..<80] (H ! 0, H ! 1, H ! 2, H ! 3, H ! 4)))"

definition block_words :: "u8 list \<Rightarrow> u32 list" where
  "block_words p = map (\<lambda>i. make_word p (4 * i)) [0..<16]"

section \<open>The unrolled rounds compute the reference\<close>

definition call_kind :: "nat \<Rightarrow> nat" where
  "call_kind t = (if t < 16 then 0 else if t < 20 then 1 else if t < 40 then 2 else if t < 60 then 3 else 4)"

definition call_vars :: "nat \<Rightarrow> nat list" where
  "call_vars t =
     (let k = t mod 5
      in if k = 0 then [0, 1, 2, 3, 4] else if k = 1 then [4, 0, 1, 2, 3]
         else if k = 2 then [3, 4, 0, 1, 2] else if k = 3 then [2, 3, 4, 0, 1]
         else [1, 2, 3, 4, 0])"

definition sha1_regs :: "nat \<Rightarrow> hash5 \<Rightarrow> u32 list" where
  "sha1_regs t s =
     (case s of (a, b, c, d, e) \<Rightarrow>
        let k = t mod 5
        in if k = 0 then [a, b, c, d, e] else if k = 1 then [b, c, d, e, a]
           else if k = 2 then [c, d, e, a, b] else if k = 3 then [d, e, a, b, c]
           else [e, a, b, c, d])"

lemma sha1_calls_eq: "sha1_calls = map (\<lambda>t. (call_kind t, call_vars t, t)) [0..<80]"
  by code_simp

lemma sha1_mix_fips: "t < 80 \<Longrightarrow> sha1_mix (call_kind t) b c d = fips_f t b c d"
  by (rule bit_word_eqI) (auto simp: sha1_mix_def fips_f_def call_kind_def bit_simps)

lemma sha1_const_fips: "sha1_const (call_kind t) = fips_K t"
  by (simp add: sha1_const_def fips_K_def call_kind_def)

text \<open>The circular schedule holds the last sixteen words of the message schedule.\<close>

definition sched_ok :: "u32 list \<Rightarrow> nat \<Rightarrow> u32 list \<Rightarrow> bool" where
  "sched_ok M t w \<longleftrightarrow>
     length w = 16 \<and> (\<forall>j. j < max t 16 \<and> max t 16 \<le> j + 16 \<longrightarrow> w ! (j mod 16) = msg_sched M j)"

lemma sched_ok_start: "length M = 16 \<Longrightarrow> sched_ok M 0 M"
  by (auto simp: sched_ok_def msg_sched.simps)

lemma sched_ok_early: "sched_ok M t w \<Longrightarrow> t < 16 \<Longrightarrow> sched_ok M (Suc t) w \<and> w ! (t mod 16) = msg_sched M t"
  by (auto simp: sched_ok_def max_def split: if_splits)

lemma sched_ok_load:
  assumes "sched_ok M t w" "16 \<le> t"
  shows "sched_ok M (Suc t) (sha1_load w t) \<and> sha1_load w t ! (t mod 16) = msg_sched M t"
proof -
  obtain u where t: "t = u + 16" using assms(2) by (metis le_add_diff_inverse2)
  have w: "length w = 16" and old: "\<And>j. j < t \<Longrightarrow> t \<le> j + 16 \<Longrightarrow> w ! (j mod 16) = msg_sched M j"
    using assms by (auto simp: sched_ok_def max_def split: if_splits)
  have idx: "(t + k) mod 16 = (u + k) mod 16" for k
  proof -
    have "t + k = u + k + 16" by (simp add: t)
    then show ?thesis by (simp only: mod_add_self2)
  qed
  have "w ! ((t + 13) mod 16) = msg_sched M (t - 3)" "w ! ((t + 8) mod 16) = msg_sched M (t - 8)"
    "w ! ((t + 2) mod 16) = msg_sched M (t - 14)" "w ! ((t + 0) mod 16) = msg_sched M (t - 16)"
    unfolding idx by (simp_all add: old t add.commute)
  then have load: "sha1_load w t = w[t mod 16 := msg_sched M t]"
    using assms(2) by (simp add: sha1_load_def msg_sched.simps [of M t])
  moreover have "w[t mod 16 := msg_sched M t] ! (j mod 16) = msg_sched M j"
    if "j < Suc t" "Suc t \<le> j + 16" for j
  proof (cases "j = t")
    case True
    then show ?thesis by (simp add: w)
  next
    case False
    with that have lt: "j < t" "t \<le> j + 16" and "0 < t - j" "t - j < 16" by auto
    then have "\<not> 16 dvd t - j" using nat_dvd_not_less by blast
    with lt(1) have "t mod 16 \<noteq> j mod 16" by (metis less_imp_le mod_eq_dvd_iff_nat)
    with lt show ?thesis by (simp add: w old)
  qed
  ultimately show ?thesis using assms(2) w by (auto simp: sched_ok_def max_def)
qed

definition load_if :: "nat \<Rightarrow> u32 list \<Rightarrow> u32 list" where
  "load_if t w = (if t < 16 then w else sha1_load w t)"

lemma sched_ok_step:
  "sched_ok M t w \<Longrightarrow> sched_ok M (Suc t) (load_if t w) \<and> load_if t w ! (t mod 16) = msg_sched M t"
  using sched_ok_early [of M t w] sched_ok_load [of M t w] by (auto simp: load_if_def)

lemma list5_upd:
  "[a, b, c, d, e][0 := z] = [z, b, c, d, e]" "[a, b, c, d, e][Suc 0 := z] = [a, z, c, d, e]"
  "[a, b, c, d, e][2 := z] = [a, b, z, d, e]" "[a, b, c, d, e][3 := z] = [a, b, c, z, e]"
  "[a, b, c, d, e][4 := z] = [a, b, c, d, z]"
  by (simp_all add: numeral_eq_Suc)

lemma sha1_round_regs:
  assumes "length r = 5"
  shows "sha1_round k [v, u, x, y, z] i (r, w) =
    (let w' = (if k = 0 then w else sha1_load w i);
         r' = r[z := r ! z + (sha1_mix k (r ! u) (r ! x) (r ! y) + w' ! (i mod 16) +
                              sha1_const k + rol32 (r ! v) 5)]
     in (r'[u := rol32 (r' ! u) 30], w'))"
  by (simp add: sha1_round_def)

lemma sha1_round_step:
  assumes "sched_ok M t w" "t < 80"
  shows "sha1_round (call_kind t) (call_vars t) t (sha1_regs t s, w) =
    (sha1_regs (Suc t) (fips_round M t s), load_if t w)"
proof -
  obtain a b c d e where s: "s = (a, b, c, d, e)" by (cases s)
  have l: "(if call_kind t = 0 then w else sha1_load w t) = load_if t w"
    by (simp add: call_kind_def load_if_def)
  have new: "fips_round M t s =
      (e + (sha1_mix (call_kind t) b c d + load_if t w ! (t mod 16) + sha1_const (call_kind t) + rol32 a 5),
       a, rol32 b 30, c, d)"
    using sched_ok_step [OF assms(1)]
    by (simp add: s fips_round_def sha1_mix_fips [OF assms(2)] sha1_const_fips ac_simps)
  have "t mod 5 = 0 \<or> t mod 5 = 1 \<or> t mod 5 = 2 \<or> t mod 5 = 3 \<or> t mod 5 = 4" by presburger
  then show ?thesis
    unfolding new unfolding s
    by (elim disjE)
      (simp_all add: sha1_round_regs Let_def l call_vars_def sha1_regs_def mod_Suc list5_upd)
qed

lemma sha1_rounds:
  assumes "length M = 16" "n \<le> 80"
  shows "\<exists>w. fold (\<lambda>(k, vs, i). sha1_round k vs i) (map (\<lambda>t. (call_kind t, call_vars t, t)) [0..<n])
      (sha1_regs 0 s, M) = (sha1_regs n (fold (fips_round M) [0..<n] s), w) \<and> sched_ok M n w"
  using assms(2)
proof (induction n)
  case 0
  then show ?case by (simp add: sched_ok_start assms(1))
next
  case (Suc n)
  then obtain w where "fold (\<lambda>(k, vs, i). sha1_round k vs i)
      (map (\<lambda>t. (call_kind t, call_vars t, t)) [0..<n]) (sha1_regs 0 s, M) =
      (sha1_regs n (fold (fips_round M) [0..<n] s), w)" "sched_ok M n w" by auto
  with Suc.prems show ?case by (simp add: sha1_round_step sched_ok_step)
qed

lemma process_block_fips:
  assumes "length (m_state s) = 5"
  shows "process_block s p = s\<lparr>m_state := fips_block (m_state s) (block_words p)\<rparr>"
proof -
  obtain a b c d e where st: "m_state s = [a, b, c, d, e]"
    using assms by (auto simp: numeral_eq_Suc length_Suc_conv)
  obtain w where w: "fold (\<lambda>(k, vs, i). sha1_round k vs i) sha1_calls ([a, b, c, d, e], block_words p) =
      (sha1_regs 80 (fold (fips_round (block_words p)) [0..<80] (a, b, c, d, e)), w)"
    using sha1_rounds [of "block_words p" 80 "(a, b, c, d, e)"]
    by (auto simp: sha1_calls_eq sha1_regs_def block_words_def)
  obtain a' b' c' d' e' where r: "fold (fips_round (block_words p)) [0..<80] (a, b, c, d, e) = (a', b', c', d', e')"
    by (metis prod_cases5)
  have "map (\<lambda>i. [a, b, c, d, e] ! i + [a', b', c', d', e'] ! i) [0..<5] = [a + a', b + b', c + c', d + d', e + e']"
    by (simp add: upt_rec)
  with w r st show ?thesis
    by (simp add: process_block_def block_words_def [symmetric] fips_block_def hash_list_def sha1_regs_def)
qed

section \<open>The message digest\<close>

function fips_blocks :: "u32 list \<Rightarrow> u8 list \<Rightarrow> u32 list" where
  "fips_blocks H bs =
     (if length bs < 64 then H else fips_blocks (fips_block H (block_words bs)) (drop 64 bs))"
  by pat_completeness auto
termination
  by (relation "measure (\<lambda>(H, bs). length bs)") auto

declare fips_blocks.simps [simp del]

definition sha1_H0 :: "u32 list" where
  "sha1_H0 = [0x67452301, 0xEFCDAB89, 0x98BADCFE, 0x10325476, 0xC3D2E1F0]"

definition sha1_pad :: "u8 list \<Rightarrow> u8 list" where
  "sha1_pad bs =
     bs @ [0x80] @ replicate ((119 - length bs mod 64) mod 64) 0 @
     map (\<lambda>j. of_nat (8 * length bs div 256 ^ j)) [7, 6, 5, 4, 3, 2, 1, 0]"

definition sha1_digest :: "u8 list \<Rightarrow> u32 list" where
  "sha1_digest bs = fips_blocks sha1_H0 (sha1_pad bs)"

lemma block_words_take: "block_words (take 64 p @ q) = block_words (take 64 p @ r)" if "64 \<le> length p"
  using that by (auto simp: block_words_def make_word_def nth_append)

lemma block_words_append: "length p = 64 \<Longrightarrow> block_words (p @ q) = block_words p"
  using block_words_take [of p q "[]"] by simp

lemma length_fips_block [simp]: "length H = 5 \<Longrightarrow> length (fips_block H M) = 5"
  by (simp add: fips_block_def hash_list_def split: prod.split)

lemma length_fips_blocks [simp]: "length H = 5 \<Longrightarrow> length (fips_blocks H bs) = 5"
  by (induction H bs rule: fips_blocks.induct) (subst fips_blocks.simps, simp)

lemma fips_blocks_append:
  "64 dvd length a \<Longrightarrow> length b = 64 \<Longrightarrow> fips_blocks H (a @ b) = fips_block (fips_blocks H a) (block_words b)"
proof (induction H a rule: fips_blocks.induct)
  case (1 H a)
  show ?case
  proof (cases "length a < 64")
    case True
    with "1.prems" have "a = []" by (auto dest: dvd_imp_le)
    with "1.prems" show ?thesis by (simp add: fips_blocks.simps)
  next
    case False
    then have "block_words (a @ b) = block_words a"
      using block_words_append [of "take 64 a" "drop 64 a @ b"] block_words_append [of "take 64 a" "drop 64 a"]
      by (simp flip: append_assoc)
    with False 1 show ?thesis
      by (simp add: fips_blocks.simps [of H "a @ b"] fips_blocks.simps [of H a])
  qed
qed

text \<open>What the object has absorbed: whole blocks are in the state, the rest in the buffer.\<close>

definition absorbed :: "sha1_impl \<Rightarrow> u8 list \<Rightarrow> bool" where
  "absorbed s bs \<longleftrightarrow>
     m_i s < 64 \<and> length (m_buf s) = 64 \<and>
     (\<exists>blk. bs = blk @ take (m_i s) (m_buf s) \<and> 64 dvd length blk \<and> m_state s = fips_blocks sha1_H0 blk)"

definition hashing :: "sha1_impl \<Rightarrow> u8 list \<Rightarrow> bool" where
  "hashing s bs \<longleftrightarrow> absorbed s bs \<and> m_n_bits s = of_nat (8 * length bs)"

lemma absorbed_init: "absorbed sha1_init []"
  by (auto simp: absorbed_def sha1_init_def sha1_H0_def fips_blocks.simps)

lemma absorbed_length_mod: "absorbed s bs \<Longrightarrow> length bs mod 64 = m_i s"
  by (auto simp: absorbed_def min_def mod_add_eq dvd_eq_mod_eq_0)

lemma absorbed_state: "absorbed s bs \<Longrightarrow> length (m_state s) = 5"
  by (auto simp: absorbed_def sha1_H0_def)

lemma absorbed_block:
  assumes "absorbed s bs" "m_i s = 0" "64 \<le> length p"
  shows "absorbed (process_block s p) (bs @ take 64 p)"
proof -
  have "block_words p = block_words (take 64 p)"
    using block_words_append [of "take 64 p" "drop 64 p"] assms(3) by simp
  moreover have "process_block s p = s\<lparr>m_state := fips_block (m_state s) (block_words p)\<rparr>"
    by (rule process_block_fips) (rule absorbed_state [OF assms(1)])
  ultimately show ?thesis
    using assms by (auto simp: absorbed_def fips_blocks_append intro!: exI [of _ "bs @ take 64 p"])
qed

lemma absorbed_add_byte:
  assumes "absorbed s bs"
  shows "absorbed (add_byte_dont_count_bits s x) (bs @ [x])"
proof -
  let ?b = "(m_buf s)[m_i s := x]"
  obtain blk where blk: "m_i s < 64" "length (m_buf s) = 64" "bs = blk @ take (m_i s) (m_buf s)"
    "64 dvd length blk" "m_state s = fips_blocks sha1_H0 blk"
    using assms by (auto simp: absorbed_def)
  have buf: "take (Suc (m_i s)) ?b = take (m_i s) (m_buf s) @ [x]"
    using blk(1,2) by (simp add: take_Suc_conv_app_nth)
  show ?thesis
  proof (cases "m_i s = 63")
    case False
    with blk buf show ?thesis
      by (auto simp: absorbed_def add_byte_dont_count_bits_def Let_def intro!: exI [of _ blk])
  next
    case True
    let ?s0 = "s\<lparr>m_buf := ?b, m_i := 0\<rparr>"
    have full: "take 64 ?b = take (m_i s) (m_buf s) @ [x]" using buf True by simp
    have "absorbed ?s0 blk" using blk by (auto simp: absorbed_def)
    then have "absorbed (process_block ?s0 ?b) (blk @ take 64 ?b)"
      by (rule absorbed_block) (simp_all add: blk)
    then show ?thesis
      unfolding full using True by (simp add: blk(3) add_byte_dont_count_bits_def)
  qed
qed

lemma process_block_bits [simp]:
  "m_n_bits (process_block s p) = m_n_bits s" "m_i (process_block s p) = m_i s"
  by (simp_all add: process_block_def Let_def split: prod.split)

lemma add_byte_bits [simp]: "m_n_bits (add_byte_dont_count_bits s x) = m_n_bits s"
  by (simp add: add_byte_dont_count_bits_def Let_def)

lemma absorbed_bits [simp]: "absorbed (s\<lparr>m_n_bits := n\<rparr>) bs = absorbed s bs"
  by (simp add: absorbed_def)

lemma hashing_append_byte: "hashing s bs \<Longrightarrow> hashing (append_byte s x) (bs @ [x])"
  using absorbed_add_byte by (simp add: hashing_def append_byte_def Let_def algebra_simps)

lemma hashing_append_head:
  "hashing s bs \<Longrightarrow> append_head s ys = (s', zs) \<Longrightarrow>
   \<exists>us. ys = us @ zs \<and> hashing s' (bs @ us) \<and> (zs = [] \<or> m_i s' = 0)"
proof (induction s ys arbitrary: bs rule: append_head.induct)
  case (1 s)
  then show ?case by auto
next
  case (2 s b ys)
  show ?case
  proof (cases "m_i s mod 64 \<noteq> 0")
    case True
    with "2.prems" have "hashing (append_byte s b) (bs @ [b])" "append_head (append_byte s b) ys = (s', zs)"
      by (simp_all add: hashing_append_byte)
    from "2.IH" [OF True this] obtain us where "ys = us @ zs" "hashing s' (bs @ (b # us))" "zs = [] \<or> m_i s' = 0"
      by auto
    then show ?thesis by (metis append_Cons)
  next
    case False
    with 2 show ?thesis by (auto simp: hashing_def absorbed_def)
  qed
qed

lemma hashing_append_blocks:
  "hashing s bs \<Longrightarrow> m_i s = 0 \<Longrightarrow> append_blocks s ys = (s', zs) \<Longrightarrow>
   \<exists>us. ys = us @ zs \<and> hashing s' (bs @ us)"
proof (induction s ys arbitrary: bs rule: append_blocks.induct)
  case (1 s ys)
  show ?case
  proof (cases "64 \<le> length ys")
    case False
    with 1 show ?thesis by (auto simp: append_blocks.simps [of s ys])
  next
    case True
    let ?s1 = "(process_block s ys)\<lparr>m_n_bits := m_n_bits s + 512\<rparr>"
    have "hashing ?s1 (bs @ take 64 ys)"
      using "1.prems" True absorbed_block [of s bs ys] by (simp add: hashing_def algebra_simps)
    with 1 True obtain us where "drop 64 ys = us @ zs" "hashing s' (bs @ take 64 ys @ us)"
      by (fastforce simp: append_blocks.simps [of s ys] Let_def)
    then show ?thesis by (metis append_assoc append_take_drop_id)
  qed
qed

lemma hashing_fold: "hashing s bs \<Longrightarrow> hashing (fold (\<lambda>b s. append_byte s b) ys s) (bs @ ys)"
proof (induction ys arbitrary: s bs)
  case (Cons y ys)
  from Cons.IH [OF hashing_append_byte [OF Cons.prems]] show ?case by simp
qed simp

lemma hashing_append_data:
  assumes "hashing s bs"
  shows "hashing (append_data s ys) (bs @ ys)"
proof -
  obtain s1 zs1 where h: "append_head s ys = (s1, zs1)" by fastforce
  obtain s2 zs2 where b: "append_blocks s1 zs1 = (s2, zs2)" by fastforce
  from hashing_append_head [OF assms h] obtain us where us: "ys = us @ zs1" "hashing s1 (bs @ us)"
    "zs1 = [] \<or> m_i s1 = 0" by auto
  have "\<exists>vs. zs1 = vs @ zs2 \<and> hashing s2 (bs @ us @ vs)"
  proof (cases "zs1 = []")
    case True
    with b us show ?thesis by (auto simp: append_blocks.simps)
  next
    case False
    with hashing_append_blocks [OF us(2) _ b] us(3) show ?thesis by simp
  qed
  then obtain vs where "zs1 = vs @ zs2" "hashing s2 (bs @ us @ vs)" by blast
  then have "hashing (fold (\<lambda>b s. append_byte s b) zs2 s2) (bs @ ys)"
    using hashing_fold [of s2 "bs @ us @ vs" zs2] us(1) by simp
  then show ?thesis by (simp add: append_data_def h b)
qed

definition pad_len :: "nat \<Rightarrow> nat" where
  "pad_len m = (if m \<le> 56 then 56 - m else 120 - m)"

lemma add_byte_index: "m_i (add_byte_dont_count_bits s x) = (if 63 \<le> m_i s then 0 else Suc (m_i s))"
  by (simp add: add_byte_dont_count_bits_def Let_def)

lemma finalize_pad_absorbs:
  "absorbed s bs \<Longrightarrow>
   absorbed (finalize_pad s) (bs @ replicate (pad_len (m_i s)) 0) \<and> m_i (finalize_pad s) = 56 \<and>
   m_n_bits (finalize_pad s) = m_n_bits s"
proof (induction s arbitrary: bs rule: finalize_pad.induct)
  case (1 s)
  have lt: "m_i s < 64" using 1 by (simp add: absorbed_def)
  show ?case
  proof (cases "m_i s = 56")
    case True
    with 1 show ?thesis by (simp add: finalize_pad.simps [of s] pad_len_def)
  next
    case False
    let ?t = "add_byte_dont_count_bits s 0"
    have len: "pad_len (m_i s) = Suc (pad_len (m_i ?t))"
      using False lt by (auto simp: pad_len_def add_byte_index)
    have unf: "finalize_pad s = finalize_pad ?t"
      using False lt by (simp add: finalize_pad.simps [of s])
    have "absorbed ?t (bs @ [0])" by (rule absorbed_add_byte) (rule "1.prems")
    with "1.IH" [OF _ this] False lt show ?thesis by (simp add: len unf)
  qed
qed

lemma finalize_length_fold:
  "absorbed s bs \<Longrightarrow>
   absorbed (fold (\<lambda>j s. add_byte_dont_count_bits s (ucast (drop_bit (8 * j) (m_n_bits s)))) js s)
     (bs @ map (\<lambda>j. ucast (drop_bit (8 * j) (m_n_bits s))) js)"
proof (induction js arbitrary: s bs)
  case (Cons j js)
  from Cons.IH [OF absorbed_add_byte [OF Cons.prems]] show ?case by simp
qed simp

lemma length_byte:
  assumes "8 * j + 8 \<le> 64"
  shows "ucast (drop_bit (8 * j) (of_nat n :: u64)) = (of_nat (n div 256 ^ j) :: u8)"
proof -
  have "n div 256 ^ j = drop_bit (8 * j) n"
    by (simp add: drop_bit_eq_div power_mult)
  with assms show ?thesis
    by (intro bit_word_eqI) (auto simp: bit_simps)
qed

lemma absorbed_index: "absorbed s bs \<Longrightarrow> m_i s = length bs mod 64"
proof -
  assume "absorbed s bs"
  then obtain blk where b: "m_i s < 64" "length (m_buf s) = 64" "bs = blk @ take (m_i s) (m_buf s)"
    "64 dvd length blk" by (auto simp: absorbed_def)
  then have "length bs = length blk + m_i s" by simp
  moreover have "length blk mod 64 = 0" using b(4) by (rule dvd_imp_mod_0)
  ultimately show ?thesis using b(1) by (metis mod_add_left_eq add_0 mod_less)
qed

lemma pad_len_mod: "pad_len (Suc n mod 64) = (119 - n mod 64) mod 64"
proof -
  have r: "n mod 64 < 64" by simp
  show ?thesis
  proof (cases "n mod 64 \<le> 55")
    case True
    then have "119 - n mod 64 = (55 - n mod 64) + 64" by simp
    then have "(119 - n mod 64) mod 64 = (55 - n mod 64) mod 64" by (simp only: mod_add_self2)
    with True show ?thesis by (simp add: pad_len_def mod_Suc)
  next
    case False
    with r show ?thesis by (auto simp: pad_len_def mod_Suc)
  qed
qed

lemma finalize_digest:
  assumes "hashing s bs"
  shows "m_state (finalize_impl s) = sha1_digest bs"
proof -
  let ?s1 = "add_byte_dont_count_bits s 0x80"
  let ?s2 = "finalize_pad ?s1"
  have a1: "absorbed ?s1 (bs @ [0x80])"
    using assms by (simp add: hashing_def absorbed_add_byte)
  have i1: "pad_len (m_i ?s1) = (119 - length bs mod 64) mod 64"
    using absorbed_index [OF a1] by (simp add: pad_len_mod)
  have a2: "absorbed ?s2 ((bs @ [0x80]) @ replicate ((119 - length bs mod 64) mod 64) 0)"
    "m_i ?s2 = 56" "m_n_bits ?s2 = of_nat (8 * length bs)"
    using finalize_pad_absorbs [OF a1] assms by (simp_all only: i1 hashing_def add_byte_bits)
  have len: "map (\<lambda>j. ucast (drop_bit (8 * j) (m_n_bits ?s2)) :: u8) [7, 6, 5, 4, 3, 2, 1, 0] =
      map (\<lambda>j. of_nat (8 * length bs div 256 ^ j)) [7, 6, 5, 4, 3, 2, 1, 0]"
    unfolding a2(3) by (intro map_cong refl length_byte) auto
  have "absorbed (finalize_impl s) (sha1_pad bs)"
    using finalize_length_fold [OF a2(1), of "[7, 6, 5, 4, 3, 2, 1, 0]"]
    by (simp only: len finalize_impl_def Let_def sha1_pad_def append_assoc)
  moreover have "m_i (finalize_impl s) = 0"
    by (simp add: finalize_impl_def add_byte_index a2(2) Let_def)
  ultimately show ?thesis
    by (auto simp: absorbed_def sha1_digest_def)
qed

lemma hashing_append_str:
  "hashing s bs \<Longrightarrow> \<exists>s'. append_str (Some s) t = Some s' \<and> hashing s' (bs @ str_bytes t)"
  by (auto simp: append_str_def hashing_append_data str_bytes_def)

lemma hashing_init: "hashing sha1_init []"
  by (simp add: hashing_def absorbed_init) (simp add: sha1_init_def)

lemma hashing_append_strs:
  "hashing s bs \<Longrightarrow>
   \<exists>s'. fold (\<lambda>t h. append_str h t) ts (Some s) = Some s' \<and> hashing s' (bs @ str_bytes (concat ts))"
proof (induction ts arbitrary: s bs)
  case Nil
  then show ?case by (simp add: str_bytes_def)
next
  case (Cons t ts)
  from hashing_append_str [OF Cons.prems] obtain s1
    where s1: "append_str (Some s) t = Some s1" "hashing s1 (bs @ str_bytes t)" by blast
  from Cons.IH [OF s1(2)] s1(1) show ?case by (auto simp: str_bytes_def)
qed

text \<open>C8: However the text is cut into pieces, constructing the object, appending the pieces and
  calling \<open>finalize\<close> leaves in \<open>m_state\<close> the SHA-1 digest (FIPS 180-4: padding, message
  schedule, eighty rounds per block) of the concatenation of the pieces.\<close>

theorem sha1_computes_digest:
  "map_option m_state (finalize (fold (\<lambda>t h. append_str h t) ts (sha1_new t0))) =
     Some (sha1_digest (str_bytes (t0 @ concat ts)))"
proof -
  obtain s0 where s0: "sha1_new t0 = Some s0" "hashing s0 (str_bytes t0)"
    using hashing_append_str [OF hashing_init, of t0] by (auto simp: sha1_new_def)
  obtain s1 where "fold (\<lambda>t h. append_str h t) ts (Some s0) = Some s1"
    "hashing s1 (str_bytes t0 @ str_bytes (concat ts))"
    using hashing_append_strs [OF s0(2)] by blast
  then show ?thesis
    by (simp add: s0(1) finalize_def finalize_digest str_bytes_def)
qed

section \<open>The printed digest\<close>

definition word_bytes :: "u32 \<Rightarrow> u8 list" where
  "word_bytes w = map (\<lambda>j. ucast (drop_bit (8 * j) w)) [3, 2, 1, 0]"

definition digest_bytes :: "u32 list \<Rightarrow> u8 list" where
  "digest_bytes st = concat (map word_bytes st)"

definition hex_enc :: "bool \<Rightarrow> u8 list \<Rightarrow> string" where
  "hex_enc upper bs =
     concat (map (\<lambda>b. [hex_alphabet upper ! (unat b div 16), hex_alphabet upper ! (unat b mod 16)]) bs)"

text \<open>Base64 of RFC 4648.\<close>

definition sextets :: "u8 \<Rightarrow> u8 \<Rightarrow> u8 \<Rightarrow> nat list" where
  "sextets p q r =
     map unat [drop_bit 2 p, push_bit 4 (take_bit 2 p) OR drop_bit 4 q,
               push_bit 2 (take_bit 4 q) OR drop_bit 6 r, take_bit 6 r]"

fun base64_enc :: "u8 list \<Rightarrow> string" where
  "base64_enc [] = []"
| "base64_enc [p] = map ((!) base64_table) (take 2 (sextets p 0 0)) @ ''==''"
| "base64_enc [p, q] = map ((!) base64_table) (take 3 (sextets p q 0)) @ ''=''"
| "base64_enc (p # q # r # rest) = map ((!) base64_table) (sextets p q r) @ base64_enc rest"

definition triple :: "u8 \<Rightarrow> u8 \<Rightarrow> u8 \<Rightarrow> u32" where
  "triple p q r = push_bit 16 (ucast p) OR push_bit 8 (ucast q) OR ucast r"

lemma bit_u8: "bit (w :: u8) n \<Longrightarrow> n < 8"
  by (drule bit_imp_le_length) simp

lemma triple_sextets:
  "unat (drop_bit 18 (triple p q r) mod 64) = unat (drop_bit 2 p)"
  "unat (drop_bit 12 (triple p q r) mod 64) = unat (push_bit 4 (take_bit 2 p) OR drop_bit 4 q)"
  "unat (drop_bit 6 (triple p q r) mod 64) = unat (push_bit 2 (take_bit 4 q) OR drop_bit 6 r)"
  "unat (drop_bit 0 (triple p q r) mod 64) = unat (take_bit 6 r)"
proof -
  have m: "x mod 64 = take_bit 6 x" for x :: u32
    by (simp add: take_bit_eq_mod)
  show "unat (drop_bit 18 (triple p q r) mod 64) = unat (drop_bit 2 p)"
    unfolding m by (rule bit_eqI) (auto simp: triple_def bit_simps dest: bit_u8)
  show "unat (drop_bit 12 (triple p q r) mod 64) = unat (push_bit 4 (take_bit 2 p) OR drop_bit 4 q)"
    unfolding m by (rule bit_eqI) (auto simp: triple_def bit_simps dest: bit_u8)
  show "unat (drop_bit 6 (triple p q r) mod 64) = unat (push_bit 2 (take_bit 4 q) OR drop_bit 6 r)"
    unfolding m by (rule bit_eqI) (auto simp: triple_def bit_simps dest: bit_u8)
  show "unat (drop_bit 0 (triple p q r) mod 64) = unat (take_bit 6 r)"
    unfolding m by (rule bit_eqI) (auto simp: triple_def bit_simps dest: bit_u8)
qed

lemma word_masks:
  "(0xFFFFFF00 :: u32) = NOT (mask 8)" "(0xFFFF0000 :: u32) = NOT (mask 16)"
  "(0xFF000000 :: u32) = NOT (mask 24)" "(0x000000FF :: u32) = mask 8" "(0x0000FFFF :: u32) = mask 16"
  "(0x00FFFFFF :: u32) = mask 24"
  by (simp_all add: mask_eq_exp_minus_1)

definition byte_at :: "nat \<Rightarrow> u32 \<Rightarrow> u8" where
  "byte_at j w = ucast (drop_bit (8 * j) w)"

lemma triple_words:
  "drop_bit 8 (a AND 0xFFFFFF00) = triple (byte_at 3 a) (byte_at 2 a) (byte_at 1 a)"
  "push_bit 16 (a AND 0x000000FF) OR drop_bit 16 (b AND 0xFFFF0000) =
     triple (byte_at 0 a) (byte_at 3 b) (byte_at 2 b)"
  "push_bit 8 (a AND 0x0000FFFF) OR drop_bit 24 (b AND 0xFF000000) =
     triple (byte_at 1 a) (byte_at 0 a) (byte_at 3 b)"
  "push_bit 0 (a AND 0x00FFFFFF) = triple (byte_at 2 a) (byte_at 1 a) (byte_at 0 a)"
  "push_bit 8 (a AND 0x0000FFFF) = triple (byte_at 1 a) (byte_at 0 a) 0"
proof -
  have eq: "v = w" if "\<And>k. k < 8 \<Longrightarrow> (bit v k = bit w k) \<and> (bit v (k + 8) = bit w (k + 8)) \<and>
      (bit v (k + 16) = bit w (k + 16)) \<and> (bit v (k + 24) = bit w (k + 24))" for v w :: u32
  proof (rule bit_word_eqI)
    fix n assume "n < LENGTH(32)"
    then have "(\<exists>k < 8. n = k \<or> n = k + 8 \<or> n = k + 16 \<or> n = k + 24)" by simp presburger
    with that show "bit v n = bit w n" by auto
  qed
  note defs = word_masks triple_def byte_at_def bit_simps
  show "drop_bit 8 (a AND 0xFFFFFF00) = triple (byte_at 3 a) (byte_at 2 a) (byte_at 1 a)"
    by (rule eq) (auto simp: defs ac_simps)
  show "push_bit 16 (a AND 0x000000FF) OR drop_bit 16 (b AND 0xFFFF0000) =
     triple (byte_at 0 a) (byte_at 3 b) (byte_at 2 b)"
    by (rule eq) (auto simp: defs ac_simps)
  show "push_bit 8 (a AND 0x0000FFFF) OR drop_bit 24 (b AND 0xFF000000) =
     triple (byte_at 1 a) (byte_at 0 a) (byte_at 3 b)"
    by (rule eq) (auto simp: defs ac_simps)
  show "push_bit 0 (a AND 0x00FFFFFF) = triple (byte_at 2 a) (byte_at 1 a) (byte_at 0 a)"
    by (rule eq) (auto simp: defs ac_simps)
  show "push_bit 8 (a AND 0x0000FFFF) = triple (byte_at 1 a) (byte_at 0 a) 0"
    by (rule eq) (auto simp: defs ac_simps)
qed

lemma length_sha1_digest: "length (sha1_digest bs) = 5"
  by (simp add: sha1_digest_def sha1_H0_def)

lemma list5: "length st = 5 \<Longrightarrow> \<exists>a b c d e. st = [a, b, c, d, e]"
  by (auto simp: numeral_eq_Suc length_Suc_conv)

lemma word_bytes_at: "word_bytes w = [byte_at 3 w, byte_at 2 w, byte_at 1 w, byte_at 0 w]"
  by (simp add: word_bytes_def byte_at_def)

lemma finalized_new:
  "\<exists>s. finalize (sha1_new t) = Some s \<and> m_state s = sha1_digest (str_bytes t)"
  using hashing_append_str [OF hashing_init, of t]
  by (auto simp: sha1_new_def finalize_def finalize_digest)

lemma table_triple:
  "[base64_table ! unat (drop_bit 18 (triple p q r) mod 64),
    base64_table ! unat (drop_bit 12 (triple p q r) mod 64),
    base64_table ! unat (drop_bit 6 (triple p q r) mod 64),
    base64_table ! unat (drop_bit 0 (triple p q r) mod 64)] = map ((!) base64_table) (sextets p q r)"
  unfolding triple_sextets by (simp add: sextets_def)

lemma list_update_quad:
  "length x = 24 \<Longrightarrow> (x @ [a, b, c, d])[27 := z] = x @ [a, b, c, z]"
  by (simp add: list_update_append numeral_eq_Suc)

lemma sha1_base64_enc:
  assumes "length (m_state s) = 5"
  shows "sha1_base64 (Some s) = base64_enc (digest_bytes (m_state s))"
proof -
  obtain a b c d e where st: "m_state s = [a, b, c, d, e]" using list5 [OF assms] by blast
  have tr: "sha1_triples [a, b, c, d, e] =
      [triple (byte_at 3 a) (byte_at 2 a) (byte_at 1 a), triple (byte_at 0 a) (byte_at 3 b) (byte_at 2 b),
       triple (byte_at 1 b) (byte_at 0 b) (byte_at 3 c), triple (byte_at 2 c) (byte_at 1 c) (byte_at 0 c),
       triple (byte_at 3 d) (byte_at 2 d) (byte_at 1 d), triple (byte_at 0 d) (byte_at 3 e) (byte_at 2 e),
       triple (byte_at 1 e) (byte_at 0 e) 0]"
  proof -
    have sel: "[a, b, c, d, e] ! 0 = a" "[a, b, c, d, e] ! 1 = b" "[a, b, c, d, e] ! 2 = c"
      "[a, b, c, d, e] ! 3 = d" "[a, b, c, d, e] ! 4 = e" by simp_all
    show ?thesis unfolding sha1_triples_def sel triple_words(1-4) unfolding triple_words(5) by (rule refl)
  qed
  show ?thesis
    unfolding sha1_base64_def st option.case tr list.map table_triple concat.simps
    by (simp add: digest_bytes_def word_bytes_at sextets_def list_update_append numeral_eq_Suc)
qed

text \<open>\<open>base64\<close> of a finished hash is the RFC 4648 encoding, with its padding character, of the
  twenty bytes of the digest of the text.\<close>

theorem sha1_base64_digest:
  "sha1_base64 (finalize (sha1_new t)) = base64_enc (digest_bytes (sha1_digest (str_bytes t)))"
proof -
  obtain s where s: "finalize (sha1_new t) = Some s" "m_state s = sha1_digest (str_bytes t)"
    using finalized_new by blast
  have "length (m_state s) = 5" by (simp add: s(2) length_sha1_digest)
  from sha1_base64_enc [OF this] show ?thesis by (simp only: s)
qed

lemma hex_digits_of_byte:
  "unat (drop_bit (8 * j + 4) w AND 0x0F) = unat (byte_at j w) div 16"
  "unat (drop_bit (8 * j) w AND 0x0F) = unat (byte_at j w) mod 16" for w :: u32
proof -
  have m: "x AND 0x0F = take_bit 4 x" for x :: u32
    by (simp add: take_bit_eq_mask mask_eq_exp_minus_1)
  have d: "unat b div 16 = drop_bit 4 (unat b)" "unat b mod 16 = take_bit 4 (unat b)" for b :: u8
    by (simp_all add: drop_bit_eq_div take_bit_eq_mod)
  show "unat (drop_bit (8 * j + 4) w AND 0x0F) = unat (byte_at j w) div 16"
    unfolding m d by (rule bit_eqI) (auto simp: byte_at_def bit_simps ac_simps)
  show "unat (drop_bit (8 * j) w AND 0x0F) = unat (byte_at j w) mod 16"
    unfolding m d by (rule bit_eqI) (auto simp: byte_at_def bit_simps)
qed

lemma hex_word:
  "map (\<lambda>j. al ! unat (drop_bit (4 * j) w AND 0x0F)) [7, 6, 5, 4, 3, 2, 1, 0] =
     concat (map (\<lambda>b. [al ! (unat b div 16), al ! (unat b mod 16)]) (word_bytes w))" for w :: u32
  using hex_digits_of_byte [of 0 w] hex_digits_of_byte [of 1 w] hex_digits_of_byte [of 2 w]
    hex_digits_of_byte [of 3 w]
  by (simp add: word_bytes_at)

text \<open>\<open>hex\<close> of a finished hash prints the twenty bytes of the digest, two digits a byte, most
  significant first, in the case asked for.\<close>

theorem sha1_hex_digest:
  "sha1_hex upper (finalize (sha1_new t)) = hex_enc upper (digest_bytes (sha1_digest (str_bytes t)))"
proof -
  obtain s where s: "finalize (sha1_new t) = Some s" "m_state s = sha1_digest (str_bytes t)"
    using finalized_new by blast
  obtain a b c d e where st: "m_state s = [a, b, c, d, e]"
    using list5 [of "m_state s"] by (auto simp: s(2) length_sha1_digest)
  show ?thesis
    unfolding s(1) s(2) [symmetric] sha1_hex_def option.case hex_word
    by (simp add: st hex_enc_def digest_bytes_def)
qed

section \<open>The copy of an object\<close>

lemma words_of_bytes_append:
  "length a = 4 \<Longrightarrow> words_of_bytes e (a @ r) = of_nat (of_bytes e a) # words_of_bytes e r"
  by (auto simp: numeral_eq_Suc length_Suc_conv)

lemma words_of_bytes_concat: "words_of_bytes e (concat (map (\<lambda>w. bytes_of e 4 (unat w)) ws)) = ws"
proof (induction ws)
  case (Cons w ws)
  have "unat w < 2 ^ LENGTH(32)" by (rule unsigned_less)
  then have "unat w mod 4294967296 = unat w" by simp
  with Cons show ?case by (simp add: words_of_bytes_append of_bytes_bytes_of)
qed simp

lemma memcpy_words_5:
  assumes "length dst = 5" "length src = 5"
  shows "drop 2 (memcpy_words e dst src 5) = drop 2 dst"
proof -
  let ?B = "\<lambda>w. bytes_of e 4 (unat w)"
  obtain a b c d f where dst: "dst = [a, b, c, d, f]" using list5 [OF assms(1)] by blast
  obtain a' b' c' d' f' where src: "src = [a', b', c', d', f']" using list5 [OF assms(2)] by blast
  have "memcpy_words e dst src 5 =
      words_of_bytes e (?B a' @ (take 1 (?B b') @ drop 1 (?B b)) @ concat (map ?B [c, d, f]))"
    by (simp add: memcpy_words_def dst src)
  then show ?thesis
    by (simp only: words_of_bytes_append words_of_bytes_concat bytes_of_length length_append
        length_take length_drop) (simp add: dst words_of_bytes_append words_of_bytes_concat
        del: concat.simps list.map)
qed

text \<open>What the copy constructor really copies: \<open>memcpy\<close> of five bytes leaves the last three
  words of the new object's state at their initial values, whatever text the source has hashed.\<close>

theorem sha1_copy_keeps_initial_words:
  "map_option (map_option (\<lambda>s. drop 2 (m_state s))) (sha1_copy e (sha1_new t)) =
     Some (Some (drop 2 (m_state sha1_init)))"
proof -
  obtain s where s: "sha1_new t = Some s" "hashing s (str_bytes t)"
    using hashing_append_str [OF hashing_init, of t] by (auto simp: sha1_new_def)
  then have "length (m_state s) = 5" using absorbed_state by (auto simp: hashing_def)
  moreover have "length (m_state sha1_init) = 5" by (simp add: sha1_init_def)
  ultimately show ?thesis
    by (simp add: s sha1_copy_def sha1_assign_def memcpy_words_5)
qed

end
