(* ===== verification/Algorithm.thy ===== *)
theory Algorithm
  imports Prelude
begin

text \<open>
  \<open>gts/algorithm.cpp\<close>: number parsing, splitting and joining, prefixes and suffixes, case
  conversion, replacement, trimming, removal, percent decoding and the path helpers.  Loops that
  need not end in the source (\<open>str_split\<close> and \<open>str_replace\<close> with an empty pattern) are
  \<open>partial_function (option)\<close>: \<open>None\<close> is a call that does not return.  Each optimised or
  in-place routine comes with a reference definition and the equation between them.
\<close>

section \<open>Reading numbers\<close>

text \<open>\<open>strtol\<close> and \<open>strtoul\<close> of the C library (64-bit \<open>long\<close>), as the conversions use them.\<close>

definition isspace :: "char \<Rightarrow> bool" where
  "isspace c = (uchar c = 32 \<or> 9 \<le> uchar c \<and> uchar c \<le> 13)"

definition digit_val :: "char \<Rightarrow> nat option" where
  "digit_val c =
     (let n = uchar c in
      if 48 \<le> n \<and> n \<le> 57 then Some (n - 48)
      else if 97 \<le> n \<and> n \<le> 122 then Some (n - 87)
      else if 65 \<le> n \<and> n \<le> 90 then Some (n - 55)
      else None)"

fun digits_value :: "nat \<Rightarrow> nat \<Rightarrow> string \<Rightarrow> nat" where
  "digits_value b acc [] = acc"
| "digits_value b acc (c # cs) =
     (case digit_val c of
        Some d \<Rightarrow> if d < b then digits_value b (acc * b + d) cs else acc
      | None \<Rightarrow> acc)"

definition strto_parse :: "string \<Rightarrow> nat \<Rightarrow> bool \<times> nat" where
  "strto_parse s base =
     (let s1 = dropWhile isspace s;
          neg = (s1 \<noteq> [] \<and> hd s1 = CHR ''-'');
          s2 = (if neg \<or> s1 \<noteq> [] \<and> hd s1 = CHR ''+'' then tl s1 else s1);
          hexp = (take 2 s2 = ''0x'' \<or> take 2 s2 = ''0X'');
          b = (if base = 0 then (if hexp then 16 else if take 1 s2 = ''0'' then 8 else 10) else base);
          s3 = (if (base = 0 \<or> base = 16) \<and> hexp then drop 2 s2 else s2)
      in if base = 1 \<or> 36 < base then (False, 0) else (neg, digits_value b 0 s3))"

definition strtol :: "string \<Rightarrow> nat \<Rightarrow> int" where
  "strtol s base =
     (let (neg, m) = strto_parse s base; v = (if neg then - int m else int m)
      in max (- (2 ^ 63)) (min (2 ^ 63 - 1) v))"

definition strtoul :: "string \<Rightarrow> nat \<Rightarrow> u64" where
  "strtoul s base =
     (let (neg, m) = strto_parse s base
      in if 2 ^ 64 \<le> m then - 1 else if neg then - of_nat m else of_nat m)"

text \<open>The return statement narrows the 64-bit value to the result type.\<close>

definition stoi8 :: "string \<Rightarrow> nat \<Rightarrow> u8" where "stoi8 s base = word_of_int (strtol s base)"
definition stoui8 :: "string \<Rightarrow> nat \<Rightarrow> u8" where "stoui8 s base = ucast (strtoul s base)"
definition stoi16 :: "string \<Rightarrow> nat \<Rightarrow> u16" where "stoi16 s base = word_of_int (strtol s base)"
definition stoui16 :: "string \<Rightarrow> nat \<Rightarrow> u16" where "stoui16 s base = ucast (strtoul s base)"
definition stoi32 :: "string \<Rightarrow> nat \<Rightarrow> u32" where "stoi32 s base = word_of_int (strtol s base)"
definition stoui32 :: "string \<Rightarrow> nat \<Rightarrow> u32" where "stoui32 s base = ucast (strtoul s base)"
definition stoi64 :: "string \<Rightarrow> nat \<Rightarrow> u64" where "stoi64 s base = word_of_int (strtol s base)"
definition stoui64 :: "string \<Rightarrow> nat \<Rightarrow> u64" where "stoui64 s base = strtoul s base"

definition str_to_lower :: "string \<Rightarrow> string" where
  "str_to_lower s = map tolower s"

definition str_to_upper :: "string \<Rightarrow> string" where
  "str_to_upper s = map toupper s"

text \<open>\<open>stob\<close>, the branch of non-Windows builds; \<open>strncasecmp\<close> compares lower-cased bytes.\<close>

definition stob :: "string \<Rightarrow> bool" where
  "stob s =
     (if length s = 4 \<and> str_to_lower s = ''true'' then True
      else if length s = 5 \<and> str_to_lower s = ''false'' then False
      else stoi8 s 10 \<noteq> 0)"

lemma digit_val_digit_char: "d < 36 \<Longrightarrow> digit_val (digit_char d) = Some d"
  by (simp add: digit_char_def digit_val_def Let_def)

lemma digits_value_append:
  "\<forall>c \<in> set xs. \<exists>d < b. digit_val c = Some d \<Longrightarrow>
   digits_value b acc (xs @ ys) = digits_value b (digits_value b acc xs) ys"
  by (induction xs arbitrary: acc) auto

lemma radix_str_digits:
  "2 \<le> b \<Longrightarrow> b \<le> 36 \<Longrightarrow> \<forall>c \<in> set (radix_str b n). \<exists>d < b. c = digit_char d"
proof (induction b n rule: radix_str.induct)
  case (1 b n)
  show ?case
  proof (cases "n < b")
    case True
    then show ?thesis by (auto simp: radix_str_small)
  next
    case False
    with 1 have "\<forall>c \<in> set (radix_str b (n div b)). \<exists>d < b. c = digit_char d" by simp
    moreover have "\<exists>d < b. digit_char (n mod b) = digit_char d"
      using 1 by (intro exI [of _ "n mod b"]) simp
    moreover have "radix_str b n = radix_str b (n div b) @ [digit_char (n mod b)]"
      using False 1 by (simp add: radix_str_step)
    ultimately show ?thesis by simp
  qed
qed

lemma radix_str_digit_val:
  assumes "2 \<le> b" "b \<le> 36"
  shows "\<forall>c \<in> set (radix_str b n). \<exists>d < b. digit_val c = Some d"
  using radix_str_digits [OF assms, of n] assms
  by (metis digit_val_digit_char order_less_le_trans)

lemma digits_value_radix: "2 \<le> b \<Longrightarrow> b \<le> 36 \<Longrightarrow> digits_value b 0 (radix_str b n) = n"
proof (induction b n rule: radix_str.induct)
  case (1 b n)
  show ?case
  proof (cases "n < b")
    case True
    with 1 show ?thesis by (simp add: radix_str_small digit_val_digit_char)
  next
    case False
    then have "digits_value b 0 (radix_str b (n div b)) = n div b" using 1 by simp
    moreover have m: "n mod b < b" using 1 by simp
    moreover have "n mod b < 36" using m 1 by linarith
    ultimately show ?thesis using False 1
      by (simp add: radix_str_step digits_value_append radix_str_digit_val digit_val_digit_char)
  qed
qed

text \<open>A printed number starts with a digit: no white space, no sign, no \<open>0x\<close> prefix to skip.\<close>

lemma digit_char_not_special:
  "d < 36 \<Longrightarrow> \<not> isspace (digit_char d)" "d < 36 \<Longrightarrow> digit_char d \<noteq> CHR ''-''"
  "d < 36 \<Longrightarrow> digit_char d \<noteq> CHR ''+''"
  by (auto simp: digit_char_def isspace_def chr_def dest!: arg_cong [where f = uchar])

text \<open>Printed hexadecimal numbers.\<close>

lemma digit_char_uchar: "d < 16 \<Longrightarrow> uchar (digit_char d) = (if d < 10 then 48 + d else 55 + d)"
  by (simp add: digit_char_def)

lemma hex_upper_chars: "c \<in> set (hex_upper n) \<Longrightarrow> \<exists>d < 16. c = digit_char d"
  using radix_str_digits [of 16 n] by (auto simp: hex_upper_def)

lemma hex_upper_free: "x \<in> {CR, LF, CHR '';'', CHR ''x'', CHR ''X'', CHR ''-'', CHR ''+''} \<Longrightarrow> x \<notin> set (hex_upper n)"
proof
  assume x: "x \<in> {CR, LF, CHR '';'', CHR ''x'', CHR ''X'', CHR ''-'', CHR ''+''}" and "x \<in> set (hex_upper n)"
  then obtain d where "d < 16" "x = digit_char d" using hex_upper_chars by blast
  then have "uchar x = (if d < 10 then 48 + d else 55 + d)" "d < 16" by (simp_all only: digit_char_uchar)
  with x show False by (auto simp: CR_def LF_def split: if_splits)
qed

lemma hex_upper_length: "n < 16 ^ k \<Longrightarrow> 0 < k \<Longrightarrow> length (hex_upper n) \<le> k"
proof (induction k arbitrary: n)
  case (Suc k)
  show ?case
  proof (cases "n < 16")
    case True
    then show ?thesis by (simp add: hex_upper_def radix_str_small)
  next
    case False
    have "0 < k" using Suc.prems False by (cases k) auto
    moreover have "n div 16 < 16 ^ k" using Suc.prems by (simp add: less_mult_imp_div_less mult.commute)
    ultimately show ?thesis using Suc.IH False by (simp add: hex_upper_def radix_str_step)
  qed
qed simp

lemma hex_upper_hd: "\<exists>d cs. hex_upper n = digit_char d # cs \<and> d < 16"
  using hex_upper_chars [of "hd (hex_upper n)" n] by (cases "hex_upper n") (auto simp: hex_upper_def)

lemma strto_parse_dec: "strto_parse (dec n) 10 = (False, n)"
proof -
  obtain c cs where c: "dec n = c # cs" by (cases "dec n") auto
  then have "c \<in> set (radix_str 10 n)" by (simp add: dec_def)
  then obtain d where "d < 10" "c = digit_char d" using radix_str_digits [of 10 n] by auto
  then have "\<not> isspace c" "c \<noteq> CHR ''-''" "c \<noteq> CHR ''+''"
    using digit_char_not_special [of d] by auto
  with c have "dropWhile isspace (dec n) = dec n" "hd (dec n) \<noteq> CHR ''-''" "hd (dec n) \<noteq> CHR ''+''"
    by simp_all
  then show ?thesis
    by (simp add: strto_parse_def Let_def) (simp add: dec_def digits_value_radix)
qed

lemma strtoul_dec: "n < 2 ^ 64 \<Longrightarrow> strtoul (dec n) 10 = of_nat n"
  by (simp add: strtoul_def strto_parse_dec)

lemma strtol_dec: "n < 2 ^ 63 \<Longrightarrow> strtol (dec n) 10 = int n"
  by (simp add: strtol_def strto_parse_dec)

section \<open>Splitting and joining\<close>

text \<open>
  \<open>str_split\<close>: the separator is appended once, then the text is cut at each occurrence.  With an
  empty separator the loop never advances.
\<close>

partial_function (option) str_split_loop ::
  "string \<Rightarrow> bool \<Rightarrow> string \<Rightarrow> string list \<Rightarrow> string list option" where
  "str_split_loop splits ignore_empty strs result =
     (case str_find splits strs of
        None \<Rightarrow> Some result
      | Some pos \<Rightarrow>
          str_split_loop splits ignore_empty (drop (pos + length splits) strs)
            (if take pos strs \<noteq> [] \<or> \<not> ignore_empty then result @ [take pos strs] else result))"

definition str_split :: "string \<Rightarrow> string \<Rightarrow> bool \<Rightarrow> string list option" where
  "str_split str splits ignore_empty =
     (if str = [] then Some [] else str_split_loop splits ignore_empty (str @ splits) [])"

text \<open>The result for the callers, which all pass a constant non-empty separator.\<close>

definition splitted :: "string \<Rightarrow> string \<Rightarrow> bool \<Rightarrow> string list" where
  "splitted str splits ignore_empty =
     (case str_split str splits ignore_empty of Some l \<Rightarrow> l | None \<Rightarrow> [])"

fun str_list_join_loop :: "string list \<Rightarrow> string \<Rightarrow> nat \<Rightarrow> string" where
  "str_list_join_loop list splits 0 = []"
| "str_list_join_loop list splits (Suc i) = str_list_join_loop list splits i @ list ! i @ splits"

definition str_list_join :: "string list \<Rightarrow> string \<Rightarrow> string" where
  "str_list_join list splits =
     (if list = [] then []
      else str_list_join_loop list splits (length list - 1) @ list ! (length list - 1))"

text \<open>Reference: the pieces between the occurrences of one character.\<close>

fun pieces :: "char \<Rightarrow> string \<Rightarrow> string list" where
  "pieces c [] = [[]]"
| "pieces c (x # xs) =
     (if x = c then [] # pieces c xs
      else case pieces c xs of [] \<Rightarrow> [[x]] | p # ps \<Rightarrow> (x # p) # ps)"

fun intersperse_join :: "string \<Rightarrow> string list \<Rightarrow> string" where
  "intersperse_join s [] = []"
| "intersperse_join s [x] = x"
| "intersperse_join s (x # y # zs) = x @ s @ intersperse_join s (y # zs)"

lemma pieces_not_Nil [simp]: "pieces c s \<noteq> []"
  by (induction s) (auto split: list.splits)

lemma pieces_no_sep: "c \<notin> set s \<Longrightarrow> pieces c s = [s]"
  by (induction s) auto

lemma pieces_sep: "c \<notin> set p \<Longrightarrow> pieces c (p @ c # s) = p # pieces c s"
  by (induction p) auto

lemma pieces_free: "p \<in> set (pieces c s) \<Longrightarrow> c \<notin> set p"
proof (induction s arbitrary: p)
  case Nil
  then show ?case by simp
next
  case (Cons x xs)
  then show ?case by (cases "pieces c xs") (auto split: if_splits)
qed

lemma join_pieces: "intersperse_join [c] (pieces c s) = s"
proof (induction s)
  case Nil
  then show ?case by simp
next
  case (Cons x xs)
  then show ?case
    by (cases "pieces c xs"; cases "tl (pieces c xs)") (auto split: if_splits list.splits)
qed

lemma str_split_loop_char:
  "str_split_loop [c] ign (s @ [c]) acc =
     Some (acc @ filter (\<lambda>p. p \<noteq> [] \<or> \<not> ign) (pieces c s))"
proof (induction "length s" arbitrary: s acc rule: less_induct)
  case less
  show ?case
  proof (cases "c \<in> set s")
    case False
    then have tw: "takeWhile (\<lambda>x. x \<noteq> c) (s @ [c]) = s"
      by (subst takeWhile_append2) auto
    have "str_split_loop [c] ign [] acc' = Some acc'" for acc'
      by (subst str_split_loop.simps) simp
    with False tw show ?thesis
      by (subst str_split_loop.simps) (simp add: str_find_char pieces_no_sep del: takeWhile_append)
  next
    case True
    then obtain p r where s: "s = p @ c # r" and p: "c \<notin> set p"
      by (meson split_list_first)
    then have tw: "takeWhile (\<lambda>x. x \<noteq> c) (s @ [c]) = p"
      by (simp, subst takeWhile_append2) auto
    have "length r < length s" using s by simp
    note IH = less [OF this]
    show ?thesis using p IH
      by (subst str_split_loop.simps) (simp add: str_find_char tw, cases ign, simp_all add: s pieces_sep)
  qed
qed

lemma str_split_char:
  "str_split s [c] ign = Some (if s = [] then [] else filter (\<lambda>p. p \<noteq> [] \<or> \<not> ign) (pieces c s))"
  by (simp add: str_split_def str_split_loop_char)

lemma splitted_char:
  "splitted s [c] ign = (if s = [] then [] else filter (\<lambda>p. p \<noteq> [] \<or> \<not> ign) (pieces c s))"
  by (simp add: splitted_def str_split_char)

text \<open>Any non-empty separator makes the loop advance, so the call returns.\<close>

lemma str_split_loop_returns:
  "splits \<noteq> [] \<Longrightarrow> \<exists>l. str_split_loop splits ign strs acc = Some l"
proof (induction "length strs" arbitrary: strs acc rule: less_induct)
  case less
  show ?case
  proof (cases "str_find splits strs")
    case None
    then show ?thesis by (subst str_split_loop.simps) simp
  next
    case (Some pos)
    with str_find_Some_le [OF Some] less.prems
    have "length (drop (pos + length splits) strs) < length strs"
      by (cases splits) auto
    with less Some show ?thesis by (subst str_split_loop.simps) simp
  qed
qed

lemma str_split_returns: "splits \<noteq> [] \<Longrightarrow> \<exists>l. str_split s splits ign = Some l"
  by (simp add: str_split_def str_split_loop_returns)

lemma str_list_join_loop_snoc:
  "i \<le> length xs \<Longrightarrow> str_list_join_loop (xs @ ys) s i = str_list_join_loop xs s i"
  by (induction i) (auto simp: nth_append)

lemma intersperse_join_snoc:
  "xs \<noteq> [] \<Longrightarrow> intersperse_join s (xs @ [x]) = intersperse_join s xs @ s @ x"
  by (induction s xs rule: intersperse_join.induct) auto

lemma str_list_join_eq: "str_list_join xs s = intersperse_join s xs"
proof (induction xs rule: rev_induct)
  case Nil
  then show ?case by (simp add: str_list_join_def)
next
  case (snoc x xs)
  show ?case
  proof (cases "xs = []")
    case True
    then show ?thesis by (simp add: str_list_join_def)
  next
    case False
    then obtain n where n: "length xs = Suc n" by (cases xs) auto
    with False snoc show ?thesis
      by (simp add: str_list_join_def intersperse_join_snoc nth_append str_list_join_loop_snoc)
  qed
qed

section \<open>Prefixes and suffixes\<close>

text \<open>The loops of the pre-C++20 branch.\<close>

function starts_with_loop :: "string \<Rightarrow> string \<Rightarrow> nat \<Rightarrow> bool" where
  "starts_with_loop str pre i =
     (if i < length pre then
        (if str ! i \<noteq> pre ! i then False else starts_with_loop str pre (Suc i))
      else True)"
  by pat_completeness auto
termination
  by (relation "measure (\<lambda>(str, pre, i). length pre - i)") auto

declare starts_with_loop.simps [simp del]

definition str_starts_with :: "string \<Rightarrow> string \<Rightarrow> bool" where
  "str_starts_with str pre =
     (if length str < length pre then False else starts_with_loop str pre 0)"

text \<open>
  The suffix test compares \<open>str[str.size()-i]\<close> with \<open>suffix[i-1]\<close> for \<open>i\<close> from
  \<open>suffix.size()\<close> down to 1: as \<open>i\<close> falls the text is read forwards and the suffix
  backwards.
\<close>

fun ends_with_loop :: "string \<Rightarrow> string \<Rightarrow> nat \<Rightarrow> bool" where
  "ends_with_loop str suf 0 = True"
| "ends_with_loop str suf (Suc i) =
     (if str ! (length str - Suc i) \<noteq> suf ! i then False else ends_with_loop str suf i)"

definition str_ends_with :: "string \<Rightarrow> string \<Rightarrow> bool" where
  "str_ends_with str suf =
     (if length str < length suf then False else ends_with_loop str suf (length suf))"

lemma starts_with_loop_iff:
  "length pre \<le> length str \<Longrightarrow>
   starts_with_loop str pre i \<longleftrightarrow> (\<forall>j. i \<le> j \<and> j < length pre \<longrightarrow> str ! j = pre ! j)"
proof (induction str pre i rule: starts_with_loop.induct)
  case (1 str pre i)
  then show ?case
    by (subst starts_with_loop.simps) (auto dest: Suc_leI simp: order.order_iff_strict [of i])
qed

lemma str_starts_with_prefix: "str_starts_with str pre \<longleftrightarrow> prefix pre str"
proof (cases "length str < length pre")
  case True
  then show ?thesis by (auto simp: str_starts_with_def dest: prefix_length_le)
next
  case False
  then have "str_starts_with str pre \<longleftrightarrow> take (length pre) str = pre"
    by (auto simp: str_starts_with_def starts_with_loop_iff list_eq_iff_nth_eq)
  also have "\<dots> \<longleftrightarrow> prefix pre str"
    by (metis append_eq_conv_conj prefix_def)
  finally show ?thesis .
qed

lemma ends_with_loop_iff:
  "ends_with_loop str suf n \<longleftrightarrow> (\<forall>i < n. str ! (length str - Suc i) = suf ! i)"
  by (induction n) (auto simp: less_Suc_eq)

text \<open>What the loop decides: the text ends with the reversed suffix.\<close>

lemma str_ends_with_rev: "str_ends_with str suf \<longleftrightarrow> suffix (rev suf) str"
proof (cases "length str < length suf")
  case True
  then show ?thesis by (auto simp: str_ends_with_def dest: suffix_length_le)
next
  case False
  have "str_ends_with str suf \<longleftrightarrow> take (length suf) (rev str) = suf"
    using False by (auto simp: str_ends_with_def ends_with_loop_iff list_eq_iff_nth_eq rev_nth)
  also have "\<dots> \<longleftrightarrow> prefix suf (rev str)"
    by (metis append_eq_conv_conj prefix_def)
  finally show ?thesis by (simp add: suffix_to_prefix)
qed

lemma str_ends_with_char: "str_ends_with str [c] \<longleftrightarrow> str \<noteq> [] \<and> last str = c"
  by (cases str rule: rev_cases) (auto simp: str_ends_with_rev suffix_def)

section \<open>Replacing and removing\<close>

text \<open>
  \<open>str_replace\<close> changes its argument in place and returns \<open>sum\<close>; the result here is the
  pair of both.  \<open>sum\<close> is never assigned in the loop.
\<close>

partial_function (option) str_replace_loop ::
  "string \<Rightarrow> string \<Rightarrow> string \<Rightarrow> nat \<Rightarrow> nat \<Rightarrow> (string \<times> nat) option" where
  "str_replace_loop old new str old_pos cnt =
     (case str_find_from old str old_pos of
        None \<Rightarrow> Some (str, cnt)
      | Some start \<Rightarrow>
          str_replace_loop old new (take start str @ new @ drop (start + length old) str)
            (start + length new) cnt)"

definition str_replace :: "string \<Rightarrow> string \<Rightarrow> string \<Rightarrow> (string \<times> nat) option" where
  "str_replace str old new = str_replace_loop old new str 0 0"

text \<open>Reference: replace the occurrences from left to right, never looking at replaced text.\<close>

function replace_ref :: "string \<Rightarrow> string \<Rightarrow> string \<Rightarrow> string" where
  "replace_ref old new s =
     (if old = [] then s
      else case str_find old s of
        None \<Rightarrow> s
      | Some i \<Rightarrow> take i s @ new @ replace_ref old new (drop (i + length old) s))"
  by pat_completeness auto
termination
proof (relation "measure (\<lambda>(old, new, s). length s)", simp_all)
  fix old s :: string and i
  assume "old \<noteq> []" "str_find old s = Some i"
  with str_find_Some_le [of old s i] show "length s - (i + length old) < length s"
    by (cases old) auto
qed

declare replace_ref.simps [simp del]

lemma str_replace_loop_ref:
  "old \<noteq> [] \<Longrightarrow>
   str_replace_loop old new (done @ s) (length done) cnt = Some (done @ replace_ref old new s, cnt)"
proof (induction "length s" arbitrary: s "done" rule: less_induct)
  case less
  show ?case
  proof (cases "str_find old s")
    case None
    then show ?thesis
      by (subst str_replace_loop.simps, subst replace_ref.simps) (simp add: str_find_from_def)
  next
    case (Some i)
    let ?r = "drop (i + length old) s"
    have "length ?r < length s"
      using str_find_Some_le [OF Some] less.prems by (cases old) auto
    from less.hyps [OF this less.prems, of "done @ take i s @ new"]
    have IH: "str_replace_loop old new (done @ take i s @ new @ ?r) (i + (length done + length new)) cnt =
        Some (done @ take i s @ new @ replace_ref old new ?r, cnt)"
      using str_find_Some_le [OF Some] by (simp add: add.commute add.left_commute)
    have eq: "take (i + length done) (done @ s) = done @ take i s"
      "drop (i + length done + length old) (done @ s) = ?r"
      by (simp_all add: add.commute add.left_commute)
    show ?thesis using less.prems
      by (subst str_replace_loop.simps, subst replace_ref.simps)
         (simp add: str_find_from_def Some eq IH add.commute add.left_commute)
  qed
qed

lemma str_replace_ref:
  "old \<noteq> [] \<Longrightarrow> str_replace s old new = Some (replace_ref old new s, 0)"
  using str_replace_loop_ref [of old new "[]" s 0] by (simp add: str_replace_def)

definition str_remove :: "string \<Rightarrow> string \<Rightarrow> string option" where
  "str_remove str pat = map_option fst (str_replace str pat [])"

text \<open>\<open>std::remove\<close> with the character overload, then the tail is erased.\<close>

definition str_remove_char :: "string \<Rightarrow> char \<Rightarrow> string" where
  "str_remove_char str x = filter (\<lambda>c. c \<noteq> x) str"

section \<open>Trimming\<close>

definition trim_char :: "char \<Rightarrow> bool" where
  "trim_char c = (1 \<le> schar c \<and> schar c \<le> 32)"

function trim_left_loop :: "string \<Rightarrow> nat \<Rightarrow> nat" where
  "trim_left_loop str left =
     (if left < length str then
        (if trim_char (str ! left) then trim_left_loop str (Suc left) else left)
      else left)"
  by pat_completeness auto
termination
  by (relation "measure (\<lambda>(str, left). length str - left)") auto

declare trim_left_loop.simps [simp del]

function trim_right_loop :: "string \<Rightarrow> int \<Rightarrow> int" where
  "trim_right_loop str right =
     (if 0 \<le> right then
        (if trim_char (str ! nat right) then trim_right_loop str (right - 1) else right)
      else right)"
  by pat_completeness auto
termination
  by (relation "measure (\<lambda>(str, right). nat (right + 1))") auto

declare trim_right_loop.simps [simp del]

definition str_trimmed :: "string \<Rightarrow> string" where
  "str_trimmed str =
     (let left = trim_left_loop str 0
      in if length str \<le> left then []
         else let right = trim_right_loop str (int (length str - 1))
              in if right < 0 then []
                 else drop left (take (nat (right + 1)) str))"

text \<open>Reference: drop the trimmed characters from both ends.\<close>

definition trim_ref :: "string \<Rightarrow> string" where
  "trim_ref s = rev (dropWhile trim_char (rev (dropWhile trim_char s)))"

lemma trim_left_loop_eq:
  "i \<le> length s \<Longrightarrow> trim_left_loop s i = i + length (takeWhile trim_char (drop i s))"
proof (induction s i rule: trim_left_loop.induct)
  case (1 s i)
  show ?case
  proof (cases "i < length s")
    case True
    then have "drop i s = s ! i # drop (Suc i) s" by (simp add: Cons_nth_drop_Suc)
    with True 1 show ?thesis by (subst trim_left_loop.simps) simp
  next
    case False
    then show ?thesis by (subst trim_left_loop.simps) simp
  qed
qed

lemma trim_right_loop_eq:
  "n \<le> length s \<Longrightarrow>
   trim_right_loop s (int n - 1) = int n - int (length (takeWhile trim_char (rev (take n s)))) - 1"
proof (induction n)
  case 0
  then show ?case by (subst trim_right_loop.simps) simp
next
  case (Suc n)
  then have "rev (take (Suc n) s) = s ! n # rev (take n s)"
    by (simp add: take_Suc_conv_app_nth)
  with Suc show ?case by (subst trim_right_loop.simps) simp
qed

lemma length_takeWhile_less: "x \<in> set xs \<Longrightarrow> \<not> P x \<Longrightarrow> length (takeWhile P xs) < length xs"
  by (induction xs) auto

lemma rev_dropWhile_rev_take:
  "rev (dropWhile P (rev xs)) = take (length xs - length (takeWhile P (rev xs))) xs"
  by (metis dropWhile_eq_drop length_rev rev_drop rev_rev_ident)

lemma takeWhile_rev_dropWhile:
  assumes "dropWhile P s \<noteq> []"
  shows "takeWhile P (rev (dropWhile P s)) = takeWhile P (rev s)"
proof -
  have "\<exists>x \<in> set (rev (dropWhile P s)). \<not> P x"
    using assms hd_dropWhile [OF assms] by (metis hd_in_set set_rev)
  then have "takeWhile P (rev (dropWhile P s) @ rev (takeWhile P s)) = takeWhile P (rev (dropWhile P s))"
    by (auto intro: takeWhile_append1)
  then show ?thesis by (metis rev_append takeWhile_dropWhile_id)
qed

lemma str_trimmed_ref: "str_trimmed s = trim_ref s"
proof (cases "dropWhile trim_char s = []")
  case True
  then have "length (takeWhile trim_char s) = length s"
    by (metis append_Nil2 takeWhile_dropWhile_id)
  moreover have "trim_ref s = []" by (simp only: trim_ref_def True rev.simps dropWhile.simps)
  ultimately show ?thesis by (simp add: str_trimmed_def trim_left_loop_eq)
next
  case False
  let ?l = "length (takeWhile trim_char s)" and ?r = "length (takeWhile trim_char (rev s))"
  have len: "?l + length (dropWhile trim_char s) = length s"
    by (metis length_append takeWhile_dropWhile_id)
  with False have l: "?l < length s" by (cases "dropWhile trim_char s") auto
  have tw: "takeWhile trim_char (rev (dropWhile trim_char s)) = takeWhile trim_char (rev s)"
    using False by (rule takeWhile_rev_dropWhile)
  have "\<exists>x \<in> set (dropWhile trim_char s). \<not> trim_char x"
    using False hd_dropWhile [OF False] by (metis hd_in_set)
  then have "length (takeWhile trim_char (rev (dropWhile trim_char s))) < length (dropWhile trim_char s)"
    by (metis length_rev length_takeWhile_less set_rev)
  with tw have r: "?r < length (dropWhile trim_char s)" by simp
  have right: "trim_right_loop s (int (length s) - 1) = int (length s) - int ?r - 1"
    using trim_right_loop_eq [of "length s" s] by simp
  have "drop ?l (take (length s - ?r) s) = take (length s - ?r - ?l) (drop ?l s)"
    by (simp add: drop_take)
  also have "drop ?l s = dropWhile trim_char s" by (simp add: dropWhile_eq_drop)
  also have "take (length s - ?r - ?l) (dropWhile trim_char s) = trim_ref s"
  proof -
    have "length s - ?r - ?l = length (dropWhile trim_char s) - ?r" using len by arith
    then show ?thesis by (simp only: trim_ref_def rev_dropWhile_rev_take tw)
  qed
  finally have "drop ?l (take (length s - ?r) s) = trim_ref s" .
  moreover have "nat (int (length s) - int ?r) = length s - ?r" by simp
  ultimately show ?thesis
    using l r len by (simp add: str_trimmed_def Let_def trim_left_loop_eq right of_nat_diff)
qed

lemma trim_ref_no_ends:
  "trim_ref s = [] \<or> \<not> trim_char (hd (trim_ref s)) \<and> \<not> trim_char (last (trim_ref s))"
proof -
  let ?d = "dropWhile trim_char s"
  have 1: "dropWhile trim_char (rev ?d) \<noteq> [] \<Longrightarrow> \<not> trim_char (hd (dropWhile trim_char (rev ?d)))"
    by (rule hd_dropWhile)
  have "\<not> trim_char (last (dropWhile trim_char (rev ?d)))" if "dropWhile trim_char (rev ?d) \<noteq> []"
  proof -
    have "last (dropWhile trim_char (rev ?d)) = last (rev ?d)"
      using that by (metis last_appendR takeWhile_dropWhile_id)
    moreover have "?d \<noteq> []" using that by (metis dropWhile.simps(1) rev.simps(1))
    ultimately show ?thesis using hd_dropWhile [of trim_char s] by (simp add: last_rev)
  qed
  with 1 show ?thesis by (auto simp: trim_ref_def hd_rev last_rev)
qed

lemma trim_ref_idem: "trim_ref (trim_ref s) = trim_ref s"
proof (cases "trim_ref s")
  case Nil
  then show ?thesis by (simp only: Nil) (simp add: trim_ref_def)
next
  case (Cons c cs)
  have *: "dropWhile trim_char (trim_ref s) = trim_ref s"
    using trim_ref_no_ends [of s] Cons by simp
  have **: "dropWhile trim_char (rev (trim_ref s)) = rev (trim_ref s)"
  proof -
    obtain x xs where x: "rev (trim_ref s) = x # xs" using Cons by (cases "rev (trim_ref s)") auto
    then have "last (trim_ref s) = x" by (metis hd_rev list.sel(1))
    with x show ?thesis using trim_ref_no_ends [of s] Cons by simp
  qed
  show ?thesis by (simp only: trim_ref_def [of "trim_ref s"] * ** rev_rev_ident)
qed

section \<open>Percent decoding\<close>

text \<open>
  The decoder writes through \<open>data\<close> into the buffer it reads through \<open>inputPtr\<close>; both start
  at the beginning of \<open>result\<close>.  A hexadecimal digit that is not one keeps its character
  value, and \<open>(a << 4) | b\<close> is truncated to a \<open>char\<close>.
\<close>

definition hex_digit :: "int \<Rightarrow> int" where
  "hex_digit a =
     (if 48 \<le> a \<and> a \<le> 57 then a - 48
      else if 97 \<le> a \<and> a \<le> 102 then a - 97 + 10
      else if 65 \<le> a \<and> a \<le> 70 then a - 65 + 10
      else a)"

definition pct_byte :: "char \<Rightarrow> char \<Rightarrow> char" where
  "pct_byte a b = to_char (push_bit 4 (hex_digit (schar a)) OR hex_digit (schar b))"

function pct_loop :: "nat \<Rightarrow> string \<Rightarrow> nat \<Rightarrow> nat \<Rightarrow> string \<times> nat" where
  "pct_loop len buf i outlen =
     (if i < len then
        (if buf ! i = CHR ''%'' \<and> i + 2 < len then
           pct_loop len (buf[outlen := pct_byte (buf ! (i + 1)) (buf ! (i + 2))]) (i + 3) (outlen + 1)
         else pct_loop len (buf[outlen := buf ! i]) (i + 1) (outlen + 1))
      else (buf, outlen))"
  by pat_completeness auto
termination
  by (relation "measure (\<lambda>(len, buf, i, outlen). len - i)") auto

declare pct_loop.simps [simp del]

definition from_percent_encoding :: "string \<Rightarrow> string" where
  "from_percent_encoding str =
     (if str = [] then []
      else let (result, outlen) = pct_loop (length str) str 0 0
           in if outlen \<noteq> length str then take outlen result else result)"

text \<open>Reference: one pass over the text, without a buffer.\<close>

fun pct_ref :: "string \<Rightarrow> string" where
  "pct_ref [] = []"
| "pct_ref (c # cs) =
     (if c = CHR ''%'' \<and> 2 \<le> length cs then pct_byte (cs ! 0) (cs ! 1) # pct_ref (drop 2 cs)
      else c # pct_ref cs)"

lemma pct_ref_length: "length (pct_ref s) \<le> length s"
  by (induction s rule: pct_ref.induct) auto

text \<open>The written part never overtakes the read position, so the aliasing is harmless.\<close>

lemma pct_loop_ref:
  "outlen \<le> i \<Longrightarrow> i \<le> length buf \<Longrightarrow> len = length buf \<Longrightarrow>
   (let (buf', n) = pct_loop len buf i outlen
    in take n buf' = take outlen buf @ pct_ref (drop i buf) \<and> length buf' = length buf \<and>
       n = outlen + length (pct_ref (drop i buf)))"
proof (induction len buf i outlen rule: pct_loop.induct)
  case (1 len buf i outlen)
  show ?case
  proof (cases "i < len")
    case False
    with 1 show ?thesis by (subst pct_loop.simps) simp
  next
    case True
    with 1 have d: "drop i buf = buf ! i # drop (i + 1) buf" by (simp add: Cons_nth_drop_Suc)
    show ?thesis
    proof (cases "buf ! i = CHR ''%'' \<and> i + 2 < len")
      case c: True
      have d3: "drop 2 (drop (Suc i) buf) = drop (i + 3) buf" by (simp add: numeral_eq_Suc)
      have "pct_ref (drop i buf) = pct_byte (buf ! (i + 1)) (buf ! (i + 2)) # pct_ref (drop (i + 3) buf)"
      proof -
        have l: "2 \<le> length (drop (i + 1) buf)" using c "1.prems" by simp linarith
        have "drop (i + 1) buf ! 0 = buf ! (i + 1)" "drop (i + 1) buf ! 1 = buf ! (i + 2)"
          using l by (simp_all add: numeral_eq_Suc)
        with l c show ?thesis unfolding d by (simp add: d3 del: drop_drop nth_drop length_drop)
      qed
      with c True "1.IH"(1) "1.prems" show ?thesis
        by (subst pct_loop.simps) (auto simp: Let_def take_Suc_conv_app_nth split: prod.splits)
    next
      case c: False
      then have "pct_ref (drop i buf) = buf ! i # pct_ref (drop (i + 1) buf)"
        using 1 unfolding d by auto
      with c True "1.IH"(2) "1.prems" show ?thesis
        by (subst pct_loop.simps) (auto simp: Let_def take_Suc_conv_app_nth split: prod.splits)
    qed
  qed
qed

lemma from_percent_encoding_ref: "from_percent_encoding s = pct_ref s"
  using pct_loop_ref [of 0 0 s "length s"]
  by (cases "pct_loop (length s) s 0 0") (auto simp: from_percent_encoding_def)

text \<open>A percent encoder, to state what decoding undoes: every byte as \<open>%XY\<close>.\<close>

definition hex_char :: "nat \<Rightarrow> char" where
  "hex_char d = (if d < 10 then chr (48 + d) else chr (55 + d))"

definition pct_enc_byte :: "char \<Rightarrow> string" where
  "pct_enc_byte c = [CHR ''%'', hex_char (uchar c div 16), hex_char (uchar c mod 16)]"

fun pct_enc :: "(char \<Rightarrow> bool) \<Rightarrow> string \<Rightarrow> string" where
  "pct_enc keep [] = []"
| "pct_enc keep (c # cs) =
     (if keep c \<and> c \<noteq> CHR ''%'' then [c] else pct_enc_byte c) @ pct_enc keep cs"

lemma hex_digit_hex_char: "d < 16 \<Longrightarrow> hex_digit (schar (hex_char d)) = int d"
  by (simp add: hex_digit_def schar_def hex_char_def Let_def)

lemma nibbles_or: "b < 16 \<Longrightarrow> push_bit 4 (int a) OR int b = int (16 * a + b)"
proof -
  assume "b < 16"
  then have b: "take_bit 4 (int b) = int b" by (simp add: take_bit_eq_mod)
  have "push_bit 4 (int a) AND take_bit 4 (int b) = 0" by (rule bit_eqI) (simp add: bit_simps)
  then have "push_bit 4 (int a) + take_bit 4 (int b) = push_bit 4 (int a) OR take_bit 4 (int b)"
    by (rule disjunctive_add_eq_or)
  with b show ?thesis by (simp add: push_bit_eq_mult)
qed

lemma pct_byte_hex: "pct_byte (hex_char (uchar c div 16)) (hex_char (uchar c mod 16)) = c"
proof -
  have "uchar c div 16 < 16" using nat_of_char_less_256 [of c] by linarith
  then have "pct_byte (hex_char (uchar c div 16)) (hex_char (uchar c mod 16)) =
      to_char (int (16 * (uchar c div 16) + uchar c mod 16))"
    by (simp add: pct_byte_def hex_digit_hex_char nibbles_or del: of_nat_add of_nat_mult)
  also have "16 * (uchar c div 16) + uchar c mod 16 = uchar c" by simp
  also have "to_char (int (uchar c)) = c"
    using nat_of_char_less_256 [of c] by (simp add: to_char_def)
  finally show ?thesis .
qed

lemma pct_ref_enc: "pct_ref (pct_enc keep s) = s"
  by (induction s) (auto simp: pct_enc_byte_def pct_byte_hex)

lemma pct_ref_no_percent: "CHR ''%'' \<notin> set s \<Longrightarrow> pct_ref s = s"
  by (induction s) auto

section \<open>Paths\<close>

definition file_name :: "string \<Rightarrow> string" where
  "file_name f = (case str_rfind (CHR ''/'') f of None \<Rightarrow> f | Some pos \<Rightarrow> drop (pos + 1) f)"

definition file_path :: "string \<Rightarrow> string" where
  "file_path f =
     (case str_rfind (CHR ''/'') f of None \<Rightarrow> ''.'' | Some pos \<Rightarrow> take (pos + 1) f)"

lemma file_name_no_slash: "CHR ''/'' \<notin> set (file_name f)"
proof (cases "str_rfind (CHR ''/'') f")
  case None
  then have "CHR ''/'' \<notin> set f" by (rule str_rfind_None_iff [THEN iffD1])
  with None show ?thesis by (simp only: file_name_def option.case not_False_eq_True)
next
  case (Some i)
  from str_rfind_Some [OF Some] Some show ?thesis by (simp add: file_name_def)
qed


section \<open>Properties\<close>

lemma str_split_loop_empty_sep:
  assumes "str_split_loop [] ign strs acc = Some l"
  shows False
proof -
  have "\<And>sp ign strs acc l. str_split_loop sp ign strs acc = Some l \<Longrightarrow> sp \<noteq> []"
  proof (erule str_split_loop.raw_induct [where P = "\<lambda>sp ign strs acc l. sp \<noteq> []", rotated])
    fix f sp ign strs acc and l :: "string list"
    assume IH: "\<And>sp ign strs acc l. f sp ign strs acc = Some l \<Longrightarrow> sp \<noteq> []"
      and eq: "(case str_find sp strs of None \<Rightarrow> Some acc
         | Some pos \<Rightarrow> f sp ign (drop (pos + length sp) strs)
             (if take pos strs \<noteq> [] \<or> \<not> ign then acc @ [take pos strs] else acc)) = Some l"
    show "sp \<noteq> []"
    proof (cases "str_find sp strs")
      case None
      then show ?thesis by (cases strs) auto
    next
      case (Some pos)
      with eq IH show ?thesis by auto
    qed
  qed
  with assms show False by blast
qed

lemma str_replace_loop_empty_old:
  assumes "str_replace_loop [] new str p n = Some r" "p \<le> length str"
  shows False
proof -
  have "\<And>old new str p n r. str_replace_loop old new str p n = Some r \<Longrightarrow> p \<le> length str \<Longrightarrow> old \<noteq> []"
  proof (erule str_replace_loop.raw_induct
      [where P = "\<lambda>old new str p n r. p \<le> length str \<longrightarrow> old \<noteq> []", rotated, THEN mp], simp, intro impI)
    fix f old new str p and n :: nat and r :: "string \<times> nat"
    assume IH: "\<And>old new str p n r. f old new str p n = Some r \<Longrightarrow> p \<le> length str \<longrightarrow> old \<noteq> []"
      and eq: "(case str_find_from old str p of None \<Rightarrow> Some (str, n)
         | Some start \<Rightarrow> f old new (take start str @ new @ drop (start + length old) str)
             (start + length new) n) = Some r"
      and p: "p \<le> length str"
    show "old \<noteq> []"
    proof
      assume "old = []"
      then have "str_find old (drop p str) = Some 0" by (cases "drop p str") auto
      with p have "str_find_from old str p = Some p" by (simp add: str_find_from_def)
      with eq IH p \<open>old = []\<close> show False by fastforce
    qed
  qed
  with assms show False by blast
qed

text \<open>The decimal printing of a number is read back by \<open>stoui64\<close>, saturating at
  \<open>2\<^sup>6\<^sup>4 - 1\<close>, and the narrower readers return its low bits.\<close>

theorem stoui_dec:
  "stoui64 (dec n) 10 = (if n < 2 ^ 64 then of_nat n else - 1) \<and>
   stoui32 (dec n) 10 = ucast (stoui64 (dec n) 10) \<and>
   stoui16 (dec n) 10 = ucast (stoui64 (dec n) 10) \<and>
   stoui8 (dec n) 10 = ucast (stoui64 (dec n) 10)"
  by (simp add: stoui64_def stoui32_def stoui16_def stoui8_def strtoul_def strto_parse_dec)

text \<open>Splitting at a character and joining with the same character gives the text back, and no
  piece contains the separator.\<close>

theorem split_join_roundtrip:
  "\<exists>l. str_split s [c] False = Some l \<and> str_list_join l [c] = s \<and> c \<notin> set (concat l)"
  by (cases "s = []")
    (auto simp: str_split_char str_list_join_eq join_pieces dest: pieces_free)

text \<open>\<open>str_split\<close> fails to return exactly for a text that is not empty and an empty separator.\<close>

theorem str_split_returns_iff:
  "str_split s sep ign = None \<longleftrightarrow> s \<noteq> [] \<and> sep = []"
proof (cases "sep = []")
  case True
  have "str_split_loop [] ign strs acc = None" for strs acc
    using str_split_loop_empty_sep [of ign strs acc] by (cases "str_split_loop [] ign strs acc") auto
  with True show ?thesis by (simp add: str_split_def)
next
  case False
  with str_split_returns [OF this, of s ign] show ?thesis by auto
qed

text \<open>\<open>str_replace\<close> does not return for an empty pattern; for any other it replaces the
  occurrences from left to right, and the count it returns is always 0.\<close>

theorem str_replace_result:
  "str_replace s old new = (if old = [] then None else Some (replace_ref old new s, 0))"
proof (cases "old = []")
  case True
  then show ?thesis
    using str_replace_loop_empty_old [of new s 0 0]
    by (cases "str_replace s old new") (auto simp: str_replace_def)
qed (simp add: str_replace_ref)

text \<open>The suffix test of the pre-C++20 branch accepts the texts that end with the reversed suffix.\<close>

theorem str_ends_with_reversed: "str_ends_with str suf \<longleftrightarrow> suffix (rev suf) str"
  by (rule str_ends_with_rev)

text \<open>Trimming removes blanks (bytes 1 to 32) from both ends, only those, and all of them.\<close>

theorem str_trimmed_correct:
  "(\<exists>a b. s = a @ str_trimmed s @ b \<and> list_all trim_char (a @ b)) \<and>
   takeWhile trim_char (str_trimmed s) = [] \<and> takeWhile trim_char (rev (str_trimmed s)) = [] \<and>
   str_trimmed (str_trimmed s) = str_trimmed s"
proof (intro conjI)
  let ?d = "dropWhile trim_char s"
  have "s = takeWhile trim_char s @ rev (dropWhile trim_char (rev ?d)) @ rev (takeWhile trim_char (rev ?d))"
    by (metis rev_append rev_rev_ident takeWhile_dropWhile_id)
  then show "\<exists>a b. s = a @ str_trimmed s @ b \<and> list_all trim_char (a @ b)"
    unfolding str_trimmed_ref trim_ref_def list_all_iff
    by (metis UnE set_append set_rev set_takeWhileD)
  show "takeWhile trim_char (str_trimmed s) = []" "takeWhile trim_char (rev (str_trimmed s)) = []"
    using trim_ref_no_ends [of s]
    by (auto simp: str_trimmed_ref takeWhile_eq_Nil_iff hd_rev)
  show "str_trimmed (str_trimmed s) = str_trimmed s"
    by (simp add: str_trimmed_ref trim_ref_idem)
qed

text \<open>The in-place decoder computes the one-pass reference on every input, never lengthens the
  text, and undoes percent-encoding whatever characters the encoder leaves alone.\<close>

theorem percent_decoding:
  "from_percent_encoding s = pct_ref s \<and>
   length (from_percent_encoding s) \<le> length s \<and>
   from_percent_encoding (pct_enc keep t) = t"
  by (simp add: from_percent_encoding_ref pct_ref_length pct_ref_enc)

text \<open>A path is its directory part followed by its file name, which holds no slash.\<close>

theorem file_path_name:
  "file_path f @ file_name f = (if CHR ''/'' \<in> set f then f else CHR ''.'' # f) \<and>
   CHR ''/'' \<notin> set (file_name f)"
proof -
  have "file_path f @ file_name f = (if CHR ''/'' \<in> set f then f else CHR ''.'' # f)"
  proof (cases "str_rfind (CHR ''/'') f")
    case None
    then have no: "CHR ''/'' \<notin> set f" by (rule str_rfind_None_iff [THEN iffD1])
    show ?thesis by (simp only: file_name_def file_path_def None option.case no if_False append.simps)
  next
    case (Some i)
    then have "CHR ''/'' \<in> set f" using str_rfind_Some [OF Some] nth_mem by metis
    with Some show ?thesis by (simp add: file_name_def file_path_def)
  qed
  with file_name_no_slash show ?thesis by blast
qed

end
