(* ===== verification/HttpMap.thy ===== *)
theory HttpMap
  imports Algorithm
begin

text \<open>
  \<open>gts/value.h\<close>, \<open>gts/detail/value.h\<close>: the string value with its conversions, and the two
  containers of \<open>gts/http/container.h\<close>, \<open>gts/http/detail/container.h\<close>.  An \<open>http::map\<close> is
  a \<open>std::map\<close>: an association list kept in the order of its comparison, which also decides
  when two keys are the same.  An \<open>http::unordered_map\<close> is an association list whose order
  stands for the iteration order of the container.  Floating point conversions are not
  modelled.  The interface both offer to the rest of the program is the locale
  \<open>keyed_store\<close>.
\<close>

section \<open>Values\<close>

type_synonym val = string

definition get_bool :: "val \<Rightarrow> bool" where "get_bool v = stob v"

definition get_i8 :: "val \<Rightarrow> u8" where "get_i8 v = stoi8 v 10"
definition get_u8 :: "val \<Rightarrow> u8" where "get_u8 v = stoui8 v 10"
definition get_i16 :: "val \<Rightarrow> u16" where "get_i16 v = stoi16 v 10"
definition get_u16 :: "val \<Rightarrow> u16" where "get_u16 v = stoui16 v 10"
definition get_i32 :: "val \<Rightarrow> u32" where "get_i32 v = stoi32 v 10"
definition get_u32 :: "val \<Rightarrow> u32" where "get_u32 v = stoui32 v 10"
definition get_i64 :: "val \<Rightarrow> u64" where "get_i64 v = stoi64 v 10"
definition get_u64 :: "val \<Rightarrow> u64" where "get_u64 v = stoui64 v 10"

text \<open>\<open>get<long long>\<close> goes through the unsigned conversion.\<close>

definition get_llong :: "val \<Rightarrow> u64" where "get_llong v = stoui64 v 10"

definition to_bool :: "val \<Rightarrow> bool" where "to_bool v = get_bool v"
definition to_int :: "val \<Rightarrow> u32" where "to_int v = get_i32 v"
definition to_uint :: "val \<Rightarrow> u32" where "to_uint v = get_u32 v"
definition to_long :: "val \<Rightarrow> u64" where "to_long v = get_i64 v"
definition to_ulong :: "val \<Rightarrow> u64" where "to_ulong v = get_u64 v"

text \<open>\<open>set_value\<close> of a number or a flag prints it with \<open>fmt\<close>.\<close>

definition value_of_u64 :: "u64 \<Rightarrow> val" where
  "value_of_u64 n = dec (unat n)"

definition value_of_bool :: "bool \<Rightarrow> val" where
  "value_of_bool b = (if b then ''true'' else ''false'')"

section \<open>The comparisons\<close>

fun lex_compare :: "(char \<Rightarrow> char \<Rightarrow> bool) \<Rightarrow> string \<Rightarrow> string \<Rightarrow> bool" where
  "lex_compare c xs [] = False"
| "lex_compare c [] (y # ys) = True"
| "lex_compare c (x # xs) (y # ys) =
     (if c x y then True else if c y x then False else lex_compare c xs ys)"

definition nocase_compare :: "char \<Rightarrow> char \<Rightarrow> bool" where
  "nocase_compare c1 c2 = (uchar (tolower c1) < uchar (tolower c2))"

definition less_case_insensitive :: "string \<Rightarrow> string \<Rightarrow> bool" where
  "less_case_insensitive v1 v2 = lex_compare nocase_compare v1 v2"

definition std_less :: "string \<Rightarrow> string \<Rightarrow> bool" where
  "std_less v1 v2 = lex_compare (\<lambda>a b. uchar a < uchar b) v1 v2"

section \<open>The ordered map\<close>

type_synonym 'v smap = "(string \<times> 'v) list"

definition same_key :: "(string \<Rightarrow> string \<Rightarrow> bool) \<Rightarrow> string \<Rightarrow> string \<Rightarrow> bool" where
  "same_key lt a b = (\<not> lt a b \<and> \<not> lt b a)"

fun map_find :: "(string \<Rightarrow> string \<Rightarrow> bool) \<Rightarrow> 'v smap \<Rightarrow> string \<Rightarrow> 'v option" where
  "map_find lt [] k = None"
| "map_find lt ((q, w) # m) k = (if same_key lt q k then Some w else map_find lt m k)"

fun map_ins :: "(string \<Rightarrow> string \<Rightarrow> bool) \<Rightarrow> 'v smap \<Rightarrow> string \<Rightarrow> 'v \<Rightarrow> 'v smap" where
  "map_ins lt [] k v = [(k, v)]"
| "map_ins lt ((q, w) # m) k v =
     (if lt q k then (q, w) # map_ins lt m k v else (k, v) # (q, w) # m)"

definition map_emplace ::
  "(string \<Rightarrow> string \<Rightarrow> bool) \<Rightarrow> 'v smap \<Rightarrow> string \<Rightarrow> 'v \<Rightarrow> 'v smap \<times> bool" where
  "map_emplace lt m k v =
     (case map_find lt m k of Some _ \<Rightarrow> (m, False) | None \<Rightarrow> (map_ins lt m k v, True))"

text \<open>\<open>m[k] = v\<close>: an equivalent key keeps its spelling.\<close>

definition map_put :: "(string \<Rightarrow> string \<Rightarrow> bool) \<Rightarrow> 'v smap \<Rightarrow> string \<Rightarrow> 'v \<Rightarrow> 'v smap" where
  "map_put lt m k v =
     (case map_find lt m k of
        Some _ \<Rightarrow> map (\<lambda>(q, w). if same_key lt q k then (q, v) else (q, w)) m
      | None \<Rightarrow> map_ins lt m k v)"

definition map_erase :: "(string \<Rightarrow> string \<Rightarrow> bool) \<Rightarrow> 'v smap \<Rightarrow> string \<Rightarrow> 'v smap" where
  "map_erase lt m k = filter (\<lambda>(q, w). \<not> same_key lt q k) m"

definition map_ok :: "(string \<Rightarrow> string \<Rightarrow> bool) \<Rightarrow> 'v smap \<Rightarrow> bool" where
  "map_ok lt m = sorted_wrt lt (map fst m)"

section \<open>The unordered map\<close>

type_synonym 'v umap = "(string \<times> 'v) list"

definition umap_find :: "'v umap \<Rightarrow> string \<Rightarrow> 'v option" where
  "umap_find m k = map_of m k"

definition umap_emplace :: "'v umap \<Rightarrow> string \<Rightarrow> 'v \<Rightarrow> 'v umap \<times> bool" where
  "umap_emplace m k v =
     (case umap_find m k of Some _ \<Rightarrow> (m, False) | None \<Rightarrow> (m @ [(k, v)], True))"

definition umap_put :: "'v umap \<Rightarrow> string \<Rightarrow> 'v \<Rightarrow> 'v umap" where
  "umap_put m k v =
     (case umap_find m k of
        Some _ \<Rightarrow> map (\<lambda>(q, w). if q = k then (q, v) else (q, w)) m
      | None \<Rightarrow> m @ [(k, v)])"

definition umap_erase :: "'v umap \<Rightarrow> string \<Rightarrow> 'v umap" where
  "umap_erase m k = filter (\<lambda>(q, w). q \<noteq> k) m"

definition umap_ok :: "'v umap \<Rightarrow> bool" where
  "umap_ok m = distinct (map fst m)"

section \<open>Reading a typed value\<close>

text \<open>\<open>value_*(key, default)\<close>, and \<open>value_*(key)\<close>, which asserts that the key is present
  (\<open>None\<close> is the failed assertion).\<close>

definition map_value_or :: "(string \<Rightarrow> string \<Rightarrow> bool) \<Rightarrow> 'v smap \<Rightarrow> string \<Rightarrow> 'v \<Rightarrow> 'v" where
  "map_value_or lt m k d = (case map_find lt m k of None \<Rightarrow> d | Some v \<Rightarrow> v)"

definition map_value :: "(string \<Rightarrow> string \<Rightarrow> bool) \<Rightarrow> 'v smap \<Rightarrow> string \<Rightarrow> 'v option" where
  "map_value lt m k = map_find lt m k"

definition map_index :: "(string \<Rightarrow> string \<Rightarrow> bool) \<Rightarrow> 'v smap \<Rightarrow> string \<Rightarrow> 'v option" where
  "map_index lt m k = map_find lt m k"

definition map_value_bool_or :: "(string \<Rightarrow> string \<Rightarrow> bool) \<Rightarrow> val smap \<Rightarrow> string \<Rightarrow> bool \<Rightarrow> bool" where
  "map_value_bool_or lt m k d = (case map_find lt m k of None \<Rightarrow> d | Some v \<Rightarrow> to_bool v)"

definition map_value_int_or :: "(string \<Rightarrow> string \<Rightarrow> bool) \<Rightarrow> val smap \<Rightarrow> string \<Rightarrow> u32 \<Rightarrow> u32" where
  "map_value_int_or lt m k d = (case map_find lt m k of None \<Rightarrow> d | Some v \<Rightarrow> to_int v)"

definition map_value_uint_or :: "(string \<Rightarrow> string \<Rightarrow> bool) \<Rightarrow> val smap \<Rightarrow> string \<Rightarrow> u32 \<Rightarrow> u32" where
  "map_value_uint_or lt m k d = (case map_find lt m k of None \<Rightarrow> d | Some v \<Rightarrow> to_uint v)"

definition map_value_long_or :: "(string \<Rightarrow> string \<Rightarrow> bool) \<Rightarrow> val smap \<Rightarrow> string \<Rightarrow> u64 \<Rightarrow> u64" where
  "map_value_long_or lt m k d = (case map_find lt m k of None \<Rightarrow> d | Some v \<Rightarrow> to_long v)"

definition map_value_ulong_or :: "(string \<Rightarrow> string \<Rightarrow> bool) \<Rightarrow> val smap \<Rightarrow> string \<Rightarrow> u64 \<Rightarrow> u64" where
  "map_value_ulong_or lt m k d = (case map_find lt m k of None \<Rightarrow> d | Some v \<Rightarrow> to_ulong v)"

definition map_value_bool :: "(string \<Rightarrow> string \<Rightarrow> bool) \<Rightarrow> val smap \<Rightarrow> string \<Rightarrow> bool option" where
  "map_value_bool lt m k = (case map_find lt m k of None \<Rightarrow> None | Some v \<Rightarrow> Some (to_bool v))"

definition map_value_int :: "(string \<Rightarrow> string \<Rightarrow> bool) \<Rightarrow> val smap \<Rightarrow> string \<Rightarrow> u32 option" where
  "map_value_int lt m k = (case map_find lt m k of None \<Rightarrow> None | Some v \<Rightarrow> Some (to_int v))"

definition map_value_uint :: "(string \<Rightarrow> string \<Rightarrow> bool) \<Rightarrow> val smap \<Rightarrow> string \<Rightarrow> u32 option" where
  "map_value_uint lt m k = (case map_find lt m k of None \<Rightarrow> None | Some v \<Rightarrow> Some (to_uint v))"

definition map_value_long :: "(string \<Rightarrow> string \<Rightarrow> bool) \<Rightarrow> val smap \<Rightarrow> string \<Rightarrow> u64 option" where
  "map_value_long lt m k = (case map_find lt m k of None \<Rightarrow> None | Some v \<Rightarrow> Some (to_long v))"

definition map_value_ulong :: "(string \<Rightarrow> string \<Rightarrow> bool) \<Rightarrow> val smap \<Rightarrow> string \<Rightarrow> u64 option" where
  "map_value_ulong lt m k = (case map_find lt m k of None \<Rightarrow> None | Some v \<Rightarrow> Some (to_ulong v))"

definition umap_value_or :: "'v umap \<Rightarrow> string \<Rightarrow> 'v \<Rightarrow> 'v" where
  "umap_value_or m k d = (case umap_find m k of None \<Rightarrow> d | Some v \<Rightarrow> v)"

definition umap_value :: "'v umap \<Rightarrow> string \<Rightarrow> 'v option" where
  "umap_value m k = umap_find m k"

definition umap_index :: "'v umap \<Rightarrow> string \<Rightarrow> 'v option" where
  "umap_index m k = umap_find m k"

definition umap_value_bool_or :: "val umap \<Rightarrow> string \<Rightarrow> bool \<Rightarrow> bool" where
  "umap_value_bool_or m k d = (case umap_find m k of None \<Rightarrow> d | Some v \<Rightarrow> to_bool v)"

definition umap_value_int_or :: "val umap \<Rightarrow> string \<Rightarrow> u32 \<Rightarrow> u32" where
  "umap_value_int_or m k d = (case umap_find m k of None \<Rightarrow> d | Some v \<Rightarrow> to_int v)"

definition umap_value_uint_or :: "val umap \<Rightarrow> string \<Rightarrow> u32 \<Rightarrow> u32" where
  "umap_value_uint_or m k d = (case umap_find m k of None \<Rightarrow> d | Some v \<Rightarrow> to_uint v)"

definition umap_value_long_or :: "val umap \<Rightarrow> string \<Rightarrow> u64 \<Rightarrow> u64" where
  "umap_value_long_or m k d = (case umap_find m k of None \<Rightarrow> d | Some v \<Rightarrow> to_long v)"

definition umap_value_ulong_or :: "val umap \<Rightarrow> string \<Rightarrow> u64 \<Rightarrow> u64" where
  "umap_value_ulong_or m k d = (case umap_find m k of None \<Rightarrow> d | Some v \<Rightarrow> to_ulong v)"

definition umap_value_bool :: "val umap \<Rightarrow> string \<Rightarrow> bool option" where
  "umap_value_bool m k = (case umap_find m k of None \<Rightarrow> None | Some v \<Rightarrow> Some (to_bool v))"

definition umap_value_int :: "val umap \<Rightarrow> string \<Rightarrow> u32 option" where
  "umap_value_int m k = (case umap_find m k of None \<Rightarrow> None | Some v \<Rightarrow> Some (to_int v))"

definition umap_value_uint :: "val umap \<Rightarrow> string \<Rightarrow> u32 option" where
  "umap_value_uint m k = (case umap_find m k of None \<Rightarrow> None | Some v \<Rightarrow> Some (to_uint v))"

definition umap_value_long :: "val umap \<Rightarrow> string \<Rightarrow> u64 option" where
  "umap_value_long m k = (case umap_find m k of None \<Rightarrow> None | Some v \<Rightarrow> Some (to_long v))"

definition umap_value_ulong :: "val umap \<Rightarrow> string \<Rightarrow> u64 option" where
  "umap_value_ulong m k = (case umap_find m k of None \<Rightarrow> None | Some v \<Rightarrow> Some (to_ulong v))"

section \<open>The interface\<close>

text \<open>What the callers rely on: keys are compared up to a normal form; \<open>put\<close> overwrites,
  \<open>emplace\<close> does not, \<open>erase\<close> removes.\<close>

locale keyed_store =
  fixes ok :: "'m \<Rightarrow> bool"
    and nil :: 'm
    and lookup :: "'m \<Rightarrow> string \<Rightarrow> 'v option"
    and put :: "'m \<Rightarrow> string \<Rightarrow> 'v \<Rightarrow> 'm"
    and emplace :: "'m \<Rightarrow> string \<Rightarrow> 'v \<Rightarrow> 'm \<times> bool"
    and erase :: "'m \<Rightarrow> string \<Rightarrow> 'm"
    and norm :: "string \<Rightarrow> string"
  assumes ok_nil: "ok nil"
    and lookup_nil: "lookup nil k = None"
    and lookup_norm: "norm a = norm b \<Longrightarrow> lookup m a = lookup m b"
    and ok_put: "ok m \<Longrightarrow> ok (put m k v)"
    and lookup_put: "ok m \<Longrightarrow> lookup (put m k v) q = (if norm q = norm k then Some v else lookup m q)"
    and ok_emplace: "ok m \<Longrightarrow> ok (fst (emplace m k v))"
    and lookup_emplace: "ok m \<Longrightarrow> lookup (fst (emplace m k v)) q =
      (if norm q = norm k \<and> lookup m k = None then Some v else lookup m q)"
    and emplace_new: "snd (emplace m k v) = (lookup m k = None)"
    and ok_erase: "ok m \<Longrightarrow> ok (erase m k)"
    and lookup_erase: "ok m \<Longrightarrow> lookup (erase m k) q = (if norm q = norm k then None else lookup m q)"
begin

definition put_all :: "(string \<times> 'v) list \<Rightarrow> 'm \<Rightarrow> 'm" where
  "put_all kvs m = fold (\<lambda>(k, v) m. put m k v) kvs m"

lemma ok_put_all: "ok m \<Longrightarrow> ok (put_all kvs m)"
  by (induction kvs arbitrary: m) (auto simp: put_all_def ok_put)

text \<open>After storing a list of fields a look-up finds the last field of that name.\<close>

lemma lookup_put_all:
  "ok m \<Longrightarrow> lookup (put_all kvs m) q =
     (case map_of (rev (map (\<lambda>(k, v). (norm k, v)) kvs)) (norm q) of
        Some v \<Rightarrow> Some v | None \<Rightarrow> lookup m q)"
proof (induction kvs rule: rev_induct)
  case Nil
  then show ?case by (simp add: put_all_def)
next
  case (snoc kv kvs)
  obtain k v where kv: "kv = (k, v)" by (cases kv)
  have "put_all (kvs @ [kv]) m = put (put_all kvs m) k v"
    by (simp add: put_all_def kv)
  with snoc show ?case by (simp add: kv lookup_put ok_put_all)
qed

lemma put_erase: "ok m \<Longrightarrow> lookup (put (erase m k) k v) q = lookup (put m k v) q"
  by (simp add: lookup_put lookup_erase ok_erase)

lemma put_commute:
  "ok m \<Longrightarrow> norm a \<noteq> norm b \<Longrightarrow> lookup (put (put m a v) b w) q = lookup (put (put m b w) a v) q"
  by (simp add: lookup_put ok_put)

lemma emplace_present: "ok m \<Longrightarrow> lookup m k = Some w \<Longrightarrow> lookup (fst (emplace m k v)) q = lookup m q"
  by (simp add: lookup_emplace)

end

text \<open>A comparison that orders the keys by a normal form.\<close>

locale ordered_keys =
  fixes lt :: "string \<Rightarrow> string \<Rightarrow> bool"
    and norm :: "string \<Rightarrow> string"
  assumes less_norm: "lt a b = (norm a < norm b)"
begin

lemma same_key_norm: "same_key lt a b = (norm a = norm b)"
  by (auto simp: same_key_def less_norm)

lemma map_ok_norm: "map_ok lt m = sorted_wrt (<) (map (\<lambda>(k, v). norm k) m)"
  by (simp add: map_ok_def less_norm sorted_wrt_map case_prod_beta)

lemma map_find_norm: "map_find lt m k = map_of (map (\<lambda>(q, w). (norm q, w)) m) (norm k)"
  by (induction m) (auto simp: same_key_norm)

lemma map_ins_keys: "set (map_ins lt m k v) = insert (k, v) (set m)"
  by (induction lt m k v rule: map_ins.induct) auto

lemma map_ins_ok: "map_ok lt m \<Longrightarrow> map_find lt m k = None \<Longrightarrow> map_ok lt (map_ins lt m k v)"
proof (induction m)
  case Nil
  then show ?case by (simp add: map_ok_def)
next
  case (Cons qw m)
  obtain q w where qw: "qw = (q, w)" by (cases qw)
  from Cons.prems have tail: "map_ok lt m" "map_find lt m k = None" and ne: "norm q \<noteq> norm k"
    by (auto simp: map_ok_def qw same_key_norm split: if_splits)
  show ?case
  proof (cases "lt q k")
    case True
    have "lt q (fst x)" if "x \<in> set (map_ins lt m k v)" for x
      using that Cons.prems True by (auto simp: map_ins_keys map_ok_def qw)
    with Cons.IH [OF tail] True show ?thesis by (auto simp: map_ok_def qw)
  next
    case False
    with ne have kq: "lt k q" by (auto simp: less_norm)
    have "lt k (fst x)" if "x \<in> set m" for x
      using that Cons.prems kq by (auto simp: map_ok_def qw less_norm)
    with False kq Cons.prems show ?thesis by (auto simp: map_ok_def qw)
  qed
qed

lemma map_ins_find:
  "map_find lt m k = None \<Longrightarrow>
   map_find lt (map_ins lt m k v) j = (if norm j = norm k then Some v else map_find lt m j)"
  by (induction m) (auto simp: same_key_norm split: if_splits)

lemma map_upd_ok: "map_ok lt m \<Longrightarrow> map_ok lt (map (\<lambda>(q, w). if same_key lt q k then (q, v) else (q, w)) m)"
proof -
  have "map fst (map (\<lambda>(q, w). if same_key lt q k then (q, v) else (q, w)) m) = map fst m"
    by (induction m) auto
  then show "map_ok lt m \<Longrightarrow> ?thesis" by (simp only: map_ok_def)
qed

lemma map_upd_find_other:
  "norm j \<noteq> norm k \<Longrightarrow>
   map_find lt (map (\<lambda>(q, w). if same_key lt q k then (q, v) else (q, w)) m) j = map_find lt m j"
  by (induction m) (auto simp: same_key_norm)

lemma map_upd_find:
  "map_find lt m k \<noteq> None \<Longrightarrow>
   map_find lt (map (\<lambda>(q, w). if same_key lt q k then (q, v) else (q, w)) m) j =
     (if norm j = norm k then Some v else map_find lt m j)"
  using map_upd_find_other [of j k v m]
  by (cases "norm j = norm k") (simp, induction m, auto simp: same_key_norm split: if_splits)

lemma map_erase_find:
  "map_find lt (map_erase lt m k) j = (if norm j = norm k then None else map_find lt m j)"
  by (induction m) (auto simp: map_erase_def same_key_norm)

lemma map_erase_ok: "map_ok lt m \<Longrightarrow> map_ok lt (map_erase lt m k)"
  unfolding map_ok_def map_erase_def by (induction m) auto

lemma ordered_store:
  "keyed_store (map_ok lt) [] (map_find lt) (map_put lt) (map_emplace lt) (map_erase lt) norm"
proof (unfold_locales, goal_cases)
  case 1 show ?case by (simp add: map_ok_def)
next
  case 2 show ?case by simp
next
  case 3 then show ?case by (simp add: map_find_norm)
next
  case 4 then show ?case
    by (auto simp: map_put_def map_ins_ok map_upd_ok split: option.split)
next
  case 5 then show ?case by (auto simp: map_put_def map_ins_find map_upd_find split: option.split)
next
  case 6 then show ?case by (auto simp: map_emplace_def map_ins_ok split: option.split)
next
  case (7 m k v q)
  have "map_find lt m q = map_find lt m k" if "norm q = norm k" using that by (simp add: map_find_norm)
  then show ?case by (auto simp: map_emplace_def map_ins_find split: option.split)
next
  case 8 show ?case by (auto simp: map_emplace_def split: option.split)
next
  case 9 then show ?case by (rule map_erase_ok)
next
  case 10 show ?case by (simp add: map_erase_find)
qed

end

sublocale ordered_keys \<subseteq> keyed_store "map_ok lt" "[]" "map_find lt" "map_put lt" "map_emplace lt"
    "map_erase lt" norm
  by (rule ordered_store)

section \<open>The two maps meet the interface\<close>

lemma lex_compare_less:
  assumes "\<And>a b. c a b = (f a < (f b :: char))"
  shows "lex_compare c xs ys = (map f xs < map f ys)"
proof (induction xs arbitrary: ys)
  case Nil
  then show ?case by (cases ys) auto
next
  case (Cons x xs)
  note IH = this
  have c: "c a b = (f a < f b)" for a b by (rule assms)
  show ?case
  proof (cases ys)
    case (Cons y zs)
    show ?thesis
      unfolding Cons lex_compare.simps list.map Cons_less_Cons
      by (cases "f x" "f y" rule: linorder_cases) (simp_all add: c IH order_less_imp_not_less)
  qed simp
qed

lemma less_case_insensitive_norm: "less_case_insensitive a b = (map tolower a < map tolower b)"
  unfolding less_case_insensitive_def
  by (rule lex_compare_less) (unfold nocase_compare_def less_char_def, rule refl)

lemma std_less_norm: "std_less a b = (id a < id b)"
proof -
  have "lex_compare (\<lambda>a b. uchar a < uchar b) a b = (map (\<lambda>c. c) a < map (\<lambda>c. c) b)"
    by (rule lex_compare_less) (unfold less_char_def, rule refl)
  then show ?thesis by (simp add: std_less_def)
qed

interpretation headers: ordered_keys less_case_insensitive "map tolower"
  by unfold_locales (rule less_case_insensitive_norm)

interpretation ordered: ordered_keys std_less id
  by unfold_locales (rule std_less_norm)

lemma umap_put_find:
  "map_of (map (\<lambda>(q, w). if q = k then (q, v) else (q, w)) m) j =
     (if j = k \<and> map_of m k \<noteq> None then Some v else map_of m j)"
  by (induction m) auto

interpretation unordered: keyed_store umap_ok "[]" umap_find umap_put umap_emplace umap_erase id
proof (unfold_locales, goal_cases)
  case 1 show ?case by (simp add: umap_ok_def)
next
  case 2 show ?case by (simp add: umap_find_def)
next
  case 3 then show ?case by simp
next
  case 4 then show ?case
    by (auto simp: umap_ok_def umap_put_def umap_find_def map_of_eq_None_iff comp_def case_prod_beta
        if_distrib cong: if_cong split: option.split)
next
  case 5 then show ?case
    by (auto simp: umap_put_def umap_find_def umap_put_find map_add_def split: option.splits)
next
  case 6 then show ?case
    by (auto simp: umap_ok_def umap_emplace_def umap_find_def map_of_eq_None_iff split: option.split)
next
  case 7 then show ?case
    by (auto simp: umap_emplace_def umap_find_def map_add_def split: option.splits)
next
  case 8 show ?case by (auto simp: umap_emplace_def umap_find_def split: option.split)
next
  case (9 m k) then show ?case
    unfolding umap_ok_def umap_erase_def by (induction m) auto
next
  case (10 m k q) show ?case
    unfolding umap_find_def umap_erase_def by (induction m) auto
qed

section \<open>Properties\<close>

type_synonym headers = "val smap"

definition header_put :: "headers \<Rightarrow> string \<Rightarrow> val \<Rightarrow> headers" where
  "header_put h k v = map_put less_case_insensitive h k v"

definition header_find :: "headers \<Rightarrow> string \<Rightarrow> val option" where
  "header_find h k = map_find less_case_insensitive h k"

lemmas header_ops = header_put_def header_find_def

lemma fold_header_put: "fold (\<lambda>(k, v) h. header_put h k v) kvs h = headers.put_all kvs h"
  unfolding headers.put_all_def header_put_def ..

text \<open>A header map built by \<open>headers[key] = value\<close> from any list of fields returns for every
  spelling of a key the value of the last field whose key is equal up to case, and nothing for
  other keys.\<close>

theorem headers_last_field_any_case:
  "header_find (fold (\<lambda>(k, v) h. header_put h k v) kvs []) q =
     map_of (rev (map (\<lambda>(k, v). (map tolower k, v)) kvs)) (map tolower q)"
  unfolding fold_header_put header_find_def
  by (simp add: headers.lookup_put_all [OF headers.ok_nil] split: option.split)

text \<open>The same map is always in strictly increasing order of the lower-cased keys, so no two of
  its entries have keys that are equal up to case and iteration is sorted.\<close>

theorem headers_sorted:
  "sorted_wrt (<) (map (\<lambda>(k, v). map tolower k) (fold (\<lambda>(k, v) h. header_put h k v) kvs []))"
  unfolding fold_header_put
  using headers.ok_put_all [OF headers.ok_nil, of kvs] by (simp only: headers.map_ok_norm)

end
