(* ===== verification/HttpTypes.thy ===== *)
theory HttpTypes
  imports HttpMap
begin

text \<open>
  \<open>gts/http/types.h\<close> and \<open>types.cpp\<close>: the status codes with their descriptions, the request
  methods with their names and bit values, the names of the standard header fields, and
  \<open>registration::log2\<close>, which turns a method bit into the index of its handler.  A status is
  the integer of its enumerator; a failed \<open>assert\<close> is \<open>None\<close>.
\<close>

section \<open>Status codes\<close>

definition status_enum :: "(string \<times> int) list" where
  "status_enum = [
     (''hs_continue'', 100), (''hs_switching_protocols'', 101),
     (''hs_processing'', 102), (''hs_ok'', 200),
     (''hs_created'', 201), (''hs_accepted'', 202),
     (''hs_non_authoritative_information'', 203), (''hs_no_content'', 204),
     (''hs_reset_content'', 205), (''hs_partial_content'', 206),
     (''hs_multi_status'', 207), (''hs_already_reported'', 208),
     (''hs_im_used'', 226), (''hs_multiple_choices'', 300),
     (''hs_moved_permanently'', 301), (''hs_found'', 302),
     (''hs_see_other'', 303), (''hs_not_modified'', 304),
     (''hs_use_proxy'', 305), (''hs_temporary_redirect'', 307),
     (''hs_permanent_redirect'', 308), (''hs_bad_request'', 400),
     (''hs_unauthorized'', 401), (''hs_payment_required'', 402),
     (''hs_forbidden'', 403), (''hs_not_found'', 404),
     (''hs_method_not_allowed'', 405), (''hs_not_acceptable'', 406),
     (''hs_proxy_authentication_required'', 407), (''hs_request_timeout'', 408),
     (''hs_conflict'', 409), (''hs_gone'', 410),
     (''hs_length_required'', 411), (''hs_precondition_failed'', 412),
     (''hs_payload_too_large'', 413), (''hs_uri_too_long'', 414),
     (''hs_unsupported_media_type'', 415), (''hs_range_not_satisfiable'', 416),
     (''hs_expectation_failed'', 417), (''hs_misdirected_request'', 421),
     (''hs_unprocessable_entity'', 422), (''hs_locked'', 423),
     (''hs_failed_dependency'', 424), (''hs_upgrade_required'', 426),
     (''hs_precondition_required'', 428), (''hs_tooMany_requests'', 429),
     (''hs_request_header_fields_too_large'', 431), (''hs_unavailable_for_legal_reasons'', 451),
     (''hs_internal_server_error'', 500), (''hs_not_implemented'', 501),
     (''hs_bad_gateway'', 502), (''hs_service_unavailable'', 503),
     (''hs_gateway_timeout'', 504), (''hs_http_version_not_supported'', 505),
     (''hs_variant_also_negotiates'', 506), (''hs_insufficient_storage'', 507),
     (''hs_loop_detected'', 508), (''hs_not_extended'', 510),
     (''hs_network_authentication_required'', 511)]"

definition status_table :: "(int \<times> string) list" where
  "status_table = [
     (100, ''Continue''), (101, ''Switching Protocols''),
     (102, ''Processing''), (200, ''OK''),
     (201, ''Created''), (202, ''Accepted''),
     (203, ''Non-Authoritative Information''), (204, ''No Content''),
     (205, ''Reset Content''), (206, ''Partial Content''),
     (207, ''Multi-Status''), (208, ''Already Reported''),
     (226, ''IM Used''), (300, ''Multiple Choices''),
     (301, ''Moved Permanently''), (302, ''Found''),
     (303, ''See Other''), (304, ''Not Modified''),
     (305, ''Use Proxy''), (307, ''Temporary Redirect''),
     (308, ''Permanent Redirect''), (400, ''Bad Request''),
     (401, ''Unauthorized''), (402, ''Payment Required''),
     (403, ''Forbidden''), (404, ''Not Found''),
     (405, ''Method Not Allowed''), (406, ''Not Acceptable''),
     (407, ''Proxy Authentication Required''), (408, ''Request Timeout''),
     (409, ''Conflict''), (410, ''Gone''),
     (411, ''Length Required''), (412, ''Precondition Failed''),
     (413, ''Payload Too Large''), (414, ''URI Too Long''),
     (415, ''Unsupported Media Type''), (416, ''Range Not Satisfiable''),
     (417, ''Expectation Failed''), (421, ''Misdirected Request''),
     (422, ''Unprocessable Entity''), (423, ''Locked''),
     (424, ''Failed Dependency''), (426, ''Upgrade Required''),
     (428, ''Precondition Required''), (429, ''Too Many Requests''),
     (431, ''Request Header Fields Too Large''), (451, ''Unavailable For Legal Reasons''),
     (500, ''Internal Server Error''), (501, ''Not Implemented''),
     (502, ''Bad Gateway''), (503, ''Service Unavailable''),
     (504, ''Gateway Timeout''), (505, ''HTTP Version Not Supported''),
     (506, ''Variant Also Negotiates''), (507, ''Insufficient Storage''),
     (508, ''Loop Detected''), (510, ''Not Extended''),
     (511, ''Network Authentication Required'')]"

definition status_description :: "int \<Rightarrow> string option" where
  "status_description s = map_of status_table s"

abbreviation hs_ok :: int where "hs_ok \<equiv> 200"
abbreviation hs_switching_protocols :: int where "hs_switching_protocols \<equiv> 101"
abbreviation hs_bad_request :: int where "hs_bad_request \<equiv> 400"
abbreviation hs_not_found :: int where "hs_not_found \<equiv> 404"
abbreviation hs_partial_content :: int where "hs_partial_content \<equiv> 206"
abbreviation hs_range_not_satisfiable :: int where "hs_range_not_satisfiable \<equiv> 416"
abbreviation hs_internal_server_error :: int where "hs_internal_server_error \<equiv> 500"
abbreviation hs_forbidden :: int where "hs_forbidden \<equiv> 403"
abbreviation hs_method_not_allowed :: int where "hs_method_not_allowed \<equiv> 405"
abbreviation hs_payload_too_large :: int where "hs_payload_too_large \<equiv> 413"
abbreviation hs_moved_permanently :: int where "hs_moved_permanently \<equiv> 301"
abbreviation hs_permanent_redirect :: int where "hs_permanent_redirect \<equiv> 308"
abbreviation hs_found :: int where "hs_found \<equiv> 302"
abbreviation hs_see_other :: int where "hs_see_other \<equiv> 303"
abbreviation hs_temporary_redirect :: int where "hs_temporary_redirect \<equiv> 307"
abbreviation hs_not_implemented :: int where "hs_not_implemented \<equiv> 501"
abbreviation hs_service_unavailable :: int where "hs_service_unavailable \<equiv> 503"
abbreviation hs_multiple_choices :: int where "hs_multiple_choices \<equiv> 300"
abbreviation hs_not_modified :: int where "hs_not_modified \<equiv> 304"

section \<open>Methods\<close>

datatype http_method = METHOD_UNKNOWN | GET | PUT | POST | HEAD | DELETE | OPTIONS | CONNECT | TRACH

fun method_value :: "http_method \<Rightarrow> int" where
  "method_value METHOD_UNKNOWN = -1"
| "method_value GET = 0x01"
| "method_value PUT = 0x02"
| "method_value POST = 0x04"
| "method_value HEAD = 0x08"
| "method_value DELETE = 0x10"
| "method_value OPTIONS = 0x20"
| "method_value CONNECT = 0x40"
| "method_value TRACH = 0x80"

fun method_string :: "http_method \<Rightarrow> string option" where
  "method_string GET = Some ''GET''"
| "method_string PUT = Some ''PUT''"
| "method_string POST = Some ''POST''"
| "method_string HEAD = Some ''HEAD''"
| "method_string DELETE = Some ''DELETE''"
| "method_string OPTIONS = Some ''OPTIONS''"
| "method_string CONNECT = Some ''CONNECT''"
| "method_string TRACH = Some ''TRACH''"
| "method_string METHOD_UNKNOWN = None"

definition from_method_string :: "string \<Rightarrow> http_method" where
  "from_method_string m =
     (if m = ''GET'' then GET
      else if m = ''PUT'' then PUT
      else if m = ''POST'' then POST
      else if m = ''HEAD'' then HEAD
      else if m = ''DELETE'' then DELETE
      else if m = ''OPTIONS'' then OPTIONS
      else if m = ''CONNECT'' then CONNECT
      else if m = ''TRACH'' then TRACH
      else METHOD_UNKNOWN)"

text \<open>\<open>for(; sum != n; sum <<= 1, res++)\<close>: no bound on the loop (\<open>None\<close>: it does not end).\<close>

partial_function (option) log2_loop :: "u64 \<Rightarrow> u64 \<Rightarrow> nat \<Rightarrow> nat option" where
  "log2_loop n acc res =
     (if acc \<noteq> n then log2_loop n (push_bit 1 acc) (res + 1) else Some res)"

definition method_log2 :: "http_method \<Rightarrow> nat option" where
  "method_log2 m =
     (if \<not> (method_value GET \<le> method_value m \<and> method_value m \<le> method_value TRACH) then None
      else if m = GET then Some 0
      else log2_loop (word_of_int (method_value m)) 2 1)"

section \<open>Header names\<close>

definition hdr_accept_language :: string where "hdr_accept_language = ''Accept-Language''"
definition hdr_accept_encoding :: string where "hdr_accept_encoding = ''Accept-Encoding''"
definition hdr_accept_ranges :: string where "hdr_accept_ranges = ''Accept-Ranges''"
definition hdr_accept :: string where "hdr_accept = ''Accept''"
definition hdr_age :: string where "hdr_age = ''Age''"
definition hdr_content_encoding :: string where "hdr_content_encoding = ''Content-Encoding''"
definition hdr_content_length :: string where "hdr_content_length = ''Content-Length''"
definition hdr_cache_control :: string where "hdr_cache_control = ''Cache-Control''"
definition hdr_content_range :: string where "hdr_content_range = ''Content-Range''"
definition hdr_content_type :: string where "hdr_content_type = ''Content-Type''"
definition hdr_connection :: string where "hdr_connection = ''Connection''"
definition hdr_expires :: string where "hdr_expires = ''Expires''"
definition hdr_host :: string where "hdr_host = ''Host''"
definition hdr_last_modified :: string where "hdr_last_modified = ''Last-Modified''"
definition hdr_location :: string where "hdr_location = ''Location''"
definition hdr_origin :: string where "hdr_origin = ''Origin''"
definition hdr_referer :: string where "hdr_referer = ''Referer''"
definition hdr_range :: string where "hdr_range = ''Range''"
definition hdr_transfer_encoding :: string where "hdr_transfer_encoding = ''Transfer-Encoding''"
definition hdr_user_agent :: string where "hdr_user_agent = ''User-Agent''"
definition hdr_upgrade :: string where "hdr_upgrade = ''Upgrade''"

lemmas header_names = hdr_accept_language_def hdr_accept_encoding_def hdr_accept_ranges_def hdr_accept_def hdr_age_def hdr_content_encoding_def hdr_content_length_def hdr_cache_control_def hdr_content_range_def hdr_content_type_def hdr_connection_def hdr_expires_def hdr_host_def hdr_last_modified_def hdr_location_def hdr_origin_def hdr_referer_def hdr_range_def hdr_transfer_encoding_def hdr_user_agent_def hdr_upgrade_def

section \<open>Properties\<close>

text \<open>The description table covers the enumeration: its keys are, in order, the codes of the
  enumerators, all different, so \<open>status_description\<close> succeeds exactly on the codes of
  \<open>status\<close> and its assertion fails on every other number.\<close>

theorem status_description_total:
  "map fst status_table = map snd status_enum \<and> distinct (map snd status_enum) \<and>
   (status_description s \<noteq> None) = (s \<in> set (map snd status_enum))"
proof -
  have keys: "map fst status_table = map snd status_enum"
    by (simp add: status_table_def status_enum_def)
  moreover have "distinct (map snd status_enum)"
    by (simp add: status_enum_def)
  moreover have "(status_description s \<noteq> None) = (s \<in> set (map fst status_table))"
    by (simp add: status_description_def map_of_eq_None_iff image_image)
  ultimately show ?thesis by simp
qed

text \<open>Method names round-trip: the name of every method other than \<open>METHOD_UNKNOWN\<close> parses
  back to it, and a string that parses to a known method is that method's name.\<close>

theorem method_string_roundtrip:
  "(case method_string m of Some s \<Rightarrow> from_method_string s = m | None \<Rightarrow> m = METHOD_UNKNOWN) \<and>
   (case method_string (from_method_string t) of Some s \<Rightarrow> s = t | None \<Rightarrow> from_method_string t = METHOD_UNKNOWN)"
  by (cases m) (auto simp: from_method_string_def)

lemma log2_loop_done: "log2_loop n n r = Some r"
  by (simp add: log2_loop.simps)

lemma log2_loop_step: "s \<noteq> n \<Longrightarrow> log2_loop n s r = log2_loop n (push_bit 1 s) (r + 1)"
  by (subst log2_loop.simps) simp

text \<open>\<open>log2\<close> of a method ends and is the exponent of its bit, so the eight methods have eight
  different handler slots 0 to 7; for \<open>METHOD_UNKNOWN\<close> the assertion fails.\<close>

theorem method_log2_exponent:
  "(case method_log2 m of Some i \<Rightarrow> i < 8 \<and> method_value m = 2 ^ i | None \<Rightarrow> m = METHOD_UNKNOWN)"
  by (cases m) (simp_all add: method_log2_def log2_loop_step log2_loop_done)

end
