(* ===== verification/Cookies.thy ===== *)
theory Cookies
  imports HttpMap
begin

text \<open>
  \<open>gts/http/cookies.cpp\<close>: a cookie is a string value with a case-insensitive attribute map that
  starts with \<open>Path=/\<close>.  \<open>Expires\<close> and \<open>Max-age\<close> exclude each other.  The move operations leave
  an empty value and an empty attribute map behind.
\<close>

record cookie =
  cookie_value :: val
  m_attributes :: "val smap"

abbreviation attr_find :: "cookie \<Rightarrow> string \<Rightarrow> val option" where
  "attr_find c k \<equiv> map_find less_case_insensitive (m_attributes c) k"

abbreviation attr_put :: "cookie \<Rightarrow> string \<Rightarrow> val \<Rightarrow> cookie" where
  "attr_put c k v \<equiv> c\<lparr>m_attributes := map_put less_case_insensitive (m_attributes c) k v\<rparr>"

abbreviation attr_erase :: "cookie \<Rightarrow> string \<Rightarrow> cookie" where
  "attr_erase c k \<equiv> c\<lparr>m_attributes := map_erase less_case_insensitive (m_attributes c) k\<rparr>"

definition cookie_new :: cookie where
  "cookie_new = \<lparr>cookie_value = [],
     m_attributes = fst (map_emplace less_case_insensitive [] ''Path'' ''/'')\<rparr>"

definition cookie_move :: "cookie \<Rightarrow> cookie \<times> cookie" where
  "cookie_move other = (other, \<lparr>cookie_value = [], m_attributes = []\<rparr>)"

definition cookie_move_assign :: "cookie \<Rightarrow> cookie \<Rightarrow> cookie \<times> cookie" where
  "cookie_move_assign self other =
     (self\<lparr>cookie_value := cookie_value other, m_attributes := m_attributes other\<rparr>,
      \<lparr>cookie_value = [], m_attributes = []\<rparr>)"

definition cookie_domain :: "cookie \<Rightarrow> string" where
  "cookie_domain c = (case attr_find c ''Domain'' of None \<Rightarrow> [] | Some v \<Rightarrow> v)"

definition cookie_path :: "cookie \<Rightarrow> string" where
  "cookie_path c = (case attr_find c ''Path'' of None \<Rightarrow> [] | Some v \<Rightarrow> v)"

definition cookies_size :: "cookie \<Rightarrow> u64" where
  "cookies_size c = (case attr_find c ''Size'' of None \<Rightarrow> 0 | Some v \<Rightarrow> get_u64 v)"

definition cookie_expires :: "cookie \<Rightarrow> u64" where
  "cookie_expires c = (case attr_find c ''Expires'' of None \<Rightarrow> 0 | Some v \<Rightarrow> get_u64 v)"

definition cookie_max_age :: "cookie \<Rightarrow> u64" where
  "cookie_max_age c = (case attr_find c ''Max-age'' of None \<Rightarrow> 0 | Some v \<Rightarrow> get_u64 v)"

definition cookie_http_only :: "cookie \<Rightarrow> bool" where
  "cookie_http_only c = (case attr_find c ''HttpOnly'' of None \<Rightarrow> False | Some v \<Rightarrow> to_bool v)"

definition cookie_secure :: "cookie \<Rightarrow> bool" where
  "cookie_secure c = (case attr_find c ''Secure'' of None \<Rightarrow> False | Some v \<Rightarrow> to_bool v)"

definition cookie_same_site :: "cookie \<Rightarrow> string" where
  "cookie_same_site c = (case attr_find c ''SameSite'' of None \<Rightarrow> [] | Some v \<Rightarrow> v)"

definition cookie_priority :: "cookie \<Rightarrow> string" where
  "cookie_priority c = (case attr_find c ''Priority'' of None \<Rightarrow> [] | Some v \<Rightarrow> v)"

definition set_domain :: "cookie \<Rightarrow> string \<Rightarrow> cookie" where
  "set_domain c d = attr_put c ''Domain'' d"

definition set_path :: "cookie \<Rightarrow> string \<Rightarrow> cookie" where
  "set_path c p = attr_put c ''Path'' p"

definition set_size :: "cookie \<Rightarrow> u64 \<Rightarrow> cookie" where
  "set_size c n = attr_put c ''Size'' (value_of_u64 n)"

definition set_expires :: "cookie \<Rightarrow> u64 \<Rightarrow> cookie" where
  "set_expires c seconds = attr_put (attr_erase c ''Max-age'') ''Expires'' (value_of_u64 seconds)"

definition set_max_age :: "cookie \<Rightarrow> u64 \<Rightarrow> cookie" where
  "set_max_age c seconds = attr_put (attr_erase c ''Expires'') ''Max-age'' (value_of_u64 seconds)"

definition set_http_only :: "cookie \<Rightarrow> bool \<Rightarrow> cookie" where
  "set_http_only c flag = attr_put c ''HttpOnly'' (value_of_bool flag)"

definition set_secure :: "cookie \<Rightarrow> bool \<Rightarrow> cookie" where
  "set_secure c flag = attr_put c ''Secure'' (value_of_bool flag)"

definition set_same_site :: "cookie \<Rightarrow> string \<Rightarrow> cookie" where
  "set_same_site c sst = attr_put c ''SameSite'' sst"

definition set_priority :: "cookie \<Rightarrow> string \<Rightarrow> cookie" where
  "set_priority c pt = attr_put c ''Priority'' pt"

definition set_attribute :: "cookie \<Rightarrow> string \<Rightarrow> string \<Rightarrow> cookie" where
  "set_attribute c k v = attr_put c k v"

definition unset_attribute :: "cookie \<Rightarrow> string \<Rightarrow> cookie" where
  "unset_attribute c k = attr_erase c k"

lemmas cookie_getters = cookie_domain_def cookie_path_def cookies_size_def cookie_expires_def
  cookie_max_age_def cookie_http_only_def cookie_secure_def cookie_same_site_def cookie_priority_def

lemmas cookie_setters = set_domain_def set_path_def set_size_def set_expires_def set_max_age_def
  set_http_only_def set_secure_def set_same_site_def set_priority_def set_attribute_def
  unset_attribute_def

section \<open>The operations as a small language\<close>

text \<open>Every way the class offers to change the attributes of a cookie.\<close>

datatype cookie_op =
    SetDomain string | SetPath string | SetSize u64 | SetExpires u64 | SetMaxAge u64
  | SetHttpOnly bool | SetSecure bool | SetSameSite string | SetPriority string

fun run_op :: "cookie_op \<Rightarrow> cookie \<Rightarrow> cookie" where
  "run_op (SetDomain s) c = set_domain c s"
| "run_op (SetPath s) c = set_path c s"
| "run_op (SetSize n) c = set_size c n"
| "run_op (SetExpires n) c = set_expires c n"
| "run_op (SetMaxAge n) c = set_max_age c n"
| "run_op (SetHttpOnly b) c = set_http_only c b"
| "run_op (SetSecure b) c = set_secure c b"
| "run_op (SetSameSite s) c = set_same_site c s"
| "run_op (SetPriority s) c = set_priority c s"

definition cookie_ok :: "cookie \<Rightarrow> bool" where
  "cookie_ok c = map_ok less_case_insensitive (m_attributes c)"

lemma cookie_ok_new [inv_intros]: "cookie_ok cookie_new"
  by (simp add: cookie_ok_def cookie_new_def map_emplace_def map_ok_def)

lemma cookie_ok_run [inv_intros]: "cookie_ok c \<Longrightarrow> cookie_ok (run_op p c)"
  by (cases p) (simp_all add: cookie_ok_def cookie_setters headers.ok_put headers.ok_erase)

lemma cookie_ok_runs [inv_intros]: "cookie_ok c \<Longrightarrow> cookie_ok (fold run_op ps c)"
  by (induction ps arbitrary: c) (auto intro: inv_intros)

lemma stob_of_bool: "get_bool (value_of_bool b) = b"
  by (cases b) (simp_all add: get_bool_def value_of_bool_def stob_def str_to_lower_def tolower_def)

lemma get_value_of_u64: "get_u64 (value_of_u64 n) = n"
proof -
  have "unat n < 2 ^ LENGTH(64)" by (rule unsigned_less)
  then show ?thesis
    by (simp add: get_u64_def value_of_u64_def stoui64_def strtoul_def strto_parse_dec)
qed

section \<open>The abstract cookie\<close>

record cookie_spec =
  s_domain :: string
  s_path :: string
  s_size :: u64
  s_expires :: u64
  s_max_age :: u64
  s_http_only :: bool
  s_secure :: bool
  s_same_site :: string
  s_priority :: string

definition cookie_abs :: "cookie \<Rightarrow> cookie_spec" where
  "cookie_abs c =
     \<lparr>s_domain = cookie_domain c, s_path = cookie_path c, s_size = cookies_size c,
      s_expires = cookie_expires c, s_max_age = cookie_max_age c,
      s_http_only = cookie_http_only c, s_secure = cookie_secure c,
      s_same_site = cookie_same_site c, s_priority = cookie_priority c\<rparr>"

fun spec_op :: "cookie_op \<Rightarrow> cookie_spec \<Rightarrow> cookie_spec" where
  "spec_op (SetDomain s) a = a\<lparr>s_domain := s\<rparr>"
| "spec_op (SetPath s) a = a\<lparr>s_path := s\<rparr>"
| "spec_op (SetSize n) a = a\<lparr>s_size := n\<rparr>"
| "spec_op (SetExpires n) a = a\<lparr>s_expires := n, s_max_age := 0\<rparr>"
| "spec_op (SetMaxAge n) a = a\<lparr>s_max_age := n, s_expires := 0\<rparr>"
| "spec_op (SetHttpOnly b) a = a\<lparr>s_http_only := b\<rparr>"
| "spec_op (SetSecure b) a = a\<lparr>s_secure := b\<rparr>"
| "spec_op (SetSameSite s) a = a\<lparr>s_same_site := s\<rparr>"
| "spec_op (SetPriority s) a = a\<lparr>s_priority := s\<rparr>"

definition spec_new :: cookie_spec where
  "spec_new =
     \<lparr>s_domain = [], s_path = ''/'', s_size = 0, s_expires = 0, s_max_age = 0,
      s_http_only = False, s_secure = False, s_same_site = [], s_priority = []\<rparr>"

lemma cookie_step_refines: "cookie_ok c \<Longrightarrow> cookie_abs (run_op p c) = spec_op p (cookie_abs c)"
  by (cases p)
    (simp_all add: cookie_ok_def cookie_abs_def cookie_getters cookie_setters headers.lookup_put
      headers.lookup_erase headers.ok_erase get_value_of_u64 to_bool_def stob_of_bool tolower_def)

lemma cookie_runs_refine:
  "cookie_ok c \<Longrightarrow> cookie_abs (fold run_op ps c) = fold spec_op ps (cookie_abs c)"
  by (induction ps arbitrary: c) (simp_all add: cookie_step_refines cookie_ok_run)

lemma cookie_new_abs: "cookie_abs cookie_new = spec_new"
  by (simp add: cookie_abs_def spec_new_def cookie_new_def cookie_getters map_emplace_def
      headers.same_key_norm tolower_def)


definition expiry_exclusive :: "cookie \<Rightarrow> bool" where
  "expiry_exclusive c = (attr_find c ''Expires'' = None \<or> attr_find c ''Max-age'' = None)"

lemma expiry_exclusive_run: "cookie_ok c \<Longrightarrow> expiry_exclusive c \<Longrightarrow> expiry_exclusive (run_op p c)"
  by (cases p)
    (simp_all add: expiry_exclusive_def cookie_ok_def cookie_setters headers.lookup_put
      headers.lookup_erase headers.ok_erase tolower_def)

text \<open>No sequence of setter calls leaves a cookie with both an \<open>Expires\<close> and a \<open>Max-age\<close>
  attribute.\<close>

theorem cookie_expiry_exclusive:
  "attr_find (fold run_op ps cookie_new) ''Expires'' = None \<or>
   attr_find (fold run_op ps cookie_new) ''Max-age'' = None"
proof -
  have "cookie_ok c \<and> expiry_exclusive c \<Longrightarrow> expiry_exclusive (fold run_op ps c)" for c
    by (induction ps arbitrary: c) (simp_all add: expiry_exclusive_run cookie_ok_run)
  moreover have "expiry_exclusive cookie_new"
    by (simp add: expiry_exclusive_def cookie_new_def map_emplace_def headers.same_key_norm tolower_def)
  ultimately show ?thesis by (simp add: expiry_exclusive_def cookie_ok_new)
qed

end
