(* ===== verification/TcpSocket.thy ===== *)
theory TcpSocket
  imports Prelude
begin

text \<open>
  \<open>gts/tcp_socket.cpp\<close> over asio.  What asio does is not in the repository: it enters the model
  as the results its successive calls have, for reading the bytes and the error of each
  \<open>read_some\<close>, for writing the count and the error of each \<open>write_some\<close>.  asio's documented
  contract is built in: a call transfers at most the bytes asked for, what does not fit is left
  for the next call, and a closed socket fails.  After the last listed result reading fails
  (end of stream) and writing accepts everything.  A wait that times out is a result without
  data and with an error.
\<close>

record tcp =
  sk_open :: bool
  sk_buffer_size :: nat
  sk_in :: "(string \<times> bool) list"
  sk_writes :: "(nat \<times> bool) list"
  sk_out :: string

definition tcp_new :: "nat \<Rightarrow> (string \<times> bool) list \<Rightarrow> tcp" where
  "tcp_new n ins = \<lparr>sk_open = True, sk_buffer_size = n, sk_in = ins, sk_writes = [], sk_out = []\<rparr>"

section \<open>Reading\<close>

definition read_some :: "tcp \<Rightarrow> nat \<Rightarrow> string \<times> bool \<times> tcp" where
  "read_some sk n =
     (if \<not> sk_open sk then ([], True, sk)
      else case sk_in sk of
        [] \<Rightarrow> ([], True, sk)
      | (d, e) # es \<Rightarrow>
          if n < length d then (take n d, False, sk\<lparr>sk_in := (drop n d, e) # es\<rparr>)
          else (d, e, sk\<lparr>sk_in := es\<rparr>))"

definition sk_stream :: "tcp \<Rightarrow> string" where
  "sk_stream sk = concat (map fst (sk_in sk))"

lemma read_some_stream:
  "read_some sk n = (d, e, sk') \<Longrightarrow> sk_stream sk = d @ sk_stream sk'"
  by (auto simp: read_some_def sk_stream_def split: list.splits if_splits prod.splits)

lemma read_some_length: "read_some sk n = (d, e, sk') \<Longrightarrow> length d \<le> n"
  by (auto simp: read_some_def split: list.splits if_splits prod.splits)

lemma read_some_fixed:
  "read_some sk n = (d, e, sk') \<Longrightarrow> sk_open sk' = sk_open sk \<and> sk_buffer_size sk' = sk_buffer_size sk"
  by (auto simp: read_some_def split: list.splits if_splits prod.splits)

text \<open>A call that does not fail with nothing uses up a result or all the room.\<close>

lemma read_some_progress:
  "read_some sk n = (d, e, sk') \<Longrightarrow> 0 < n \<Longrightarrow> \<not> e \<or> d \<noteq> [] \<Longrightarrow>
   length (sk_in sk') + (n - length d) < length (sk_in sk) + n"
  by (auto simp: read_some_def split: list.splits if_splits prod.splits)

text \<open>A socket none of whose results fails without data: it only ends.\<close>

definition clean :: "tcp \<Rightarrow> bool" where
  "clean sk = (sk_open sk \<and> list_all (\<lambda>(d, e). \<not> e \<or> d \<noteq> []) (sk_in sk))"

lemma read_some_clean:
  "clean sk \<Longrightarrow> 0 < n \<Longrightarrow> read_some sk n = (d, e, sk') \<Longrightarrow> clean sk' \<and> (e \<and> d = [] \<longrightarrow> sk_in sk' = [])"
  by (auto simp: read_some_def clean_def split: list.splits if_splits prod.splits)

section \<open>Writing\<close>

text \<open>asio's \<open>write_some\<close>: how many bytes it takes, and its error.\<close>

definition asio_write_some :: "tcp \<Rightarrow> string \<Rightarrow> nat \<times> bool \<times> tcp" where
  "asio_write_some sk data =
     (case sk_writes sk of
        [] \<Rightarrow> (length data, False, sk\<lparr>sk_out := sk_out sk @ data\<rparr>)
      | (n, e) # ws \<Rightarrow>
          (min n (length data), e, sk\<lparr>sk_writes := ws, sk_out := sk_out sk @ take n data\<rparr>))"

text \<open>\<open>tcp_socket::write_some\<close> loops until everything is written or a call fails.\<close>

function write_loop :: "tcp \<Rightarrow> string \<Rightarrow> nat \<Rightarrow> nat \<times> bool \<times> tcp" where
  "write_loop sk data counter =
     (if 0 < length data then
        (case asio_write_some sk data of
           (res, e, sk') \<Rightarrow>
             if e then ((if 0 < res then counter + res else counter), True, sk')
             else write_loop sk' (drop res data) (counter + res))
      else (counter, False, sk))"
  by pat_completeness auto
termination
  by (relation "measure (\<lambda>(sk, data, counter). length (sk_writes sk) + length data)")
    (auto simp: asio_write_some_def split: list.splits)

declare write_loop.simps [simp del]

definition write_some :: "tcp \<Rightarrow> string \<Rightarrow> nat \<times> bool \<times> tcp" where
  "write_some sk data = (if \<not> sk_open sk then (0, True, sk) else write_loop sk data 0)"

text \<open>\<open>async_write_some\<close>: each completion restarts the operation with what is left; the callback
  gets the count of the last one only.\<close>

function async_write_some :: "tcp \<Rightarrow> string \<Rightarrow> nat \<times> bool \<times> tcp" where
  "async_write_some sk data =
     (case asio_write_some sk data of
        (res, e, sk') \<Rightarrow>
          if e \<or> length data \<le> res then (res, e, sk') else async_write_some sk' (drop res data))"
  by pat_completeness auto
termination
  by (relation "measure (\<lambda>(sk, data). length (sk_writes sk) + length data)")
    (auto simp: asio_write_some_def split: list.splits)

declare async_write_some.simps [simp del]

definition tcp_close :: "tcp \<Rightarrow> tcp" where
  "tcp_close sk = sk\<lparr>sk_open := False\<rparr>"

lemma asio_write_some_spec:
  "asio_write_some sk data = (n, e, sk') \<Longrightarrow>
   n \<le> length data \<and> sk_out sk' = sk_out sk @ take n data \<and> sk_in sk' = sk_in sk \<and>
   sk_open sk' = sk_open sk \<and> sk_buffer_size sk' = sk_buffer_size sk"
  by (auto simp: asio_write_some_def min_def split: list.splits)

lemma write_loop_spec:
  "write_loop sk data c = (n, e, sk') \<Longrightarrow>
   \<exists>k. k \<le> length data \<and> n = c + k \<and> sk_out sk' = sk_out sk @ take k data \<and> (\<not> e \<longrightarrow> k = length data) \<and>
     sk_in sk' = sk_in sk \<and> sk_open sk' = sk_open sk \<and> sk_buffer_size sk' = sk_buffer_size sk"
proof (induction sk data c rule: write_loop.induct)
  case (1 sk data c)
  show ?case
  proof (cases "0 < length data")
    case False
    with 1 show ?thesis by (auto simp: write_loop.simps [of sk data])
  next
    case True
    obtain res er sk1 where w: "asio_write_some sk data = (res, er, sk1)" by (metis prod_cases3)
    note ws = asio_write_some_spec [OF w]
    show ?thesis
    proof (cases er)
      case True
      with 1 w ws \<open>0 < length data\<close> show ?thesis
        by (auto simp: write_loop.simps [of sk data] split: if_splits)
    next
      case False
      with "1.prems" w True have "write_loop sk1 (drop res data) (c + res) = (n, e, sk')"
        by (simp add: write_loop.simps [of sk data])
      from "1.IH" [OF True w [symmetric] refl False this]
      obtain k where "k \<le> length (drop res data)" "n = c + res + k" "sk_out sk' = sk_out sk1 @ take k (drop res data)"
        "\<not> e \<longrightarrow> k = length (drop res data)" "sk_in sk' = sk_in sk1" "sk_open sk' = sk_open sk1"
        "sk_buffer_size sk' = sk_buffer_size sk1" by blast
      with ws show ?thesis by (intro exI [of _ "res + k"]) (auto simp: take_add)
    qed
  qed
qed

lemma write_some_full:
  "sk_open sk \<Longrightarrow> sk_writes sk = [] \<Longrightarrow>
   write_some sk data = (length data, False, sk\<lparr>sk_out := sk_out sk @ data\<rparr>)"
  by (cases data) (simp_all add: write_some_def write_loop.simps asio_write_some_def)

text \<open>\<open>write_some\<close> does not lose bytes to short writes: it returns the number of bytes it has
  put on the wire, these are a prefix of the data, and without an error it is all of it.\<close>

theorem write_some_all:
  "(case write_some sk data of (n, e, sk') \<Rightarrow>
      sk_out sk' = sk_out sk @ take n data \<and> n \<le> length data \<and> (e \<or> n = length data))"
proof (cases "sk_open sk")
  case False
  then show ?thesis by (simp add: write_some_def)
next
  case True
  obtain n e sk' where "write_loop sk data 0 = (n, e, sk')" by (metis prod_cases3)
  with write_loop_spec [OF this] True show ?thesis by (auto simp: write_some_def)
qed

text \<open>The asynchronous variant writes everything too, but reports only the last piece.\<close>

lemma async_write_reports_last:
  "case async_write_some ((tcp_new 8 [])\<lparr>sk_writes := [(3, False)]\<rparr>) ''hello'' of
     (n, e, sk') \<Rightarrow> n = 2 \<and> \<not> e \<and> sk_out sk' = ''hello''"
  by (simp add: async_write_some.simps asio_write_some_def tcp_new_def)

end
