(* ===== verification/HttpRequest.thy ===== *)
theory HttpRequest
  imports HttpTypes Cookies TcpSocket
begin

text \<open>
  \<open>gts/http/detail/request_impl.cpp\<close> and \<open>gts/http/request.cpp\<close>: the request object, what
  \<open>finish\<close> derives from its headers, and the two body readers.  \<open>m_rb_context\<close> is the variant of the source; reading it at the wrong type, or using a
  socket that is not there (\<open>gts_log_fatal\<close>), is \<open>None\<close>.
\<close>

section \<open>The request\<close>

datatype rb_status = RB_length | RB_wait_size | RB_wait_content | RB_wait_headers | RB_chunked_end | RB_finished

datatype rb_context = Ctx_none | Ctx_size nat | Ctx_string string

record request =
  m_keep_alive :: bool
  m_support_gzip :: bool
  m_websocket :: bool
  m_rb_status :: rb_status
  m_rb_context :: rb_context
  m_socket :: "tcp option"
  m_method :: http_method
  m_version :: string
  m_path :: string
  m_parameters :: "val umap"
  m_headers :: headers
  m_cookies :: "val umap"
  m_parameters_string :: string
  m_body :: string

definition request_new :: request where
  "request_new =
     \<lparr>m_keep_alive = True, m_support_gzip = False, m_websocket = False, m_rb_status = RB_length,
      m_rb_context = Ctx_none, m_socket = None, m_method = GET, m_version = [], m_path = [],
      m_parameters = [], m_headers = [], m_cookies = [], m_parameters_string = [], m_body = []\<rparr>"

definition tcp_ip_buffer_size :: "request \<Rightarrow> nat option" where
  "tcp_ip_buffer_size r = map_option sk_buffer_size (m_socket r)"

section \<open>finish\<close>

text \<open>The four parts of \<open>finish\<close>: connection, gzip, body mode, websocket.\<close>

definition finish_keep_alive :: "request \<Rightarrow> request" where
  "finish_keep_alive r =
     (case header_find (m_headers r) hdr_connection of
        None \<Rightarrow> r\<lparr>m_keep_alive := (m_version r \<noteq> ''1.0'')\<rparr>
      | Some v \<Rightarrow> r\<lparr>m_keep_alive := (str_to_lower v \<noteq> ''close'')\<rparr>)"

fun any_gzip :: "string list \<Rightarrow> bool" where
  "any_gzip [] = False"
| "any_gzip (s # ss) = (if str_to_lower (str_trimmed s) = ''gzip'' then True else any_gzip ss)"

definition finish_gzip :: "request \<Rightarrow> request" where
  "finish_gzip r =
     (case header_find (m_headers r) hdr_accept_encoding of
        None \<Rightarrow> r\<lparr>m_support_gzip := False\<rparr>
      | Some v \<Rightarrow> if any_gzip (splitted v '','' True) then r\<lparr>m_support_gzip := True\<rparr> else r)"

definition finish_body :: "request \<Rightarrow> string \<Rightarrow> request" where
  "finish_body r0 body =
     (let r = r0\<lparr>m_body := body\<rparr>
      in case header_find (m_headers r) hdr_content_length of
           Some v \<Rightarrow>
             (let tplen = unat (get_u64 v);
                  r1 = (if tplen < length (m_body r) then r\<lparr>m_body := substr (m_body r) 0 tplen\<rparr> else r)
              in r1\<lparr>m_rb_status := (if 0 < tplen then RB_length else RB_finished),
                    m_rb_context := Ctx_size tplen\<rparr>)
         | None \<Rightarrow>
             if m_version r = ''1.1'' then
               (case header_find (m_headers r) hdr_transfer_encoding of
                  Some v \<Rightarrow>
                    if v \<noteq> ''chunked'' then r\<lparr>m_rb_status := RB_finished\<rparr>
                    else r\<lparr>m_rb_status := RB_wait_size, m_rb_context := Ctx_string (m_body r), m_body := []\<rparr>
                | None \<Rightarrow> r\<lparr>m_rb_status := RB_finished\<rparr>)
             else r\<lparr>m_rb_status := RB_finished, m_rb_context := Ctx_size 0\<rparr>)"

definition finish_websocket :: "request \<Rightarrow> request" where
  "finish_websocket r =
     (if m_version r = ''1.1'' then
        (case header_find (m_headers r) ''connection'' of
           Some c \<Rightarrow>
             if str_to_lower c = ''upgrade'' then
               (case header_find (m_headers r) ''upgrade'' of
                  Some u \<Rightarrow> if str_to_lower u = ''websocket'' then r\<lparr>m_websocket := True\<rparr> else r
                | None \<Rightarrow> r)
             else r
         | None \<Rightarrow> r)
      else r)"

definition finish :: "request \<Rightarrow> string \<Rightarrow> request" where
  "finish r body = finish_websocket (finish_body (finish_gzip (finish_keep_alive r)) body)"

section \<open>Reading the body: Content-Length\<close>

text \<open>\<open>memcpy(buf, s, s.size())\<close> into a buffer that is large enough.\<close>

definition memcpy :: "string \<Rightarrow> string \<Rightarrow> string" where
  "memcpy buf s = s @ drop (length s) buf"

text \<open>The loop over \<open>read_some\<close>: received bytes, remaining length, error, socket.\<close>

function length_loop :: "tcp \<Rightarrow> nat \<Rightarrow> nat \<Rightarrow> nat \<Rightarrow> string \<Rightarrow> bool \<Rightarrow> string \<times> nat \<times> nat \<times> bool \<times> tcp" where
  "length_loop sk tplen room acc out err =
     (if 0 < tplen \<and> 0 < room then
        (let (d, e, sk') = read_some sk room;
             res = length d; out' = out @ d; acc' = acc + res; room' = room - res; tplen' = tplen - res
         in if \<not> e then length_loop sk' tplen' room' acc' out' False
            else if 0 < res then length_loop sk' tplen' room' acc' out' False
            else (out', tplen', acc', (if 0 < acc' then False else True), sk'))
      else (out, tplen, acc, err, sk))"
  by pat_completeness auto
termination
  by (relation "measure (\<lambda>(sk, tplen, room, _). length (sk_in sk) + room)")
    (auto dest: read_some_progress [OF sym])

declare length_loop.simps [simp del]

definition read_body_length_mode ::
  "request \<Rightarrow> string \<Rightarrow> nat \<Rightarrow> (request \<times> string \<times> nat \<times> bool) option" where
  "read_body_length_mode r buf size0 =
     (case m_rb_context r of
        Ctx_size tplen \<Rightarrow>
          (let room = (if tplen < size0 then tplen else size0);
               done = (\<lambda>r' tplen' buf' acc err.
                 let r1 = r'\<lparr>m_rb_context := Ctx_size tplen'\<rparr>
                 in if tplen' = 0 then (r1\<lparr>m_rb_status := RB_finished\<rparr>, buf', acc, False)
                    else (r1, buf', acc, err))
           in if length (m_body r) < room then
                (let n = length (m_body r); buf1 = memcpy buf (m_body r)
                 in case m_socket r of
                      None \<Rightarrow> None
                    | Some sk \<Rightarrow>
                        (case length_loop sk (tplen - n) (room - n) n [] False of
                           (out, tplen', acc, err, sk') \<Rightarrow>
                             Some (done (r\<lparr>m_body := [], m_socket := Some sk'\<rparr>) tplen'
                               (memcpy buf (m_body r @ out)) acc err)))
              else
                Some (done (r\<lparr>m_body := drop room (m_body r)\<rparr>) (tplen - room)
                  (memcpy buf (take room (m_body r))) room False))
      | _ \<Rightarrow> None)"

section \<open>Reading the body: chunked\<close>

text \<open>\<open>std::stoull(s, nullptr, 16)\<close>; \<open>None\<close> is the exception (no digits, or out of range).\<close>

definition stoull16 :: "string \<Rightarrow> u64 option" where
  "stoull16 s =
     (let s1 = dropWhile isspace s;
          s2 = (if s1 \<noteq> [] \<and> (hd s1 = CHR ''-'' \<or> hd s1 = CHR ''+'') then tl s1 else s1);
          digits = (case s2 of [] \<Rightarrow> False | c # _ \<Rightarrow> (case digit_val c of Some d \<Rightarrow> d < 16 | None \<Rightarrow> False))
      in if \<not> digits then None
         else if 2 ^ 64 \<le> snd (strto_parse s 16) then None
         else Some (strtoul s 16))"

text \<open>The statements of a \<open>Cookie\<close> field; the flag says that all of them had an \<open>=\<close>.\<close>

fun cookie_statements :: "string list \<Rightarrow> val umap \<Rightarrow> val umap \<times> bool" where
  "cookie_statements [] cs = (cs, True)"
| "cookie_statements (statement # rest) cs =
     (let st = str_trimmed statement
      in case str_find ''='' st of
           None \<Rightarrow> (cs, False)
         | Some pos \<Rightarrow>
             cookie_statements rest
               (umap_put cs (str_trimmed (substr st 0 pos)) (str_trimmed (drop (pos + 1) st))))"

text \<open>One line of the chunked body: the request, the value of \<open>_size\<close>, and how to go on.\<close>

datatype chunk_ctl = Chunk_next | Chunk_break | Chunk_error

definition chunk_line :: "request \<Rightarrow> u64 \<Rightarrow> string \<Rightarrow> nat \<Rightarrow> request \<times> u64 \<times> chunk_ctl" where
  "chunk_line r sz line_buf pos =
     (let reset = (\<lambda>r. (r\<lparr>m_rb_status := RB_finished\<rparr>, sz, Chunk_error))
      in case m_rb_status r of
           RB_wait_size \<Rightarrow>
             (let l1 = take pos line_buf;
                  l2 = (case str_find '';'' l1 of None \<Rightarrow> l1 | Some p \<Rightarrow> take p l1)
              in if 16 < length l2 then reset r
                 else case stoull16 l2 of
                        None \<Rightarrow> reset r
                      | Some n \<Rightarrow>
                          (r\<lparr>m_rb_status := (if n = 0 then RB_wait_headers else RB_wait_content)\<rparr>, n, Chunk_next))
         | RB_wait_content \<Rightarrow>
             (let l1 = take pos line_buf;
                  (r1, sz1) = (if sz < of_nat (length l1) then (r, of_nat (length l1))
                               else (r\<lparr>m_rb_status := RB_wait_size\<rparr>, sz))
              in (r1\<lparr>m_body := m_body r1 @ l1\<rparr>, sz1, Chunk_next))
         | RB_wait_headers \<Rightarrow>
             if line_buf = CRLF then (r\<lparr>m_rb_status := RB_chunked_end\<rparr>, sz, Chunk_break)
             else (case str_find '':'' line_buf of
                     None \<Rightarrow> reset r
                   | Some colon \<Rightarrow>
                       (let key = str_to_lower (str_trimmed (substr line_buf 0 colon));
                            v = from_percent_encoding (str_trimmed (drop (colon + 1) line_buf))
                        in if key \<noteq> ''cookie'' then
                             (r\<lparr>m_headers := header_put (m_headers r) key v\<rparr>, sz, Chunk_next)
                           else (case cookie_statements (splitted v '';'' True) (m_cookies r) of
                                   (cs, good) \<Rightarrow>
                                     (let r1 = r\<lparr>m_cookies := cs\<rparr>
                                      in if good then (r1, sz, Chunk_next) else reset r1))))
         | _ \<Rightarrow> (r, sz, Chunk_next))"

text \<open>The loop over the lines of \<open>abuf\<close>; the flag is the protocol error.\<close>

function chunk_loop :: "request \<Rightarrow> string \<Rightarrow> u64 \<Rightarrow> request \<times> string \<times> bool" where
  "chunk_loop r abuf sz =
     (if abuf = [] then (r, abuf, False)
      else case str_find CRLF abuf of
             None \<Rightarrow>
               if 1024 \<le> length abuf then (r\<lparr>m_rb_status := RB_finished\<rparr>, abuf, True)
               else (r, abuf, False)
           | Some pos \<Rightarrow>
               (case chunk_line r sz (substr abuf 0 (pos + 2)) pos of
                  (r', sz', Chunk_next) \<Rightarrow> chunk_loop r' (drop (pos + 2) abuf) sz'
                | (r', sz', Chunk_break) \<Rightarrow> (r', drop (pos + 2) abuf, False)
                | (r', sz', Chunk_error) \<Rightarrow> (r', drop (pos + 2) abuf, True)))"
  by pat_completeness auto
termination
  by (relation "measure (\<lambda>(r, abuf, sz). length abuf)") auto

declare chunk_loop.simps [simp del]

text \<open>One receive into \<open>abuf\<close> when it is empty: \<open>Inl\<close> is the early return with its error flag.\<close>

definition chunk_fill :: "request \<Rightarrow> string \<Rightarrow> nat \<Rightarrow> (request \<times> bool + request \<times> string) option" where
  "chunk_fill r abuf acc =
     (if abuf = [] then
        (case m_socket r of
           None \<Rightarrow> None
         | Some sk \<Rightarrow>
             (case read_some sk (sk_buffer_size sk) of
                (d, e, sk') \<Rightarrow>
                  (let r1 = r\<lparr>m_socket := Some sk', m_rb_context := Ctx_string d\<rparr>
                   in if e \<and> length d = 0 then Some (Inl (r1, \<not> 0 < acc)) else Some (Inr (r1, d)))))
      else Some (Inr (r, abuf)))"

definition chunk_copy_out ::
  "request \<Rightarrow> string \<Rightarrow> nat \<Rightarrow> nat \<Rightarrow> request \<times> string \<times> nat \<times> bool" where
  "chunk_copy_out r buf acc room =
     (if room \<le> length (m_body r) then
        (r\<lparr>m_body := drop room (m_body r)\<rparr>, memcpy buf (take room (m_body r)), acc + room, False)
      else
        (let r1 = r\<lparr>m_body := []\<rparr>;
             r2 = (if m_rb_status r1 = RB_chunked_end then r1\<lparr>m_rb_status := RB_finished\<rparr> else r1)
         in (r2, memcpy buf (m_body r), acc + length (m_body r), False)))"

definition read_body_chunked_mode ::
  "request \<Rightarrow> string \<Rightarrow> nat \<Rightarrow> (request \<times> string \<times> nat \<times> bool) option" where
  "read_body_chunked_mode r buf size0 =
     (if size0 \<le> length (m_body r) then
        Some (r\<lparr>m_body := drop size0 (m_body r)\<rparr>, memcpy buf (take size0 (m_body r)), size0, False)
      else
        (let buf1 = memcpy buf (m_body r);
             room = size0 - length (m_body r);
             acc = length (m_body r);
             r1 = r\<lparr>m_body := []\<rparr>
         in if m_rb_status r1 = RB_chunked_end then
              Some (r1\<lparr>m_rb_status := RB_finished\<rparr>, buf1, acc, False)
            else case m_rb_context r1 of
                   Ctx_string abuf \<Rightarrow>
                     (case chunk_fill r1 abuf acc of
                        None \<Rightarrow> None
                      | Some (Inl (r2, err)) \<Rightarrow> Some (r2, buf1, acc, err)
                      | Some (Inr (r2, abuf2)) \<Rightarrow>
                          (case chunk_loop r2 abuf2 0 of
                             (r3, abuf3, bad) \<Rightarrow>
                               (let r4 = r3\<lparr>m_rb_context := Ctx_string abuf3\<rparr>
                                in if bad then Some (r4, buf1, 0, True)
                                   else Some (chunk_copy_out r4 buf1 acc room))))
                 | _ \<Rightarrow> None))"

section \<open>The request class\<close>

text \<open>The look-ups that throw return the missing key (\<open>Inl\<close>).\<close>

definition parameters_contains :: "request \<Rightarrow> string \<Rightarrow> bool" where
  "parameters_contains r k = (umap_find (m_parameters r) k \<noteq> None)"

definition parameter :: "request \<Rightarrow> string \<Rightarrow> string + val" where
  "parameter r k = (case umap_find (m_parameters r) k of None \<Rightarrow> Inl k | Some v \<Rightarrow> Inr v)"

definition parameter_or :: "request \<Rightarrow> string \<Rightarrow> val \<Rightarrow> val" where
  "parameter_or r k d = (case umap_find (m_parameters r) k of None \<Rightarrow> d | Some v \<Rightarrow> v)"

definition headers_contains :: "request \<Rightarrow> string \<Rightarrow> bool" where
  "headers_contains r k = (header_find (m_headers r) k \<noteq> None)"

definition header :: "request \<Rightarrow> string \<Rightarrow> string + val" where
  "header r k = (case header_find (m_headers r) k of None \<Rightarrow> Inl k | Some v \<Rightarrow> Inr v)"

definition header_or :: "request \<Rightarrow> string \<Rightarrow> val \<Rightarrow> val" where
  "header_or r k d = (case header_find (m_headers r) k of None \<Rightarrow> d | Some v \<Rightarrow> v)"

definition cookies_contains :: "request \<Rightarrow> string \<Rightarrow> bool" where
  "cookies_contains r k = (umap_find (m_cookies r) k \<noteq> None)"

definition cookie :: "request \<Rightarrow> string \<Rightarrow> string + val" where
  "cookie r k = (case umap_find (m_cookies r) k of None \<Rightarrow> Inl k | Some v \<Rightarrow> Inr v)"

definition cookie_or :: "request \<Rightarrow> string \<Rightarrow> val \<Rightarrow> val" where
  "cookie_or r k d = (case umap_find (m_cookies r) k of None \<Rightarrow> d | Some v \<Rightarrow> v)"

definition is_valid :: "request \<Rightarrow> bool" where
  "is_valid r =
     (case m_socket r of
        None \<Rightarrow> False
      | Some sk \<Rightarrow>
          if \<not> sk_open sk \<or> m_version r = [] \<or> m_path r = [] then False
          else if m_method r = GET then
            (case header_find (m_headers r) hdr_content_length of
               Some v \<Rightarrow> if 1024 < get_u64 v then False else True
             | None \<Rightarrow> True)
          else True)"

definition can_read_body :: "request \<Rightarrow> bool" where
  "can_read_body r = (is_valid r \<and> m_rb_status r \<noteq> RB_finished)"

definition read_body_mode ::
  "request \<Rightarrow> string \<Rightarrow> nat \<Rightarrow> (request \<times> string \<times> nat \<times> bool) option" where
  "read_body_mode r buf room =
     (if m_rb_status r = RB_length then read_body_length_mode r buf room
      else read_body_chunked_mode r buf room)"

definition read_body_string :: "request \<Rightarrow> nat \<Rightarrow> (request \<times> string \<times> bool) option" where
  "read_body_string r n =
     (if m_rb_status r = RB_finished then Some (r, [], False)
      else case (if n = 0 then tcp_ip_buffer_size r else Some n) of
             None \<Rightarrow> None
           | Some room \<Rightarrow>
               (case read_body_mode r (replicate room (CHR 0x00)) room of
                  None \<Rightarrow> None
                | Some (r', buf, k, err) \<Rightarrow> Some (r', take k buf, err)))"

definition read_body ::
  "request \<Rightarrow> string \<Rightarrow> nat \<Rightarrow> (request \<times> string \<times> nat \<times> bool) option" where
  "read_body r buf room =
     (if room = 0 then Some (r, buf, 0, False)
      else if m_rb_status r = RB_finished then Some (r, buf, 0, False)
      else read_body_mode r buf room)"

text \<open>The loops over \<open>read_body\<close>; \<open>None\<close> is a call that does not return (or a fatal error).\<close>

partial_function (option) read_all_loop ::
  "request \<Rightarrow> string \<Rightarrow> nat \<Rightarrow> string \<Rightarrow> (request \<times> string \<times> bool) option" where
  "read_all_loop r buf room result =
     (if \<not> can_read_body r then Some (r, result, False)
      else case read_body r buf room of
             None \<Rightarrow> None
           | Some (r', buf', res, err) \<Rightarrow>
               if err then Some (r', result, True)
               else if res = 0 then read_all_loop r' buf' room result
               else read_all_loop r' buf' room (result @ take res buf'))"

definition read_all_body :: "request \<Rightarrow> (request \<times> string \<times> bool) option" where
  "read_all_body r =
     (case tcp_ip_buffer_size r of
        None \<Rightarrow> None
      | Some room \<Rightarrow> read_all_loop r (replicate 65536 (CHR 0x00)) room [])"

section \<open>Reading by length: nothing lost, nothing twice\<close>

text \<open>What is still to be read: the buffered part of the body, then the socket.\<close>

definition pending :: "request \<Rightarrow> string" where
  "pending r = m_body r @ (case m_socket r of None \<Rightarrow> [] | Some sk \<Rightarrow> sk_stream sk)"

text \<open>The invariant of a request in length mode.\<close>

definition length_ok :: "nat \<Rightarrow> request \<Rightarrow> bool" where
  "length_ok n r =
     (m_rb_context r = Ctx_size n \<and> length (m_body r) \<le> n \<and> m_socket r \<noteq> None \<and>
      m_rb_status r = (if n = 0 then RB_finished else RB_length))"

lemma length_loop_spec:
  "length_loop sk tplen room acc out err = (out', tplen', acc', err', sk') \<Longrightarrow> room \<le> tplen \<Longrightarrow>
   \<exists>d. out' = out @ d \<and> acc' = acc + length d \<and> tplen' = tplen - length d \<and> length d \<le> room \<and>
     sk_stream sk = d @ sk_stream sk' \<and> sk_open sk' = sk_open sk \<and>
     sk_buffer_size sk' = sk_buffer_size sk \<and> (err' \<longrightarrow> err \<or> acc' = 0) \<and> (acc' = 0 \<and> \<not> err' \<longrightarrow> room = 0)"
proof (induction sk tplen room acc out err arbitrary: out' tplen' acc' err' sk' rule: length_loop.induct)
  case (1 sk tplen room acc out err)
  show ?case
  proof (cases "0 < tplen \<and> 0 < room")
    case False
    with 1 show ?thesis by (auto simp: length_loop.simps [of sk tplen room])
  next
    case True
    obtain d e sk1 where rd: "read_some sk room = (d, e, sk1)" by (metis prod_cases3)
    note str = read_some_stream [OF rd] and len = read_some_length [OF rd] and fixed = read_some_fixed [OF rd]
    show ?thesis
    proof (cases "e \<and> d = []")
      case True
      with 1 rd str fixed \<open>0 < tplen \<and> 0 < room\<close> show ?thesis
        by (auto simp: length_loop.simps [of sk tplen room] Let_def split: if_splits)
    next
      case False
      have rec: "length_loop sk1 (tplen - length d) (room - length d) (acc + length d) (out @ d) False =
          (out', tplen', acc', err', sk')"
        using "1.prems" rd True False
        by (auto simp: length_loop.simps [of sk tplen room] Let_def split: if_splits)
      have "room - length d \<le> tplen - length d" using "1.prems" by simp
      with "1.IH" rd True False rec obtain d' where
        "out' = (out @ d) @ d'" "acc' = acc + length d + length d'" "tplen' = tplen - length d - length d'"
        "length d' \<le> room - length d" "sk_stream sk1 = d' @ sk_stream sk'" "sk_open sk' = sk_open sk1"
        "sk_buffer_size sk' = sk_buffer_size sk1" "err' \<longrightarrow> acc' = 0" "acc' = 0 \<and> \<not> err' \<longrightarrow> room - length d = 0"
        by (metis (no_types, lifting) length_greater_0_conv)
      with str len fixed show ?thesis
        by (intro exI [of _ "d @ d'"]) auto
    qed
  qed
qed

text \<open>The parts of a request that reading its body by length does not touch.\<close>

definition same_head :: "request \<Rightarrow> request \<Rightarrow> bool" where
  "same_head r r' =
     (m_method r' = m_method r \<and> m_version r' = m_version r \<and> m_path r' = m_path r \<and>
      m_headers r' = m_headers r \<and> is_valid r' = is_valid r \<and>
      tcp_ip_buffer_size r' = tcp_ip_buffer_size r)"

lemma memcpy_take [simp]: "length s = n \<Longrightarrow> take n (memcpy buf s) = s"
  by (simp add: memcpy_def)

lemma read_length_step:
  assumes ok: "length_ok n r" and n: "0 < n"
  shows "\<exists>r' buf' k err. read_body_length_mode r buf room = Some (r', buf', k, err) \<and>
     k \<le> room \<and> k \<le> n \<and> length_ok (n - k) r' \<and> same_head r r' \<and>
     pending r = take k buf' @ pending r' \<and> length (take k buf') = k \<and> (err \<longrightarrow> k = 0) \<and> (\<not> err \<and> 0 < room \<longrightarrow> 0 < k)"
proof -
  obtain sk where sk: "m_socket r = Some sk" using ok by (auto simp: length_ok_def)
  note r = ok [unfolded length_ok_def]
  define room' where "room' = (if n < room then n else room)"
  have room': "room' \<le> n" "room' \<le> room" "0 < room \<longrightarrow> 0 < room'"
    using n by (auto simp: room'_def)
  have head: "same_head r (r\<lparr>m_body := b, m_socket := Some t, m_rb_context := c\<rparr>)"
    "same_head r (r\<lparr>m_body := b, m_socket := Some t, m_rb_context := c, m_rb_status := st\<rparr>)"
    if "sk_open t = sk_open sk" "sk_buffer_size t = sk_buffer_size sk" for b c t st
    using that sk by (simp_all add: same_head_def is_valid_def tcp_ip_buffer_size_def)
  have head0: "same_head r (r\<lparr>m_body := b, m_rb_context := c\<rparr>)"
    "same_head r (r\<lparr>m_body := b, m_rb_context := c, m_rb_status := st\<rparr>)" for b c st
    by (simp_all add: same_head_def is_valid_def tcp_ip_buffer_size_def sk)
  show ?thesis
  proof (cases "length (m_body r) < room'")
    case False
    let ?r = "r\<lparr>m_body := drop room' (m_body r), m_rb_context := Ctx_size (n - room')\<rparr>"
    let ?r1 = "if n - room' = 0 then ?r\<lparr>m_rb_status := RB_finished\<rparr> else ?r"
    let ?buf = "memcpy buf (take room' (m_body r))"
    have res: "read_body_length_mode r buf room = Some (?r1, ?buf, room', False)"
      using False r by (simp add: read_body_length_mode_def Let_def room'_def [symmetric])
    have "length_ok (n - room') ?r1" using r n room'(1) by (auto simp: length_ok_def)
    moreover have "same_head r ?r1" by (simp add: head0)
    moreover have "pending r = take room' ?buf @ pending ?r1" "length (take room' ?buf) = room'"
      using False by (simp_all add: pending_def sk)
    ultimately show ?thesis using res room' by blast
  next
    case True
    let ?b = "length (m_body r)"
    obtain out tplen' acc err sk' where lp:
      "length_loop sk (n - ?b) (room' - ?b) ?b [] False = (out, tplen', acc, err, sk')"
      by (metis prod_cases5)
    have "room' - ?b \<le> n - ?b" using room'(1) by simp
    from length_loop_spec [OF lp this] have spec:
      "acc = ?b + length out" "tplen' = n - acc" "length out \<le> room' - ?b"
      "sk_stream sk = out @ sk_stream sk'" "sk_open sk' = sk_open sk" "sk_buffer_size sk' = sk_buffer_size sk"
      "err \<longrightarrow> acc = 0" "acc = 0 \<and> \<not> err \<longrightarrow> room' - ?b = 0" by auto
    let ?r = "r\<lparr>m_body := [], m_socket := Some sk', m_rb_context := Ctx_size (n - acc)\<rparr>"
    let ?r1 = "if n - acc = 0 then ?r\<lparr>m_rb_status := RB_finished\<rparr> else ?r"
    let ?e = "if n - acc = 0 then False else err"
    let ?buf = "memcpy buf (m_body r @ out)"
    have res: "read_body_length_mode r buf room = Some (?r1, ?buf, acc, ?e)"
      using True r lp by (simp add: read_body_length_mode_def Let_def room'_def [symmetric] sk spec(2))
    have acc: "acc \<le> room'" "acc \<le> n" using spec(1,3) True room' by auto
    have "length_ok (n - acc) ?r1" using r n by (auto simp: length_ok_def)
    moreover have "same_head r ?r1" by (simp add: head spec)
    moreover have "pending r = take acc ?buf @ pending ?r1" "length (take acc ?buf) = acc"
      using spec(1,4) by (simp_all add: pending_def sk)
    moreover have "?e \<longrightarrow> acc = 0" "\<not> ?e \<and> 0 < room \<longrightarrow> 0 < acc"
      using spec(7,8) True room' n by (auto split: if_splits)
    moreover have "acc \<le> room" by (rule le_trans [OF acc(1) room'(2)])
    ultimately show ?thesis using res acc(2) by blast
  qed
qed

lemma length_loop_clean:
  "length_loop sk tplen room acc out err = (out', tplen', acc', err', sk') \<Longrightarrow> clean sk \<Longrightarrow>
   clean sk' \<and> (err' \<longrightarrow> err \<or> sk_in sk' = [])"
proof (induction sk tplen room acc out err arbitrary: out' tplen' acc' err' sk' rule: length_loop.induct)
  case (1 sk tplen room acc out err)
  show ?case
  proof (cases "0 < tplen \<and> 0 < room")
    case False
    with 1 show ?thesis by (auto simp: length_loop.simps [of sk tplen room])
  next
    case True
    obtain d e sk1 where rd: "read_some sk room = (d, e, sk1)" by (metis prod_cases3)
    from read_some_clean [OF "1.prems"(2) _ rd] True
    have c1: "clean sk1" "e \<and> d = [] \<longrightarrow> sk_in sk1 = []" by auto
    show ?thesis
    proof (cases "e \<and> d = []")
      case True
      with 1 rd c1 \<open>0 < tplen \<and> 0 < room\<close> show ?thesis
        by (auto simp: length_loop.simps [of sk tplen room] Let_def split: if_splits)
    next
      case False
      have rec: "length_loop sk1 (tplen - length d) (room - length d) (acc + length d) (out @ d) False =
          (out', tplen', acc', err', sk')"
        using "1.prems" rd True False
        by (auto simp: length_loop.simps [of sk tplen room] Let_def split: if_splits)
      with "1.IH" rd True False c1 show ?thesis
        by (metis (no_types, lifting) length_greater_0_conv)
    qed
  qed
qed

definition clean_request :: "request \<Rightarrow> bool" where
  "clean_request r = (case m_socket r of None \<Rightarrow> True | Some sk \<Rightarrow> clean sk)"

lemma read_length_clean:
  assumes ok: "length_ok n r" and res: "read_body_length_mode r buf room = Some (r', buf', k, err)"
    and c: "clean_request r"
  shows "clean_request r' \<and> (err \<longrightarrow> pending r' = [])"
proof -
  obtain sk where sk: "m_socket r = Some sk" using ok by (auto simp: length_ok_def)
  define room' where "room' = (if n < room then n else room)"
  let ?b = "length (m_body r)"
  obtain out tplen' acc e sk' where lp:
    "length_loop sk (n - ?b) (room' - ?b) ?b [] False = (out, tplen', acc, e, sk')"
    by (metis prod_cases5)
  from length_loop_clean [OF lp] c sk have "clean sk'" "e \<longrightarrow> sk_in sk' = []"
    by (auto simp: clean_request_def)
  with ok res c sk lp show ?thesis
    by (auto simp: read_body_length_mode_def length_ok_def Let_def room'_def [symmetric] clean_request_def
        pending_def sk_stream_def split: if_splits)
qed

lemma read_all_length:
  "length_ok n r \<Longrightarrow> is_valid r \<Longrightarrow> 0 < room \<Longrightarrow>
   \<exists>r' out err. read_all_loop r buf room result = Some (r', result @ out, err) \<and>
     pending r = out @ pending r' \<and> (err \<or> length out = n \<and> m_rb_status r' = RB_finished) \<and>
     (clean_request r \<and> n \<le> length (pending r) \<longrightarrow> \<not> err)"
proof (induction n arbitrary: r buf result rule: less_induct)
  case (less n)
  show ?case
  proof (cases "n = 0")
    case True
    with less.prems show ?thesis
      by (auto simp: read_all_loop.simps [of r] can_read_body_def length_ok_def)
  next
    case False
    then have n: "0 < n" by simp
    obtain r' buf' k err where st: "read_body_length_mode r buf room = Some (r', buf', k, err)"
      "k \<le> n" "length_ok (n - k) r'" "same_head r r'" "pending r = take k buf' @ pending r'"
      "length (take k buf') = k" "err \<longrightarrow> k = 0" "\<not> err \<longrightarrow> 0 < k"
      using read_length_step [OF less.prems(1) n, of buf room] less.prems(3) by blast
    have rb: "read_body r buf room = Some (r', buf', k, err)" "can_read_body r"
      using less.prems n st(1) by (auto simp: read_body_def read_body_mode_def length_ok_def can_read_body_def)
    show ?thesis
    proof (cases err)
      case True
      with st(7) have k: "k = 0" by simp
      have "pending r \<noteq> [] \<longrightarrow> \<not> clean_request r"
        using read_length_clean [OF less.prems(1) st(1)] st(5) k True by auto
      have "read_all_loop r buf room result = Some (r', result, True)"
        using rb True by (subst read_all_loop.simps) simp
      moreover have "pending r = pending r'" using st(5) k by simp
      moreover have "\<not> (clean_request r \<and> n \<le> length (pending r))" using \<open>pending r \<noteq> [] \<longrightarrow> _\<close> n by auto
      ultimately show ?thesis by (intro exI [of _ r'] exI [of _ "[]"] exI [of _ True]) simp
    next
      case False
      with st(8) have k: "0 < k" by simp
      have v: "is_valid r'" using st(4) less.prems(2) by (simp add: same_head_def)
      from k n have "n - k < n" by simp
      from less.IH [OF this st(3) v less.prems(3), of buf' "result @ take k buf'"]
      obtain r2 out err' where ih:
        "read_all_loop r' buf' room (result @ take k buf') = Some (r2, (result @ take k buf') @ out, err')"
        "pending r' = out @ pending r2" "err' \<or> length out = n - k \<and> m_rb_status r2 = RB_finished"
        "clean_request r' \<and> n - k \<le> length (pending r') \<longrightarrow> \<not> err'" by blast
      have "read_all_loop r buf room result = Some (r2, result @ (take k buf' @ out), err')"
        using rb False k ih(1) by (subst read_all_loop.simps) simp
      moreover have "pending r = (take k buf' @ out) @ pending r2" using st(5) ih(2) by simp
      moreover have "err' \<or> length (take k buf' @ out) = n \<and> m_rb_status r2 = RB_finished"
        using ih(3) st(2,6) by auto
      moreover have "clean_request r \<and> n \<le> length (pending r) \<longrightarrow> \<not> err'"
        using ih(4) st(5,6) read_length_clean [OF less.prems(1) st(1)] by auto
      ultimately show ?thesis by blast
    qed
  qed
qed

lemma finish_keep_alive_fields [simp]:
  "m_headers (finish_keep_alive r) = m_headers r"
  "m_version (finish_keep_alive r) = m_version r"
  "m_path (finish_keep_alive r) = m_path r"
  "m_method (finish_keep_alive r) = m_method r"
  "m_parameters (finish_keep_alive r) = m_parameters r"
  "m_cookies (finish_keep_alive r) = m_cookies r"
  "m_parameters_string (finish_keep_alive r) = m_parameters_string r"
  "m_socket (finish_keep_alive r) = m_socket r"
  "m_body (finish_keep_alive r) = m_body r"
  "m_rb_status (finish_keep_alive r) = m_rb_status r"
  "m_rb_context (finish_keep_alive r) = m_rb_context r"
  "m_websocket (finish_keep_alive r) = m_websocket r"
  by (simp_all add: finish_keep_alive_def split: option.split)

lemma finish_gzip_fields [simp]:
  "m_headers (finish_gzip r) = m_headers r"
  "m_version (finish_gzip r) = m_version r"
  "m_path (finish_gzip r) = m_path r"
  "m_method (finish_gzip r) = m_method r"
  "m_parameters (finish_gzip r) = m_parameters r"
  "m_cookies (finish_gzip r) = m_cookies r"
  "m_parameters_string (finish_gzip r) = m_parameters_string r"
  "m_socket (finish_gzip r) = m_socket r"
  "m_body (finish_gzip r) = m_body r"
  "m_rb_status (finish_gzip r) = m_rb_status r"
  "m_rb_context (finish_gzip r) = m_rb_context r"
  "m_websocket (finish_gzip r) = m_websocket r"
  "m_keep_alive (finish_gzip r) = m_keep_alive r"
  by (simp_all add: finish_gzip_def split: option.split)

lemma finish_websocket_fields [simp]:
  "m_headers (finish_websocket r) = m_headers r"
  "m_version (finish_websocket r) = m_version r"
  "m_path (finish_websocket r) = m_path r"
  "m_method (finish_websocket r) = m_method r"
  "m_parameters (finish_websocket r) = m_parameters r"
  "m_cookies (finish_websocket r) = m_cookies r"
  "m_parameters_string (finish_websocket r) = m_parameters_string r"
  "m_socket (finish_websocket r) = m_socket r"
  "m_body (finish_websocket r) = m_body r"
  "m_rb_status (finish_websocket r) = m_rb_status r"
  "m_rb_context (finish_websocket r) = m_rb_context r"
  "m_keep_alive (finish_websocket r) = m_keep_alive r"
  "m_support_gzip (finish_websocket r) = m_support_gzip r"
  by (simp_all add: finish_websocket_def split: option.split)

lemma finish_body_fields [simp]:
  "m_headers (finish_body r b) = m_headers r"
  "m_version (finish_body r b) = m_version r"
  "m_path (finish_body r b) = m_path r"
  "m_method (finish_body r b) = m_method r"
  "m_parameters (finish_body r b) = m_parameters r"
  "m_cookies (finish_body r b) = m_cookies r"
  "m_parameters_string (finish_body r b) = m_parameters_string r"
  "m_socket (finish_body r b) = m_socket r"
  "m_keep_alive (finish_body r b) = m_keep_alive r"
  "m_support_gzip (finish_body r b) = m_support_gzip r"
  "m_websocket (finish_body r b) = m_websocket r"
  by (simp_all add: finish_body_def Let_def split: option.split)

lemma finish_fields [simp]:
  "m_headers (finish r b) = m_headers r"
  "m_version (finish r b) = m_version r"
  "m_path (finish r b) = m_path r"
  "m_method (finish r b) = m_method r"
  "m_parameters (finish r b) = m_parameters r"
  "m_cookies (finish r b) = m_cookies r"
  "m_parameters_string (finish r b) = m_parameters_string r"
  "m_socket (finish r b) = m_socket r"
  by (simp_all add: finish_def)

lemma finish_length:
  assumes "header_find (m_headers r) hdr_content_length = Some v"
  defines "n \<equiv> unat (get_u64 v)"
  shows "m_body (finish r b) = take n b" "m_rb_context (finish r b) = Ctx_size n"
    "m_rb_status (finish r b) = (if n = 0 then RB_finished else RB_length)"
  using assms by (auto simp: finish_def finish_body_def substr_def Let_def)


section \<open>What finish derives from the headers\<close>

lemma any_gzip_set: "any_gzip ss = (''gzip'' \<in> set (map (\<lambda>s. str_to_lower (str_trimmed s)) ss))"
  by (induction ss) auto

lemma any_gzip_splitted:
  "any_gzip (splitted v '','' True) =
     (''gzip'' \<in> set (map (\<lambda>s. str_to_lower (str_trimmed s)) (pieces (CHR '','') v)))"
proof -
  have "str_to_lower (str_trimmed []) \<noteq> ''gzip''" by (simp add: str_trimmed_ref trim_ref_def str_to_lower_def)
  then show ?thesis by (cases "v = []") (auto simp: any_gzip_set splitted_char)
qed

text \<open>\<open>finish\<close> on a fresh request: the connection is kept unless the client asked for
  \<open>close\<close> (case-insensitively) or sent no \<open>Connection\<close> field with version 1.0; gzip is offered
  exactly when \<open>gzip\<close> is one of the comma-separated codings; and the request is a WebSocket
  handshake exactly for version 1.1 with \<open>Connection: upgrade\<close> and \<open>Upgrade: websocket\<close>.\<close>

theorem finish_flags:
  "m_keep_alive (finish r b) =
     (case header_find (m_headers r) ''CONNECTION'' of
        None \<Rightarrow> m_version r \<noteq> ''1.0'' | Some v \<Rightarrow> str_to_lower v \<noteq> ''close'') \<and>
   m_support_gzip (finish (r\<lparr>m_support_gzip := False\<rparr>) b) =
     (\<exists>v \<in> set_option (header_find (m_headers r) ''accept-encoding'').
        ''gzip'' \<in> set (map (\<lambda>s. str_to_lower (str_trimmed s)) (pieces (CHR '','') v))) \<and>
   m_websocket (finish (r\<lparr>m_websocket := False\<rparr>) b) =
     (m_version r = ''1.1'' \<and>
      map_option str_to_lower (header_find (m_headers r) ''Connection'') = Some ''upgrade'' \<and>
      map_option str_to_lower (header_find (m_headers r) ''Upgrade'') = Some ''websocket'')"
proof -
  have key: "header_find h k = header_find h k'" if "map tolower k = map tolower k'" for h k k'
    using that by (simp add: header_find_def headers.lookup_norm [OF that])
  have keys: "header_find h ''CONNECTION'' = header_find h ''Connection''"
    "header_find h ''connection'' = header_find h ''Connection''"
    "header_find h ''upgrade'' = header_find h ''Upgrade''"
    "header_find h ''accept-encoding'' = header_find h ''Accept-Encoding''" for h
    by (rule key, code_simp)+
  show ?thesis
  proof (intro conjI)
    show "m_keep_alive (finish r b) =
        (case header_find (m_headers r) ''CONNECTION'' of
           None \<Rightarrow> m_version r \<noteq> ''1.0'' | Some v \<Rightarrow> str_to_lower v \<noteq> ''close'')"
      by (simp add: finish_def finish_keep_alive_def header_names keys split: option.split)
    show "m_support_gzip (finish (r\<lparr>m_support_gzip := False\<rparr>) b) =
        (\<exists>v \<in> set_option (header_find (m_headers r) ''accept-encoding'').
           ''gzip'' \<in> set (map (\<lambda>s. str_to_lower (str_trimmed s)) (pieces (CHR '','') v)))"
      unfolding keys
      by (simp add: finish_def finish_gzip_def finish_keep_alive_def header_names any_gzip_splitted
          split: option.split)
    show "m_websocket (finish (r\<lparr>m_websocket := False\<rparr>) b) =
        (m_version r = ''1.1'' \<and>
         map_option str_to_lower (header_find (m_headers r) ''Connection'') = Some ''upgrade'' \<and>
         map_option str_to_lower (header_find (m_headers r) ''Upgrade'') = Some ''websocket'')"
      by (simp add: finish_def finish_websocket_def keys split: option.split)
  qed
qed

section \<open>Chunked bodies\<close>

definition chunk_enc :: "string \<Rightarrow> string" where
  "chunk_enc c = hex_upper (length c) @ CRLF @ c @ CRLF"

definition chunked :: "string list \<Rightarrow> string" where
  "chunked cs = concat (map chunk_enc cs) @ ''0'' @ CRLF @ CRLF"

lemma strto_parse_hex: "strto_parse (hex_upper n) 16 = (False, n)"
proof -
  obtain d cs where h: "hex_upper n = digit_char d # cs" "d < 16" using hex_upper_hd by blast
  have first: "\<not> isspace (digit_char d)" "digit_char d \<noteq> CHR ''-''" "digit_char d \<noteq> CHR ''+''"
    using digit_char_not_special [of d] h(2) by auto
  have "take 2 (hex_upper n) \<noteq> ''0x''" "take 2 (hex_upper n) \<noteq> ''0X''"
    using hex_upper_free [of "CHR ''x''" n] hex_upper_free [of "CHR ''X''" n] set_take_subset [of 2 "hex_upper n"]
    by auto
  moreover have "dropWhile isspace (hex_upper n) = hex_upper n" "hd (hex_upper n) = digit_char d"
    using h first by simp_all
  ultimately show ?thesis
    using first by (simp add: strto_parse_def Let_def) (simp add: hex_upper_def digits_value_radix)
qed

lemma stoull16_hex: "n < 2 ^ 64 \<Longrightarrow> stoull16 (hex_upper n) = Some (of_nat n)"
proof -
  assume n: "n < 2 ^ 64"
  obtain d cs where h: "hex_upper n = digit_char d # cs" "d < 16" using hex_upper_hd by blast
  have first: "\<not> isspace (digit_char d)" "digit_char d \<noteq> CHR ''-''" "digit_char d \<noteq> CHR ''+''"
    using digit_char_not_special [of d] h(2) by auto
  have "digit_val (digit_char d) = Some d" using h(2) by (simp add: digit_val_digit_char)
  with h first n show ?thesis
    using strto_parse_hex [of n] by (simp add: stoull16_def strtoul_def)
qed

lemma chunk_size_line:
  assumes "m_rb_status r = RB_wait_size" "n < 2 ^ 64"
  shows "chunk_loop r (hex_upper n @ CRLF @ t) sz =
    chunk_loop (r\<lparr>m_rb_status := (if n = 0 then RB_wait_headers else RB_wait_content)\<rparr>) t (of_nat n)"
proof -
  have f: "str_find CRLF (hex_upper n @ CRLF @ t) = Some (length (hex_upper n))"
    by (rule str_find_CRLF_line) (rule str_find_CRLF_no_CR, rule hex_upper_free, simp)
  have semi: "str_find '';'' (hex_upper n) = None"
    using hex_upper_free [of "CHR '';''" n] by (simp add: str_find_char)
  have len: "length (hex_upper n) \<le> 16" using hex_upper_length [of n 16] assms(2) by simp
  have zero: "(of_nat n :: u64) = 0 \<longleftrightarrow> n = 0"
    using assms(2) by (auto simp: word_of_nat_eq_0_iff dest: nat_dvd_not_less [rotated])
  show ?thesis
    using f semi len zero assms
    by (simp add: chunk_loop.simps [of r] chunk_line_def substr_def stoull16_hex)
qed

lemma chunk_data_line:
  assumes "m_rb_status r = RB_wait_content" "str_find CRLF c = None" "length c < 2 ^ 64"
  shows "chunk_loop r (c @ CRLF @ t) (of_nat (length c)) =
    chunk_loop (r\<lparr>m_rb_status := RB_wait_size, m_body := m_body r @ c\<rparr>) t (of_nat (length c))"
  using str_find_CRLF_line [OF assms(2), of t] assms
  by (simp add: chunk_loop.simps [of r] chunk_line_def substr_def)

lemma chunk_loop_chunks:
  "m_rb_status r = RB_wait_size \<Longrightarrow> list_all (\<lambda>c. c \<noteq> [] \<and> str_find CRLF c = None \<and> length c < 2 ^ 64) cs \<Longrightarrow>
   \<exists>sz'. chunk_loop r (concat (map chunk_enc cs) @ t) sz =
     chunk_loop (r\<lparr>m_body := m_body r @ concat cs\<rparr>) t sz'"
proof (induction cs arbitrary: r sz)
  case Nil
  then show ?case by auto
next
  case (Cons c cs)
  let ?r1 = "r\<lparr>m_rb_status := RB_wait_content\<rparr>"
  let ?r2 = "r\<lparr>m_rb_status := RB_wait_size, m_body := m_body r @ c\<rparr>"
  have c: "c \<noteq> []" "str_find CRLF c = None" "length c < 2 ^ 64" using Cons.prems by auto
  have "chunk_loop r (chunk_enc c @ concat (map chunk_enc cs) @ t) sz =
      chunk_loop ?r2 (concat (map chunk_enc cs) @ t) (of_nat (length c))"
    using chunk_size_line [OF Cons.prems(1) c(3), of "c @ CRLF @ concat (map chunk_enc cs) @ t" sz]
      chunk_data_line [of ?r1 c "concat (map chunk_enc cs) @ t"] c
    by (simp add: chunk_enc_def)
  moreover obtain sz' where "chunk_loop ?r2 (concat (map chunk_enc cs) @ t) (of_nat (length c)) =
      chunk_loop (?r2\<lparr>m_body := m_body ?r2 @ concat cs\<rparr>) t sz'"
    using Cons.IH [of ?r2] Cons.prems by auto
  moreover have "?r2\<lparr>m_body := m_body ?r2 @ concat cs\<rparr> = r\<lparr>m_body := m_body r @ concat (c # cs)\<rparr>"
    using Cons.prems(1) by (cases r) simp
  ultimately show ?case by auto
qed

lemma chunk_loop_end:
  assumes "m_rb_status r = RB_wait_size"
  shows "chunk_loop r (''0'' @ CRLF @ CRLF) sz = (r\<lparr>m_rb_status := RB_chunked_end\<rparr>, [], False)"
proof -
  have z: "''0'' = hex_upper 0" by code_simp
  have "str_find CRLF CRLF = Some 0" by (simp add: CRLF_def)
  then show ?thesis
    unfolding z using chunk_size_line [OF assms, of 0 CRLF sz]
    by (simp add: chunk_loop.simps [of "r\<lparr>m_rb_status := RB_wait_headers\<rparr>"] chunk_line_def substr_def)
qed

lemma finish_chunked:
  assumes "header_find (m_headers r) hdr_content_length = None" "m_version r = ''1.1''"
    and "header_find (m_headers r) hdr_transfer_encoding = Some ''chunked''"
  shows "m_body (finish r b) = [] \<and> m_rb_context (finish r b) = Ctx_string b \<and>
    m_rb_status (finish r b) = RB_wait_size"
  using assms by (simp add: finish_def finish_body_def Let_def)

lemma read_chunked:
  assumes st: "m_body r = []" "m_rb_context r = Ctx_string (chunked cs)" "m_rb_status r = RB_wait_size"
    and cs: "list_all (\<lambda>c. c \<noteq> [] \<and> str_find CRLF c = None \<and> length c < 2 ^ 64) cs"
    and room: "length (concat cs) < room"
  shows "read_body_string r room =
    Some (r\<lparr>m_body := [], m_rb_status := RB_finished, m_rb_context := Ctx_string []\<rparr>, concat cs, False)"
proof -
  let ?r0 = "r\<lparr>m_body := []\<rparr>"
  let ?r1 = "?r0\<lparr>m_body := concat cs\<rparr>"
  obtain sz' where "chunk_loop ?r0 (chunked cs) 0 = chunk_loop ?r1 (''0'' @ CRLF @ CRLF) sz'"
    using chunk_loop_chunks [of ?r0 cs "''0'' @ CRLF @ CRLF" 0] cs st by (auto simp: chunked_def)
  also have "\<dots> = (?r1\<lparr>m_rb_status := RB_chunked_end\<rparr>, [], False)"
    by (rule chunk_loop_end) (simp add: st)
  finally have loop: "chunk_loop ?r0 (chunked cs) 0 = (?r1\<lparr>m_rb_status := RB_chunked_end\<rparr>, [], False)" .
  have ne: "chunked cs \<noteq> []" "room \<noteq> 0" using room by (auto simp: chunked_def)
  have "read_body_chunked_mode r (replicate room (CHR 0x00)) room =
      Some (r\<lparr>m_body := [], m_rb_status := RB_finished, m_rb_context := Ctx_string []\<rparr>,
        memcpy (memcpy (replicate room (CHR 0x00)) []) (concat cs), length (concat cs), False)"
    using ne room by (simp add: read_body_chunked_mode_def chunk_fill_def st loop Let_def chunk_copy_out_def
        del: length_concat)
  then show ?thesis
    using ne st by (simp add: read_body_string_def read_body_mode_def del: length_concat)
qed

text \<open>Chunked decoding.  For a version 1.1 request with \<open>Transfer-Encoding: chunked\<close> and no
  \<open>Content-Length\<close> whose encoded body has arrived with the headers, one read with more room than
  the body needs returns the concatenation of the chunks, without error, and finishes the
  request.  The chunks must not contain CRLF: the reader splits the data at line ends.\<close>

theorem read_chunked_body:
  assumes "header_find (m_headers r) hdr_content_length = None" and "m_version r = ''1.1''"
    and "header_find (m_headers r) hdr_transfer_encoding = Some ''chunked''"
    and "list_all (\<lambda>c. c \<noteq> [] \<and> str_find CRLF c = None \<and> length c < 2 ^ 64) cs"
    and "length (concat cs) < room"
  shows "\<exists>r'. read_body_string (finish r (chunked cs)) room = Some (r', concat cs, False) \<and>
     m_rb_status r' = RB_finished"
proof -
  have "m_body (finish r (chunked cs)) = []" "m_rb_context (finish r (chunked cs)) = Ctx_string (chunked cs)"
    "m_rb_status (finish r (chunked cs)) = RB_wait_size"
    using finish_chunked [OF assms(1-3)] by auto
  from read_chunked [OF this assms(4,5)] show ?thesis by simp
qed

definition chunked_request :: request where
  "chunked_request =
     request_new\<lparr>m_version := ''1.1'', m_path := ''/'', m_method := POST,
       m_headers := [(''Transfer-Encoding'', ''chunked'')]\<rparr>"

lemma read_chunked_body_witness:
  "\<exists>r'. read_body_string (finish chunked_request (chunked [''ab'', ''c''])) 16 = Some (r', ''abc'', False) \<and>
     m_rb_status r' = RB_finished"
proof -
  have h: "header_find (m_headers chunked_request) hdr_content_length = None"
    "m_version chunked_request = ''1.1''"
    "header_find (m_headers chunked_request) hdr_transfer_encoding = Some ''chunked''"
    by code_simp+
  have c: "list_all (\<lambda>c. c \<noteq> [] \<and> str_find CRLF c = None \<and> length c < 2 ^ 64) [''ab'', ''c'']"
    by (simp add: CRLF_def CR_def)
  show ?thesis
    using read_chunked_body [OF h c, of 16] by simp
qed

text \<open>Two defects of the chunked reader at concrete inputs: data that contains CRLF is taken for
  lines of the protocol, and bytes left over from a read are overwritten by the next chunk.\<close>

lemma stoull16_digits: "stoull16 ''4'' = Some 4" "stoull16 ''B'' = Some 11" "stoull16 [] = None"
proof -
  have "hex_upper 4 = ''4''" "hex_upper 11 = ''B''" by code_simp+
  then show "stoull16 ''4'' = Some 4" "stoull16 ''B'' = Some 11"
    using stoull16_hex [of 4] stoull16_hex [of 11] by simp_all
  show "stoull16 [] = None" by (simp add: stoull16_def)
qed

definition crlf_chunk :: string where
  "crlf_chunk = ''4'' @ CRLF @ (''a'' @ CRLF @ ''B'') @ CRLF @ ''0'' @ CRLF @ CRLF"

lemma chunk_with_line_end_misread:
  "map_option (\<lambda>(r, s, e). (s, e)) (read_body_string (finish chunked_request crlf_chunk) 16) = Some ([], True)"
proof -
  have h: "header_find (m_headers chunked_request) hdr_content_length = None"
    "m_version chunked_request = ''1.1''"
    "header_find (m_headers chunked_request) hdr_transfer_encoding = Some ''chunked''"
    by code_simp+
  show ?thesis
    using finish_chunked [OF h, of crlf_chunk]
    by (simp add: read_body_string_def read_body_mode_def read_body_chunked_mode_def chunk_fill_def
      chunk_loop.simps chunk_line_def stoull16_digits substr_def crlf_chunk_def CRLF_def CR_def LF_def numeral_eq_Suc)
      (simp add: ex_bool_eq)
qed

lemma chunk_remainder_overwritten:
  "map_option (\<lambda>(r, s, e). s)
     (read_body_string
        (request_new\<lparr>m_rb_status := RB_wait_size, m_body := ''ef'', m_rb_context := Ctx_string [],
           m_socket := Some (tcp_new 64 [(''4'' @ CRLF @ ''WXYZ'' @ CRLF, False)])\<rparr>) 10) =
   Some (''WXYZ'' @ [CHR 0x00, CHR 0x00])"
proof -
  have r: "replicate 10 c = [c, c, c, c, c, c, c, c, c, c]" for c :: char
    by (simp add: numeral_eq_Suc)
  show ?thesis
    by (simp add: read_body_string_def read_body_mode_def read_body_chunked_mode_def chunk_fill_def
        request_new_def read_some_def tcp_new_def chunk_copy_out_def memcpy_def Let_def r
        chunk_loop.simps chunk_line_def stoull16_digits substr_def CRLF_def CR_def LF_def)
qed

definition length_request :: request where
  "length_request =
     request_new\<lparr>m_version := ''1.1'', m_path := ''/'', m_method := POST,
       m_headers := [(''Content-Length'', ''5'')]\<rparr>"

definition length_socket :: tcp where
  "length_socket = tcp_new 4 [(''c'', False), (''de'', False)]"


end
