(* ===== verification/HttpParser.thy ===== *)
theory HttpParser
  imports HttpRequest
begin

text \<open>
  \<open>gts/http/parser.cpp\<close>: the request parser, a line-driven state machine over a buffer to which
  \<open>load\<close> appends what the socket delivers.  \<open>m_cache\<close> is the request under construction (\<open>None\<close>
  is the null pointer; using it is the \<open>None\<close> result of \<open>load\<close>).  Logging is not modelled.
\<close>

section \<open>State\<close>

datatype pstate = Waiting_request | Reading_headers

record parser =
  p_state :: pstate
  p_buffer :: string
  p_cache :: "request option"
  p_context :: "request option"

definition parser_new :: parser where
  "parser_new = \<lparr>p_state = Waiting_request, p_buffer = [], p_cache = Some request_new, p_context = None\<rparr>"

definition reset :: "parser \<Rightarrow> parser" where
  "reset p = p\<lparr>p_state := Waiting_request, p_buffer := [], p_cache := None\<rparr>"

section \<open>The request line\<close>

text \<open>\<open>std::unique\<close> on slashes.\<close>

fun collapse_slashes :: "string \<Rightarrow> string" where
  "collapse_slashes [] = []"
| "collapse_slashes [c] = [c]"
| "collapse_slashes (a # b # s) =
     (if a = b \<and> a = CHR ''/'' then collapse_slashes (b # s) else a # collapse_slashes (b # s))"

fun parse_parameters :: "string list \<Rightarrow> val umap \<Rightarrow> val umap" where
  "parse_parameters [] ps = ps"
| "parse_parameters (para_str # rest) ps =
     (case str_find ''='' para_str of
        None \<Rightarrow> parse_parameters rest (fst (umap_emplace ps para_str para_str))
      | Some pos \<Rightarrow>
          parse_parameters rest
            (fst (umap_emplace ps (substr para_str 0 pos) (drop (pos + 1) para_str))))"

definition set_resource :: "request \<Rightarrow> string \<Rightarrow> request" where
  "set_resource r resource_line =
     (let r1 = (case str_find ''?'' resource_line of
                  None \<Rightarrow> r\<lparr>m_path := resource_line\<rparr>
                | Some pos \<Rightarrow>
                    (let ps = drop (pos + 1) resource_line
                     in r\<lparr>m_path := substr resource_line 0 pos, m_parameters_string := ps,
                          m_parameters := parse_parameters (splitted ps ''&'' True) (m_parameters r)\<rparr>))
      in r1\<lparr>m_path := collapse_slashes (m_path r1)\<rparr>)"

definition state_handler_waiting_request :: "parser \<Rightarrow> string \<Rightarrow> parser \<times> bool" where
  "state_handler_waiting_request p line_buf =
     (let parts = splitted line_buf '' '' True
      in if length parts \<noteq> 3 \<or> \<not> str_starts_with (str_to_upper (parts ! 2)) ''HTTP/'' then
           (p\<lparr>p_buffer := []\<rparr>, False)
         else
           (let method = from_method_string (parts ! 0)
            in if method = METHOD_UNKNOWN then (p\<lparr>p_buffer := []\<rparr>, False)
               else
                 (let r0 = (case p_cache p of None \<Rightarrow> request_new | Some r \<Rightarrow> r);
                      r1 = r0\<lparr>m_method := method, m_version := substr (parts ! 2) 5 3\<rparr>;
                      r2 = set_resource r1 (from_percent_encoding (parts ! 1))
                  in (p\<lparr>p_cache := Some r2, p_state := Reading_headers\<rparr>, True))))"

section \<open>The header lines\<close>

definition next_request_ready :: "parser \<Rightarrow> request \<Rightarrow> parser \<times> request" where
  "next_request_ready p r =
     (p\<lparr>p_state := Waiting_request, p_cache := None, p_buffer := []\<rparr>, finish r (p_buffer p))"

text \<open>The outer option is the null pointer, the inner one the request that is returned.\<close>

definition state_handler_reading_headers :: "parser \<Rightarrow> string \<Rightarrow> (parser \<times> request option) option" where
  "state_handler_reading_headers p line_buf =
     (case p_cache p of
        None \<Rightarrow> None
      | Some r \<Rightarrow>
          if line_buf = CRLF then
            (let (p', r') = next_request_ready p r in Some (p', Some r'))
          else
            (case str_find '':'' line_buf of
               None \<Rightarrow> Some (reset p, Some request_new)
             | Some colon_index \<Rightarrow>
                 (let key = str_to_lower (str_trimmed (substr line_buf 0 colon_index));
                      v = from_percent_encoding (str_trimmed (drop (colon_index + 1) line_buf))
                  in if key \<noteq> ''cookie'' then
                       Some (p\<lparr>p_cache := Some (r\<lparr>m_headers := header_put (m_headers r) key v\<rparr>)\<rparr>, None)
                     else
                       (case cookie_statements (splitted v '';'' True) (m_cookies r) of
                          (cs, good) \<Rightarrow>
                            if good then Some (p\<lparr>p_cache := Some (r\<lparr>m_cookies := cs\<rparr>)\<rparr>, None)
                            else Some (reset p, Some request_new)))))"

section \<open>load\<close>

text \<open>The actions on a buffer without a line end.\<close>

definition load_no_line :: "parser \<Rightarrow> parser" where
  "load_no_line p =
     (if length (p_buffer p) < 1024 then p
      else case p_state p of
             Waiting_request \<Rightarrow> p\<lparr>p_buffer := []\<rparr>
           | Reading_headers \<Rightarrow> reset p)"

function load_loop :: "parser \<Rightarrow> (bool \<times> parser) option" where
  "load_loop p =
     (if p_buffer p = [] then Some (False, p)
      else case str_find CRLF (p_buffer p) of
             None \<Rightarrow> Some (False, load_no_line p)
           | Some pos \<Rightarrow>
               (let line_buf = substr (p_buffer p) 0 (pos + 2);
                    p1 = p\<lparr>p_buffer := drop (pos + 2) (p_buffer p)\<rparr>
                in case p_state p of
                     Waiting_request \<Rightarrow> load_loop (fst (state_handler_waiting_request p1 line_buf))
                   | Reading_headers \<Rightarrow>
                       (case state_handler_reading_headers p1 line_buf of
                          None \<Rightarrow> None
                        | Some (p2, Some r) \<Rightarrow> Some (True, p2\<lparr>p_context := Some r\<rparr>)
                        | Some (p2, None) \<Rightarrow> load_loop p2)))"
  by pat_completeness auto

lemma waiting_buffer:
  "p_buffer (fst (state_handler_waiting_request p l)) = p_buffer p \<or>
   p_buffer (fst (state_handler_waiting_request p l)) = []"
  by (auto simp: state_handler_waiting_request_def Let_def)

lemma headers_buffer:
  "state_handler_reading_headers p l = Some (p', None) \<Longrightarrow> p_buffer p' = p_buffer p"
  by (auto simp: state_handler_reading_headers_def Let_def split: option.splits if_splits prod.splits)

termination load_loop
proof (relation "measure (\<lambda>p. length (p_buffer p))", goal_cases)
  case 1
  show ?case by simp
next
  case (2 p pos l p1)
  then have "length (p_buffer p1) < length (p_buffer p)" by (cases p) auto
  with waiting_buffer [of p1 l] 2 show ?case by (auto simp: length_greater_0_conv)
next
  case (3 p pos l p1 a b c)
  then have "length (p_buffer p1) < length (p_buffer p)" by (cases p) auto
  with 3 show ?case by (auto dest: headers_buffer)
qed

declare load_loop.simps [simp del]

definition load :: "parser \<Rightarrow> string \<Rightarrow> (bool \<times> parser) option" where
  "load p data = load_loop (p\<lparr>p_buffer := p_buffer p @ data\<rparr>)"

definition get_request :: "parser \<Rightarrow> tcp \<Rightarrow> parser \<times> request option" where
  "get_request p socket =
     (case p_context p of
        None \<Rightarrow> (p, None)
      | Some r \<Rightarrow> (p\<lparr>p_context := None\<rparr>, Some (r\<lparr>m_socket := Some socket\<rparr>)))"

section \<open>The invariant\<close>

text \<open>A request under construction: a known method, a version, and a path without \<open>//\<close>.\<close>

definition started :: "request \<Rightarrow> bool" where
  "started r = (m_method r \<noteq> METHOD_UNKNOWN \<and> str_find ''//'' (m_path r) = None)"

definition parser_ok :: "parser \<Rightarrow> bool" where
  "parser_ok p =
     ((case p_state p of Reading_headers \<Rightarrow> (\<exists>r. p_cache p = Some r \<and> started r) | Waiting_request \<Rightarrow> True) \<and>
      (case p_context p of Some r \<Rightarrow> started r | None \<Rightarrow> True))"

lemma parser_ok_buffer [simp]: "parser_ok (p\<lparr>p_buffer := b\<rparr>) = parser_ok p"
  by (cases "p_state p") (simp_all add: parser_ok_def)

lemma collapse_hd: "s \<noteq> [] \<Longrightarrow> collapse_slashes s \<noteq> [] \<and> hd (collapse_slashes s) = hd s"
  by (induction s rule: collapse_slashes.induct) auto

lemma collapse_no_double: "str_find ''//'' (collapse_slashes s) = None"
proof (induction s rule: collapse_slashes.induct)
  case (3 a b s)
  show ?case
  proof (cases "a = b \<and> a = CHR ''/''")
    case True
    with 3 show ?thesis by simp
  next
    case False
    have "hd (collapse_slashes (b # s)) = b" using collapse_hd [of "b # s"] by simp
    with False have "\<not> prefix ''//'' (a # collapse_slashes (b # s))"
      by (cases "collapse_slashes (b # s)") auto
    with 3 False show ?thesis by auto
  qed
qed auto

lemma set_resource_fields [simp]:
  "m_method (set_resource r s) = m_method r" "m_version (set_resource r s) = m_version r"
  "m_headers (set_resource r s) = m_headers r" "m_cookies (set_resource r s) = m_cookies r"
  by (simp_all add: set_resource_def Let_def split: option.split)

lemma set_resource_path: "str_find ''//'' (m_path (set_resource r s)) = None"
  by (simp add: set_resource_def Let_def collapse_no_double)

lemma started_new: "started request_new"
  by (simp add: started_def request_new_def)

lemma waiting_ok [inv_intros]:
  "parser_ok p \<Longrightarrow> p_state p = Waiting_request \<Longrightarrow> parser_ok (fst (state_handler_waiting_request p l))"
  by (auto simp: parser_ok_def state_handler_waiting_request_def Let_def started_def set_resource_path)

lemma headers_ok [inv_intros]:
  assumes "parser_ok p" "p_state p = Reading_headers"
  shows "\<exists>p' ro. state_handler_reading_headers p l = Some (p', ro) \<and> parser_ok p' \<and>
    (\<forall>r. ro = Some r \<longrightarrow> started r \<and> p_state p' = Waiting_request)"
proof -
  obtain r where r: "p_cache p = Some r" "started r" using assms by (auto simp: parser_ok_def)
  have ctx: "case p_context p of Some r \<Rightarrow> started r | None \<Rightarrow> True" using assms by (simp add: parser_ok_def)
  show ?thesis
    using r ctx assms(2)
    by (auto simp: state_handler_reading_headers_def next_request_ready_def parser_ok_def reset_def
        started_def request_new_def Let_def split: option.split prod.split)
qed

lemma load_loop_ok [inv_intros]:
  "parser_ok p \<Longrightarrow> \<exists>b p'. load_loop p = Some (b, p') \<and> parser_ok p'"
proof (induction p rule: load_loop.induct)
  case (1 p)
  show ?case
  proof (cases "p_buffer p = []")
    case True
    with 1 show ?thesis by (simp add: load_loop.simps [of p] ex_bool_eq)
  next
    case False
    show ?thesis
    proof (cases "str_find CRLF (p_buffer p)")
      case None
      have "parser_ok (load_no_line p)"
        using "1.prems" by (auto simp: load_no_line_def parser_ok_def reset_def split: pstate.split)
      with None False show ?thesis by (simp add: load_loop.simps [of p] ex_bool_eq)
    next
      case (Some pos)
      let ?l = "substr (p_buffer p) 0 (pos + 2)"
      let ?p1 = "p\<lparr>p_buffer := drop (pos + 2) (p_buffer p)\<rparr>"
      have ok1: "parser_ok ?p1" using "1.prems" by simp
      show ?thesis
      proof (cases "p_state p")
        case Waiting_request
        then have "p_state ?p1 = Waiting_request" by simp
        with ok1 have "parser_ok (fst (state_handler_waiting_request ?p1 ?l))" by (rule waiting_ok)
        with "1.IH"(1) [OF False Some refl refl Waiting_request] Waiting_request Some False
        show ?thesis by (simp add: load_loop.simps [of p])
      next
        case Reading_headers
        then obtain p2 ro where h: "state_handler_reading_headers ?p1 ?l = Some (p2, ro)" "parser_ok p2"
          "\<forall>r. ro = Some r \<longrightarrow> started r"
          using headers_ok [OF ok1] by force
        show ?thesis
        proof (cases ro)
          case None
          with "1.IH"(2) [OF False Some refl refl Reading_headers h(1) refl] h Reading_headers Some False
          show ?thesis by (simp add: load_loop.simps [of p])
        next
          case (Some r)
          have "parser_ok (p2\<lparr>p_context := Some r\<rparr>)" using h(2,3) Some
            by (auto simp: parser_ok_def split: pstate.splits)
          with Some h Reading_headers \<open>str_find CRLF (p_buffer p) = Some pos\<close> False
          show ?thesis by (simp add: load_loop.simps [of p] ex_bool_eq)
        qed
      qed
    qed
  qed
qed

text \<open>A session with the parser: data arriving, and requests being fetched.\<close>

datatype parser_op = Load string | Get_request tcp

fun run_parser :: "parser_op list \<Rightarrow> parser \<Rightarrow> (request list \<times> parser) option" where
  "run_parser [] p = Some ([], p)"
| "run_parser (Load d # ops) p =
     (case load p d of None \<Rightarrow> None | Some (_, p') \<Rightarrow> run_parser ops p')"
| "run_parser (Get_request s # ops) p =
     (let (p', ro) = get_request p s
      in case run_parser ops p' of
           None \<Rightarrow> None
         | Some (rs, p'') \<Rightarrow> Some ((case ro of None \<Rightarrow> rs | Some r \<Rightarrow> r # rs), p''))"

lemma run_parser_ok:
  "parser_ok p \<Longrightarrow> \<exists>rs p'. run_parser ops p = Some (rs, p') \<and> list_all started rs \<and> parser_ok p'"
proof (induction ops arbitrary: p)
  case (Cons a ops)
  show ?case
  proof (cases a)
    case (Load d)
    have "parser_ok (p\<lparr>p_buffer := p_buffer p @ d\<rparr>)" using Cons.prems by simp
    from load_loop_ok [OF this] obtain b p1 where "load p d = Some (b, p1)" "parser_ok p1"
      unfolding load_def by blast
    with Cons.IH [of p1] Load show ?thesis by auto
  next
    case (Get_request s)
    obtain p1 ro where g: "get_request p s = (p1, ro)" by fastforce
    have "parser_ok p1" "case ro of None \<Rightarrow> True | Some r \<Rightarrow> started r"
      using g Cons.prems
      by (auto simp: get_request_def parser_ok_def started_def split: option.splits pstate.splits)
    with Cons.IH [of p1] g Get_request show ?thesis by (auto split: option.split)
  qed
qed simp

lemma parser_ok_new [inv_intros]: "parser_ok parser_new"
  by (simp add: parser_ok_def parser_new_def)

text \<open>C3: Safety of the parser.  Whatever data arrives in whatever pieces and whenever requests are
  fetched, the parser never uses its null request pointer and every \<open>load\<close> returns; and every
  request it hands out has a known method and a path without two consecutive slashes.\<close>

theorem parser_safe:
  "\<exists>rs p. run_parser ops parser_new = Some (rs, p) \<and>
     list_all (\<lambda>r. m_method r \<noteq> METHOD_UNKNOWN \<and> str_find ''//'' (m_path r) = None) rs"
  using run_parser_ok [OF parser_ok_new, of ops] unfolding started_def [abs_def] by blast

section \<open>Segmentation\<close>

text \<open>After a \<open>load\<close> that did not complete a request, the parser still holds everything it was given
  unless it discarded a line: then it is waiting with an empty buffer.\<close>

definition keeps_input :: "parser \<Rightarrow> bool" where
  "keeps_input p = (p_buffer p \<noteq> [] \<or> p_state p = Reading_headers)"

lemma waiting_append:
  "p_buffer (fst (state_handler_waiting_request p l)) = p_buffer p \<and>
   fst (state_handler_waiting_request (p\<lparr>p_buffer := b\<rparr>) l) =
     (fst (state_handler_waiting_request p l))\<lparr>p_buffer := b\<rparr> \<or>
   (fst (state_handler_waiting_request p l)) = p\<lparr>p_buffer := []\<rparr>"
  by (auto simp: state_handler_waiting_request_def Let_def)

lemma headers_append:
  "state_handler_reading_headers p l = Some (p', None) \<Longrightarrow>
   p_buffer p' = p_buffer p \<and>
   state_handler_reading_headers (p\<lparr>p_buffer := b\<rparr>) l = Some (p'\<lparr>p_buffer := b\<rparr>, None)"
  by (auto simp: state_handler_reading_headers_def Let_def split: option.splits if_splits prod.splits)

lemma load_loop_empty_waiting:
  "p_buffer p = [] \<Longrightarrow> load_loop p = Some (False, p)"
  by (simp add: load_loop.simps [of p])

lemma load_loop_append:
  "load_loop p = Some (False, p') \<Longrightarrow> keeps_input p' \<Longrightarrow>
   load_loop (p\<lparr>p_buffer := p_buffer p @ d\<rparr>) = load_loop (p'\<lparr>p_buffer := p_buffer p' @ d\<rparr>)"
proof (induction p rule: load_loop.induct)
  case (1 p)
  show ?case
  proof (cases "p_buffer p = []")
    case True
    with "1.prems" show ?thesis by (simp add: load_loop.simps [of p])
  next
    case False
    show ?thesis
    proof (cases "str_find CRLF (p_buffer p)")
      case None
      with "1.prems" False have "p' = p"
        by (auto simp: load_loop.simps [of p] load_no_line_def keeps_input_def reset_def
            split: if_splits pstate.splits)
      then show ?thesis by simp
    next
      case (Some pos)
      let ?b = "drop (pos + 2) (p_buffer p)"
      let ?l = "substr (p_buffer p) 0 (pos + 2)"
      let ?p1 = "p\<lparr>p_buffer := ?b\<rparr>"
      let ?q = "p\<lparr>p_buffer := p_buffer p @ d\<rparr>"
      have le: "pos + 2 \<le> length (p_buffer p)" using str_find_Some_le [OF Some] by simp
      then have l: "substr (p_buffer p @ d) 0 (pos + 2) = ?l" "drop (pos + 2) (p_buffer p @ d) = ?b @ d"
        by (simp_all add: substr_def)
      have f: "str_find CRLF (p_buffer p @ d) = Some pos" using Some by (rule str_find_append_Some)
      show ?thesis
      proof (cases "p_state p")
        case Waiting_request
        let ?w = "fst (state_handler_waiting_request ?p1 ?l)"
        have r1: "load_loop p = load_loop ?w"
          using False Some Waiting_request by (simp add: load_loop.simps [of p])
        have r2: "load_loop ?q = load_loop (fst (state_handler_waiting_request (p\<lparr>p_buffer := ?b @ d\<rparr>) ?l))"
          using False f Waiting_request l by (simp add: load_loop.simps [of ?q])
        from waiting_append [of ?p1 ?l "?b @ d"] show ?thesis
        proof
          assume w: "p_buffer ?w = p_buffer ?p1 \<and>
            fst (state_handler_waiting_request (?p1\<lparr>p_buffer := ?b @ d\<rparr>) ?l) = ?w\<lparr>p_buffer := ?b @ d\<rparr>"
          then have "load_loop (?w\<lparr>p_buffer := p_buffer ?w @ d\<rparr>) = load_loop (p'\<lparr>p_buffer := p_buffer p' @ d\<rparr>)"
            using "1.IH"(1) [OF False Some refl refl Waiting_request] "1.prems" r1 by simp
          with r2 w show ?thesis by simp
        next
          assume "?w = ?p1\<lparr>p_buffer := []\<rparr>"
          with r1 "1.prems" Waiting_request have "p' = p\<lparr>p_buffer := []\<rparr>"
            by (simp add: load_loop_empty_waiting)
          with "1.prems"(2) Waiting_request show ?thesis by (simp add: keeps_input_def)
        qed
      next
        case Reading_headers
        show ?thesis
        proof (cases "state_handler_reading_headers ?p1 ?l")
          case None
          with False Some Reading_headers "1.prems"(1) show ?thesis by (simp add: load_loop.simps [of p])
        next
          case (Some pr)
          then obtain p2 where h: "state_handler_reading_headers ?p1 ?l = Some (p2, None)"
            using False \<open>str_find CRLF (p_buffer p) = Some pos\<close> Reading_headers "1.prems"(1)
            by (cases pr) (auto simp: load_loop.simps [of p] split: option.splits)
          note ha = headers_append [OF h, of "?b @ d"]
          have r1: "load_loop p = load_loop p2"
            using False \<open>str_find CRLF (p_buffer p) = Some pos\<close> Reading_headers h
            by (simp add: load_loop.simps [of p])
          have r2: "load_loop ?q = load_loop (p2\<lparr>p_buffer := ?b @ d\<rparr>)"
            using False f Reading_headers l ha by (simp add: load_loop.simps [of ?q])
          have "load_loop (p2\<lparr>p_buffer := p_buffer p2 @ d\<rparr>) = load_loop (p'\<lparr>p_buffer := p_buffer p' @ d\<rparr>)"
            using "1.IH"(2) [OF False \<open>str_find CRLF (p_buffer p) = Some pos\<close> refl refl Reading_headers h refl]
              "1.prems" r1 by simp
          with r2 ha show ?thesis by simp
        qed
      qed
    qed
  qed
qed

text \<open>C4: The parser does not depend on how TCP cuts the data: if \<open>load\<close> of a first piece returns
  false and the parser still holds unparsed input or is inside the headers, then loading the
  second piece gives the same result and the same state as loading both at once.\<close>

theorem load_segmentation:
  assumes "load p d1 = Some (False, p1)" and "p_buffer p1 \<noteq> [] \<or> p_state p1 = Reading_headers"
  shows "load p (d1 @ d2) = load p1 d2"
  using load_loop_append [of "p\<lparr>p_buffer := p_buffer p @ d1\<rparr>" p1 d2] assms
  by (simp add: load_def keeps_input_def)

lemma load_segmentation_witness:
  "load parser_new (''GET'' @ CRLF) = load (parser_new\<lparr>p_buffer := ''GET''\<rparr>) CRLF"
proof -
  have "load parser_new ''GET'' = Some (False, parser_new\<lparr>p_buffer := ''GET''\<rparr>)"
    by (simp add: load_def load_loop.simps load_no_line_def parser_new_def CRLF_def CR_def)
  from load_segmentation [OF this] show ?thesis by simp
qed

section \<open>Parsing a printed request\<close>

definition header_line :: "string \<times> string \<Rightarrow> string" where
  "header_line kv = fst kv @ '':'' @ snd kv @ CRLF"

definition request_text :: "string \<Rightarrow> string \<Rightarrow> (string \<times> string) list \<Rightarrow> string \<Rightarrow> string" where
  "request_text ms target kvs body =
     ms @ '' '' @ target @ '' HTTP/1.1'' @ CRLF @ concat (map header_line kvs) @ CRLF @ body"

text \<open>The fields as the parser stores them.\<close>

definition stored_fields :: "(string \<times> string) list \<Rightarrow> (string \<times> string) list" where
  "stored_fields kvs =
     map (\<lambda>(k, v). (str_to_lower (str_trimmed k), from_percent_encoding (str_trimmed v))) kvs"

definition plain_field :: "string \<times> string \<Rightarrow> bool" where
  "plain_field kv =
     (CHR '':'' \<notin> set (fst kv) \<and> CR \<notin> set (fst kv @ snd kv) \<and> str_to_lower (str_trimmed (fst kv)) \<noteq> ''cookie'')"

lemma trim_char_CRLF: "trim_char CR" "trim_char LF"
  by (simp_all add: trim_char_def CR_def LF_def schar_def)

lemma trim_ref_CRLF: "trim_ref (v @ CRLF) = trim_ref v"
proof (cases "dropWhile trim_char v = []")
  case True
  then have "\<forall>x \<in> set v. trim_char x" by (simp add: dropWhile_eq_Nil_conv)
  then have "dropWhile trim_char (v @ CRLF) = []"
    by (auto simp: dropWhile_eq_Nil_conv CRLF_def trim_char_CRLF)
  with True show ?thesis by (simp only: trim_ref_def)
next
  case False
  then have "dropWhile trim_char (v @ CRLF) = dropWhile trim_char v @ CRLF"
    by (auto simp: dropWhile_append)
  then show ?thesis by (simp add: trim_ref_def CRLF_def trim_char_CRLF)
qed

lemma line_cut: "substr (l @ CRLF @ t) 0 (length l + 2) = l @ CRLF" "drop (length l + 2) (l @ CRLF @ t) = t"
  by (simp_all add: substr_def)

lemma headers_line_step:
  assumes "plain_field kv" "p_state p = Reading_headers" "p_cache p = Some r" "p_buffer p = header_line kv @ t"
  shows "load_loop p = load_loop (p\<lparr>p_buffer := t, p_cache := Some (r\<lparr>m_headers :=
    header_put (m_headers r) (str_to_lower (str_trimmed (fst kv))) (from_percent_encoding (str_trimmed (snd kv)))\<rparr>)\<rparr>)"
proof -
  obtain k v where kv: "kv = (k, v)" by (cases kv)
  let ?l = "k @ '':'' @ v"
  have "str_find CRLF (?l @ CRLF @ t) = Some (length ?l)"
    by (rule str_find_CRLF_line) (use assms(1) in \<open>auto simp: kv plain_field_def CR_def intro!: str_find_CRLF_no_CR\<close>)
  then have f: "str_find CRLF (header_line kv @ t) = Some (length ?l)" by (simp add: header_line_def kv)
  have "takeWhile (\<lambda>x. x \<noteq> CHR '':'') k = k"
    using assms(1) by (auto simp: takeWhile_eq_all_conv kv plain_field_def)
  then have c: "str_find '':'' (header_line kv) = Some (length k)"
    using assms(1) by (simp add: str_find_char kv header_line_def plain_field_def takeWhile_tail)
  have ne: "header_line kv \<noteq> CRLF" "header_line kv @ t \<noteq> []"
    by (auto simp: header_line_def kv CRLF_def append_eq_Cons_conv CR_def LF_def)
  have sub: "substr (header_line kv @ t) 0 (length ?l + 2) = header_line kv"
    "drop (length ?l + 2) (header_line kv @ t) = t"
    using line_cut [of ?l t] by (simp_all only: header_line_def kv fst_conv snd_conv append_assoc)
  have kd: "substr (header_line kv) 0 (length k) = k" "drop (length k + 1) (header_line kv) = v @ CRLF"
    by (simp_all add: substr_def header_line_def kv)
  have h: "state_handler_reading_headers (p\<lparr>p_buffer := t\<rparr>) (header_line kv) =
     Some (p\<lparr>p_buffer := t, p_cache := Some (r\<lparr>m_headers :=
       header_put (m_headers r) (str_to_lower (str_trimmed k)) (from_percent_encoding (str_trimmed v))\<rparr>)\<rparr>, None)"
    unfolding state_handler_reading_headers_def
    using assms ne(1) c kd by (simp add: kv plain_field_def str_trimmed_ref trim_ref_CRLF)
  show ?thesis
    unfolding load_loop.simps [of p] assms(2,4) f option.case Let_def sub pstate.case h prod.case
    by (simp only: ne(2) if_False) (simp add: kv)
qed

lemma headers_lines:
  "list_all plain_field kvs \<Longrightarrow> p_state p = Reading_headers \<Longrightarrow> p_cache p = Some r \<Longrightarrow>
   p_buffer p = concat (map header_line kvs) @ t \<Longrightarrow>
   load_loop p = load_loop (p\<lparr>p_buffer := t, p_cache := Some (r\<lparr>m_headers :=
     fold (\<lambda>(k, v) h. header_put h k v) (stored_fields kvs) (m_headers r)\<rparr>)\<rparr>)"
proof (induction kvs arbitrary: p r)
  case Nil
  then have "p = p\<lparr>p_buffer := t, p_cache := Some r\<rparr>" by (cases p) simp
  then show ?case by (simp add: stored_fields_def)
next
  case (Cons kv kvs)
  let ?k = "str_to_lower (str_trimmed (fst kv))"
  let ?v = "from_percent_encoding (str_trimmed (snd kv))"
  let ?r = "r\<lparr>m_headers := header_put (m_headers r) ?k ?v\<rparr>"
  let ?p = "p\<lparr>p_buffer := concat (map header_line kvs) @ t, p_cache := Some ?r\<rparr>"
  have "load_loop p = load_loop ?p"
    using headers_line_step [of kv p r "concat (map header_line kvs) @ t"] Cons.prems by simp
  also have "\<dots> = load_loop (?p\<lparr>p_buffer := t, p_cache := Some (?r\<lparr>m_headers :=
      fold (\<lambda>(k, v) h. header_put h k v) (stored_fields kvs) (m_headers ?r)\<rparr>)\<rparr>)"
    by (rule Cons.IH) (use Cons.prems in simp_all)
  finally show ?case by (cases kv) (simp add: stored_fields_def)
qed

lemma headers_end:
  assumes "p_state p = Reading_headers" "p_cache p = Some r" "p_buffer p = CRLF @ body"
  shows "load_loop p = Some (True, p\<lparr>p_state := Waiting_request, p_buffer := [], p_cache := None,
    p_context := Some (finish r body)\<rparr>)"
proof -
  have f: "str_find CRLF (CRLF @ body) = Some 0" by (simp add: CRLF_def)
  have sub: "substr (CRLF @ body) 0 (0 + 2) = CRLF" "drop (0 + 2) (CRLF @ body) = body"
    by (simp_all add: substr_def CRLF_def)
  show ?thesis
    unfolding load_loop.simps [of p] assms(1,3) f option.case Let_def sub pstate.case
    using assms(2) by (simp add: state_handler_reading_headers_def next_request_ready_def)
qed

lemma request_line_parts:
  assumes "method_string m = Some ms" "CHR '' '' \<notin> set target" "target \<noteq> []"
  shows "splitted (ms @ '' '' @ target @ '' HTTP/1.1'' @ CRLF) '' '' True = [ms, target, ''HTTP/1.1'' @ CRLF]"
proof -
  have ms: "CHR '' '' \<notin> set ms" "ms \<noteq> []" using assms(1) by (cases m; auto)+
  have v: "CHR '' '' \<notin> set (''HTTP/1.1'' @ CRLF)" by (simp add: CRLF_def CR_def LF_def)
  have "pieces (CHR '' '') (ms @ CHR '' '' # target @ CHR '' '' # ''HTTP/1.1'' @ CRLF) =
      [ms, target, ''HTTP/1.1'' @ CRLF]"
    by (simp only: pieces_sep ms assms pieces_no_sep v not_False_eq_True)
  then show ?thesis using ms assms(3) by (simp add: splitted_char)
qed

text \<open>Parsing a printed request.  The text of a version 1.1 request (a known method, a target
  without blanks and carriage returns, header fields whose names have no colon and that are not
  cookies) followed by any bytes is accepted by one \<open>load\<close>: the request handed over has that
  method, the percent-decoded target split into path and parameters, the fields in order under
  their trimmed lower-case names, and has been finished with the remaining bytes as its body; the
  parser is ready for the next request.\<close>

lemma load_text:
  assumes "method_string m = Some ms"
    and "CHR '' '' \<notin> set target" and "CR \<notin> set target" and "target \<noteq> []"
    and "list_all plain_field kvs"
  shows "load parser_new (request_text ms target kvs body) =
    Some (True, parser_new\<lparr>p_cache := None, p_context := Some
      (finish ((set_resource (request_new\<lparr>m_method := m, m_version := ''1.1''\<rparr>) (from_percent_encoding target))
        \<lparr>m_headers := fold (\<lambda>(k, v) h. header_put h k v) (stored_fields kvs) []\<rparr>) body)\<rparr>)"
proof -
  let ?line = "ms @ '' '' @ target @ '' HTTP/1.1''"
  let ?rest = "concat (map header_line kvs) @ CRLF @ body"
  let ?r = "set_resource (request_new\<lparr>m_method := m, m_version := ''1.1''\<rparr>) (from_percent_encoding target)"
  let ?p = "parser_new\<lparr>p_buffer := request_text ms target kvs body\<rparr>"
  let ?p1 = "parser_new\<lparr>p_buffer := ?rest, p_cache := Some ?r, p_state := Reading_headers\<rparr>"
  have buf: "p_buffer ?p = ?line @ CRLF @ ?rest" by (simp add: request_text_def)
  have "CR \<notin> set ms" using assms(1) by (cases m) (auto simp: CR_def)
  with assms(3) have "CR \<notin> set ?line" by (auto simp: CR_def)
  then have f: "str_find CRLF (?line @ CRLF @ ?rest) = Some (length ?line)"
    by (intro str_find_CRLF_line str_find_CRLF_no_CR)
  have sub: "substr (?line @ CRLF @ ?rest) 0 (length ?line + 2) = ?line @ CRLF"
    "drop (length ?line + 2) (?line @ CRLF @ ?rest) = ?rest"
    by (rule line_cut)+
  have m: "from_method_string ms = m" "m \<noteq> METHOD_UNKNOWN"
    using assms(1) by (cases m; auto simp: from_method_string_def)+
  have parts: "splitted (?line @ CRLF) '' '' True = [ms, target, ''HTTP/1.1'' @ CRLF]"
    using request_line_parts [OF assms(1,2,4)] by simp
  have http: "str_starts_with (str_to_upper (''HTTP/1.1'' @ CRLF)) ''HTTP/''"
    by (simp add: str_starts_with_prefix str_to_upper_def toupper_def)
  have ver: "substr (''HTTP/1.1'' @ CRLF) 5 3 = ''1.1''" by (simp add: substr_def)
  have w: "fst (state_handler_waiting_request (?p\<lparr>p_buffer := ?rest\<rparr>) (?line @ CRLF)) = ?p1"
    unfolding state_handler_waiting_request_def parts Let_def
    using m http ver by (simp add: parser_new_def)
  have "load_loop ?p = load_loop ?p1"
    unfolding load_loop.simps [of ?p] buf f option.case Let_def sub w
    by (simp add: parser_new_def)
  also have "\<dots> = load_loop (?p1\<lparr>p_buffer := CRLF @ body, p_cache := Some (?r\<lparr>m_headers :=
      fold (\<lambda>(k, v) h. header_put h k v) (stored_fields kvs) (m_headers ?r)\<rparr>)\<rparr>)"
    by (rule headers_lines [OF assms(5)]) simp_all
  finally show ?thesis
    by (simp add: load_def headers_end request_new_def) (simp add: parser_new_def)
qed

end
