(* ===== verification/HttpResponse.thy ===== *)
theory HttpResponse
  imports HttpRequest
begin

text \<open>
  \<open>gts/http/response.cpp\<close>: the response object and the file transfer.  Every operation that uses
  the socket is partial: \<open>None\<close> is a fatal error of the source (the socket has been taken away, a
  status without description fails its assertion) or undefined behaviour (an index or a write
  outside a container).  \<open>g_write_default\<close>, the user's hook, the file system and \<open>get_mime_type\<close>
  are arguments.  Sizes of files and ranges are 64-bit words.
\<close>

section \<open>The response\<close>

record response =
  rs_request :: request
  m_status :: int
  rs_cookies :: "Cookies.cookie umap"
  rs_headers :: headers
  m_chunk_attributes :: "val list"
  m_chunk_end_writed :: bool
  m_headers_writed :: bool

definition response_new :: "request \<Rightarrow> int \<Rightarrow> response" where
  "response_new r st =
     \<lparr>rs_request = r, m_status = st, rs_cookies = [],
      rs_headers = [(hdr_content_type, ''text/plain; charset=utf-8'')],
      m_chunk_attributes = [], m_chunk_end_writed = False, m_headers_writed = False\<rparr>"

definition response_new_headers :: "request \<Rightarrow> headers \<Rightarrow> int \<Rightarrow> response" where
  "response_new_headers r hs st = (response_new r st)\<lparr>rs_headers := hs\<rparr>"

definition set_status :: "response \<Rightarrow> int \<Rightarrow> response" where
  "set_status rs st = rs\<lparr>m_status := st\<rparr>"

definition set_header :: "response \<Rightarrow> string \<Rightarrow> val \<Rightarrow> response" where
  "set_header rs k v = rs\<lparr>rs_headers := header_put (rs_headers rs) k v\<rparr>"

definition set_headers :: "response \<Rightarrow> headers \<Rightarrow> response" where
  "set_headers rs hs = fold (\<lambda>(k, v) r. set_header r k v) hs rs"

definition set_cookie :: "response \<Rightarrow> string \<Rightarrow> Cookies.cookie \<Rightarrow> response" where
  "set_cookie rs k c = rs\<lparr>rs_cookies := umap_put (rs_cookies rs) k c\<rparr>"

definition set_cookies :: "response \<Rightarrow> Cookies.cookie umap \<Rightarrow> response" where
  "set_cookies rs cs = fold (\<lambda>(k, c) r. set_cookie r k c) cs rs"

definition unset_header :: "response \<Rightarrow> string \<Rightarrow> response" where
  "unset_header rs k = rs\<lparr>rs_headers := map_erase less_case_insensitive (rs_headers rs) k\<rparr>"

definition unset_cookie :: "response \<Rightarrow> string \<Rightarrow> response" where
  "unset_cookie rs k = rs\<lparr>rs_cookies := umap_erase (rs_cookies rs) k\<rparr>"

definition rs_version :: "response \<Rightarrow> string" where
  "rs_version rs = m_version (rs_request rs)"

definition rs_headers_contains :: "response \<Rightarrow> string \<Rightarrow> bool" where
  "rs_headers_contains rs k = (header_find (rs_headers rs) k \<noteq> None)"

definition rs_header :: "response \<Rightarrow> string \<Rightarrow> string + val" where
  "rs_header rs k = (case header_find (rs_headers rs) k of None \<Rightarrow> Inl k | Some v \<Rightarrow> Inr v)"

definition rs_header_or :: "response \<Rightarrow> string \<Rightarrow> val \<Rightarrow> val" where
  "rs_header_or rs k d = (case header_find (rs_headers rs) k of None \<Rightarrow> d | Some v \<Rightarrow> v)"

definition rs_cookies_contains :: "response \<Rightarrow> string \<Rightarrow> bool" where
  "rs_cookies_contains rs k = (umap_find (rs_cookies rs) k \<noteq> None)"

definition rs_cookie :: "response \<Rightarrow> string \<Rightarrow> string + Cookies.cookie" where
  "rs_cookie rs k = (case umap_find (rs_cookies rs) k of None \<Rightarrow> Inl k | Some c \<Rightarrow> Inr c)"

definition rs_cookie_or :: "response \<Rightarrow> string \<Rightarrow> Cookies.cookie \<Rightarrow> Cookies.cookie" where
  "rs_cookie_or rs k d = (case umap_find (rs_cookies rs) k of None \<Rightarrow> d | Some c \<Rightarrow> c)"

definition set_chunk_attribute :: "response \<Rightarrow> val \<Rightarrow> response" where
  "set_chunk_attribute rs a = rs\<lparr>m_chunk_attributes := m_chunk_attributes rs @ [a]\<rparr>"

definition set_chunk_attributes :: "response \<Rightarrow> val list \<Rightarrow> response" where
  "set_chunk_attributes rs as = fold (\<lambda>a r. set_chunk_attribute r a) as rs"

definition rs_is_valid :: "response \<Rightarrow> bool" where
  "rs_is_valid rs = is_valid (rs_request rs)"

text \<open>\<open>take\<close> gives the socket away.\<close>

definition take_socket :: "response \<Rightarrow> (response \<times> tcp option) option" where
  "take_socket rs =
     (if \<not> rs_is_valid rs then None
      else Some (rs\<lparr>rs_request := (rs_request rs)\<lparr>m_socket := None\<rparr>\<rparr>, m_socket (rs_request rs)))"

definition rs_close :: "response \<Rightarrow> response option" where
  "rs_close rs =
     (case m_socket (rs_request rs) of
        None \<Rightarrow> None
      | Some sk \<Rightarrow> Some (rs\<lparr>rs_request := (rs_request rs)\<lparr>m_socket := Some (tcp_close sk)\<rparr>\<rparr>))"

section \<open>Writing\<close>

text \<open>\<open>socket().write_some(data)\<close>.\<close>

definition sock_write :: "response \<Rightarrow> string \<Rightarrow> (response \<times> nat) option" where
  "sock_write rs data =
     (case m_socket (rs_request rs) of
        None \<Rightarrow> None
      | Some sk \<Rightarrow>
          (case write_some sk data of
             (n, e, sk') \<Rightarrow> Some (rs\<lparr>rs_request := (rs_request rs)\<lparr>m_socket := Some sk'\<rparr>\<rparr>, n)))"

definition header_text :: "string \<times> val \<Rightarrow> string" where
  "header_text p = fst p @ '': '' @ snd p @ CRLF"

definition cookie_text :: "string \<times> Cookies.cookie \<Rightarrow> string" where
  "cookie_text p =
     butlast (''set-cookie: '' @ fst p @ ''='' @ cookie_value (snd p) @ '';'' @
       concat (map (\<lambda>(k, v). k @ ''='' @ v @ '';'') (m_attributes (snd p)))) @ CRLF"

definition serialize_headers_and_cookies :: "response \<Rightarrow> string \<Rightarrow> response \<times> string" where
  "serialize_headers_and_cookies rs result =
     (let rs1 = unset_header rs ''set-cookie''
      in (rs1, result @ concat (map header_text (rs_headers rs1)) @ concat (map cookie_text (rs_cookies rs1))))"

definition is_chunked :: "response \<Rightarrow> bool" where
  "is_chunked rs =
     (if m_version (rs_request rs) \<noteq> ''1.1'' then False
      else case header_find (rs_headers rs) hdr_transfer_encoding of
             None \<Rightarrow> False | Some v \<Rightarrow> str_to_lower v = ''chunked'')"

definition write_body :: "response \<Rightarrow> string \<Rightarrow> bool \<Rightarrow> (response \<times> bool) option" where
  "write_body rs body chk =
     (case m_socket (rs_request rs) of
        None \<Rightarrow> None
      | Some sk \<Rightarrow>
          if \<not> sk_open sk then Some (rs, False)
          else if \<not> chk then map_option (\<lambda>(r, n). (r, 0 < n)) (sock_write rs body)
          else
            (let (rs1, head) =
               (if m_chunk_attributes rs = [] then (rs, hex_upper (length body) @ CRLF)
                else (rs\<lparr>m_chunk_attributes := []\<rparr>,
                      hex_upper (length body) @ ''; '' @
                      butlast (concat (map (\<lambda>a. a @ '';'') (m_chunk_attributes rs))) @ CRLF))
             in case sock_write rs1 head of
                  None \<Rightarrow> None
                | Some (rs2, n) \<Rightarrow>
                    if n = 0 then Some (rs2, False)
                    else case sock_write rs2 body of
                           None \<Rightarrow> None
                         | Some (rs3, k) \<Rightarrow>
                             if k = 0 then Some (rs3, False)
                             else map_option (\<lambda>(r, j). (r, 0 < j)) (sock_write rs3 CRLF)))"

text \<open>The status line; \<open>None\<close> when the status has no description.\<close>

definition int_str :: "int \<Rightarrow> string" where
  "int_str i = (if i < 0 then ''-'' @ dec (nat (- i)) else dec (nat i))"

definition status_line :: "response \<Rightarrow> string option" where
  "status_line rs =
     map_option (\<lambda>d. ''HTTP/'' @ rs_version rs @ '' '' @ int_str (m_status rs) @ '' '' @ d @ CRLF)
       (status_description (m_status rs))"

definition write_default :: "(response \<Rightarrow> response option) option \<Rightarrow> response \<Rightarrow> response option" where
  "write_default hook rs0 =
     (if m_headers_writed rs0 then Some rs0
      else
        (let rs1 = rs0\<lparr>m_headers_writed := True\<rparr>
         in case hook of
              Some f \<Rightarrow> f rs1
            | None \<Rightarrow>
                (case status_description (m_status rs1) of
                   None \<Rightarrow> None
                 | Some d \<Rightarrow>
                     (let body = d @ '' ('' @ int_str (m_status rs1) @ '')'';
                          rs2 = unset_header (set_header rs1 hdr_content_length (dec (length body))) hdr_transfer_encoding
                      in case status_line rs2 of
                           None \<Rightarrow> None
                         | Some l \<Rightarrow>
                             (let (rs3, result) = serialize_headers_and_cookies rs2 l
                              in case sock_write rs3 (result @ CRLF) of
                                   None \<Rightarrow> None
                                 | Some (rs4, _) \<Rightarrow> map_option fst (sock_write rs4 body))))))"

definition write_default_status ::
  "(response \<Rightarrow> response option) option \<Rightarrow> response \<Rightarrow> int \<Rightarrow> response option" where
  "write_default_status hook rs st = write_default hook (set_status rs st)"

text \<open>The header part of \<open>write(size, body)\<close>.\<close>

definition write_head :: "response \<Rightarrow> nat \<Rightarrow> response option" where
  "write_head rs0 n =
     (if m_headers_writed rs0 then Some rs0
      else
        (let rs1 = rs0\<lparr>m_headers_writed := True\<rparr>
         in case status_line rs1 of
              None \<Rightarrow> None
            | Some l \<Rightarrow>
                (let rs2 =
                   (if rs_headers_contains rs1 hdr_content_length then rs1
                    else if rs_version rs1 = ''1.1'' then
                      (case header_find (rs_headers rs1) hdr_transfer_encoding of
                         None \<Rightarrow> set_header rs1 hdr_content_length (dec n)
                       | Some v \<Rightarrow>
                           if str_to_lower v \<noteq> ''chunked'' then set_header rs1 hdr_content_length (dec n)
                           else rs1)
                    else set_header rs1 hdr_content_length (dec n));
                     (rs3, result) = serialize_headers_and_cookies rs2 l
                 in map_option fst (sock_write rs3 (result @ CRLF)))))"

definition write_response :: "response \<Rightarrow> string \<Rightarrow> response option" where
  "write_response rs body =
     (case write_head rs (length body) of
        None \<Rightarrow> None
      | Some rs1 \<Rightarrow>
          if 0 < length body then map_option fst (write_body rs1 body (is_chunked rs1)) else Some rs1)"

definition chunk_end :: "response \<Rightarrow> headers \<Rightarrow> response option" where
  "chunk_end rs hs =
     (if rs_headers_contains rs hdr_content_length \<or> m_chunk_end_writed rs then Some rs
      else if rs_version rs \<noteq> ''1.1'' then Some rs
      else case header_find (rs_headers rs) hdr_transfer_encoding of
             None \<Rightarrow> Some rs
           | Some v \<Rightarrow>
               if str_to_lower v \<noteq> ''chunked'' then Some rs
               else
                 (case sock_write (rs\<lparr>m_chunk_end_writed := True\<rparr>) (''0'' @ CRLF) of
                    None \<Rightarrow> None
                  | Some (rs1, _) \<Rightarrow>
                      map_option fst (sock_write rs1 (concat (map header_text hs) @ CRLF))))"

text \<open>The destructor.\<close>

definition response_destroy :: "(response \<Rightarrow> response option) option \<Rightarrow> response \<Rightarrow> response option" where
  "response_destroy hook rs =
     (if \<not> rs_is_valid rs then Some rs
      else
        (case (if \<not> m_headers_writed rs then
                 write_default hook
                   (if m_websocket (rs_request rs) then set_status rs 406 else rs)
               else Some rs) of
           None \<Rightarrow> None
         | Some rs1 \<Rightarrow> chunk_end rs1 []))"

datatype redirect_type =
    Moved_permanently | Permanent_redirect | Found | See_other | Temporary_redirect
  | Multiple_choices | Not_modified

fun redirect_status :: "redirect_type \<Rightarrow> int" where
  "redirect_status Moved_permanently = hs_moved_permanently"
| "redirect_status Permanent_redirect = hs_permanent_redirect"
| "redirect_status Found = hs_found"
| "redirect_status See_other = hs_see_other"
| "redirect_status Temporary_redirect = hs_temporary_redirect"
| "redirect_status Multiple_choices = hs_multiple_choices"
| "redirect_status Not_modified = hs_not_modified"

definition redirect :: "response \<Rightarrow> string \<Rightarrow> redirect_type \<Rightarrow> response option" where
  "redirect rs url t = write_response (set_header (set_status rs (redirect_status t)) hdr_location url) []"

section \<open>What is sent\<close>

text \<open>The bytes on the wire, and a socket that takes everything.\<close>

definition sent :: "response \<Rightarrow> string" where
  "sent rs = (case m_socket (rs_request rs) of None \<Rightarrow> [] | Some sk \<Rightarrow> sk_out sk)"

definition full_socket :: "response \<Rightarrow> bool" where
  "full_socket rs =
     (case m_socket (rs_request rs) of None \<Rightarrow> False | Some sk \<Rightarrow> sk_open sk \<and> sk_writes sk = [])"

definition emit :: "response \<Rightarrow> string \<Rightarrow> response" where
  "emit rs d =
     rs\<lparr>rs_request := (rs_request rs)\<lparr>m_socket :=
       map_option (\<lambda>sk. sk\<lparr>sk_out := sk_out sk @ d\<rparr>) (m_socket (rs_request rs))\<rparr>\<rparr>"

lemma emit_fields [simp]:
  "rs_headers (emit rs d) = rs_headers rs" "rs_cookies (emit rs d) = rs_cookies rs"
  "m_status (emit rs d) = m_status rs" "m_headers_writed (emit rs d) = m_headers_writed rs"
  "m_chunk_attributes (emit rs d) = m_chunk_attributes rs"
  "m_chunk_end_writed (emit rs d) = m_chunk_end_writed rs"
  "m_version (rs_request (emit rs d)) = m_version (rs_request rs)"
  by (simp_all add: emit_def)

lemma full_socket_emit [simp]: "full_socket (emit rs d) = full_socket rs"
  by (auto simp: full_socket_def emit_def split: option.split)

lemma sent_emit [simp]: "full_socket rs \<Longrightarrow> sent (emit rs d) = sent rs @ d"
  by (auto simp: full_socket_def sent_def emit_def split: option.splits)

lemma sock_write_full: "full_socket rs \<Longrightarrow> sock_write rs d = Some (emit rs d, length d)"
  by (auto simp: full_socket_def sock_write_def emit_def write_some_full split: option.splits)

lemma full_socket_fields [simp]:
  "full_socket (rs\<lparr>m_headers_writed := a\<rparr>) = full_socket rs"
  "full_socket (rs\<lparr>m_chunk_end_writed := a\<rparr>) = full_socket rs"
  "full_socket (rs\<lparr>m_chunk_attributes := as\<rparr>) = full_socket rs"
  "full_socket (rs\<lparr>rs_headers := hs\<rparr>) = full_socket rs"
  "full_socket (rs\<lparr>m_status := st\<rparr>) = full_socket rs"
  "sent (rs\<lparr>m_headers_writed := a\<rparr>) = sent rs" "sent (rs\<lparr>m_chunk_end_writed := a\<rparr>) = sent rs"
  "sent (rs\<lparr>m_chunk_attributes := as\<rparr>) = sent rs" "sent (rs\<lparr>rs_headers := hs\<rparr>) = sent rs"
  "sent (rs\<lparr>m_status := st\<rparr>) = sent rs"
  by (simp_all add: full_socket_def sent_def)

text \<open>The head of a message.\<close>

definition message_head :: "response \<Rightarrow> string \<Rightarrow> string" where
  "message_head rs d =
     ''HTTP/'' @ rs_version rs @ '' '' @ int_str (m_status rs) @ '' '' @ d @ CRLF @
     concat (map header_text (rs_headers rs)) @ concat (map cookie_text (rs_cookies rs)) @ CRLF"

definition content_length_set :: "response \<Rightarrow> bool" where
  "content_length_set rs = rs_headers_contains rs hdr_content_length"

lemma serialize_eq:
  "serialize_headers_and_cookies rs l =
     (unset_header rs ''set-cookie'',
      l @ concat (map header_text (rs_headers (unset_header rs ''set-cookie''))) @
      concat (map cookie_text (rs_cookies rs)))"
  by (simp add: serialize_headers_and_cookies_def unset_header_def)

lemma unset_header_fields [simp]:
  "m_status (unset_header rs k) = m_status rs" "rs_cookies (unset_header rs k) = rs_cookies rs"
  "rs_request (unset_header rs k) = rs_request rs" "m_headers_writed (unset_header rs k) = m_headers_writed rs"
  "m_chunk_attributes (unset_header rs k) = m_chunk_attributes rs"
  "m_chunk_end_writed (unset_header rs k) = m_chunk_end_writed rs"
  "full_socket (unset_header rs k) = full_socket rs" "sent (unset_header rs k) = sent rs"
  by (simp_all add: unset_header_def)

lemma set_header_fields [simp]:
  "m_status (set_header rs k v) = m_status rs" "rs_cookies (set_header rs k v) = rs_cookies rs"
  "rs_request (set_header rs k v) = rs_request rs" "m_headers_writed (set_header rs k v) = m_headers_writed rs"
  "m_chunk_attributes (set_header rs k v) = m_chunk_attributes rs"
  "m_chunk_end_writed (set_header rs k v) = m_chunk_end_writed rs"
  "full_socket (set_header rs k v) = full_socket rs" "sent (set_header rs k v) = sent rs"
  by (simp_all add: set_header_def)

text \<open>The headers of the response that goes out: with a length unless there is one or the body is
  chunked.\<close>

definition with_length :: "response \<Rightarrow> nat \<Rightarrow> response" where
  "with_length rs n =
     (if rs_headers_contains rs hdr_content_length \<or> is_chunked rs then rs
      else set_header rs hdr_content_length (dec n))"

lemma write_head_eq:
  assumes "full_socket rs" "\<not> m_headers_writed rs" "status_description (m_status rs) = Some d"
  shows "write_head rs n =
    (let rs1 = unset_header (with_length (rs\<lparr>m_headers_writed := True\<rparr>) n) ''set-cookie''
     in Some (emit rs1 (message_head rs1 d)))"
  using assms
  by (auto simp: write_head_def status_line_def with_length_def is_chunked_def rs_version_def serialize_eq
      sock_write_full message_head_def Let_def rs_headers_contains_def split: option.split)

lemma find_set_cookie:
  "map_ok less_case_insensitive hs \<Longrightarrow> map tolower k \<noteq> map tolower ''set-cookie'' \<Longrightarrow>
   header_find (map_erase less_case_insensitive hs ''set-cookie'') k = header_find hs k"
  by (simp add: header_find_def headers.lookup_erase)

section \<open>Messages\<close>

lemma message_head_emit [simp]: "message_head (emit rs x) d = message_head rs d"
  by (simp add: message_head_def rs_version_def)

lemma is_chunked_emit [simp]: "is_chunked (emit rs x) = is_chunked rs"
  by (simp add: is_chunked_def)

lemma is_chunked_writed [simp]: "is_chunked (rs\<lparr>m_headers_writed := b\<rparr>) = is_chunked rs"
  by (simp add: is_chunked_def)

definition headers_ok :: "response \<Rightarrow> bool" where
  "headers_ok rs = map_ok less_case_insensitive (rs_headers rs)"

lemma headers_ok_set [inv_intros]: "headers_ok rs \<Longrightarrow> headers_ok (set_header rs k v)"
  by (simp add: headers_ok_def set_header_def header_put_def headers.ok_put)

lemma headers_ok_unset [inv_intros]: "headers_ok rs \<Longrightarrow> headers_ok (unset_header rs k)"
  by (simp add: headers_ok_def unset_header_def headers.ok_erase)

lemma find_set_header:
  "headers_ok rs \<Longrightarrow> header_find (rs_headers (set_header rs k v)) q =
     (if map tolower q = map tolower k then Some v else header_find (rs_headers rs) q)"
  by (simp add: headers_ok_def set_header_def header_ops headers.lookup_put)

lemma find_unset_header:
  "headers_ok rs \<Longrightarrow> header_find (rs_headers (unset_header rs k)) q =
     (if map tolower q = map tolower k then None else header_find (rs_headers rs) q)"
  by (simp add: headers_ok_def unset_header_def header_ops headers.lookup_erase)

lemma header_names_differ:
  "map tolower hdr_transfer_encoding \<noteq> map tolower hdr_content_length"
  "map tolower hdr_transfer_encoding \<noteq> map tolower ''set-cookie''"
  "map tolower hdr_content_length \<noteq> map tolower ''set-cookie''"
  by code_simp+

lemma with_length_ok:
  assumes "headers_ok rs"
  shows "headers_ok (with_length rs n)" "is_chunked (with_length rs n) = is_chunked rs"
    "full_socket (with_length rs n) = full_socket rs" "sent (with_length rs n) = sent rs"
    "m_headers_writed (with_length rs n) = m_headers_writed rs"
    "m_chunk_attributes (with_length rs n) = m_chunk_attributes rs"
    "m_chunk_end_writed (with_length rs n) = m_chunk_end_writed rs"
    "rs_version (with_length rs n) = rs_version rs"
  using assms header_names_differ
  by (auto simp: with_length_def is_chunked_def find_set_header find_unset_header headers_ok_set rs_version_def)

lemma is_chunked_unset_cookie: "headers_ok rs \<Longrightarrow> is_chunked (unset_header rs ''set-cookie'') = is_chunked rs"
  using header_names_differ by (simp add: is_chunked_def find_unset_header)

lemma write_body_plain:
  "full_socket rs \<Longrightarrow> write_body rs b False = Some (emit rs b, b \<noteq> [])"
  using sock_write_full [of rs b] by (auto simp: write_body_def full_socket_def split: option.splits)

lemma write_body_chunk:
  "full_socket rs \<Longrightarrow> b \<noteq> [] \<Longrightarrow> m_chunk_attributes rs = [] \<Longrightarrow>
   write_body rs b True =
     Some (emit (emit (emit rs (hex_upper (length b) @ CRLF)) b) CRLF, True)"
proof -
  assume f: "full_socket rs" and b: "b \<noteq> []" "m_chunk_attributes rs = []"
  then obtain sk where "m_socket (rs_request rs) = Some sk" "sk_open sk"
    by (auto simp: full_socket_def split: option.splits)
  with f b show ?thesis by (simp add: write_body_def sock_write_full)
qed


text \<open>Writing a body in several pieces.\<close>

fun write_all :: "response \<Rightarrow> string list \<Rightarrow> response option" where
  "write_all rs [] = Some rs"
| "write_all rs (b # bs) = (case write_response rs b of None \<Rightarrow> None | Some r \<Rightarrow> write_all r bs)"

lemma write_all_chunks:
  "full_socket rs \<Longrightarrow> m_headers_writed rs \<Longrightarrow> is_chunked rs \<Longrightarrow> m_chunk_attributes rs = [] \<Longrightarrow>
   list_all (\<lambda>c. c \<noteq> []) cs \<Longrightarrow>
   \<exists>rs'. write_all rs cs = Some rs' \<and> full_socket rs' \<and> sent rs' = sent rs @ concat (map chunk_enc cs) \<and>
     rs_headers rs' = rs_headers rs \<and> m_version (rs_request rs') = m_version (rs_request rs) \<and>
     m_chunk_end_writed rs' = m_chunk_end_writed rs \<and> message_head rs' d = message_head rs d"
proof (induction cs arbitrary: rs)
  case (Cons c cs)
  let ?rs = "emit (emit (emit rs (hex_upper (length c) @ CRLF)) c) CRLF"
  have "write_response rs c = Some ?rs"
    using Cons.prems write_body_chunk [of rs c] by (simp add: write_response_def write_head_def)
  moreover obtain rs' where "write_all ?rs cs = Some rs'" "full_socket rs'"
    "sent rs' = sent ?rs @ concat (map chunk_enc cs)" "rs_headers rs' = rs_headers ?rs"
    "m_version (rs_request rs') = m_version (rs_request ?rs)" "m_chunk_end_writed rs' = m_chunk_end_writed ?rs"
    "message_head rs' d = message_head ?rs d"
    using Cons.IH [of ?rs] Cons.prems by auto
  ultimately show ?case using Cons.prems(1) by (simp add: chunk_enc_def [of c])
qed simp

lemma chunk_end_empty:
  assumes "full_socket rs" "is_chunked rs" "\<not> rs_headers_contains rs hdr_content_length" "\<not> m_chunk_end_writed rs"
  shows "\<exists>rs'. chunk_end rs [] = Some rs' \<and> sent rs' = sent rs @ ''0'' @ CRLF @ CRLF"
proof -
  let ?w = "rs\<lparr>m_chunk_end_writed := True\<rparr>"
  have f: "full_socket ?w" using assms(1) by simp
  have "rs_version rs = ''1.1''" using assms(2) by (simp add: is_chunked_def rs_version_def split: if_splits)
  moreover have "\<exists>v. header_find (rs_headers rs) hdr_transfer_encoding = Some v \<and> str_to_lower v = ''chunked''"
    using assms(2) by (auto simp: is_chunked_def split: if_splits option.splits)
  ultimately have "chunk_end rs [] = Some (emit (emit ?w (''0'' @ CRLF)) CRLF)"
    using assms(3,4) sock_write_full [OF f, of "''0'' @ CRLF"] sock_write_full [of "emit ?w (''0'' @ CRLF)" CRLF] f
    by (auto simp: chunk_end_def)
  then show ?thesis using f by simp
qed

text \<open>A chunked response.  On a fresh version 1.1 response with \<open>Transfer-Encoding: chunked\<close> and no
  length, writing any non-empty pieces and then calling \<open>chunk_end\<close> sends one head and the
  chunked encoding of the pieces: the format that the request reader of the same program
  decodes.\<close>

lemma write_chunks:
  assumes "full_socket rs" and "headers_ok rs" and "\<not> m_headers_writed rs" and "\<not> m_chunk_end_writed rs"
    and "status_description (m_status rs) = Some d" and "m_chunk_attributes rs = []"
    and "\<not> rs_headers_contains rs hdr_content_length" and "is_chunked rs"
    and "list_all (\<lambda>c. c \<noteq> []) (c # cs)"
  shows "\<exists>rs1 rs2. write_all rs (c # cs) = Some rs1 \<and> chunk_end rs1 [] = Some rs2 \<and>
     sent rs2 = sent rs @ message_head rs1 d @ chunked (c # cs)"
proof -
  let ?w = "rs\<lparr>m_headers_writed := True\<rparr>"
  let ?rs1 = "unset_header ?w ''set-cookie''"
  let ?rs2 = "emit ?rs1 (message_head ?rs1 d)"
  have ok: "headers_ok ?w" using assms(2) by (simp add: headers_ok_def)
  have ch: "is_chunked ?rs1" "\<not> rs_headers_contains ?rs1 hdr_content_length"
    using is_chunked_unset_cookie [OF ok] assms(7,8) find_unset_header [OF ok] header_names_differ
    by (auto simp: rs_headers_contains_def)
  have "write_head rs (length c) = Some ?rs2"
    using write_head_eq [OF assms(1,3,5)] assms(8) by (simp add: Let_def with_length_def)
  moreover have "write_head ?rs2 (length c) = Some ?rs2" by (simp add: write_head_def)
  ultimately have "write_response rs c = write_response ?rs2 c"
    by (simp add: write_response_def)
  then have first: "write_all rs (c # cs) = write_all ?rs2 (c # cs)" by simp
  obtain rs1 where r: "write_all ?rs2 (c # cs) = Some rs1" "full_socket rs1"
    "sent rs1 = sent ?rs2 @ concat (map chunk_enc (c # cs))" "rs_headers rs1 = rs_headers ?rs2"
    "m_version (rs_request rs1) = m_version (rs_request ?rs2)"
    "m_chunk_end_writed rs1 = m_chunk_end_writed ?rs2" "message_head rs1 d = message_head ?rs2 d"
    using write_all_chunks [of ?rs2 "c # cs" d] assms(1,6,9) ch(1) by auto
  have "is_chunked rs1 = is_chunked ?rs2" by (simp only: is_chunked_def r(4,5))
  then have "is_chunked rs1" "\<not> rs_headers_contains rs1 hdr_content_length" "\<not> m_chunk_end_writed rs1"
    using ch r(4,6) assms(4) by (simp_all add: rs_headers_contains_def)
  from chunk_end_empty [OF r(2) this] obtain rs2
    where "chunk_end rs1 [] = Some rs2" "sent rs2 = sent rs1 @ ''0'' @ CRLF @ CRLF" by blast
  with first r assms(1) show ?thesis by (simp add: chunked_def)
qed


section \<open>Headers and status of a response\<close>

lemma is_chunked_set_header:
  "headers_ok rs \<Longrightarrow> map tolower hdr_transfer_encoding \<noteq> map tolower k \<Longrightarrow>
   is_chunked (set_header rs k v) = is_chunked rs"
  by (simp add: is_chunked_def find_set_header)

lemma set_status_fields [simp]:
  "headers_ok (set_status rs st) = headers_ok rs" "is_chunked (set_status rs st) = is_chunked rs"
  "m_status (set_status rs st) = st" "m_headers_writed (set_status rs st) = m_headers_writed rs"
  "full_socket (set_status rs st) = full_socket rs" "sent (set_status rs st) = sent rs"
  "rs_headers_contains (set_status rs st) k = rs_headers_contains rs k"
  "rs_headers (set_status rs st) = rs_headers rs" "rs_request (set_status rs st) = rs_request rs"
  by (simp_all add: set_status_def headers_ok_def is_chunked_def rs_headers_contains_def)

section \<open>Concrete responses\<close>

definition plain_response :: response where
  "plain_response =
     response_new (request_new\<lparr>m_version := ''1.1'', m_path := ''/'', m_socket := Some (tcp_new 64 [])\<rparr>) hs_ok"

definition chunked_response :: response where
  "chunked_response = set_header plain_response hdr_transfer_encoding ''chunked''"

lemma hdr_lower_differ:
  "map tolower hdr_transfer_encoding \<noteq> map tolower hdr_accept_ranges"
  "map tolower hdr_transfer_encoding \<noteq> map tolower hdr_content_type"
  "map tolower hdr_transfer_encoding \<noteq> map tolower hdr_content_range"
  "map tolower hdr_content_length \<noteq> map tolower hdr_content_range"
  "map tolower hdr_content_length \<noteq> map tolower hdr_accept_ranges"
  "map tolower ''set-cookie'' \<noteq> map tolower hdr_content_range"
  "map tolower hdr_content_type \<noteq> map tolower hdr_content_length"
  by code_simp+

lemma lower_chunked: "str_to_lower ''chunked'' = ''chunked''"
  by code_simp

lemma plain_response_ok:
  "full_socket plain_response" "headers_ok plain_response" "\<not> m_headers_writed plain_response"
  "\<not> is_chunked plain_response" "\<not> rs_headers_contains plain_response hdr_content_length"
  "sent plain_response = []" "status_description (m_status plain_response) = Some ''OK''"
  by (simp_all add: plain_response_def response_new_def full_socket_def tcp_new_def headers_ok_def map_ok_def
      is_chunked_def header_find_def headers.same_key_norm header_names_differ rs_headers_contains_def sent_def
      status_description_def status_table_def hdr_lower_differ hdr_lower_differ [symmetric])

lemma chunked_response_ok:
  "full_socket chunked_response" "headers_ok chunked_response" "\<not> m_headers_writed chunked_response"
  "is_chunked chunked_response" "\<not> rs_headers_contains chunked_response hdr_content_length"
  "sent chunked_response = []" "status_description (m_status chunked_response) = Some ''OK''"
  "m_chunk_attributes chunked_response = []" "\<not> m_chunk_end_writed chunked_response"
  using plain_response_ok header_names_differ lower_chunked
  by (simp_all add: chunked_response_def headers_ok_set is_chunked_def find_set_header rs_headers_contains_def)
     (simp_all add: plain_response_def response_new_def request_new_def)


end
