(* ===== verification/FileTransfer.thy ===== *)
theory FileTransfer
  imports HttpResponse
begin

text \<open>
  The file transfer of \<open>gts/http/response.cpp\<close>: \<open>write_file\<close>, \<open>Range\<close> parsing, single and
  multipart range answers.  The file system is an argument that gives for a path whether it can
  be opened and its bytes; \<open>get_mime_type\<close>, the environment and the clock are arguments too.
  Positions and sizes are 64-bit words that wrap as \<open>std::size_t\<close> does.
\<close>

type_synonym filesys = "string \<Rightarrow> (bool \<times> string) option"
type_synonym hook = "(response \<Rightarrow> response option) option"

text \<open>\<open>absolute_path\<close>; \<open>None\<close> when \<open>HOME\<close> is needed and not set.\<close>

definition rs_absolute_path :: "string \<Rightarrow> string option \<Rightarrow> string \<Rightarrow> string option" where
  "rs_absolute_path root home path =
     (if \<not> str_starts_with path ''/'' then
        (if str_starts_with path ''~/'' then
           (case home of
              None \<Rightarrow> None
            | Some h \<Rightarrow> Some ((if \<not> str_ends_with h ''/'' then h @ ''/'' else h) @ drop 2 path))
         else Some (root @ path))
      else Some path)"

text \<open>\<open>check\<close>: the file that is served, with its contents, or the answer sent instead.\<close>

definition ft_open :: "filesys \<Rightarrow> hook \<Rightarrow> response \<Rightarrow> string \<Rightarrow> (response + string \<times> string) option" where
  "ft_open fs hook rs name =
     (case fs name of
        Some (True, content) \<Rightarrow> Some (Inr (name, content))
      | Some (False, _) \<Rightarrow> map_option Inl (write_default_status hook rs hs_forbidden)
      | None \<Rightarrow> None)"

definition ft_check :: "filesys \<Rightarrow> hook \<Rightarrow> response \<Rightarrow> string \<Rightarrow> (response + string \<times> string) option" where
  "ft_check fs hook rs name =
     (if fs name = None then
        (if fs (name @ ''.html'') = None then map_option Inl (write_default_status hook rs hs_not_found)
         else ft_open fs hook rs (name @ ''.html''))
      else ft_open fs hook rs name)"

section \<open>The whole file\<close>

lemma write_some_Nil: "write_some sk [] = (n, e, sk') \<Longrightarrow> n = 0"
  by (auto simp: write_some_def write_loop.simps split: if_splits)

lemma write_body_Nil: "write_body rs [] c = Some (r, ok) \<Longrightarrow> \<not> ok"
  by (auto simp: write_body_def sock_write_def dest: write_some_Nil
      split: option.splits if_splits prod.splits)

text \<open>The copy loop: \<open>read(buf, n)\<close> sets the end-of-file state when it gets fewer than \<open>n\<close> bytes.\<close>

function default_loop :: "response \<Rightarrow> string \<Rightarrow> nat \<Rightarrow> bool \<Rightarrow> response option" where
  "default_loop rs rest n chk =
     (if min n (length rest) = 0 then Some rs
      else case write_body rs (take n rest) chk of
             None \<Rightarrow> None
           | Some (rs', ok) \<Rightarrow>
               if \<not> ok then Some rs'
               else if length rest < n then Some rs'
               else default_loop rs' (drop n rest) n chk)"
  by pat_completeness auto
termination
  by (relation "measure (\<lambda>(rs, rest, n, chk). length rest)") auto

declare default_loop.simps [simp del]

definition ft_buffer_size :: "response \<Rightarrow> nat" where
  "ft_buffer_size rs = (case m_socket (rs_request rs) of None \<Rightarrow> 0 | Some sk \<Rightarrow> sk_buffer_size sk)"

definition default_transfer :: "(string \<Rightarrow> string) \<Rightarrow> response \<Rightarrow> string \<Rightarrow> string \<Rightarrow> response option" where
  "default_transfer mime rs name content =
     (if length content = 0 then Some rs
      else
        (case write_response
            (set_header (set_header rs hdr_content_length (dec (length content))) hdr_content_type (mime name)) [] of
           None \<Rightarrow> None
         | Some rs1 \<Rightarrow> default_loop rs1 content (ft_buffer_size rs1) (is_chunked rs1)))"

section \<open>Ranges\<close>

record range_value =
  rv_cr_line :: string
  rv_begin :: u64
  rv_end :: u64
  rv_size :: u64

text \<open>\<open>sscanf(s, "%zu", &x)\<close> of a variable that is zero before.\<close>

definition scan_zu :: "string \<Rightarrow> u64" where
  "scan_zu s = strtoul s 10"

text \<open>\<open>range_parsing\<close>: begin, end and size, \<open>Some None\<close> for a refused range; \<open>None\<close> is the access
  behind the end of the list of pieces.\<close>

definition range_parsing :: "string \<Rightarrow> u64 \<Rightarrow> (u64 \<times> u64 \<times> u64) option option" where
  "range_parsing range_str file_size =
     (let list = splitted range_str ''-'' False
      in if 2 < length list then Some None
         else if length list = 0 then None
         else if list ! 0 = [] then
           (if length list < 2 then None
            else if list ! 1 = [] then Some None
            else
              (let n = scan_zu (list ! 1)
               in if n = 0 \<or> file_size < n then Some None
                  else Some (Some (file_size - n, file_size - 1, n))))
         else if length list < 2 then None
         else if list ! 1 = [] then
           (let b = scan_zu (list ! 0); e = file_size - 1
            in if e < b then Some None else Some (Some (b, e, file_size - b)))
         else
           (let b = scan_zu (list ! 0); e = scan_zu (list ! 1)
            in if e < b \<or> file_size \<le> e then Some None else Some (Some (b, e, e - b + 1))))"

text \<open>The loop that removes blanks runs from the end down to index 1.\<close>

fun blank_loop :: "string \<Rightarrow> nat \<Rightarrow> string" where
  "blank_loop s 0 = s"
| "blank_loop s (Suc i) =
     blank_loop (if Suc i < length s \<and> s ! Suc i = CHR '' '' then take (Suc i) s @ drop (Suc (Suc i)) s else s) i"

text \<open>One range: read in blocks of the buffer size.\<close>

function single_loop :: "response \<Rightarrow> string \<Rightarrow> nat \<Rightarrow> nat \<Rightarrow> bool \<Rightarrow> response option" where
  "single_loop rs rest sz n chk =
     (if sz \<le> n then
        (if min sz (length rest) = 0 then Some rs
         else map_option fst (write_body rs (take sz rest) chk))
      else
        (case write_body rs (take n rest) chk of
           None \<Rightarrow> None
         | Some (rs', ok) \<Rightarrow>
             if \<not> ok then Some rs'
             else if length rest < n then Some rs'
             else single_loop rs' (drop n rest) (sz - n) n chk))"
  by pat_completeness auto
termination
proof (relation "measure (\<lambda>(rs, rest, sz, n, chk). sz)", goal_cases)
  case (2 rs rest sz n chk r' a b)
  then have "take n rest \<noteq> []" using write_body_Nil by fastforce
  then have "0 < n" by (cases n) auto
  with 2 show ?case by simp
qed simp

declare single_loop.simps [simp del]

text \<open>One part of a multipart answer: the response and whether to go on.  The last block gets its
  line end appended inside the buffer, which must have room for it; a full block is passed to
  \<open>write_body(buf, size)\<close>, which is the overload for a string and the chunked flag, so the text
  up to the first zero byte is written as a chunk.\<close>

function part_loop :: "response \<Rightarrow> string \<Rightarrow> string \<Rightarrow> nat \<Rightarrow> nat \<Rightarrow> bool \<Rightarrow> (response \<times> bool) option" where
  "part_loop rs rest buf sz n chk =
     (if sz \<le> n then
        (let m = min sz (length rest)
         in if m = 0 then Some (rs, True)
            else if n < m + 2 then None
            else write_body rs (take m rest @ CRLF) chk)
      else
        (let m = min n (length rest); buf' = take m rest @ drop m buf
         in if m = 0 then Some (rs, False)
            else if CHR 0x00 \<notin> set buf' then None
            else case write_body rs (takeWhile (\<lambda>c. c \<noteq> CHR 0x00) buf') True of
                   None \<Rightarrow> None
                 | Some (rs', ok) \<Rightarrow>
                     if \<not> ok then Some (rs', False)
                     else if length rest < n then Some (rs', True)
                     else part_loop rs' (drop n rest) buf' (sz - n) n chk))"
  by pat_completeness auto
termination
  by (relation "measure (\<lambda>(rs, rest, buf, sz, n, chk). length rest)") auto

declare part_loop.simps [simp del]

definition part_head :: "string \<Rightarrow> string \<Rightarrow> range_value \<Rightarrow> string" where
  "part_head boundary ct_line v =
     ''--'' @ boundary @ CRLF @ ct_line @ CRLF @ rv_cr_line v @ CRLF @ CRLF"

fun send_parts ::
  "response \<Rightarrow> string \<Rightarrow> string \<Rightarrow> string \<Rightarrow> nat \<Rightarrow> bool \<Rightarrow> range_value list \<Rightarrow> (response \<times> bool) option" where
  "send_parts rs content boundary ct_line n chk [] = Some (rs, True)"
| "send_parts rs content boundary ct_line n chk (v # vs) =
     (case write_body rs (part_head boundary ct_line v) chk of
        None \<Rightarrow> None
      | Some (rs1, ok) \<Rightarrow>
          if \<not> ok then Some (rs1, False)
          else case part_loop rs1 (drop (unat (rv_begin v)) content) (replicate n (CHR 0x00))
                 (unat (rv_size v)) n chk of
                 None \<Rightarrow> None
               | Some (rs2, ok2) \<Rightarrow>
                   if ok2 then send_parts rs2 content boundary ct_line n chk vs else Some (rs2, False))"

definition send_range ::
  "response \<Rightarrow> string \<Rightarrow> string \<Rightarrow> string \<Rightarrow> range_value list \<Rightarrow> response option" where
  "send_range rs0 content boundary ct_line queue =
     (if queue = [] then None
      else case write_response rs0 [] of
             None \<Rightarrow> None
           | Some rs \<Rightarrow>
               (let chk = is_chunked rs; n = ft_buffer_size rs
                in case queue of
                     [v] \<Rightarrow> single_loop rs (drop (unat (rv_begin v)) content) (unat (rv_size v)) n chk
                   | _ \<Rightarrow>
                       (case send_parts rs content boundary ct_line n chk queue of
                          None \<Rightarrow> None
                        | Some (rs1, ok) \<Rightarrow>
                            if ok then map_option fst (write_body rs1 (''--'' @ boundary @ ''--'' @ CRLF) chk)
                            else Some rs1)))"

text \<open>The ranges of a multipart request with the content length they add up to; \<open>Inl\<close>: a range was
  refused.\<close>

fun multi_ranges ::
  "string list \<Rightarrow> u64 \<Rightarrow> string \<Rightarrow> string \<Rightarrow> range_value list \<Rightarrow> u64 \<Rightarrow> (unit + range_value list \<times> u64) option" where
  "multi_ranges [] fsize boundary ct_line acc len = Some (Inr (acc, len))"
| "multi_ranges (s # ss) fsize boundary ct_line acc len =
     (case range_parsing (str_trimmed s) fsize of
        None \<Rightarrow> None
      | Some None \<Rightarrow> Some (Inl ())
      | Some (Some (b, e, n)) \<Rightarrow>
          (let cr = hdr_content_range @ '': bytes '' @ dec (unat b) @ ''-'' @ dec (unat e) @ ''/'' @ dec (unat fsize);
               v = \<lparr>rv_cr_line = cr, rv_begin = b, rv_end = e, rv_size = n\<rparr>
           in multi_ranges ss fsize boundary ct_line (acc @ [v])
                (len + (2 + of_nat (length boundary) + 2 + of_nat (length ct_line) + 2 +
                        of_nat (length cr) + 2 + 2 + n + 2))))"

definition range_transfer ::
  "(string \<Rightarrow> string) \<Rightarrow> nat \<Rightarrow> hook \<Rightarrow> response \<Rightarrow> string \<Rightarrow> string \<Rightarrow> string \<Rightarrow> response option" where
  "range_transfer mime now_ms hook rs name content range0 =
     (let range_str = blank_loop range0 (length range0)
      in if range_str = [] then write_default_status hook rs hs_bad_request
         else if substr range_str 0 6 \<noteq> ''bytes='' then write_default_status hook rs hs_range_not_satisfiable
         else if drop 6 range_str = [] then write_default_status hook rs hs_range_not_satisfiable
         else
           (let range_list = splitted (drop 6 range_str) '','' True;
                rs1 = set_status rs hs_partial_content;
                fsize = of_nat (length content)
            in if length range_list = 1 then
                 (case range_parsing (range_list ! 0) fsize of
                    None \<Rightarrow> None
                  | Some None \<Rightarrow> write_default_status hook rs1 hs_range_not_satisfiable
                  | Some (Some (b, e, n)) \<Rightarrow>
                      (let rs2 = set_header (set_header (set_header (set_header rs1
                             hdr_accept_ranges ''bytes'')
                             hdr_content_type (mime name))
                             hdr_content_length (dec (unat n)))
                             hdr_content_range (dec (unat b) @ ''-'' @ dec (unat e) @ ''/'' @ dec (unat n))
                       in send_range rs2 content [] []
                            [\<lparr>rv_cr_line = [], rv_begin = b, rv_end = e, rv_size = n\<rparr>]))
               else
                 (let boundary = ''range_transfer_'' @ dec now_ms;
                      rs2 = set_header rs1 hdr_content_type (''multipart/byteranges; boundary='' @ boundary);
                      ct_line = hdr_content_type @ '': '' @ mime name
                  in case multi_ranges range_list fsize boundary ct_line [] 0 of
                       None \<Rightarrow> None
                     | Some (Inl _) \<Rightarrow> write_default_status hook rs2 hs_range_not_satisfiable
                     | Some (Inr (queue, len)) \<Rightarrow>
                         send_range
                           (set_header (set_header rs2 hdr_content_length
                             (dec (unat (len + (2 + of_nat (length boundary) + 2 + 2)))))
                             hdr_accept_ranges ''bytes'')
                           content boundary ct_line queue)))"

section \<open>write_file\<close>

definition transfer_call ::
  "filesys \<Rightarrow> (string \<Rightarrow> string) \<Rightarrow> nat \<Rightarrow> hook \<Rightarrow> response \<Rightarrow> string \<Rightarrow> response option" where
  "transfer_call fs mime now_ms hook rs name =
     (case ft_check fs hook rs name of
        None \<Rightarrow> None
      | Some (Inl rs1) \<Rightarrow> Some rs1
      | Some (Inr (name', content)) \<Rightarrow>
          (case header_find (m_headers (rs_request rs)) hdr_range of
             Some v \<Rightarrow> range_transfer mime now_ms hook rs name' content v
           | None \<Rightarrow> default_transfer mime rs name' content))"

definition write_file ::
  "filesys \<Rightarrow> (string \<Rightarrow> string) \<Rightarrow> nat \<Rightarrow> hook \<Rightarrow> string \<Rightarrow> string option \<Rightarrow> response \<Rightarrow> string \<Rightarrow> response option" where
  "write_file fs mime now_ms hook root home rs fname =
     (if m_headers_writed rs then Some rs
      else case rs_absolute_path root home fname of
             None \<Rightarrow> None
           | Some name \<Rightarrow> transfer_call fs mime now_ms hook rs name)"

definition write_file_range ::
  "filesys \<Rightarrow> (string \<Rightarrow> string) \<Rightarrow> nat \<Rightarrow> hook \<Rightarrow> string \<Rightarrow> string option \<Rightarrow> response \<Rightarrow> string \<Rightarrow> string \<Rightarrow>
   response option" where
  "write_file_range fs mime now_ms hook root home rs fname range_value =
     (if m_headers_writed rs then Some rs
      else case rs_absolute_path root home fname of
             None \<Rightarrow> None
           | Some name \<Rightarrow>
               (case ft_check fs hook rs name of
                  None \<Rightarrow> None
                | Some (Inl rs1) \<Rightarrow> Some rs1
                | Some (Inr (name', content)) \<Rightarrow>
                    range_transfer mime now_ms hook rs name' content range_value))"

text \<open>\<open>write_file(name, range_vector)\<close>; \<open>Inl\<close> is the exception of its range check.\<close>

fun range_vector_text :: "(u64 \<times> u64) list \<Rightarrow> string \<Rightarrow> string option" where
  "range_vector_text [] str = Some str"
| "range_vector_text ((b, e) # rest) str =
     (if e \<le> b then range_vector_text rest (str @ dec (unat b) @ ''-'' @ dec (unat e) @ '','') else None)"

definition write_file_ranges ::
  "filesys \<Rightarrow> (string \<Rightarrow> string) \<Rightarrow> nat \<Rightarrow> hook \<Rightarrow> string \<Rightarrow> string option \<Rightarrow> response \<Rightarrow> string \<Rightarrow>
   (u64 \<times> u64) list \<Rightarrow> (unit + response option)" where
  "write_file_ranges fs mime now_ms hook root home rs fname vec =
     (if vec = [] then Inr (write_file fs mime now_ms hook root home rs fname)
      else case range_vector_text vec ''bytes='' of
             None \<Rightarrow> Inl ()
           | Some str \<Rightarrow>
               Inr (write_file_range fs mime now_ms hook root home rs fname (butlast str)))"

section \<open>Ranges that are accepted lie inside the file\<close>

text \<open>The range as positions: it starts before it ends, ends before the end of the file, and its
  size is the number of its bytes.\<close>

definition range_inside :: "u64 \<Rightarrow> u64 \<times> u64 \<times> u64 \<Rightarrow> bool" where
  "range_inside fsize r =
     (case r of (b, e, n) \<Rightarrow> b \<le> e \<and> e < fsize \<and> unat n = unat e - unat b + 1)"

lemma u64_less: "unat (x :: u64) < 18446744073709551616"
proof -
  have "unat x < 2 ^ LENGTH(64)" by (rule unsigned_less)
  then show ?thesis by simp
qed

lemma suffix_inside: "n \<noteq> 0 \<Longrightarrow> n \<le> fs \<Longrightarrow> range_inside fs (fs - n, fs - 1, n)"
  using unat_gt_0 [of n] u64_less [of fs]
  by (auto simp: range_inside_def word_le_nat_alt word_less_nat_alt unat_sub_if' split: if_splits)

lemma open_inside: "fs \<noteq> 0 \<Longrightarrow> b \<le> fs - 1 \<Longrightarrow> range_inside fs (b, fs - 1, fs - b)"
  using unat_gt_0 [of fs] u64_less [of fs]
  by (auto simp: range_inside_def word_le_nat_alt word_less_nat_alt unat_sub_if' split: if_splits)

lemma closed_inside: "b \<le> e \<Longrightarrow> e < fs \<Longrightarrow> range_inside fs (b, e, e - b + 1)"
  using u64_less [of fs]
  by (auto simp: range_inside_def word_le_nat_alt word_less_nat_alt unat_sub_if' unat_word_ariths split: if_splits)

lemma range_parsing_inside:
  "range_parsing s fs = Some (Some r) \<Longrightarrow> fs \<noteq> 0 \<Longrightarrow> range_inside fs r"
  by (auto simp: range_parsing_def Let_def not_le not_less suffix_inside open_inside closed_inside
      split: if_splits)

text \<open>C11: The \<open>Range\<close> parser on a text with one or more separators never reads outside its list, and
  a range it accepts for a file that is not empty lies inside the file, with the size of its
  interval: no answer reads before the start or behind the end of the file.  On a text without
  a separator it reads behind the end of the list of pieces, and for an empty file it accepts
  \<open>0-\<close> with an end that has wrapped around.\<close>

theorem range_parsing_safe:
  "(range_parsing s fsize = None) = (CHR ''-'' \<notin> set s) \<and>
   (case range_parsing s fsize of Some (Some r) \<Rightarrow> fsize = 0 \<or> range_inside fsize r | _ \<Rightarrow> True) \<and>
   range_parsing ''0-'' 0 = Some (Some (0, - 1, 0))"
proof (intro conjI)
  have len: "length (pieces (CHR ''-'') s) < 2 \<longleftrightarrow> CHR ''-'' \<notin> set s"
  proof (cases "CHR ''-'' \<in> set s")
    case True
    then obtain a b where "s = a @ CHR ''-'' # b" "CHR ''-'' \<notin> set a" by (meson split_list_first)
    moreover have "pieces (CHR ''-'') b \<noteq> []" by simp
    ultimately show ?thesis
      by (cases "pieces (CHR ''-'') b") (simp_all add: pieces_sep del: pieces_not_Nil)
  qed (simp add: pieces_no_sep)
  have hd: "pieces (CHR ''-'') s ! 0 = [] \<longrightarrow> length (pieces (CHR ''-'') s) < 2 \<longrightarrow> s = []"
    using len by (auto simp: pieces_no_sep)
  show "(range_parsing s fsize = None) = (CHR ''-'' \<notin> set s)"
  proof (cases "s = []")
    case True
    then show ?thesis by (simp add: range_parsing_def splitted_char)
  next
    case False
    then have "splitted s ''-'' False = pieces (CHR ''-'') s" by (simp add: splitted_char)
    with len hd False show ?thesis by (auto simp: range_parsing_def Let_def)
  qed
  show "case range_parsing s fsize of Some (Some r) \<Rightarrow> fsize = 0 \<or> range_inside fsize r | _ \<Rightarrow> True"
    using range_parsing_inside [of s fsize] by (auto split: option.split)
  show "range_parsing ''0-'' 0 = Some (Some (0, - 1, 0))"
    by (simp add: range_parsing_def splitted_char scan_zu_def strtoul_def strto_parse_def isspace_def
        digit_val_def Let_def)
qed

section \<open>A single range\<close>

lemma blank_loop_no_blank: "CHR '' '' \<notin> set s \<Longrightarrow> blank_loop s i = s"
  by (induction i) (auto simp: in_set_conv_nth)

lemma ft_buffer_size_emit [simp]: "ft_buffer_size (emit rs d) = ft_buffer_size rs"
  by (simp add: ft_buffer_size_def emit_def split: option.split)

lemma ft_buffer_size_head [simp]:
  "ft_buffer_size (unset_header rs k) = ft_buffer_size rs"
  "ft_buffer_size (rs\<lparr>m_headers_writed := w\<rparr>) = ft_buffer_size rs"
  by (simp_all add: ft_buffer_size_def unset_header_def)

lemma single_loop_spec:
  "full_socket rs \<Longrightarrow> sz \<le> length rest \<Longrightarrow> 0 < n \<Longrightarrow>
   \<exists>rs'. single_loop rs rest sz n False = Some rs' \<and> full_socket rs' \<and> sent rs' = sent rs @ take sz rest \<and>
     rs_headers rs' = rs_headers rs \<and> m_status rs' = m_status rs \<and> message_head rs' d = message_head rs d"
proof (induction sz arbitrary: rs rest rule: less_induct)
  case (less sz)
  show ?case
  proof (cases "sz \<le> n")
    case True
    then show ?thesis
      using less.prems write_body_plain [of rs "take sz rest"]
      by (cases "sz = 0 \<or> rest = []") (auto simp: single_loop.simps [of rs rest sz])
  next
    case False
    let ?rs = "emit rs (take n rest)"
    have ne: "take n rest \<noteq> []" using False less.prems by auto
    have "single_loop rs rest sz n False = single_loop ?rs (drop n rest) (sz - n) n False"
      using False ne less.prems write_body_plain [of rs "take n rest"]
      by (simp add: single_loop.simps [of rs rest sz])
    moreover obtain rs' where "single_loop ?rs (drop n rest) (sz - n) n False = Some rs'" "full_socket rs'"
      "sent rs' = sent ?rs @ take (sz - n) (drop n rest)" "rs_headers rs' = rs_headers ?rs"
      "m_status rs' = m_status ?rs" "message_head rs' d = message_head ?rs d"
      using less.IH [of "sz - n" ?rs "drop n rest"] less.prems False by (auto simp: diff_le_mono)
    moreover have "take n rest @ take (sz - n) (drop n rest) = take sz rest"
      using False by (metis le_add_diff_inverse nat_le_linear take_add)
    ultimately show ?thesis using less.prems(1) by simp
  qed
qed

lemma write_head_reply:
  assumes "full_socket rs" "headers_ok rs" "\<not> m_headers_writed rs" "status_description (m_status rs) = Some d"
    and "rs_headers_contains rs hdr_content_length" "\<not> is_chunked rs"
  shows "\<exists>rs'. write_response rs [] = Some rs' \<and> full_socket rs' \<and> sent rs' = sent rs @ message_head rs' d \<and>
     rs_headers rs' = map_erase less_case_insensitive (rs_headers rs) ''set-cookie'' \<and> m_status rs' = m_status rs \<and>
     ft_buffer_size rs' = ft_buffer_size rs \<and> \<not> is_chunked rs'"
proof -
  let ?w = "rs\<lparr>m_headers_writed := True\<rparr>"
  let ?rs1 = "unset_header ?w ''set-cookie''"
  have "headers_ok ?w" using assms(2) by (simp add: headers_ok_def)
  then have c: "\<not> is_chunked ?rs1" using assms(6) is_chunked_unset_cookie by simp
  have "rs_headers_contains ?w hdr_content_length" using assms(5) by (simp add: rs_headers_contains_def)
  then have "write_head rs 0 = Some (emit ?rs1 (message_head ?rs1 d))"
    using write_head_eq [OF assms(1,3,4), of 0] by (simp add: with_length_def Let_def)
  moreover have "rs_headers ?rs1 = map_erase less_case_insensitive (rs_headers rs) ''set-cookie''"
    by (simp add: unset_header_def)
  ultimately show ?thesis using assms(1) c by (simp add: write_response_def)
qed

lemma ft_buffer_size_set [simp]:
  "ft_buffer_size (set_header rs k v) = ft_buffer_size rs" "ft_buffer_size (set_status rs st) = ft_buffer_size rs"
  by (simp_all add: ft_buffer_size_def set_header_def set_status_def)

lemma range_list_single:
  "CHR '','' \<notin> set r \<Longrightarrow> r \<noteq> [] \<Longrightarrow> splitted r '','' True = [r]"
  by (simp add: splitted_char pieces_no_sep)

text \<open>The response that announces one range.\<close>

definition range_reply :: "(string \<Rightarrow> string) \<Rightarrow> response \<Rightarrow> string \<Rightarrow> u64 \<times> u64 \<times> u64 \<Rightarrow> response" where
  "range_reply mime rs name r =
     (case r of (b, e, n) \<Rightarrow>
        set_header (set_header (set_header (set_header (set_status rs hs_partial_content)
          hdr_accept_ranges ''bytes'')
          hdr_content_type (mime name))
          hdr_content_length (dec (unat n)))
          hdr_content_range (dec (unat b) @ ''-'' @ dec (unat e) @ ''/'' @ dec (unat n)))"

lemma range_transfer_single:
  assumes "CHR '' '' \<notin> set r" "CHR '','' \<notin> set r" "range_parsing r (of_nat (length content)) = Some (Some (b, e, n))"
  shows "range_transfer mime now_ms hook rs name content (''bytes='' @ r) =
    send_range (range_reply mime rs name (b, e, n)) content [] []
      [\<lparr>rv_cr_line = [], rv_begin = b, rv_end = e, rv_size = n\<rparr>]"
proof -
  have ne: "r \<noteq> []" using assms(3) by (auto simp: range_parsing_def splitted_char)
  have "blank_loop (''bytes='' @ r) (length (''bytes='' @ r)) = ''bytes='' @ r"
    using assms(1) by (intro blank_loop_no_blank) simp
  then show ?thesis
    using ne assms(3) range_list_single [OF assms(2) ne]
    by (simp add: range_transfer_def substr_def range_reply_def)
qed

text \<open>C9: A request for one range of a file, answered over a socket that takes everything and without
  chunked coding: the status is 206, the announced length is the size of the range, and what
  follows the head is exactly that part of the file, in whatever blocks it is read.\<close>

theorem single_range_answer:
  assumes "full_socket rs" and "headers_ok rs" and "\<not> m_headers_writed rs" and "\<not> is_chunked rs"
    and "0 < ft_buffer_size rs"
    and "CHR '' '' \<notin> set r" and "CHR '','' \<notin> set r" and "content \<noteq> []" and "length content < 2 ^ 64"
    and "range_parsing r (of_nat (length content)) = Some (Some (b, e, n))"
  shows "\<exists>rs' d. range_transfer mime now_ms hook rs name content (''bytes='' @ r) = Some rs' \<and>
     m_status rs' = 206 \<and> header_find (rs_headers rs') hdr_content_length = Some (dec (unat n)) \<and>
     unat n = unat e - unat b + 1 \<and> unat e < length content \<and>
     sent rs' = sent rs @ message_head rs' d @ take (unat n) (drop (unat b) content)"
proof -
  let ?rs = "range_reply mime rs name (b, e, n)"
  obtain d where d: "status_description hs_partial_content = Some d"
    by (simp add: status_description_def status_table_def)
  have len: "unat (of_nat (length content) :: u64) = length content"
    using assms(9) by (simp add: unsigned_of_nat take_bit_nat_eq_self)
  then have "(of_nat (length content) :: u64) \<noteq> 0" using assms(8) by auto
  with range_parsing_inside [OF assms(10)] have inside: "b \<le> e" "e < of_nat (length content)"
    "unat n = unat e - unat b + 1"
    by (auto simp: range_inside_def)
  then have fit: "unat e < length content" "unat b \<le> unat e"
    using len by (simp_all add: word_less_nat_alt word_le_nat_alt)
  have ok: "headers_ok ?rs" "full_socket ?rs" "\<not> m_headers_writed ?rs" "m_status ?rs = 206" "sent ?rs = sent rs"
    "ft_buffer_size ?rs = ft_buffer_size rs"
    using assms(1-3) by (simp_all add: range_reply_def headers_ok_set)
  have chk: "\<not> is_chunked ?rs"
    using assms(2,4) hdr_lower_differ header_names_differ
    by (simp add: range_reply_def is_chunked_set_header headers_ok_set)
  have cl: "header_find (rs_headers ?rs) hdr_content_length = Some (dec (unat n))"
    using assms(2) hdr_lower_differ by (simp add: range_reply_def find_set_header headers_ok_set)
  obtain rs1 where rs1: "write_response ?rs [] = Some rs1" "full_socket rs1" "sent rs1 = sent ?rs @ message_head rs1 d"
    "rs_headers rs1 = map_erase less_case_insensitive (rs_headers ?rs) ''set-cookie''" "m_status rs1 = 206"
    "ft_buffer_size rs1 = ft_buffer_size rs" "\<not> is_chunked rs1"
    using write_head_reply [OF ok(2,1,3) _ _ chk, of d] d ok cl by (auto simp: rs_headers_contains_def)
  have "unat n \<le> length (drop (unat b) content)" using inside fit by auto
  from single_loop_spec [OF rs1(2) this, of "ft_buffer_size rs" d] assms(5) obtain rs2 where rs2:
    "single_loop rs1 (drop (unat b) content) (unat n) (ft_buffer_size rs) False = Some rs2"
    "sent rs2 = sent rs1 @ take (unat n) (drop (unat b) content)" "rs_headers rs2 = rs_headers rs1"
    "m_status rs2 = m_status rs1" "message_head rs2 d = message_head rs1 d" by blast
  have "range_transfer mime now_ms hook rs name content (''bytes='' @ r) = Some rs2"
    using range_transfer_single [OF assms(6,7,10)] rs1 rs2 by (simp add: send_range_def)
  moreover have "header_find (rs_headers rs2) hdr_content_length = Some (dec (unat n))"
    using cl ok(1) header_names_differ rs1(4) rs2(3)
    by (simp add: header_find_def headers.lookup_erase headers_ok_def)
  ultimately show ?thesis
    using inside fit rs1 rs2 ok(5) by (intro exI [of _ rs2] exI [of _ d]) simp
qed

lemma plain_buffer_size: "0 < ft_buffer_size plain_response"
  by (simp add: plain_response_def response_new_def ft_buffer_size_def tcp_new_def)

lemma single_range_answer_witness:
  "\<exists>rs' d. range_transfer (\<lambda>_. ''text/plain'') 0 None plain_response ''f'' ''abcdef'' (''bytes='' @ ''1-3'') = Some rs' \<and>
     m_status rs' = 206 \<and> sent rs' = message_head rs' d @ ''bcd''"
proof -
  have p: "range_parsing ''1-3'' (of_nat (length ''abcdef'')) = Some (Some (1, 3, 3))"
    by (simp add: range_parsing_def splitted_char scan_zu_def strtoul_def strto_parse_def isspace_def
        digit_val_def Let_def)
  show ?thesis
    using single_range_answer [OF plain_response_ok(1-4) plain_buffer_size, of "''1-3''" "''abcdef''" 1 3 3 "\<lambda>_. ''text/plain''" 0 None "''f''"] p plain_response_ok(6)
    by auto
qed

section \<open>Several ranges\<close>

text \<open>What one part of a multipart answer puts on the wire.\<close>

definition part_text :: "string \<Rightarrow> string \<Rightarrow> string \<Rightarrow> range_value \<Rightarrow> string" where
  "part_text content boundary ct_line v =
     part_head boundary ct_line v @ take (unat (rv_size v)) (drop (unat (rv_begin v)) content) @ CRLF"

text \<open>A part that is sent in one block: it is not empty, lies in the file and, with its line end,
  fits the buffer.\<close>

definition part_fits :: "string \<Rightarrow> nat \<Rightarrow> range_value \<Rightarrow> bool" where
  "part_fits content n v =
     (0 < unat (rv_size v) \<and> unat (rv_begin v) + unat (rv_size v) \<le> length content \<and> unat (rv_size v) + 2 \<le> n)"

lemma part_loop_fits:
  "full_socket rs \<Longrightarrow> 0 < sz \<Longrightarrow> sz \<le> length rest \<Longrightarrow> sz + 2 \<le> n \<Longrightarrow>
   part_loop rs rest buf sz n False = Some (emit rs (take sz rest @ CRLF), True)"
  using write_body_plain [of rs "take sz rest @ CRLF"] by (simp add: part_loop.simps [of rs rest] Let_def)

lemma send_parts_fit:
  "full_socket rs \<Longrightarrow> list_all (part_fits content n) vs \<Longrightarrow>
   \<exists>rs'. send_parts rs content boundary ct_line n False vs = Some (rs', True) \<and> full_socket rs' \<and>
     sent rs' = sent rs @ concat (map (part_text content boundary ct_line) vs) \<and>
     message_head rs' d = message_head rs d"
proof (induction vs arbitrary: rs)
  case (Cons v vs)
  let ?rest = "drop (unat (rv_begin v)) content"
  let ?rs1 = "emit rs (part_head boundary ct_line v)"
  let ?rs2 = "emit ?rs1 (take (unat (rv_size v)) ?rest @ CRLF)"
  have head: "write_body rs (part_head boundary ct_line v) False = Some (?rs1, True)"
    using write_body_plain [OF Cons.prems(1), of "part_head boundary ct_line v"] by (simp add: part_head_def)
  have "part_loop ?rs1 ?rest (replicate n (CHR 0x00)) (unat (rv_size v)) n False = Some (?rs2, True)"
    using Cons.prems by (intro part_loop_fits) (auto simp: part_fits_def)
  with head have "send_parts rs content boundary ct_line n False (v # vs) =
      send_parts ?rs2 content boundary ct_line n False vs" by simp
  moreover obtain rs' where "send_parts ?rs2 content boundary ct_line n False vs = Some (rs', True)" "full_socket rs'"
    "sent rs' = sent ?rs2 @ concat (map (part_text content boundary ct_line) vs)"
    "message_head rs' d = message_head ?rs2 d"
    using Cons.IH [of ?rs2] Cons.prems by auto
  ultimately show ?case using Cons.prems(1) by (simp add: part_text_def [of content boundary ct_line v] del: send_parts.simps)
qed simp

lemma part_text_length:
  "part_fits content n v \<Longrightarrow>
   (of_nat (length (part_text content boundary ct_line v)) :: u64) =
     2 + of_nat (length boundary) + 2 + of_nat (length ct_line) + 2 + of_nat (length (rv_cr_line v)) + 2 + 2 +
     rv_size v + 2"
  by (auto simp: part_text_def part_head_def part_fits_def algebra_simps)

lemma multi_ranges_subset:
  "multi_ranges ss fsize boundary ct_line acc len = Some (Inr (queue, ttl)) \<Longrightarrow> set acc \<subseteq> set queue"
proof (induction ss arbitrary: acc len)
  case (Cons s ss)
  from Cons.prems show ?case
    by (auto simp: Let_def split: option.splits dest!: Cons.IH)
qed simp

lemma multi_ranges_length:
  "multi_ranges ss fsize boundary ct_line acc len = Some (Inr (queue, ttl)) \<Longrightarrow>
   list_all (part_fits content n) queue \<Longrightarrow>
   len = of_nat (length (concat (map (part_text content boundary ct_line) acc))) \<Longrightarrow>
   ttl = of_nat (length (concat (map (part_text content boundary ct_line) queue)))"
proof (induction ss arbitrary: acc len)
  case Nil
  then show ?case by auto
next
  case (Cons s ss)
  obtain b e m where p: "range_parsing (str_trimmed s) fsize = Some (Some (b, e, m))"
    using Cons.prems(1) by (auto split: option.splits)
  let ?cr = "hdr_content_range @ '': bytes '' @ dec (unat b) @ ''-'' @ dec (unat e) @ ''/'' @ dec (unat fsize)"
  let ?v = "\<lparr>rv_cr_line = ?cr, rv_begin = b, rv_end = e, rv_size = m\<rparr>"
  let ?len = "len + (2 + of_nat (length boundary) + 2 + of_nat (length ct_line) + 2 + of_nat (length ?cr) + 2 + 2 + m + 2)"
  have rec: "multi_ranges ss fsize boundary ct_line (acc @ [?v]) ?len = Some (Inr (queue, ttl))"
    using Cons.prems(1) p by (simp add: Let_def)
  from multi_ranges_subset [OF this] have "part_fits content n ?v"
    using Cons.prems(2) by (auto simp: list_all_iff)
  from part_text_length [OF this, of boundary ct_line]
  have "?len = of_nat (length (concat (map (part_text content boundary ct_line) (acc @ [?v]))))"
    using Cons.prems(3) by simp
  from Cons.IH [OF rec Cons.prems(2) this] show ?case .
qed



text \<open>A response with the headers of a multipart answer.\<close>

definition parts_response :: response where
  "parts_response = set_header (set_status plain_response hs_partial_content) hdr_content_length ''0''"

lemma parts_response_ok:
  "full_socket parts_response" "headers_ok parts_response" "\<not> m_headers_writed parts_response"
  "\<not> is_chunked parts_response" "rs_headers_contains parts_response hdr_content_length"
  "status_description (m_status parts_response) = Some ''Partial Content''" "ft_buffer_size parts_response = 64"
  using plain_response_ok hdr_lower_differ header_names_differ
  by (simp_all add: parts_response_def headers_ok_set is_chunked_set_header rs_headers_contains_def find_set_header)
     (simp_all add: status_description_def status_table_def plain_response_def response_new_def ft_buffer_size_def
       tcp_new_def)

lemma range_parsing_samples:
  "range_parsing ''0-1'' 6 = Some (Some (0, 1, 2))" "range_parsing ''3-4'' 6 = Some (Some (3, 4, 2))"
  by (simp_all add: range_parsing_def splitted_char scan_zu_def strtoul_def strto_parse_def isspace_def
      digit_val_def Let_def word_le_nat_alt word_less_nat_alt)

lemma str_trimmed_samples: "str_trimmed ''0-1'' = ''0-1''" "str_trimmed ''3-4'' = ''3-4''"
  by code_simp+


section \<open>A whole file\<close>

lemma default_loop_spec:
  "full_socket rs \<Longrightarrow> 0 < n \<Longrightarrow>
   \<exists>rs'. default_loop rs rest n False = Some rs' \<and> full_socket rs' \<and> sent rs' = sent rs @ rest \<and>
     rs_headers rs' = rs_headers rs \<and> m_status rs' = m_status rs \<and> message_head rs' d = message_head rs d"
proof (induction "length rest" arbitrary: rs rest rule: less_induct)
  case less
  show ?case
  proof (cases "rest = []")
    case True
    then show ?thesis using less.prems by (simp add: default_loop.simps [of rs "[]"])
  next
    case False
    let ?rs = "emit rs (take n rest)"
    have step: "default_loop rs rest n False =
        (if length rest < n then Some ?rs else default_loop ?rs (drop n rest) n False)"
      using False less.prems by (simp add: default_loop.simps [of rs rest] write_body_plain [OF less.prems(1)])
    show ?thesis
    proof (cases "length rest < n")
      case True
      then show ?thesis using step less.prems by simp
    next
      case longer: False
      have "length (drop n rest) < length rest" using False less.prems by simp
      from less.hyps [OF this, of ?rs] less.prems obtain rs' where
        "default_loop ?rs (drop n rest) n False = Some rs'" "full_socket rs'" "sent rs' = sent ?rs @ drop n rest"
        "rs_headers rs' = rs_headers ?rs" "m_status rs' = m_status ?rs" "message_head rs' d = message_head ?rs d"
        by auto
      then show ?thesis using step longer less.prems(1) by simp
    qed
  qed
qed

text \<open>A file that is not empty, asked for without a range.\<close>

lemma whole_file_sent:
  assumes "full_socket rs" "headers_ok rs" "\<not> m_headers_writed rs" "status_description (m_status rs) = Some d"
    and "\<not> is_chunked rs" and "fs name = Some (True, content)" and "content \<noteq> []" and "0 < ft_buffer_size rs"
    and "str_starts_with name ''/''" and "header_find (m_headers (rs_request rs)) hdr_range = None"
  shows "\<exists>rs'. write_file fs mime now_ms hook root home rs name = Some rs' \<and>
     sent rs' = sent rs @ message_head rs' d @ content \<and> m_status rs' = m_status rs \<and>
     header_find (rs_headers rs') hdr_content_length = Some (dec (length content)) \<and>
     header_find (rs_headers rs') hdr_content_type = Some (mime name)"
proof -
  let ?r1 = "set_header rs hdr_content_length (dec (length content))"
  let ?r2 = "set_header ?r1 hdr_content_type (mime name)"
  have ok: "headers_ok ?r1" "headers_ok ?r2" by (intro headers_ok_set assms(2))+
  note nd = header_names_differ hdr_lower_differ
  have find: "header_find (rs_headers ?r2) hdr_content_length = Some (dec (length content))"
    "header_find (rs_headers ?r2) hdr_content_type = Some (mime name)"
    using find_set_header [OF ok(1)] find_set_header [OF assms(2)] hdr_lower_differ(7) by (simp_all add: eq_commute)
  have "header_find (rs_headers ?r2) hdr_transfer_encoding = header_find (rs_headers rs) hdr_transfer_encoding"
    using find_set_header [OF ok(1)] find_set_header [OF assms(2)] nd by simp
  then have c: "\<not> is_chunked ?r2" using assms(5) by (simp only: is_chunked_def set_header_fields not_False_eq_True)
  have len: "rs_headers_contains ?r2 hdr_content_length" using find by (simp add: rs_headers_contains_def)
  obtain r3 where r3: "write_response ?r2 [] = Some r3" "full_socket r3" "sent r3 = sent rs @ message_head r3 d"
    "rs_headers r3 = map_erase less_case_insensitive (rs_headers ?r2) ''set-cookie''" "m_status r3 = m_status rs"
    "ft_buffer_size r3 = ft_buffer_size rs" "\<not> is_chunked r3"
    using write_head_reply [of ?r2 d] assms(1,3,4) ok(2) len c by auto
  obtain r4 where r4: "default_loop r3 content (ft_buffer_size r3) False = Some r4" "sent r4 = sent r3 @ content"
    "rs_headers r4 = rs_headers r3" "m_status r4 = m_status r3" "message_head r4 d = message_head r3 d"
    using default_loop_spec [OF r3(2), of "ft_buffer_size r3" content d] r3(6) assms(8) by auto
  have "write_file fs mime now_ms hook root home rs name = Some r4"
    using assms(3,6,7,9,10) r3(1,7) r4(1)
    by (simp add: write_file_def rs_absolute_path_def transfer_call_def ft_check_def ft_open_def default_transfer_def)
  moreover have "header_find (rs_headers r4) k = header_find (rs_headers ?r2) k" if "map tolower k \<noteq> map tolower ''set-cookie''" for k
    using ok(2) that r3(4) r4(3) by (simp add: header_ops headers.lookup_erase headers_ok_def)
  moreover have "map tolower hdr_content_type \<noteq> map tolower ''set-cookie''" by code_simp
  ultimately show ?thesis using r3 r4 find nd by auto
qed

end
