(* ===== verification/Session.thy ===== *)
theory Session
  imports HttpMap
begin

text \<open>
  The session store of \<open>gts/http/session.cpp\<close>: session objects, the global table of sessions and the
  timers that end them.

  Objects live in \<open>st_heap\<close> and are named by their position in it; the table \<open>st_hash\<close> holds
  \<open>g_session_hash\<close>.  A pending \<open>async_wait\<close> of a session is its time of expiry; what the asio event
  loop still has to call is the queue of completions \<open>st_queue\<close>, each with the flag that the wait
  was cancelled.  Asio promises that a cancelled wait is completed with the flag, and that a wait
  whose time has come is completed without it: the steps \<open>Cancel\<close> of \<open>cancel_timer\<close> and \<open>Fire\<close>.
  The time is the number of seconds of the clock; an attribute value may be anything.  The objects
  are never freed in the model: the lifetime of a session that nobody holds is not modelled.
\<close>

record 'v sess =
  s_id :: string
  s_create_time :: u64
  s_lifecycle :: u64
  s_attrs :: "'v umap"
  s_valid :: bool
  s_wait :: "int option"

record 'v store =
  st_now :: u64
  st_global :: u64
  st_heap :: "'v sess list"
  st_hash :: "nat umap"
  st_queue :: "(nat \<times> bool) list"

definition store_new :: "u64 \<Rightarrow> 'v store" where
  "store_new now = \<lparr>st_now = now, st_global = 1800, st_heap = [], st_hash = [], st_queue = []\<rparr>"

definition upd :: "'v store \<Rightarrow> nat \<Rightarrow> ('v sess \<Rightarrow> 'v sess) \<Rightarrow> 'v store" where
  "upd st r f = st\<lparr>st_heap := (st_heap st)[r := f (st_heap st ! r)]\<rparr>"

section \<open>session_impl\<close>

text \<open>\<open>session_impl::set_lifecycle\<close>; a duration has a signed 64-bit count.\<close>

definition impl_set_lifecycle :: "u64 \<Rightarrow> int \<Rightarrow> 'v sess \<Rightarrow> 'v sess" where
  "impl_set_lifecycle g s x = x\<lparr>s_lifecycle := (if 0 < s then of_int s else g)\<rparr>"

text \<open>\<open>m_timer.cancel()\<close>.\<close>

definition cancel_timer :: "'v store \<Rightarrow> nat \<Rightarrow> 'v store" where
  "cancel_timer st r =
     (case s_wait (st_heap st ! r) of
        None \<Rightarrow> st
      | Some e \<Rightarrow> (upd st r (\<lambda>x. x\<lparr>s_wait := None\<rparr>))\<lparr>st_queue := st_queue st @ [(r, True)]\<rparr>)"

text \<open>\<open>restart\<close>: the count of seconds is unsigned, the duration it is turned into signed.\<close>

definition restart :: "'v store \<Rightarrow> nat \<Rightarrow> u64 \<Rightarrow> 'v store" where
  "restart st0 r s =
     (let st = cancel_timer st0 r;
          d = (if s = 0 then s_lifecycle (st_heap st ! r) else s)
      in upd st r (\<lambda>x. x\<lparr>s_wait := Some (uint (st_now st) + sint d)\<rparr>))"

text \<open>The handler of \<open>async_wait\<close>.\<close>

definition on_timer :: "'v store \<Rightarrow> nat \<Rightarrow> bool \<Rightarrow> 'v store" where
  "on_timer st r was_cancel =
     (if was_cancel \<and> s_valid (st_heap st ! r) then st
      else
        (let st1 = (if was_cancel then st else upd st r (\<lambda>x. x\<lparr>s_valid := False, s_attrs := []\<rparr>))
         in st1\<lparr>st_hash := umap_erase (st_hash st1) (s_id (st_heap st1 ! r))\<rparr>))"

section \<open>session\<close>

text \<open>The constructor, with the text of the \<open>uuid\<close> that is generated for it; the result is the new
  object.\<close>

definition session_new :: "'v store \<Rightarrow> string \<Rightarrow> int \<Rightarrow> nat \<times> 'v store" where
  "session_new st uid s =
     (length (st_heap st),
      st\<lparr>st_heap := st_heap st @
        [impl_set_lifecycle (st_global st) s
           \<lparr>s_id = uid, s_create_time = st_now st, s_lifecycle = 0, s_attrs = [], s_valid = True,
            s_wait = None\<rparr>]\<rparr>)"

definition session_id :: "'v store \<Rightarrow> nat \<Rightarrow> string" where
  "session_id st r = s_id (st_heap st ! r)"

definition session_create_time :: "'v store \<Rightarrow> nat \<Rightarrow> u64" where
  "session_create_time st r = s_create_time (st_heap st ! r)"

definition session_is_valid :: "'v store \<Rightarrow> nat \<Rightarrow> bool" where
  "session_is_valid st r = s_valid (st_heap st ! r)"

text \<open>\<open>attribute\<close>: the missing key is the exception.\<close>

definition session_attribute :: "'v store \<Rightarrow> nat \<Rightarrow> string \<Rightarrow> string + 'v" where
  "session_attribute st r key =
     (case umap_find (s_attrs (st_heap st ! r)) key of None \<Rightarrow> Inl key | Some v \<Rightarrow> Inr v)"

definition attribute_or :: "'v store \<Rightarrow> nat \<Rightarrow> string \<Rightarrow> 'v \<Rightarrow> 'v" where
  "attribute_or st r key deft_value =
     (case umap_find (s_attrs (st_heap st ! r)) key of None \<Rightarrow> deft_value | Some v \<Rightarrow> v)"

definition session_set_attribute :: "'v store \<Rightarrow> nat \<Rightarrow> string \<Rightarrow> 'v \<Rightarrow> 'v store" where
  "session_set_attribute st r key v = upd st r (\<lambda>x. x\<lparr>s_attrs := umap_put (s_attrs x) key v\<rparr>)"

definition session_unset_attribute :: "'v store \<Rightarrow> nat \<Rightarrow> string \<Rightarrow> 'v store" where
  "session_unset_attribute st r key = upd st r (\<lambda>x. x\<lparr>s_attrs := umap_erase (s_attrs x) key\<rparr>)"

definition attribute_count :: "'v store \<Rightarrow> nat \<Rightarrow> nat" where
  "attribute_count st r = length (s_attrs (st_heap st ! r))"

definition session_all_attributes :: "'v store \<Rightarrow> nat \<Rightarrow> 'v umap" where
  "session_all_attributes st r = s_attrs (st_heap st ! r)"

definition attribute_key_list :: "'v store \<Rightarrow> nat \<Rightarrow> string list" where
  "attribute_key_list st r = map fst (s_attrs (st_heap st ! r))"

definition attribute_key_set :: "'v store \<Rightarrow> nat \<Rightarrow> string set" where
  "attribute_key_set st r = set (map fst (s_attrs (st_heap st ! r)))"

definition session_lifecycle :: "'v store \<Rightarrow> nat \<Rightarrow> u64" where
  "session_lifecycle st r = s_lifecycle (st_heap st ! r)"

definition invalidate :: "'v store \<Rightarrow> nat \<Rightarrow> 'v store" where
  "invalidate st r = cancel_timer (upd st r (\<lambda>x. x\<lparr>s_valid := False, s_attrs := []\<rparr>)) r"

definition session_set_lifecycle :: "'v store \<Rightarrow> nat \<Rightarrow> int \<Rightarrow> 'v store" where
  "session_set_lifecycle st0 r s =
     (let st = upd st0 r (impl_set_lifecycle (st_global st0) s);
          ctime = st_now st;
          cat = s_create_time (st_heap st ! r) + of_int s
      in if ctime < cat then restart st r (ctime - cat) else invalidate st r)"

definition expand :: "'v store \<Rightarrow> nat \<Rightarrow> int \<Rightarrow> 'v store" where
  "expand st r s =
     restart (if 0 < s then upd st r (\<lambda>x. x\<lparr>s_lifecycle := of_int s\<rparr>) else st) r 0"

definition session_get :: "'v store \<Rightarrow> string \<Rightarrow> nat option" where
  "session_get st key = umap_find (st_hash st) key"

definition session_set :: "'v store \<Rightarrow> nat option \<Rightarrow> 'v store" where
  "session_set st obj =
     (case obj of
        None \<Rightarrow> st
      | Some r \<Rightarrow> restart (st\<lparr>st_hash := fst (umap_emplace (st_hash st) (session_id st r) r)\<rparr>) r 0)"

definition session_make_shared :: "'v store \<Rightarrow> string \<Rightarrow> int \<Rightarrow> nat option \<times> 'v store" where
  "session_make_shared st0 uid s =
     (let (obj, st1) = session_new st0 uid s;
          st = session_set st1 (Some obj)
      in (session_get st (session_id st obj), st))"

definition set_global_lifecycle :: "'v store \<Rightarrow> int \<Rightarrow> 'v store" where
  "set_global_lifecycle st s = (if 0 < s then st\<lparr>st_global := of_int s\<rparr> else st)"

definition global_lifecycle :: "'v store \<Rightarrow> u64" where
  "global_lifecycle st = st_global st"


section \<open>The event loop\<close>

datatype 'v sess_op =
    Op_make string int
  | Op_set nat
  | Op_attr nat string 'v
  | Op_unset nat string
  | Op_lifecycle nat int
  | Op_expand nat int
  | Op_invalidate nat
  | Op_global int

fun sess_call :: "'v sess_op \<Rightarrow> 'v store \<Rightarrow> 'v store" where
  "sess_call (Op_make uid s) st = snd (session_make_shared st uid s)"
| "sess_call (Op_set r) st = session_set st (Some r)"
| "sess_call (Op_attr r k v) st = session_set_attribute st r k v"
| "sess_call (Op_unset r k) st = session_unset_attribute st r k"
| "sess_call (Op_lifecycle r s) st = session_set_lifecycle st r s"
| "sess_call (Op_expand r s) st = expand st r s"
| "sess_call (Op_invalidate r) st = invalidate st r"
| "sess_call (Op_global s) st = set_global_lifecycle st s"

text \<open>The session an operation is called on.\<close>

fun op_target :: "'v sess_op \<Rightarrow> nat option" where
  "op_target (Op_make uid s) = None"
| "op_target (Op_global s) = None"
| "op_target (Op_set r) = Some r"
| "op_target (Op_attr r k v) = Some r"
| "op_target (Op_unset r k) = Some r"
| "op_target (Op_lifecycle r s) = Some r"
| "op_target (Op_expand r s) = Some r"
| "op_target (Op_invalidate r) = Some r"

text \<open>Operations are called on objects that exist, and \<open>uuid::generate\<close> gives new names.\<close>

fun op_ok :: "'v store \<Rightarrow> 'v sess_op \<Rightarrow> bool" where
  "op_ok st (Op_make uid s) = (uid \<notin> s_id ` set (st_heap st))"
| "op_ok st p = (case op_target p of None \<Rightarrow> True | Some r \<Rightarrow> r < length (st_heap st))"

text \<open>A wait whose time has come is handed to the loop.\<close>

definition fire :: "'v store \<Rightarrow> nat \<Rightarrow> 'v store" where
  "fire st r = (upd st r (\<lambda>x. x\<lparr>s_wait := None\<rparr>))\<lparr>st_queue := st_queue st @ [(r, False)]\<rparr>"

datatype 'v label = Call "'v sess_op" | Tick u64 | Fire nat | Run

inductive sess_step :: "'v store \<Rightarrow> 'v label \<Rightarrow> 'v store \<Rightarrow> bool" where
  step_call: "op_ok st p \<Longrightarrow> sess_step st (Call p) (sess_call p st)"
| step_tick: "st_now st \<le> t \<Longrightarrow> sess_step st (Tick t) (st\<lparr>st_now := t\<rparr>)"
| step_fire: "r < length (st_heap st) \<Longrightarrow> s_wait (st_heap st ! r) = Some e \<Longrightarrow> e \<le> uint (st_now st) \<Longrightarrow>
    sess_step st (Fire r) (fire st r)"
| step_run: "st_queue st = (r, c) # q \<Longrightarrow> sess_step st Run (on_timer (st\<lparr>st_queue := q\<rparr>) r c)"

inductive_simps step_simps:
  "sess_step st (Call p) st'" "sess_step st (Tick t) st'" "sess_step st (Fire r) st'" "sess_step st Run st'"

inductive sess_run :: "'v store \<Rightarrow> 'v label list \<Rightarrow> 'v store \<Rightarrow> bool" where
  run_nil: "sess_run st [] st"
| run_snoc: "sess_run st ls st1 \<Longrightarrow> sess_step st1 l st2 \<Longrightarrow> sess_run st (ls @ [l]) st2"

text \<open>What the loop does when it is left alone: complete everything that is due.\<close>

definition due :: "'v store \<Rightarrow> nat \<Rightarrow> bool" where
  "due st r = (case s_wait (st_heap st ! r) of None \<Rightarrow> False | Some e \<Rightarrow> e \<le> uint (st_now st))"

definition fire_due :: "'v store \<Rightarrow> 'v store" where
  "fire_due st = fold (\<lambda>r st. if due st r then fire st r else st) [0..<length (st_heap st)] st"

definition drain :: "'v store \<Rightarrow> 'v store" where
  "drain st = fold (\<lambda>(r, c) st. on_timer st r c) (st_queue st) (st\<lparr>st_queue := []\<rparr>)"

definition settle :: "'v store \<Rightarrow> 'v store" where
  "settle st = drain (fire_due st)"

section \<open>The invariant\<close>

text \<open>Every session of the table exists under its own name, and the event loop will come back to it:
  it waits, or its expiry is about to be handled, or it is invalid and its cancelled wait is.\<close>

definition tracked :: "'v store \<Rightarrow> nat \<Rightarrow> bool" where
  "tracked st r =
     (s_wait (st_heap st ! r) \<noteq> None \<or> (r, False) \<in> set (st_queue st) \<or>
      \<not> s_valid (st_heap st ! r) \<and> (r, True) \<in> set (st_queue st))"

definition store_wf :: "'v store \<Rightarrow> bool" where
  "store_wf st =
     (umap_ok (st_hash st) \<and> distinct (map s_id (st_heap st)) \<and>
      (\<forall>k r. umap_find (st_hash st) k = Some r \<longrightarrow> r < length (st_heap st) \<and> s_id (st_heap st ! r) = k) \<and>
      list_all (\<lambda>(r, c). r < length (st_heap st)) (st_queue st))"

text \<open>Every session of the table but those in \<open>A\<close> is tracked.\<close>

definition tracked_but :: "nat set \<Rightarrow> 'v store \<Rightarrow> bool" where
  "tracked_but A st = (\<forall>k r. umap_find (st_hash st) k = Some r \<longrightarrow> r \<in> A \<or> tracked st r)"

definition store_ok :: "'v store \<Rightarrow> bool" where
  "store_ok st = (store_wf st \<and> tracked_but {} st)"

lemma upd_fields [simp]:
  "st_now (upd st r f) = st_now st" "st_global (upd st r f) = st_global st" "st_hash (upd st r f) = st_hash st"
  "st_queue (upd st r f) = st_queue st" "length (st_heap (upd st r f)) = length (st_heap st)"
  by (simp_all add: upd_def)

lemma upd_nth: "r < length (st_heap st) \<Longrightarrow> st_heap (upd st r f) ! q = (if q = r then f (st_heap st ! r) else st_heap st ! q)"
  by (simp add: upd_def nth_list_update)

lemma upd_ids:
  "r < length (st_heap st) \<Longrightarrow> s_id (f (st_heap st ! r)) = s_id (st_heap st ! r) \<Longrightarrow>
   map s_id (st_heap (upd st r f)) = map s_id (st_heap st)"
  by (simp add: upd_def map_update) (metis length_map list_update_id nth_map)

lemma store_ok_new: "store_ok (store_new now)"
  by (simp add: store_ok_def store_wf_def tracked_but_def store_new_def umap_ok_def umap_find_def)

text \<open>The change of one object, of its wait and of the queue that all operations on a session come
  down to.\<close>

definition alike :: "nat \<Rightarrow> 'v store \<Rightarrow> 'v store \<Rightarrow> bool" where
  "alike r st st' =
     (st_hash st' = st_hash st \<and> length (st_heap st') = length (st_heap st) \<and> st_now st' = st_now st \<and>
      (\<forall>q. q \<noteq> r \<longrightarrow> st_heap st' ! q = st_heap st ! q) \<and> s_id (st_heap st' ! r) = s_id (st_heap st ! r) \<and>
      (st_queue st' = st_queue st \<or> st_queue st' = st_queue st @ [(r, True)]))"

lemma alike_wf:
  assumes "alike r st st'" "r < length (st_heap st)" "store_wf st"
  shows "store_wf st'"
proof -
  have id: "s_id (st_heap st' ! q) = s_id (st_heap st ! q)" for q
    using assms(1) by (cases "q = r") (simp_all add: alike_def)
  have "length (st_heap st') = length (st_heap st)" using assms(1) by (simp add: alike_def)
  then have ids: "map s_id (st_heap st') = map s_id (st_heap st)"
    by (intro nth_equalityI) (simp_all add: id)
  show ?thesis
    using assms unfolding store_wf_def ids id by (auto simp: alike_def)
qed

lemma alike_tracked: "alike r st st' \<Longrightarrow> q \<noteq> r \<Longrightarrow> tracked st' q = tracked st q"
  by (auto simp: alike_def tracked_def)

lemma alike_ok:
  assumes "alike r st st'" "r < length (st_heap st)" "store_wf st" "tracked_but {r} st"
    and "umap_find (st_hash st) (s_id (st_heap st ! r)) = Some r \<Longrightarrow> tracked st' r"
  shows "store_ok st'"
proof -
  have "tracked_but {} st'"
    unfolding tracked_but_def
  proof (intro allI impI disjI2)
    fix k q assume k: "umap_find (st_hash st') k = Some q"
    then have k': "umap_find (st_hash st) k = Some q" using assms(1) by (simp add: alike_def)
    show "tracked st' q"
    proof (cases "q = r")
      case True
      with k' assms(3) have "s_id (st_heap st ! r) = k" by (simp add: store_wf_def)
      with k' True assms(5) show ?thesis by simp
    next
      case False
      with k' assms(4) alike_tracked [OF assms(1) False] show ?thesis by (auto simp: tracked_but_def)
    qed
  qed
  with alike_wf [OF assms(1-3)] show ?thesis by (simp add: store_ok_def)
qed

lemma store_okD: "store_ok st \<Longrightarrow> store_wf st \<and> tracked_but A st"
  by (auto simp: store_ok_def tracked_but_def)

lemma alike_upd:
  "r < length (st_heap st) \<Longrightarrow> s_id (f (st_heap st ! r)) = s_id (st_heap st ! r) \<Longrightarrow> alike r st (upd st r f)"
  by (simp add: alike_def upd_nth)

lemma alike_cancel: "r < length (st_heap st) \<Longrightarrow> alike r st (cancel_timer st r)"
  by (auto simp: cancel_timer_def alike_def upd_nth split: option.split)

lemma cancel_nth:
  "r < length (st_heap st) \<Longrightarrow> st_heap (cancel_timer st r) ! r = (st_heap st ! r)\<lparr>s_wait := None\<rparr>"
  by (auto simp: cancel_timer_def upd_nth split: option.split)

lemma cancel_queue:
  "st_queue (cancel_timer st r) = st_queue st @ (if s_wait (st_heap st ! r) = None then [] else [(r, True)])"
  by (auto simp: cancel_timer_def split: option.split)

lemma alike_restart: "r < length (st_heap st) \<Longrightarrow> alike r st (restart st r s)"
  using alike_cancel [of r st] cancel_nth [of r st]
  by (auto simp: restart_def Let_def alike_def upd_nth)

lemma restart_nth:
  "r < length (st_heap st) \<Longrightarrow> st_heap (restart st r s) ! r =
     (st_heap st ! r)\<lparr>s_wait := Some (uint (st_now st) +
       sint (if s = 0 then s_lifecycle (st_heap st ! r) else s))\<rparr>"
  using alike_cancel [of r st] by (simp add: restart_def Let_def upd_nth cancel_nth alike_def)

lemma tracked_restart: "r < length (st_heap st) \<Longrightarrow> tracked (restart st r s) r"
  by (simp add: tracked_def restart_nth)

lemma alike_trans:
  "alike r st st1 \<Longrightarrow> st_queue st1 = st_queue st \<Longrightarrow> alike r st1 st2 \<Longrightarrow> alike r st st2"
  by (auto simp: alike_def)

lemma ok_restart:
  assumes "store_wf st" "tracked_but {r} st" "r < length (st_heap st)"
  shows "store_ok (restart st r s)"
  using alike_ok [OF alike_restart [OF assms(3)] assms(3,1,2)] tracked_restart [OF assms(3)] by blast

lemma alike_invalidate: "r < length (st_heap st) \<Longrightarrow> alike r st (invalidate st r)"
  unfolding invalidate_def by (rule alike_trans [OF alike_upd _ alike_cancel]) simp_all

lemma invalidate_nth:
  "r < length (st_heap st) \<Longrightarrow>
   st_heap (invalidate st r) ! r = (st_heap st ! r)\<lparr>s_valid := False, s_attrs := [], s_wait := None\<rparr>"
  by (simp add: invalidate_def cancel_nth upd_nth)

lemma tracked_invalidate:
  "r < length (st_heap st) \<Longrightarrow> tracked st r \<Longrightarrow> tracked (invalidate st r) r"
  by (auto simp: tracked_def invalidate_nth) (auto simp: invalidate_def cancel_queue upd_nth)

lemma ok_invalidate:
  assumes "store_ok st" "r < length (st_heap st)"
  shows "store_ok (invalidate st r)"
  using alike_ok [OF alike_invalidate [OF assms(2)] assms(2)] store_okD [OF assms(1)]
    tracked_invalidate [OF assms(2)] assms(1)
  by (simp add: store_ok_def tracked_but_def)


section \<open>Every step keeps the invariant\<close>

lemma ok_upd:
  assumes "store_ok st" "r < length (st_heap st)" "s_id (f (st_heap st ! r)) = s_id (st_heap st ! r)"
    and "s_wait (f (st_heap st ! r)) = s_wait (st_heap st ! r)" "s_valid (f (st_heap st ! r)) = s_valid (st_heap st ! r)"
  shows "store_ok (upd st r f)"
proof (rule alike_ok [OF alike_upd [where f = f, OF assms(2,3)] assms(2)])
  show "store_wf st" "tracked_but {r} st" using store_okD [OF assms(1)] by auto
  assume "umap_find (st_hash st) (s_id (st_heap st ! r)) = Some r"
  then have "tracked st r" using assms(1) by (auto simp: store_ok_def tracked_but_def)
  with assms(2,4,5) show "tracked (upd st r f) r" by (simp add: tracked_def upd_nth)
qed

lemma ok_restart': "store_ok st \<Longrightarrow> r < length (st_heap st) \<Longrightarrow> store_ok (restart st r s)"
  using ok_restart store_okD by blast

lemma ok_set_lifecycle:
  assumes "store_ok st" "r < length (st_heap st)"
  shows "store_ok (session_set_lifecycle st r s)"
proof -
  have "store_ok (upd st r (impl_set_lifecycle g s))" for g
    by (rule ok_upd [OF assms]) (simp_all add: impl_set_lifecycle_def)
  with assms(2) show ?thesis by (simp add: session_set_lifecycle_def Let_def ok_restart' ok_invalidate)
qed

lemma ok_expand:
  assumes "store_ok st" "r < length (st_heap st)"
  shows "store_ok (expand st r s)"
  using assms ok_upd [OF assms, of "\<lambda>x. x\<lparr>s_lifecycle := of_int s\<rparr>"] by (simp add: expand_def ok_restart')

lemma ok_set:
  assumes "store_ok st" "r < length (st_heap st)"
  shows "store_ok (session_set st (Some r))"
proof -
  let ?k = "session_id st r"
  let ?st = "st\<lparr>st_hash := fst (umap_emplace (st_hash st) ?k r)\<rparr>"
  have wf: "store_wf st" and tr: "tracked_but {} st" using assms(1) by (simp_all add: store_ok_def)
  have ok: "umap_ok (st_hash st)" using wf by (simp add: store_wf_def)
  have f: "umap_find (st_hash ?st) k = (if k = ?k \<and> umap_find (st_hash st) ?k = None then Some r else umap_find (st_hash st) k)" for k
    using unordered.lookup_emplace [OF ok, of ?k r k] by simp
  have "store_wf ?st"
    using wf assms(2) unordered.ok_emplace [OF ok] unfolding store_wf_def f by (auto simp: session_id_def)
  moreover have "tracked_but {r} ?st"
    using tr unfolding tracked_but_def f by (auto simp: tracked_def split: if_splits)
  ultimately show ?thesis
    using assms(2) ok_restart [of ?st r 0] by (simp add: session_set_def)
qed

lemma session_new_heap:
  "session_new st uid s = (r, st') \<Longrightarrow>
   \<exists>x. st' = st\<lparr>st_heap := st_heap st @ [x]\<rparr> \<and> s_id x = uid \<and> r = length (st_heap st) \<and> s_valid x"
  by (auto simp: session_new_def impl_set_lifecycle_def)

lemma ok_new:
  assumes "store_ok st" "uid \<notin> s_id ` set (st_heap st)" "session_new st uid s = (r, st')"
  shows "store_ok st' \<and> r < length (st_heap st')"
proof -
  obtain x where x: "st' = st\<lparr>st_heap := st_heap st @ [x]\<rparr>" "s_id x = uid" "r = length (st_heap st)"
    using session_new_heap [OF assms(3)] by blast
  have old: "st_heap st' ! q = st_heap st ! q" if "q < length (st_heap st)" for q
    using that by (simp add: x nth_append)
  have "store_wf st'"
    using assms(1,2) by (fastforce simp: store_ok_def store_wf_def x nth_append list_all_iff)
  moreover have "tracked_but {} st'"
    using assms(1) old by (fastforce simp: store_ok_def store_wf_def tracked_but_def tracked_def x)
  ultimately show ?thesis by (simp add: store_ok_def x)
qed

lemma ok_call:
  assumes "store_ok st" "op_ok st p"
  shows "store_ok (sess_call p st)"
proof (cases p)
  case (Op_make uid s)
  obtain r st1 where n: "session_new st uid s = (r, st1)" by (metis prod.exhaust)
  with ok_new [OF assms(1) _ n] assms(2) Op_make have "store_ok st1" "r < length (st_heap st1)" by auto
  with n Op_make show ?thesis by (simp add: session_make_shared_def Let_def ok_set)
next
  case (Op_global s)
  have "store_ok (st\<lparr>st_global := g\<rparr>)" for g
    using assms(1) by (simp add: store_ok_def store_wf_def tracked_but_def tracked_def)
  with assms(1) Op_global show ?thesis by (simp add: set_global_lifecycle_def)
next
  case (Op_attr r k v)
  with assms show ?thesis by (simp add: session_set_attribute_def ok_upd)
next
  case (Op_unset r k)
  with assms show ?thesis by (simp add: session_unset_attribute_def ok_upd)
qed (use assms in \<open>simp_all add: ok_set ok_set_lifecycle ok_expand ok_invalidate\<close>)

lemma ok_fire:
  assumes "store_ok st" "r < length (st_heap st)"
  shows "store_ok (fire st r)"
proof -
  have "tracked (fire st r) q" if "tracked st q" for q
    using that assms(2) by (cases "q = r") (simp_all add: fire_def tracked_def upd_nth)
  moreover have "store_wf (fire st r)"
    using assms by (auto simp: store_ok_def store_wf_def fire_def upd_nth upd_ids)
  ultimately show ?thesis
    using assms(1) by (auto simp: store_ok_def tracked_but_def fire_def)
qed

text \<open>The handler, when its entry has been taken off the queue.\<close>

lemma on_timer_fields:
  "length (st_heap (on_timer st r c)) = length (st_heap st)" "st_queue (on_timer st r c) = st_queue st"
  "st_now (on_timer st r c) = st_now st"
  by (simp_all add: on_timer_def Let_def)

lemma on_timer_nth:
  "r < length (st_heap st) \<Longrightarrow> st_heap (on_timer st r c) ! q =
     (if q = r \<and> \<not> c then (st_heap st ! r)\<lparr>s_valid := False, s_attrs := []\<rparr> else st_heap st ! q)"
  by (simp add: on_timer_def Let_def upd_nth)

lemma on_timer_hash:
  "r < length (st_heap st) \<Longrightarrow> st_hash (on_timer st r c) =
     (if c \<and> s_valid (st_heap st ! r) then st_hash st else umap_erase (st_hash st) (s_id (st_heap st ! r)))"
  by (simp add: on_timer_def Let_def upd_nth)

lemma on_timer_wf:
  assumes "store_wf st" "r < length (st_heap st)"
  shows "store_wf (on_timer st r c)"
proof -
  have ok: "umap_ok (st_hash st)" using assms(1) by (simp add: store_wf_def)
  have id: "s_id (st_heap (on_timer st r c) ! q) = s_id (st_heap st ! q)" for q
    using assms(2) by (simp add: on_timer_nth)
  have ids: "map s_id (st_heap (on_timer st r c)) = map s_id (st_heap st)"
    by (intro nth_equalityI) (simp_all add: id on_timer_fields)
  show ?thesis
    using assms unordered.ok_erase [OF ok] unordered.lookup_erase [OF ok]
    unfolding store_wf_def ids id by (auto simp: on_timer_fields on_timer_hash split: if_splits)
qed

lemma ok_run:
  assumes "store_ok st" "st_queue st = (r, c) # q"
  shows "store_ok (on_timer (st\<lparr>st_queue := q\<rparr>) r c)"
proof -
  let ?st = "st\<lparr>st_queue := q\<rparr>"
  have wf: "store_wf ?st" and r: "r < length (st_heap ?st)"
    using assms by (auto simp: store_ok_def store_wf_def)
  have ok: "umap_ok (st_hash st)" using wf by (simp add: store_wf_def)
  have "tracked (on_timer ?st r c) x" if "umap_find (st_hash (on_timer ?st r c)) k = Some x" for k x
  proof -
    have x: "umap_find (st_hash st) k = Some x" and e: "c \<and> s_valid (st_heap st ! r) \<or> k \<noteq> s_id (st_heap st ! r)"
      using that r unordered.lookup_erase [OF ok] by (auto simp: on_timer_hash split: if_splits)
    have "s_id (st_heap st ! x) = k" "tracked st x"
      using x assms(1) by (auto simp: store_ok_def store_wf_def tracked_but_def)
    with e r assms(2) show ?thesis
      by (cases "x = r") (auto simp: tracked_def on_timer_fields on_timer_nth)
  qed
  with on_timer_wf [OF wf r] show ?thesis by (simp add: store_ok_def tracked_but_def)
qed

lemma ok_step: "sess_step st l st' \<Longrightarrow> store_ok st \<Longrightarrow> store_ok st'"
proof (induction rule: sess_step.induct)
  case (step_tick st t)
  then show ?case by (simp add: store_ok_def store_wf_def tracked_but_def tracked_def)
qed (simp_all add: ok_call ok_fire ok_run)

lemma ok_reach: "sess_run st ls st' \<Longrightarrow> store_ok st \<Longrightarrow> store_ok st'"
  by (induction rule: sess_run.induct) (auto dest: ok_step)


section \<open>A session whose time is over leaves the table\<close>

definition gone :: "'v store \<Rightarrow> nat \<Rightarrow> bool" where
  "gone st r = (umap_find (st_hash st) (s_id (st_heap st ! r)) = None \<and> \<not> s_valid (st_heap st ! r))"

lemma gone_keeps:
  assumes "store_wf st" "q < length (st_heap st)" "gone st r"
  shows "gone (on_timer st q c) r"
proof -
  have ok: "umap_ok (st_hash st)" using assms(1) by (simp add: store_wf_def)
  show ?thesis
    using assms(2,3) unordered.lookup_erase [OF ok] by (auto simp: gone_def on_timer_hash on_timer_nth)
qed

lemma gone_now:
  assumes "store_wf st" "r < length (st_heap st)" "\<not> c \<or> \<not> s_valid (st_heap st ! r)"
  shows "gone (on_timer st r c) r"
proof -
  have ok: "umap_ok (st_hash st)" using assms(1) by (simp add: store_wf_def)
  show ?thesis
    using assms(2,3) unordered.lookup_erase [OF ok] by (auto simp: gone_def on_timer_hash on_timer_nth)
qed

abbreviation handle :: "nat \<times> bool \<Rightarrow> 'v store \<Rightarrow> 'v store" where
  "handle \<equiv> \<lambda>(r, c) st. on_timer st r c"

lemma gone_fold:
  "store_wf st \<Longrightarrow> list_all (\<lambda>(q, c). q < length (st_heap st)) es \<Longrightarrow> gone st r \<Longrightarrow> gone (fold handle es st) r"
proof (induction es arbitrary: st)
  case (Cons e es)
  obtain q c where e: "e = (q, c)" by (cases e)
  with Cons.prems Cons.IH [of "on_timer st q c"] show ?case
    by (simp add: on_timer_wf gone_keeps on_timer_fields)
qed simp

lemma drain_gone:
  "store_wf st \<Longrightarrow> list_all (\<lambda>(q, c). q < length (st_heap st)) es \<Longrightarrow>
   (r, False) \<in> set es \<or> \<not> s_valid (st_heap st ! r) \<and> (r, True) \<in> set es \<Longrightarrow>
   gone (fold handle es st) r"
proof (induction es arbitrary: st)
  case (Cons e es)
  obtain q c where e: "e = (q, c)" by (cases e)
  let ?st = "on_timer st q c"
  have wf: "store_wf ?st" "list_all (\<lambda>(q, c). q < length (st_heap ?st)) es" and q: "q < length (st_heap st)"
    using Cons.prems e by (simp_all add: on_timer_wf on_timer_fields)
  show ?case
  proof (cases "q = r \<and> (\<not> c \<or> \<not> s_valid (st_heap st ! r))")
    case True
    with gone_now [OF Cons.prems(1), of r c] q gone_fold [OF wf] e show ?thesis by simp
  next
    case False
    with Cons.prems(3) e have "(r, False) \<in> set es \<or> \<not> s_valid (st_heap ?st ! r) \<and> (r, True) \<in> set es"
      using q by (auto simp: on_timer_nth)
    from Cons.IH [OF wf this] e show ?thesis by simp
  qed
qed simp

abbreviation fire_if :: "nat \<Rightarrow> 'v store \<Rightarrow> 'v store" where
  "fire_if \<equiv> \<lambda>r st. if due st r then fire st r else st"

lemma fire_now [simp]: "st_now (fire st r) = st_now st"
  by (simp add: fire_def)

lemma fire_other: "q < length (st_heap st) \<Longrightarrow> r \<noteq> q \<Longrightarrow> due (fire_if q st) r = due st r"
  by (simp add: due_def fire_def upd_nth split: option.split)

lemma fire_all:
  "store_ok st \<Longrightarrow> list_all (\<lambda>q. q < length (st_heap st)) qs \<Longrightarrow>
   store_ok (fold fire_if qs st) \<and> set (st_queue st) \<subseteq> set (st_queue (fold fire_if qs st)) \<and>
   length (st_heap (fold fire_if qs st)) = length (st_heap st) \<and>
   s_valid (st_heap (fold fire_if qs st) ! r) = s_valid (st_heap st ! r) \<and>
   s_id (st_heap (fold fire_if qs st) ! r) = s_id (st_heap st ! r) \<and>
   (r \<in> set qs \<and> due st r \<longrightarrow> (r, False) \<in> set (st_queue (fold fire_if qs st)))"
proof (induction qs arbitrary: st)
  case (Cons q qs)
  let ?st = "fire_if q st"
  have q: "q < length (st_heap st)" using Cons.prems by simp
  have ok: "store_ok ?st" "list_all (\<lambda>q. q < length (st_heap ?st)) qs"
    using Cons.prems ok_fire [OF Cons.prems(1) q] by (auto simp: fire_def list_all_iff)
  have head: "set (st_queue st) \<subseteq> set (st_queue ?st)" "length (st_heap ?st) = length (st_heap st)"
    "s_valid (st_heap ?st ! r) = s_valid (st_heap st ! r)" "s_id (st_heap ?st ! r) = s_id (st_heap st ! r)"
    "due st q \<Longrightarrow> (q, False) \<in> set (st_queue ?st)"
    using q by (auto simp: fire_def upd_nth)
  show ?case
    using Cons.IH [OF ok] head fire_other [OF q, of r] by (cases "r = q") (auto simp del: if_image_distrib)
qed simp

lemma settle_gone:
  assumes ok: "store_ok st" and r: "r < length (st_heap st)" and t: "tracked st r"
    and over: "case s_wait (st_heap st ! r) of None \<Rightarrow> True | Some e \<Rightarrow> e \<le> uint (st_now st)"
  shows "session_get (settle st) (s_id (st_heap st ! r)) = None \<and> \<not> session_is_valid (settle st) r"
proof -
  let ?st = "fire_due st"
  have f: "store_ok ?st" "set (st_queue st) \<subseteq> set (st_queue ?st)"
    "s_valid (st_heap ?st ! r) = s_valid (st_heap st ! r)" "s_id (st_heap ?st ! r) = s_id (st_heap st ! r)"
    "due st r \<Longrightarrow> (r, False) \<in> set (st_queue ?st)"
    using fire_all [OF ok, of "[0..<length (st_heap st)]" r] r by (auto simp: fire_due_def list_all_iff)
  have e: "(r, False) \<in> set (st_queue ?st) \<or> \<not> s_valid (st_heap ?st ! r) \<and> (r, True) \<in> set (st_queue ?st)"
    using t over f by (auto simp: tracked_def due_def split: option.splits)
  have wf: "store_wf (?st\<lparr>st_queue := []\<rparr>)" "list_all (\<lambda>(q, c). q < length (st_heap (?st\<lparr>st_queue := []\<rparr>))) (st_queue ?st)"
    using f(1) by (simp_all add: store_ok_def store_wf_def)
  have g: "gone (drain ?st) r"
    unfolding drain_def by (rule drain_gone [OF wf]) (use e in simp)
  have ids: "s_id (st_heap (fold handle es x) ! r) = s_id (st_heap x ! r)"
    if "store_wf x" "list_all (\<lambda>(q, c). q < length (st_heap x)) es" for es x
    using that
  proof (induction es arbitrary: x)
    case (Cons e es)
    obtain q c where "e = (q, c)" by (cases e)
    with Cons show ?case by (simp add: on_timer_wf on_timer_fields on_timer_nth)
  qed simp
  from ids [OF wf] f(4) have "s_id (st_heap (drain ?st) ! r) = s_id (st_heap st ! r)" by (simp add: drain_def)
  with g show ?thesis
    by (simp add: settle_def gone_def session_get_def session_is_valid_def)
qed

lemma reach_ok: "sess_run (store_new t0) ls st \<Longrightarrow> store_ok st"
  using ok_reach store_ok_new by blast

lemma in_table:
  assumes "store_ok st" "session_get st k = Some r"
  shows "r < length (st_heap st)" "s_id (st_heap st ! r) = k" "tracked st r"
  using assms by (auto simp: session_get_def store_ok_def store_wf_def tracked_but_def)


lemma int_part_less: "0 \<le> u \<Longrightarrow> u + s < b \<Longrightarrow> s < b" for u s b :: int
  by simp

lemma int_diff_range: "0 \<le> u \<Longrightarrow> u < v \<Longrightarrow> v < b \<Longrightarrow> - b \<le> u - v \<and> u - v < b" for u v b :: int
  by simp

lemma sint_diff_negative:
  fixes a b :: u64
  assumes "a < b" "uint b < 2 ^ 63"
  shows "sint (a - b) \<le> 0"
proof -
  have ab: "uint a < uint b" using assms(1) by (simp add: word_less_def)
  have small: "sint w = uint w" if "uint w < 2 ^ 63" for w :: u64
    using that order_trans [of "- (2 ^ 63)" 0 "uint w"] by (simp add: sint_uint signed_take_bit_int_eq_self)
  have "sint (a - b) = signed_take_bit 63 (sint a - sint b)" by (simp add: sint_word_ariths)
  also have "\<dots> = uint a - uint b"
    using small [of a] small [of b] ab assms(2) int_diff_range [OF uint_ge_0 ab assms(2)]
    by (subst signed_take_bit_int_eq_self) auto
  finally show ?thesis using ab by simp
qed

text \<open>\<open>set_lifecycle\<close> ends the session.  For every duration that is not negative, on every session
  of the table: the remaining time is computed as \<open>ctime - cat\<close>, which is negative, so the timer
  expires at once, and the session is removed although its new lifetime is not over.\<close>

theorem set_lifecycle_ends_session:
  assumes "sess_run (store_new t0) ls st" and "session_get st k = Some r"
    and "0 \<le> s" and "uint (session_create_time st r) + s < 2 ^ 63"
  shows "session_get (settle (session_set_lifecycle st r s)) k = None"
proof -
  let ?st = "session_set_lifecycle st r s"
  let ?x = "st_heap st ! r"
  note ok = reach_ok [OF assms(1)]
  note r = in_table [OF ok assms(2)]
  let ?u = "upd st r (impl_set_lifecycle (st_global st) s)"
  have u: "alike r st ?u" "tracked ?u r" "r < length (st_heap ?u)"
    using r by (auto simp: tracked_def upd_nth impl_set_lifecycle_def intro: alike_upd)
  have same: "st_now ?u = st_now st" "s_create_time (st_heap ?u ! r) = s_create_time ?x"
    using r(1) by (simp_all add: upd_nth impl_set_lifecycle_def)
  let ?cat = "s_create_time ?x + of_int s"
  have "s < 2 ^ 63" using assms(4) uint_ge_0 [of "session_create_time st r"] by (rule int_part_less [rotated])
  then have "s < 2 ^ 64" by simp
  then have "uint (of_int s :: u64) = s"
    using assms(3) by (simp add: unsigned_of_int take_bit_int_eq_self)
  then have c: "uint ?cat = uint (s_create_time ?x) + s"
    using assms(3,4) by (simp add: session_create_time_def uint_word_ariths take_bit_int_eq_self)
  have "alike r ?u ?st \<and> tracked ?st r \<and>
      (case s_wait (st_heap ?st ! r) of None \<Rightarrow> True | Some e \<Rightarrow> e \<le> uint (st_now ?st))"
  proof (cases "st_now st < ?cat")
    case True
    then have st: "?st = restart ?u r (st_now st - ?cat)" using same by (simp add: session_set_lifecycle_def Let_def)
    have "st_now st - ?cat \<noteq> 0" using True by auto
    moreover have "sint (st_now st - ?cat) \<le> 0"
      using sint_diff_negative [OF True] c assms(4) by (simp add: session_create_time_def)
    moreover have "st_now ?st = st_now st" using alike_restart [OF u(3)] same(1) by (simp add: st alike_def)
    ultimately show ?thesis
      using alike_restart [OF u(3)] tracked_restart [OF u(3)] restart_nth [OF u(3)] same(1) by (simp add: st)
  next
    case False
    then have st: "?st = invalidate ?u r" using same by (simp add: session_set_lifecycle_def Let_def)
    show ?thesis
      using alike_invalidate [OF u(3)] tracked_invalidate [OF u(3,2)] invalidate_nth [OF u(3)] by (simp add: st)
  qed
  then have "alike r ?u ?st" "tracked ?st r"
    "case s_wait (st_heap ?st ! r) of None \<Rightarrow> True | Some e \<Rightarrow> e \<le> uint (st_now ?st)" by auto
  moreover have "store_ok ?st" by (rule ok_set_lifecycle [OF ok r(1)])
  ultimately show ?thesis
    using settle_gone [of ?st r] r u(1) by (auto simp: alike_def)
qed


section \<open>A session lives until its time is over\<close>

definition alive :: "'v store \<Rightarrow> string \<Rightarrow> nat \<Rightarrow> int \<Rightarrow> 'v umap \<Rightarrow> bool" where
  "alive st k r e A =
     (store_ok st \<and> umap_find (st_hash st) k = Some r \<and> s_valid (st_heap st ! r) \<and>
      s_wait (st_heap st ! r) = Some e \<and> s_attrs (st_heap st ! r) = A \<and> (r, False) \<notin> set (st_queue st))"

lemma alive_in: "alive st k r e A \<Longrightarrow> r < length (st_heap st) \<and> s_id (st_heap st ! r) = k"
  by (auto simp: alive_def store_ok_def store_wf_def)

lemma alive_alike: "alive st k r e A \<Longrightarrow> alike q st st' \<Longrightarrow> q \<noteq> r \<Longrightarrow> store_ok st' \<Longrightarrow> alive st' k r e A"
  by (auto simp: alive_def alike_def)

lemma alive_set:
  assumes "alive st k r e A" "q < length (st_heap st)" "q \<noteq> r"
  shows "alive (session_set st (Some q)) k r e A"
proof -
  let ?st = "st\<lparr>st_hash := fst (umap_emplace (st_hash st) (session_id st q) q)\<rparr>"
  have ok: "store_ok (session_set st (Some q))" using assms(1,2) by (simp add: alive_def ok_set)
  have a: "alike q ?st (session_set st (Some q))"
    using alike_restart [of q ?st 0] assms(2) by (simp add: session_set_def)
  have "umap_find (st_hash ?st) k = Some r"
    using unordered.lookup_emplace [of "st_hash st" "session_id st q" q k] assms(1)
    by (auto simp: alive_def store_ok_def store_wf_def)
  with assms(1,3) a ok show ?thesis by (auto simp: alive_def alike_def)
qed

lemma alive_new:
  assumes "alive st k r e A" "uid \<notin> s_id ` set (st_heap st)" "session_new st uid s = (q, st')"
  shows "alive st' k r e A \<and> q \<noteq> r \<and> q < length (st_heap st')"
  using assms(1) alive_in [OF assms(1)] ok_new [OF _ assms(2,3)] session_new_heap [OF assms(3)]
  by (auto simp: alive_def nth_append)

lemma alive_upd:
  assumes "alive st k r e A" "q < length (st_heap st)" "q \<noteq> r" "store_ok (upd st q f)"
  shows "alive (upd st q f) k r e A"
  using assms by (simp add: alive_def upd_nth)

lemma alive_restart:
  "alive st k r e A \<Longrightarrow> q < length (st_heap st) \<Longrightarrow> q \<noteq> r \<Longrightarrow> alive (restart st q s) k r e A"
  using alive_alike [OF _ alike_restart] ok_restart' by (metis alive_def)

lemma alive_invalidate:
  "alive st k r e A \<Longrightarrow> q < length (st_heap st) \<Longrightarrow> q \<noteq> r \<Longrightarrow> alive (invalidate st q) k r e A"
  using alive_alike [OF _ alike_invalidate] ok_invalidate by (metis alive_def)

lemma alive_call:
  assumes "alive st k r e A" "op_ok st p" "op_target p \<noteq> Some r"
  shows "alive (sess_call p st) k r e A"
proof -
  have ok: "store_ok st" using assms(1) by (simp add: alive_def)
  show ?thesis
  proof (cases p)
    case (Op_make uid s)
    obtain q st1 where n: "session_new st uid s = (q, st1)" by (metis prod.exhaust)
    with alive_new [OF assms(1) _ n] assms(2) Op_make have "alive st1 k r e A" "q \<noteq> r" "q < length (st_heap st1)"
      by auto
    with n Op_make show ?thesis by (simp add: session_make_shared_def Let_def alive_set)
  next
    case (Op_global s)
    have "store_ok (st\<lparr>st_global := g\<rparr>)" for g
      using ok by (simp add: store_ok_def store_wf_def tracked_but_def tracked_def)
    with assms(1) Op_global show ?thesis by (simp add: set_global_lifecycle_def alive_def)
  next
    case (Op_set q)
    with assms show ?thesis by (simp add: alive_set)
  next
    case (Op_attr q key v)
    with assms ok show ?thesis by (simp add: session_set_attribute_def alive_upd ok_upd)
  next
    case (Op_unset q key)
    with assms ok show ?thesis by (simp add: session_unset_attribute_def alive_upd ok_upd)
  next
    case (Op_lifecycle q s)
    have "store_ok (upd st q (impl_set_lifecycle (st_global st) s))"
      by (rule ok_upd [OF ok]) (use assms Op_lifecycle in \<open>simp_all add: impl_set_lifecycle_def\<close>)
    with assms Op_lifecycle show ?thesis
      by (simp add: session_set_lifecycle_def Let_def alive_upd alive_restart alive_invalidate)
  next
    case (Op_expand q s)
    with assms ok show ?thesis by (simp add: expand_def alive_restart alive_upd ok_upd)
  next
    case (Op_invalidate q)
    with assms show ?thesis by (simp add: alive_invalidate)
  qed
qed

lemma alive_step:
  assumes "sess_step st l st'" "alive st k r e A" "uint (st_now st') < e"
    and "\<forall>p. l = Call p \<longrightarrow> op_target p \<noteq> Some r"
  shows "alive st' k r e A"
proof -
  note ok = ok_step [OF assms(1)]
  have in_heap: "r < length (st_heap st)" and k: "s_id (st_heap st ! r) = k" using alive_in [OF assms(2)] by auto
  from assms(1) show ?thesis
  proof (cases rule: sess_step.cases)
    case (step_call p)
    with assms show ?thesis by (simp add: alive_call)
  next
    case (step_tick t)
    with assms(2) ok show ?thesis by (simp add: alive_def)
  next
    case (step_fire q e')
    with assms(2,3) have "q \<noteq> r" by (auto simp: alive_def)
    with step_fire assms(2) ok show ?thesis by (auto simp: alive_def fire_def upd_nth)
  next
    case (step_run q c es)
    have q: "q < length (st_heap st)" using assms(2) step_run by (auto simp: alive_def store_ok_def store_wf_def)
    show ?thesis
    proof (cases "q = r")
      case True
      with step_run assms(2) have "c" by (auto simp: alive_def)
      with True step_run assms(2) ok show ?thesis by (auto simp: alive_def on_timer_def)
    next
      case False
      have "distinct (map s_id (st_heap st))" using assms(2) by (simp add: alive_def store_ok_def store_wf_def)
      with False q in_heap k have "s_id (st_heap st ! q) \<noteq> k" by (auto simp: distinct_conv_nth)
      with False q step_run assms(2) ok show ?thesis
        using unordered.lookup_erase [of "st_hash st" "s_id (st_heap st ! q)" k]
        by (auto simp: alive_def on_timer_nth on_timer_hash on_timer_fields store_ok_def store_wf_def)
    qed
  qed
qed

lemma now_step: "sess_step st l st' \<Longrightarrow> st_now st \<le> st_now st'"
proof (induction rule: sess_step.induct)
  case (step_call st p)
  have "st_now (restart s q d) = st_now s" for s :: "'a store" and q d
    by (simp add: restart_def Let_def cancel_timer_def split: option.split)
  moreover have "st_now (invalidate s q) = st_now s" for s :: "'a store" and q
    by (simp add: invalidate_def cancel_timer_def split: option.split)
  ultimately have "st_now (sess_call p st) = st_now st"
    by (cases p)
      (simp_all add: session_make_shared_def session_new_def session_set_def session_set_attribute_def
        session_unset_attribute_def session_set_lifecycle_def expand_def set_global_lifecycle_def Let_def)
  then show ?case by simp
qed (simp_all add: on_timer_fields)

lemma alive_run:
  assumes "sess_run st ls st'" "alive st k r e A" "uint (st_now st') < e"
    and "\<forall>p. Call p \<in> set ls \<longrightarrow> op_target p \<noteq> Some r"
  shows "alive st' k r e A"
  using assms
proof (induction rule: sess_run.induct)
  case (run_snoc st ls st1 l st2)
  have "uint (st_now st1) \<le> uint (st_now st2)" using now_step [OF run_snoc.hyps(2)] by (simp add: word_le_def)
  with run_snoc have "alive st1 k r e A" by auto
  from alive_step [OF run_snoc.hyps(2) this] run_snoc.prems show ?case by auto
qed simp


lemma make_alive:
  assumes ok: "store_ok st" and uid: "uid \<notin> s_id ` set (st_heap st)" and s: "0 < s" "s < 2 ^ 63"
    and make: "session_make_shared st uid s = (res, st1)"
  shows "res = Some (length (st_heap st)) \<and>
    alive st1 uid (length (st_heap st)) (uint (st_now st) + s) [] \<and> st_now st1 = st_now st"
proof -
  let ?r = "length (st_heap st)"
  obtain st0 where n: "session_new st uid s = (?r, st0)" by (simp add: session_new_def)
  have x: "st_heap st0 ! ?r = impl_set_lifecycle (st_global st) s
      \<lparr>s_id = uid, s_create_time = st_now st, s_lifecycle = 0, s_attrs = [], s_valid = True, s_wait = None\<rparr>"
    and old: "st_hash st0 = st_hash st" "st_queue st0 = st_queue st" "st_now st0 = st_now st"
    using n by (auto simp: session_new_def)
  have ok0: "store_ok st0" "?r < length (st_heap st0)" using ok_new [OF ok uid n] by auto
  have hash: "umap_ok (st_hash st0)" using ok0(1) by (simp add: store_ok_def store_wf_def)
  have fresh: "umap_find (st_hash st) uid = None"
    using ok uid by (cases "umap_find (st_hash st) uid") (fastforce simp: store_ok_def store_wf_def)+
  have st1: "st1 = session_set st0 (Some ?r)" "res = session_get st1 (session_id st1 ?r)"
    using make n by (auto simp: session_make_shared_def Let_def)
  let ?st = "st0\<lparr>st_hash := fst (umap_emplace (st_hash st0) uid ?r)\<rparr>"
  have id: "session_id st0 ?r = uid" by (simp add: session_id_def x impl_set_lifecycle_def)
  have r1: "st1 = restart ?st ?r 0" by (simp add: st1(1) session_set_def id)
  have a: "alike ?r ?st st1" unfolding r1 by (rule alike_restart) (simp add: ok0)
  have h: "umap_find (st_hash st1) uid = Some ?r"
    using a unordered.lookup_emplace [OF hash, of uid ?r uid] fresh old by (simp add: alike_def)
  have "s_id (st_heap st1 ! ?r) = uid" using a by (simp add: alike_def x impl_set_lifecycle_def)
  with h have res: "res = Some ?r" by (simp add: st1(2) session_get_def session_id_def)
  have "s < 2 ^ 64" using s(2) by simp
  then have "sint (of_int s :: u64) = s"
    using s int_diff_range [of 0 s "2 ^ 63"] by (simp add: sint_uint unsigned_of_int take_bit_int_eq_self signed_take_bit_int_eq_self)
  then have w: "st_heap st1 ! ?r = (st_heap st0 ! ?r)\<lparr>s_wait := Some (uint (st_now st) + s)\<rparr>"
    using restart_nth [of ?r ?st 0] ok0(2) s old by (simp add: r1 x impl_set_lifecycle_def)
  have "(?r, False) \<notin> set (st_queue st0)"
    using ok old(2) by (auto simp: store_ok_def store_wf_def list_all_iff)
  then have "(?r, False) \<notin> set (st_queue st1)" using a by (auto simp: alike_def)
  moreover have "store_ok st1" unfolding st1(1) by (rule ok_set [OF ok0])
  ultimately show ?thesis
    using res h w a old by (simp add: alive_def x impl_set_lifecycle_def alike_def)
qed


section \<open>Concrete runs\<close>

definition one_session :: "nat store" where
  "one_session = snd (session_make_shared (store_new 100) ''u'' 10)"

lemma one_session_run: "sess_run (store_new 100) [Call (Op_make ''u'' 10)] one_session"
proof -
  have "sess_step (store_new 100 :: nat store) (Call (Op_make ''u'' 10)) one_session"
    by (simp add: step_simps one_session_def store_new_def)
  from run_snoc [OF run_nil this] show ?thesis by simp
qed

lemma one_session_fields:
  "session_get one_session ''u'' = Some 0" "s_wait (st_heap one_session ! 0) = Some 110"
  "st_now one_session = 100" "session_create_time one_session 0 = 100"
  by (simp_all add: one_session_def session_make_shared_def session_new_def store_new_def session_set_def
      restart_def cancel_timer_def upd_def impl_set_lifecycle_def session_get_def session_id_def
      umap_emplace_def umap_find_def session_create_time_def)


lemma set_lifecycle_ends_session_witness:
  "session_get one_session ''u'' = Some 0 \<and> session_get (settle (session_set_lifecycle one_session 0 3600)) ''u'' = None"
  using set_lifecycle_ends_session [OF one_session_run one_session_fields(1), of 3600] one_session_fields by simp


end
