(* ===== verification/RwMutex.thy ===== *)
theory RwMutex
  imports Prelude
begin

text \<open>
  The readers-writer mutex of \<open>gts/detail/rw_mutex.h\<close>, with its threads interleaved.

  The state is the two atomics, the owner of the underlying \<open>m_mutex\<close> and where each thread
  stands inside the operations; one step of a thread is one access of an atomic or one call of
  \<open>m_mutex\<close>.  \<open>m_mutex.lock()\<close> waits until there is no owner; \<open>m_mutex.unlock()\<close> by a thread that
  does not own the mutex is undefined behaviour in C++ and sets \<open>rw_fault\<close>.  The timed operations
  have the same accesses and are not listed again; \<open>shared_lock\<close>, a wrapper, is not modelled.
\<close>

datatype rw_pc =
    Outside
  | Ls_lock
  | Ls_inc
  | Reading
  | L_set
  | Writing
  | U_clear
  | U_read
  | U_dec
  | U_unlock

record rw =
  rw_reader :: u32
  rw_writer :: bool
  rw_owner :: "nat option"
  rw_pc :: "nat \<Rightarrow> rw_pc"
  rw_fault :: bool

definition rw_new :: rw where
  "rw_new = \<lparr>rw_reader = 0, rw_writer = False, rw_owner = None, rw_pc = (\<lambda>t. Outside), rw_fault = False\<rparr>"

definition goto :: "nat \<Rightarrow> rw_pc \<Rightarrow> rw \<Rightarrow> rw" where
  "goto t p s = s\<lparr>rw_pc := (rw_pc s)(t := p)\<rparr>"

text \<open>The first accesses of the operations, made by a thread that calls them; \<open>None\<close>: it waits.\<close>

definition call_lock_shared :: "nat \<Rightarrow> rw \<Rightarrow> rw option" where
  "call_lock_shared t s = Some (goto t (if rw_writer s then Ls_lock else Ls_inc) s)"

definition call_lock :: "nat \<Rightarrow> rw \<Rightarrow> rw option" where
  "call_lock t s = (if rw_owner s = None then Some (goto t L_set (s\<lparr>rw_owner := Some t\<rparr>)) else None)"

definition call_unlock :: "nat \<Rightarrow> rw \<Rightarrow> rw option" where
  "call_unlock t s = Some (goto t (if rw_writer s then U_clear else U_read) s)"

definition call_try_lock_shared :: "nat \<Rightarrow> rw \<Rightarrow> rw option" where
  "call_try_lock_shared t s = Some (goto t (if rw_writer s then Outside else Ls_inc) s)"

definition call_try_lock :: "nat \<Rightarrow> rw \<Rightarrow> rw option" where
  "call_try_lock t s =
     (if rw_owner s = None then Some (goto t L_set (s\<lparr>rw_owner := Some t\<rparr>)) else Some s)"

text \<open>The accesses that follow.\<close>

definition go_lock_shared :: "nat \<Rightarrow> rw \<Rightarrow> rw option" where
  "go_lock_shared t s =
     (case rw_pc s t of
        Ls_lock \<Rightarrow> if rw_owner s = None then Some (goto t Ls_inc (s\<lparr>rw_owner := Some t\<rparr>)) else None
      | Ls_inc \<Rightarrow> Some (goto t Reading (s\<lparr>rw_reader := rw_reader s + 1\<rparr>))
      | _ \<Rightarrow> None)"

definition go_lock :: "nat \<Rightarrow> rw \<Rightarrow> rw option" where
  "go_lock t s =
     (case rw_pc s t of
        L_set \<Rightarrow> Some (goto t Writing (s\<lparr>rw_writer := True\<rparr>))
      | _ \<Rightarrow> None)"

definition go_unlock :: "nat \<Rightarrow> rw \<Rightarrow> rw option" where
  "go_unlock t s =
     (case rw_pc s t of
        U_clear \<Rightarrow> Some (goto t U_unlock (s\<lparr>rw_writer := False\<rparr>))
      | U_read \<Rightarrow> Some (goto t (if 0 < rw_reader s then U_dec else Outside) s)
      | U_dec \<Rightarrow>
          Some (goto t (if rw_reader s - 1 = 0 then U_unlock else Outside) (s\<lparr>rw_reader := rw_reader s - 1\<rparr>))
      | U_unlock \<Rightarrow>
          Some (goto t Outside
            (if rw_owner s = Some t then s\<lparr>rw_owner := None\<rparr> else s\<lparr>rw_fault := True\<rparr>))
      | _ \<Rightarrow> None)"

section \<open>Interleavings\<close>

datatype rw_act = A_lock_shared | A_lock | A_unlock | A_try_lock_shared | A_try_lock | A_go

text \<open>A thread locks when it holds nothing and unlocks when it holds the mutex in either way.\<close>

definition rw_next :: "rw \<Rightarrow> nat \<Rightarrow> rw_act \<Rightarrow> rw option" where
  "rw_next s t a =
     (case a of
        A_lock_shared \<Rightarrow> if rw_pc s t = Outside then call_lock_shared t s else None
      | A_lock \<Rightarrow> if rw_pc s t = Outside then call_lock t s else None
      | A_try_lock_shared \<Rightarrow> if rw_pc s t = Outside then call_try_lock_shared t s else None
      | A_try_lock \<Rightarrow> if rw_pc s t = Outside then call_try_lock t s else None
      | A_unlock \<Rightarrow> if rw_pc s t = Reading \<or> rw_pc s t = Writing then call_unlock t s else None
      | A_go \<Rightarrow>
          (case rw_pc s t of
             Ls_lock \<Rightarrow> go_lock_shared t s
           | Ls_inc \<Rightarrow> go_lock_shared t s
           | L_set \<Rightarrow> go_lock t s
           | _ \<Rightarrow> go_unlock t s))"

text \<open>The states that threads can reach with calls out of \<open>A\<close>.\<close>

inductive rw_reach :: "rw_act set \<Rightarrow> rw \<Rightarrow> bool" for A where
  reach_new: "rw_reach A rw_new"
| reach_next: "rw_reach A s \<Longrightarrow> a \<in> insert A_go A \<Longrightarrow> rw_next s t a = Some s' \<Longrightarrow> rw_reach A s'"

fun rw_exec :: "(nat \<times> rw_act) list \<Rightarrow> rw \<Rightarrow> rw option" where
  "rw_exec [] s = Some s"
| "rw_exec ((t, a) # as) s = (case rw_next s t a of None \<Rightarrow> None | Some s' \<Rightarrow> rw_exec as s')"

lemma exec_reach:
  "rw_exec as s = Some s' \<Longrightarrow> rw_reach A s \<Longrightarrow> list_all (\<lambda>(t, a). a \<in> insert A_go A) as \<Longrightarrow> rw_reach A s'"
proof (induction as arbitrary: s)
  case (Cons p as)
  obtain t a where p: "p = (t, a)" by (cases p)
  obtain s1 where s1: "rw_next s t a = Some s1" "rw_exec as s1 = Some s'"
    using Cons.prems(1) p by (auto split: option.splits)
  with Cons.prems p have "rw_reach A s1" by (intro reach_next [OF Cons.prems(2) _ s1(1)]) simp
  with Cons.IH [OF s1(2)] Cons.prems(3) show ?case by simp
qed simp

lemmas rw_defs = rw_next_def call_lock_shared_def call_lock_def call_unlock_def call_try_lock_shared_def
  call_try_lock_def go_lock_shared_def go_lock_def go_unlock_def goto_def

section \<open>Writers alone\<close>

definition owns :: "rw_pc \<Rightarrow> bool" where
  "owns p = (p = L_set \<or> p = Writing \<or> p = U_clear \<or> p = U_unlock)"

definition wrote :: "rw_pc \<Rightarrow> bool" where
  "wrote p = (p = Writing \<or> p = U_clear)"

lemma owns_pcs [simp]:
  "owns L_set" "owns Writing" "owns U_clear" "owns U_unlock" "\<not> owns Outside"
  "wrote Writing" "wrote U_clear" "\<not> wrote L_set" "\<not> wrote U_unlock"
  by (simp_all add: owns_def wrote_def)

definition writers_inv :: "rw \<Rightarrow> bool" where
  "writers_inv s =
     (\<not> rw_fault s \<and> (\<forall>t. rw_pc s t \<noteq> Outside \<longrightarrow> owns (rw_pc s t)) \<and>
      (\<forall>t. owns (rw_pc s t) = (rw_owner s = Some t)) \<and>
      rw_writer s = (case rw_owner s of None \<Rightarrow> False | Some t \<Rightarrow> wrote (rw_pc s t)))"

lemma writers_invD:
  "writers_inv s \<Longrightarrow> owns (rw_pc s t) = (rw_owner s = Some t)"
  "writers_inv s \<Longrightarrow> rw_pc s t \<noteq> Outside \<Longrightarrow> rw_owner s = Some t"
  "writers_inv s \<Longrightarrow> rw_owner s = Some t \<Longrightarrow> rw_writer s = wrote (rw_pc s t)"
  by (auto simp: writers_inv_def)

text \<open>The moves of the owner, and the move that makes an owner.\<close>

lemma writers_inv_take:
  "writers_inv s \<Longrightarrow> rw_owner s = None \<Longrightarrow> writers_inv (goto t L_set (s\<lparr>rw_owner := Some t\<rparr>))"
  by (simp add: writers_inv_def goto_def) metis

lemma writers_inv_move:
  "writers_inv s \<Longrightarrow> rw_owner s = Some t \<Longrightarrow> owns p \<Longrightarrow> w = wrote p \<Longrightarrow>
   writers_inv (goto t p (s\<lparr>rw_writer := w\<rparr>))"
  by (simp add: writers_inv_def goto_def) metis

lemma writers_inv_leave:
  "writers_inv s \<Longrightarrow> rw_owner s = Some t \<Longrightarrow> rw_pc s t = U_unlock \<Longrightarrow>
   writers_inv (goto t Outside (s\<lparr>rw_owner := None\<rparr>))"
  by (simp add: writers_inv_def goto_def) metis

lemma writers_inv_step:
  assumes inv: "writers_inv s" and a: "a \<in> {A_go, A_lock, A_try_lock, A_unlock}" and nx: "rw_next s t a = Some s'"
  shows "writers_inv s'"
proof (cases "rw_pc s t")
  case Outside
  with a nx inv show ?thesis
    by (auto simp: rw_next_def call_lock_def call_try_lock_def go_unlock_def writers_inv_take split: if_splits)
next
  case L_set
  with a nx writers_inv_move [OF inv, of t Writing True] writers_invD(2) [OF inv, of t] show ?thesis
    by (auto simp: rw_next_def go_lock_def)
next
  case Writing
  with inv writers_invD [OF inv, of t] have "rw_owner s = Some t" "rw_writer s" by auto
  then have "s\<lparr>rw_writer := True\<rparr> = s" "rw_owner s = Some t" by (cases s; simp)+
  with writers_inv_move [OF inv, of t U_clear True] have "writers_inv (goto t U_clear s)"
    by (simp only: owns_pcs)
  with Writing a nx \<open>rw_writer s\<close> show ?thesis
    by (auto simp: rw_next_def call_unlock_def go_unlock_def)
next
  case U_clear
  with a nx writers_inv_move [OF inv, of t U_unlock False] writers_invD(2) [OF inv, of t] show ?thesis
    by (auto simp: rw_next_def go_unlock_def)
next
  case U_unlock
  with a nx writers_inv_leave [OF inv _ U_unlock] writers_invD(2) [OF inv, of t] show ?thesis
    by (auto simp: rw_next_def go_unlock_def)
qed (use writers_invD(1,2) [OF inv, of t] in \<open>simp_all add: owns_def\<close>)

text \<open>C25: Threads that use the mutex for writing only (\<open>lock\<close>, \<open>try_lock\<close>, \<open>unlock\<close>) exclude each
  other in every interleaving, and none of them unlocks a mutex it does not own.\<close>

theorem writers_exclude:
  assumes "rw_reach {A_lock, A_try_lock, A_unlock} s" and "rw_pc s t = Writing" and "rw_pc s u = Writing"
  shows "t = u \<and> \<not> rw_fault s"
proof -
  have "writers_inv s"
    using assms(1)
  proof (induction rule: rw_reach.induct)
    case reach_new
    show ?case by (simp add: writers_inv_def rw_new_def owns_def)
  next
    case (reach_next s a t s')
    then show ?case using writers_inv_step by blast
  qed
  moreover have "owns (rw_pc s t)" "owns (rw_pc s u)" using assms(2,3) by (simp_all add: owns_def)
  ultimately have "\<not> rw_fault s" "rw_owner s = Some t" "rw_owner s = Some u" by (auto simp: writers_inv_def)
  then show ?thesis by simp
qed

lemma writers_exclude_witness:
  "\<exists>s. rw_exec [(1, A_lock), (1, A_go)] rw_new = Some s \<and> rw_pc s 1 = Writing \<and> \<not> rw_fault s"
proof -
  obtain s where s: "rw_exec [(1, A_lock), (1, A_go)] rw_new = Some s" "rw_pc s 1 = Writing"
    by (simp add: rw_defs rw_new_def)
  have "rw_reach {A_lock, A_try_lock, A_unlock} s" by (rule exec_reach [OF s(1) reach_new]) simp
  from writers_exclude [OF this s(2) s(2)] s show ?thesis by auto
qed

section \<open>With readers\<close>

definition shares :: "rw_pc \<Rightarrow> bool" where
  "shares p = (p \<in> {Outside, Ls_inc, Reading, U_read, U_dec, U_unlock})"

lemma shares_pcs [simp]:
  "shares Outside" "shares Ls_inc" "shares Reading" "shares U_read" "shares U_dec" "shares U_unlock"
  "\<not> shares Ls_lock" "\<not> shares L_set" "\<not> shares Writing" "\<not> shares U_clear"
  by (simp_all add: shares_def)

definition readers_inv :: "rw \<Rightarrow> bool" where
  "readers_inv s =
     (rw_owner s = None \<and> \<not> rw_writer s \<and>
      (\<forall>t. shares (rw_pc s t)))"

lemma readers_inv_step:
  assumes "readers_inv s" "a \<in> {A_go, A_lock_shared, A_try_lock_shared, A_unlock}" "rw_next s t a = Some s'"
  shows "readers_inv s'"
proof -
  have "shares (rw_pc s t)"
    using assms(1) by (simp add: readers_inv_def)
  with assms show ?thesis
    by (cases "rw_pc s t") (auto simp: rw_defs readers_inv_def split: if_splits)
qed

text \<open>The mutex does not keep its promise once it is used for reading.  There are a reader and a
  writer inside at the same time; and when threads only read, every unlock that brings the number
  of readers to zero unlocks a mutex that nobody has locked, which is undefined behaviour.\<close>

theorem readers_break_mutex:
  "(\<exists>s. rw_reach UNIV s \<and> rw_pc s 0 = Reading \<and> rw_pc s 1 = Writing) \<and>
   \<not> (\<exists>s t s'. rw_reach {A_lock_shared, A_try_lock_shared, A_unlock} s \<and> rw_pc s t = U_unlock \<and>
      rw_next s t A_go = Some s' \<and> \<not> rw_fault s')"
proof (intro conjI notI)
  let ?as = "[(0, A_lock_shared), (0, A_go), (1, A_lock), (1, A_go)]"
  obtain s where s: "rw_exec ?as rw_new = Some s" "rw_pc s 0 = Reading" "rw_pc s 1 = Writing"
    by (simp add: rw_defs rw_new_def)
  have "rw_reach UNIV s" by (rule exec_reach [OF s(1) reach_new]) simp
  with s show "\<exists>s. rw_reach UNIV s \<and> rw_pc s 0 = Reading \<and> rw_pc s 1 = Writing" by blast
next
  assume "\<exists>s t s'. rw_reach {A_lock_shared, A_try_lock_shared, A_unlock} s \<and> rw_pc s t = U_unlock \<and>
      rw_next s t A_go = Some s' \<and> \<not> rw_fault s'"
  then obtain s t s' where s: "rw_reach {A_lock_shared, A_try_lock_shared, A_unlock} s"
    "rw_pc s t = U_unlock" "rw_next s t A_go = Some s'" "\<not> rw_fault s'" by blast
  from s(1) have "readers_inv s"
  proof (induction rule: rw_reach.induct)
    case reach_new
    show ?case by (simp add: readers_inv_def rw_new_def)
  next
    case (reach_next s a t s')
    then show ?case using readers_inv_step by blast
  qed
  with s(2-4) show False by (auto simp: rw_defs readers_inv_def)
qed

end
