(* ===== verification/WebSocket.thy ===== *)
theory WebSocket
  imports ByteOrder Sha1 HttpResponse
begin

text \<open>
  WebSockets: the opening handshake of \<open>gts/web/socket.cpp\<close>, and the frame parser of
  \<open>gts/web/socket_frame_parser.cpp\<close> with the frames of \<open>gts/web/socket_frame.cpp\<close>.

  An exception of the handshake is \<open>Inl\<close> with its reason and the response as it was left.  The
  parser's pointer to its implementation is taken to be set up by its constructor.  The bodies of
  \<open>read_mask\<close> and \<open>read_payload\<close> are empty and do not return a value, which is undefined
  behaviour: reaching them is \<open>None\<close>.
\<close>

unbundle bit_operations_syntax

section \<open>The opening handshake\<close>

datatype ws_error = No_upgrade | No_key | No_protocol

definition ws_guid :: string where
  "ws_guid = ''258EAFA5-E914-47DA-95CA-C5AB0DC85B11''"

definition ws_accept_key :: "string \<Rightarrow> string" where
  "ws_accept_key sw_key = sha1_base64 (finalize (sha1_new (sw_key @ ws_guid)))"

text \<open>The protocols the client offers.\<close>

definition ws_protocols :: "request \<Rightarrow> string list" where
  "ws_protocols req = map str_trimmed (splitted (header_or req ''Sec-WebSocket-Protocol'' []) '','' True)"

definition quoted :: "string \<Rightarrow> string" where
  "quoted s = CHR 0x27 # s @ [CHR 0x27]"

definition ws_handshake ::
  "request \<Rightarrow> response \<Rightarrow> string \<Rightarrow> (ws_error \<times> response + response \<times> tcp) option" where
  "ws_handshake req resp sec_protocol =
     (let it = header_find (m_headers req) hdr_upgrade
      in if it = None \<or> str_to_lower (the it) \<noteq> ''websocket'' then Some (Inl (No_upgrade, resp))
         else case header_find (m_headers req) ''Sec-WebSocket-Key'' of
           None \<Rightarrow>
             map_option (\<lambda>r. Inl (No_key, r))
               (write_response (set_status resp hs_forbidden) (quoted ''Sec-WebSocket-Key'' @ '' not found.''))
         | Some sw_key \<Rightarrow>
             (let swp_list = ws_protocols req
              in if sec_protocol \<noteq> [] \<and> sec_protocol \<notin> set swp_list then
                   map_option (\<lambda>r. Inl (No_protocol, r))
                     (write_response (set_status resp hs_forbidden) (quoted ''Sec-WebSocket-Protocol'' @ '' not supported.''))
                 else
                   (let r1 = (if sec_protocol = [] then
                                set_header resp ''Sec-WebSocket-Protocol''
                                  (if swp_list = [] then [] else hd swp_list)
                              else resp);
                        r2 = set_header (set_header (set_header r1
                               ''Sec-WebSocket-Accept'' (ws_accept_key sw_key))
                               hdr_connection ''upgrade'')
                               hdr_upgrade ''websocket''
                    in case write_response (set_status r2 hs_switching_protocols) [] of
                         None \<Rightarrow> None
                       | Some r3 \<Rightarrow>
                           (case take_socket r3 of
                              Some (r4, Some sk) \<Rightarrow> Some (Inr (r4, sk))
                            | _ \<Rightarrow> None))))"


lemma ws_accept_key_rfc:
  "ws_accept_key k = base64_enc (digest_bytes (sha1_digest (str_bytes (k @ ws_guid))))"
proof -
  obtain s where s: "finalize (sha1_new (k @ ws_guid)) = Some s" "m_state s = sha1_digest (str_bytes (k @ ws_guid))"
    using finalized_new by blast
  have "length (m_state s) = 5" by (simp add: s(2) length_sha1_digest)
  from sha1_base64_enc [OF this] show ?thesis by (simp only: ws_accept_key_def s)
qed

lemma ws_names_differ:
  "map tolower ''Sec-WebSocket-Accept'' \<noteq> map tolower hdr_connection"
  "map tolower ''Sec-WebSocket-Accept'' \<noteq> map tolower hdr_upgrade"
  "map tolower ''Sec-WebSocket-Accept'' \<noteq> map tolower hdr_content_length"
  "map tolower ''Sec-WebSocket-Accept'' \<noteq> map tolower ''set-cookie''"
  "map tolower hdr_transfer_encoding \<noteq> map tolower hdr_connection"
  "map tolower hdr_transfer_encoding \<noteq> map tolower hdr_upgrade"
  "map tolower hdr_transfer_encoding \<noteq> map tolower ''Sec-WebSocket-Accept''"
  "map tolower hdr_transfer_encoding \<noteq> map tolower ''Sec-WebSocket-Protocol''"
  "map tolower hdr_content_length \<noteq> map tolower hdr_connection"
  "map tolower hdr_content_length \<noteq> map tolower hdr_upgrade"
  "map tolower hdr_content_length \<noteq> map tolower ''Sec-WebSocket-Accept''"
  "map tolower hdr_content_length \<noteq> map tolower ''Sec-WebSocket-Protocol''"
  "map tolower hdr_upgrade \<noteq> map tolower hdr_content_length"
  "map tolower hdr_upgrade \<noteq> map tolower ''set-cookie''"
  by code_simp+

text \<open>The first answer of a response, without a body.\<close>

lemma write_head_only:
  assumes "full_socket rs" "headers_ok rs" "\<not> m_headers_writed rs" "status_description (m_status rs) = Some d"
    and "\<not> rs_headers_contains rs hdr_content_length" "\<not> is_chunked rs"
  shows "\<exists>rs'. write_response rs [] = Some rs' \<and> full_socket rs' \<and> sent rs' = sent rs @ message_head rs' d \<and>
     m_status rs' = m_status rs \<and> rs_request rs' = rs_request (emit rs (message_head rs' d)) \<and>
     rs_headers rs' = map_erase less_case_insensitive (header_put (rs_headers rs) hdr_content_length (dec 0)) ''set-cookie''"
proof -
  let ?w = "rs\<lparr>m_headers_writed := True\<rparr>"
  let ?r1 = "unset_header (set_header ?w hdr_content_length (dec 0)) ''set-cookie''"
  have "with_length ?w 0 = set_header ?w hdr_content_length (dec 0)"
    using assms(5,6) by (simp add: with_length_def rs_headers_contains_def)
  then have "write_response rs [] = Some (emit ?r1 (message_head ?r1 d))"
    using write_head_eq [OF assms(1,3,4), of 0] by (simp add: write_response_def Let_def)
  moreover have "rs_request (emit ?r1 m) = rs_request (emit rs m)" for m
    by (simp add: emit_def unset_header_def set_header_def)
  moreover have "rs_headers (emit ?r1 m) =
      map_erase less_case_insensitive (header_put (rs_headers rs) hdr_content_length (dec 0)) ''set-cookie''" for m
    by (simp add: emit_def unset_header_def set_header_def)
  ultimately show ?thesis using assms(1) by simp
qed

lemma contains_other:
  "headers_ok rs \<Longrightarrow> map tolower q \<noteq> map tolower k \<Longrightarrow>
   rs_headers_contains (set_header rs k v) q = rs_headers_contains rs q"
  by (simp add: rs_headers_contains_def find_set_header)

lemma valid_emit: "is_valid (rs_request (emit rs x)) = is_valid (rs_request rs)"
  by (simp add: is_valid_def emit_def split: option.split)

definition ws_response :: "response \<Rightarrow> string \<Rightarrow> string list \<Rightarrow> response" where
  "ws_response resp sw_key swp_list =
     set_status
       (set_header (set_header (set_header
         (set_header resp ''Sec-WebSocket-Protocol'' (if swp_list = [] then [] else hd swp_list))
         ''Sec-WebSocket-Accept'' (ws_accept_key sw_key))
         hdr_connection ''upgrade'')
         hdr_upgrade ''websocket'')
       hs_switching_protocols"

text \<open>C15: The opening handshake.  A request with \<open>Upgrade: websocket\<close> and a key is answered, on a fresh
  response over an open socket, with status 101 and the accept value of RFC 6455: the base64
  encoding of the SHA-1 digest of the key followed by the fixed GUID; the head is all that is
  sent, and the socket passes from the request to the new WebSocket.\<close>

theorem handshake_accepts:
  assumes "map_option str_to_lower (header_find (m_headers req) hdr_upgrade) = Some ''websocket''"
    and "header_find (m_headers req) ''sec-websocket-key'' = Some sw_key"
    and "full_socket resp" and "headers_ok resp" and "\<not> m_headers_writed resp"
    and "\<not> rs_headers_contains resp hdr_content_length" and "\<not> is_chunked resp" and "rs_is_valid resp"
  shows "\<exists>r sk head. ws_handshake req resp [] = Some (Inr (r, sk)) \<and> m_status r = 101 \<and>
     m_socket (rs_request r) = None \<and> sk_open sk \<and> sk_out sk = sent resp @ head \<and>
     head = message_head r ''Switching Protocols'' \<and>
     header_find (rs_headers r) ''sec-websocket-accept'' =
       Some (base64_enc (digest_bytes (sha1_digest (str_bytes (sw_key @ ws_guid))))) \<and>
     header_find (rs_headers r) ''upgrade'' = Some ''websocket''"
proof -
  have key: "header_find h k = header_find h k'" if "map tolower k = map tolower k'" for h k k'
    using that by (simp add: header_find_def headers.lookup_norm [OF that])
  have names: "header_find h ''sec-websocket-key'' = header_find h ''Sec-WebSocket-Key''"
    "header_find h ''sec-websocket-accept'' = header_find h ''Sec-WebSocket-Accept''"
    "header_find h ''upgrade'' = header_find h hdr_upgrade" for h
    by (rule key, code_simp)+
  let ?rs = "ws_response resp sw_key (ws_protocols req)"
  have d: "status_description (m_status ?rs) = Some ''Switching Protocols''"
    by (simp add: ws_response_def status_description_def status_table_def)
  have ok: "full_socket ?rs" "headers_ok ?rs" "\<not> m_headers_writed ?rs" "\<not> is_chunked ?rs" "sent ?rs = sent resp"
    "\<not> rs_headers_contains ?rs hdr_content_length" "rs_request ?rs = rs_request resp"
    using assms(3-7) ws_names_differ
    by (simp_all add: ws_response_def headers_ok_set is_chunked_set_header contains_other)
  obtain r where r: "write_response ?rs [] = Some r" "full_socket r" "sent r = sent ?rs @ message_head r ''Switching Protocols''"
    "m_status r = m_status ?rs" "rs_request r = rs_request (emit ?rs (message_head r ''Switching Protocols''))"
    "rs_headers r = map_erase less_case_insensitive (header_put (rs_headers ?rs) hdr_content_length (dec 0)) ''set-cookie''"
    using write_head_only [OF ok(1,2,3) d ok(6,4)] by blast
  have acc: "header_find (rs_headers ?rs) ''Sec-WebSocket-Accept'' = Some (ws_accept_key sw_key)"
    "header_find (rs_headers ?rs) hdr_upgrade = Some ''websocket''"
    using assms(4) ws_names_differ by (simp_all add: ws_response_def find_set_header headers_ok_set)
  have rok: "headers_ok (set_header ?rs hdr_content_length (dec 0))" using ok(2) by (simp add: headers_ok_set)
  have hd: "header_find (rs_headers r) k = header_find (rs_headers ?rs) k"
    if "map tolower k \<noteq> map tolower hdr_content_length" "map tolower k \<noteq> map tolower ''set-cookie''" for k
  proof -
    have "header_find (rs_headers r) k = header_find (rs_headers (set_header ?rs hdr_content_length (dec 0))) k"
      unfolding r(6) using find_set_cookie [OF rok [unfolded headers_ok_def] that(2)] by (simp add: set_header_def)
    with that(1) ok(2) show ?thesis by (simp add: find_set_header)
  qed
  obtain sk where sk: "m_socket (rs_request r) = Some sk" "sk_open sk" "sk_out sk = sent r"
    using r(2) by (auto simp: full_socket_def sent_def split: option.splits)
  have valid: "rs_is_valid r" using assms(8) ok(7) by (simp add: rs_is_valid_def r(5) valid_emit)
  let ?r4 = "r\<lparr>rs_request := (rs_request r)\<lparr>m_socket := None\<rparr>\<rparr>"
  have "ws_handshake req resp [] = Some (Inr (?r4, sk))"
    using assms(1,2) r(1) sk(1) valid
    by (auto simp: ws_handshake_def ws_response_def [symmetric] take_socket_def names Let_def)
  moreover have "message_head ?r4 d = message_head r d" for d
    by (simp add: message_head_def rs_version_def)
  ultimately show ?thesis
    using r(3,4) ok(5) sk(2,3) hd acc ws_names_differ unfolding names
    by (simp add: ws_response_def ws_accept_key_rfc)
qed


section \<open>Frames\<close>

text \<open>Opcodes are their numbers.\<close>

definition oc_binary :: nat where "oc_binary = 2"
definition oc_close :: nat where "oc_close = 8"
definition oc_pong :: nat where "oc_pong = 10"
definition oc_reserved_c :: nat where "oc_reserved_c = 12"

definition is_op_code_reserved :: "nat \<Rightarrow> bool" where
  "is_op_code_reserved code = (oc_binary < code \<and> code < oc_close \<or> oc_pong < code)"

record frame =
  f_final :: bool
  f_data :: bool
  f_continuation :: bool
  f_length :: u64
  f_rsv1 :: bool
  f_rsv2 :: bool
  f_rsv3 :: bool
  f_mask :: u32
  f_op_code :: nat
  f_payload :: string
  f_valid :: bool

definition frame_new :: frame where
  "frame_new =
     \<lparr>f_final = False, f_data = False, f_continuation = False, f_length = 0, f_rsv1 = False, f_rsv2 = False,
      f_rsv3 = False, f_mask = 0, f_op_code = 0, f_payload = [], f_valid = False\<rparr>"

text \<open>A frame that has been moved from has no implementation.\<close>

type_synonym socket_frame = "frame option"

definition frame_move :: "socket_frame \<Rightarrow> socket_frame \<times> socket_frame" where
  "frame_move other = (other, None)"

definition frame_swap :: "socket_frame \<Rightarrow> socket_frame \<Rightarrow> socket_frame \<times> socket_frame" where
  "frame_swap a b = (b, a)"

definition is_final_frame :: "socket_frame \<Rightarrow> bool" where
  "is_final_frame f = (case f of None \<Rightarrow> False | Some x \<Rightarrow> f_final x)"

definition is_data_frame :: "socket_frame \<Rightarrow> bool" where
  "is_data_frame f = (case f of None \<Rightarrow> False | Some x \<Rightarrow> f_data x)"

definition is_control_frame :: "socket_frame \<Rightarrow> bool" where
  "is_control_frame f = (case f of None \<Rightarrow> False | Some x \<Rightarrow> f_op_code x AND 8 = 8)"

definition is_continuation_frame :: "socket_frame \<Rightarrow> bool" where
  "is_continuation_frame f = (case f of None \<Rightarrow> False | Some x \<Rightarrow> f_continuation x)"

definition frame_rsv1 :: "socket_frame \<Rightarrow> bool" where
  "frame_rsv1 f = (case f of None \<Rightarrow> False | Some x \<Rightarrow> f_rsv1 x)"

definition frame_rsv2 :: "socket_frame \<Rightarrow> bool" where
  "frame_rsv2 f = (case f of None \<Rightarrow> False | Some x \<Rightarrow> f_rsv2 x)"

definition frame_rsv3 :: "socket_frame \<Rightarrow> bool" where
  "frame_rsv3 f = (case f of None \<Rightarrow> False | Some x \<Rightarrow> f_rsv3 x)"

definition has_mask :: "socket_frame \<Rightarrow> bool" where
  "has_mask f = (case f of None \<Rightarrow> False | Some x \<Rightarrow> 0 < f_mask x)"

definition frame_mask :: "socket_frame \<Rightarrow> u32" where
  "frame_mask f = (case f of None \<Rightarrow> 0 | Some x \<Rightarrow> f_mask x)"

definition frame_op_code :: "socket_frame \<Rightarrow> nat" where
  "frame_op_code f = (case f of None \<Rightarrow> 0 | Some x \<Rightarrow> f_op_code x)"

definition frame_payload :: "socket_frame \<Rightarrow> string" where
  "frame_payload f = (case f of None \<Rightarrow> [] | Some x \<Rightarrow> f_payload x)"

definition frame_length :: "socket_frame \<Rightarrow> u64" where
  "frame_length f = (case f of None \<Rightarrow> 0 | Some x \<Rightarrow> f_length x)"

definition frame_is_valid :: "socket_frame \<Rightarrow> bool" where
  "frame_is_valid f = (case f of None \<Rightarrow> False | Some x \<Rightarrow> f_valid x)"

section \<open>The frame parser\<close>

datatype fp_status = Read_header | Read_payload_length | Read_mask | Read_payload | Dispatch_result

record frame_parser =
  fp_abuf :: string
  fp_status :: fp_status
  fp_op_code :: nat
  fp_cache :: frame

definition fp_new :: frame_parser where
  "fp_new = \<lparr>fp_abuf = [], fp_status = Read_header, fp_op_code = oc_reserved_c, fp_cache = frame_new\<rparr>"

text \<open>\<open>check_validity\<close> asks the opcode of the parser, not that of the frame.\<close>

definition check_validity :: "frame_parser \<Rightarrow> frame_parser \<times> bool" where
  "check_validity p =
     (let c = fp_cache p;
          c' = (if f_rsv1 c \<or> f_rsv2 c \<or> f_rsv3 c then c
                else if is_op_code_reserved (fp_op_code p) then c
                else if is_control_frame (Some c) then
                  (if 125 < f_length c then c
                   else if \<not> f_final c then c
                   else c\<lparr>f_valid := True\<rparr>)
                else c\<lparr>f_valid := True\<rparr>)
      in (p\<lparr>fp_cache := c'\<rparr>, f_valid c'))"

definition decode_header :: "frame \<Rightarrow> u8 \<Rightarrow> u8 \<Rightarrow> frame" where
  "decode_header c b0 b1 =
     c\<lparr>f_final := (b0 AND 0x80 \<noteq> 0), f_rsv1 := (b0 AND 0x40 \<noteq> 0), f_rsv2 := (b0 AND 0x20 \<noteq> 0),
       f_rsv3 := (b0 AND 0x10 \<noteq> 0), f_op_code := unat (b0 AND 0x0F), f_mask := ucast (b1 AND 0x80),
       f_length := ucast (b1 AND 0x7F)\<rparr>"

definition read_header :: "frame_parser \<Rightarrow> frame_parser \<times> bool" where
  "read_header p =
     (case str_bytes (fp_abuf p) of
        b0 # b1 # _ \<Rightarrow>
          (let p1 = p\<lparr>fp_cache := decode_header (fp_cache p) b0 b1, fp_abuf := drop 2 (fp_abuf p)\<rparr>;
               (p2, ok) = check_validity p1
           in if \<not> ok then (p2, False)
              else (p2\<lparr>fp_status :=
                       (if f_length (fp_cache p2) = 126 \<or> f_length (fp_cache p2) = 127 then Read_payload_length
                        else if has_mask (Some (fp_cache p2)) then Read_mask else Read_payload)\<rparr>, True))
      | _ \<Rightarrow> (p, False))"

text \<open>\<open>ntoh(*reinterpret_cast<const T*>(m_abuf.c_str()))\<close> on a host of either order.\<close>

definition read_be :: "endian \<Rightarrow> nat \<Rightarrow> string \<Rightarrow> nat" where
  "read_be e n s = ntoh e n (of_bytes e (take n (str_bytes s)))"

definition read_payload_length :: "endian \<Rightarrow> frame_parser \<Rightarrow> frame_parser \<times> bool" where
  "read_payload_length e p =
     (let set_len = (\<lambda>n. p\<lparr>fp_cache := (fp_cache p)\<lparr>f_length := of_nat (read_be e n (fp_abuf p))\<rparr>,
                        fp_abuf := drop n (fp_abuf p)\<rparr>);
          next_status = (\<lambda>q. q\<lparr>fp_status := (if has_mask (Some (fp_cache q)) then Read_mask else Read_payload)\<rparr>)
      in if f_length (fp_cache p) = 126 then
           (if length (fp_abuf p) < 2 then (p, False)
            else (let q = set_len 2
                  in if f_length (fp_cache q) < 126 then (q, False) else (next_status q, True)))
         else if f_length (fp_cache p) = 127 then
           (if length (fp_abuf p) < 8 then (p, False)
            else (let q = set_len 8
                  in if f_length (fp_cache q) AND push_bit 63 1 \<noteq> 0 then (q, False)
                     else if f_length (fp_cache q) \<le> 0xFFFF then (q, False)
                     else (next_status q, True)))
         else (next_status p, True))"

definition is_done :: "frame_parser \<Rightarrow> bool" where
  "is_done p = (fp_status p = Dispatch_result)"

text \<open>The loop of \<open>append\<close>.\<close>

partial_function (option) fp_loop :: "endian \<Rightarrow> frame_parser \<Rightarrow> (frame_parser \<times> bool) option" where
  "fp_loop e p =
     (case fp_status p of
        Read_header \<Rightarrow>
          (case read_header p of
             (q, ok) \<Rightarrow> if ok then fp_loop e q else Some (q\<lparr>fp_status := Read_header\<rparr>, False))
      | Read_payload_length \<Rightarrow>
          (case read_payload_length e p of
             (q, ok) \<Rightarrow> if ok then fp_loop e q else Some (q\<lparr>fp_status := Read_header\<rparr>, False))
      | Read_mask \<Rightarrow> None
      | Read_payload \<Rightarrow> None
      | Dispatch_result \<Rightarrow> Some (p, True))"

definition fp_append :: "endian \<Rightarrow> frame_parser \<Rightarrow> string \<Rightarrow> (frame_parser \<times> bool) option" where
  "fp_append e p0 data =
     (let p = p0\<lparr>fp_abuf := fp_abuf p0 @ data\<rparr>
      in if is_done p then Some (p, True)
         else if fp_abuf p = [] then Some (p, False)
         else fp_loop e p)"

definition next_frame :: "frame_parser \<Rightarrow> frame_parser \<times> socket_frame" where
  "next_frame p =
     (if \<not> f_valid (fp_cache p) then (p, Some frame_new)
      else (p\<lparr>fp_cache := frame_new, fp_status := Read_header\<rparr>, Some (fp_cache p)))"

fun fp_appends :: "endian \<Rightarrow> frame_parser \<Rightarrow> string list \<Rightarrow> (frame_parser \<times> bool list) option" where
  "fp_appends e p [] = Some (p, [])"
| "fp_appends e p (d # ds) =
     (case fp_append e p d of
        None \<Rightarrow> None
      | Some (q, ok) \<Rightarrow> map_option (\<lambda>(r, oks). (r, ok # oks)) (fp_appends e q ds))"

section \<open>What the frame parser decodes\<close>

lemma byte_flag: "(b AND 2 ^ n \<noteq> 0) = odd (unat b div 2 ^ n)" for b :: u8
proof -
  have "bit b n = bit (unat b) n" by (auto simp: bit_unsigned_iff dest: bit_imp_le_length)
  then show ?thesis by (simp add: and_exp_eq_0_iff_not_bit bit_iff_odd [of "unat b"])
qed

lemma byte_bits:
  "(b AND 0x80 \<noteq> 0) = (128 \<le> unat b)" "(b AND 0x40 \<noteq> 0) = odd (unat b div 64)"
  "(b AND 0x20 \<noteq> 0) = odd (unat b div 32)" "(b AND 0x10 \<noteq> 0) = odd (unat b div 16)"
  "unat (b AND 0x0F) = unat b mod 16" "unat (b AND 0x7F) = unat b mod 128" for b :: u8
proof -
  have "unat b < 256" by (rule unat_u8_less)
  then have "odd (unat b div 128) = (128 \<le> unat b)" 
    using div_nat_eqI [of 128 1 "unat b"] by (cases "unat b < 128") simp_all
  then show "(b AND 0x80 \<noteq> 0) = (128 \<le> unat b)" "(b AND 0x40 \<noteq> 0) = odd (unat b div 64)"
    "(b AND 0x20 \<noteq> 0) = odd (unat b div 32)" "(b AND 0x10 \<noteq> 0) = odd (unat b div 16)"
    using byte_flag [of b 7] byte_flag [of b 6] byte_flag [of b 5] byte_flag [of b 4] by simp_all
  have "b AND 0x0F = take_bit 4 b" "b AND 0x7F = take_bit 7 b" by (simp_all add: take_bit_eq_mask mask_eq_exp_minus_1)
  then show "unat (b AND 0x0F) = unat b mod 16" "unat (b AND 0x7F) = unat b mod 128"
    by (simp_all only: unsigned_take_bit_eq) (simp_all add: take_bit_eq_mod)
qed
text \<open>The number that a text spells in network order.\<close>

definition be_value :: "string \<Rightarrow> nat" where
  "be_value s = foldl (\<lambda>v c. 256 * v + uchar c) 0 s"

lemma unat_uchar: "unat (of_nat (uchar c) :: u8) = uchar c"
proof -
  have "uchar c < 256" by simp
  then show ?thesis by (simp add: unsigned_of_nat take_bit_nat_eq_self)
qed

lemma of_le_bytes_append: "of_le_bytes (xs @ [b]) = of_le_bytes xs + 256 ^ length xs * unat b"
  by (induction xs) (simp_all add: algebra_simps)

lemma of_le_bytes_rev: "of_le_bytes (rev (str_bytes s)) = be_value s"
proof (induction s rule: rev_induct)
  case (snoc c s)
  have "unat (of_nat (uchar c) :: u8) = uchar c" by (rule unat_uchar)
  with snoc show ?case by (simp add: str_bytes_def be_value_def)
qed (simp add: str_bytes_def be_value_def)

lemma be_value_less: "be_value s < 256 ^ length s"
proof (induction s rule: rev_induct)
  case (snoc c s)
  have "uchar c < 256" by simp
  with snoc have "256 * be_value s + uchar c < 256 * 256 ^ length s" by linarith
  then show ?case by (simp add: be_value_def)
qed (simp add: be_value_def)

lemma ntoh_of_bytes: "length bs = n \<Longrightarrow> ntoh e n (of_bytes e bs) = of_le_bytes (rev bs)"
proof (cases e)
  case Little
  assume "length bs = n"
  with Little have "reverse_int e n (of_bytes e bs) = of_bytes e (rev bs)"
    by (simp only: reverse_int_eq bytes_of_of_bytes)
  with Little show ?thesis
    by (simp add: ntoh_def is_big_endian_def is_little_endian_iff of_bytes_def)
qed (simp add: ntoh_def is_big_endian_def is_little_endian_iff of_bytes_def)

lemma read_be_value: "n \<le> length s \<Longrightarrow> read_be e n s = be_value (take n s)"
  by (simp add: read_be_def ntoh_of_bytes str_bytes_def take_map flip: of_le_bytes_rev)

lemma unat_ucast_byte:
  fixes x :: u8
  shows "unat (ucast x :: u32) = unat x" "unat (ucast x :: u64) = unat x"
  using unat_u8_less [of x] by (simp_all add: unsigned_ucast_eq take_bit_nat_eq_self)

lemma top_bit: "(w AND push_bit 63 1 \<noteq> 0) = (2 ^ 63 \<le> unat w)" for w :: u64
proof -
  have "(w AND push_bit 63 1 \<noteq> 0) = bit w 63"
    by (simp add: push_bit_eq_mult and_exp_eq_0_iff_not_bit [of w 63, simplified])
  also have "\<dots> = odd (unat w div 2 ^ 63)"
  proof -
    have "bit w 63 = bit (unat w) 63" by (auto simp: bit_unsigned_iff dest: bit_imp_le_length)
    then show ?thesis by (simp add: bit_iff_odd [of "unat w"])
  qed
  also have "\<dots> = (2 ^ 63 \<le> unat w)"
  proof -
    have "unat w < 2 ^ LENGTH(64)" by (rule unsigned_less)
    then show ?thesis
      using div_nat_eqI [of "2 ^ 63" 1 "unat w"] by (cases "unat w < 2 ^ 63") simp_all
  qed
  finally show ?thesis .
qed

text \<open>The two bytes of a frame header are decoded as RFC 6455 lays them out: the final flag,
  three reserved bits and the opcode, then the mask flag and the seven-bit length; the bytes are
  taken off the buffer whether or not the header is accepted.\<close>

theorem frame_header_fields:
  "(let q = fst (read_header (p\<lparr>fp_abuf := c0 # c1 # rest\<rparr>)); c = fp_cache q
    in f_final c = (128 \<le> uchar c0) \<and> f_rsv1 c = odd (uchar c0 div 64) \<and> f_rsv2 c = odd (uchar c0 div 32) \<and>
       f_rsv3 c = odd (uchar c0 div 16) \<and> f_op_code c = uchar c0 mod 16 \<and>
       has_mask (Some c) = (128 \<le> uchar c1) \<and> unat (f_length c) = uchar c1 mod 128 \<and> fp_abuf q = rest)"
proof -
  note u = unat_uchar
  have m: "(0 < (ucast (b AND 0x80) :: u32)) = (128 \<le> unat b)" for b :: u8
  proof -
    have "(ucast x :: u32) = 0 \<longleftrightarrow> x = 0" for x :: u8
      by (metis unat_ucast_byte(1) unat_eq_zero unsigned_0)
    with byte_bits(1) [of b] show ?thesis by (simp add: word_neq_0_conv [symmetric])
  qed
  have l: "unat (ucast (b AND 0x7F) :: u64) = unat b mod 128" for b :: u8
    using byte_bits(6) [of b] by (simp add: unat_ucast_byte(2))
  let ?b0 = "of_nat (uchar c0) :: u8" and ?b1 = "of_nat (uchar c1) :: u8"
  let ?d = "decode_header (fp_cache p) ?b0 ?b1"
  let ?p1 = "p\<lparr>fp_cache := ?d, fp_abuf := rest\<rparr>"
  obtain p2 ok where cv: "check_validity ?p1 = (p2, ok)" by (metis prod.exhaust)
  have r: "fp_cache (fst (read_header (p\<lparr>fp_abuf := c0 # c1 # rest\<rparr>))) = fp_cache p2"
    "fp_abuf (fst (read_header (p\<lparr>fp_abuf := c0 # c1 # rest\<rparr>))) = fp_abuf p2"
    using cv by (simp_all add: read_header_def str_bytes_def Let_def)
  have c: "fp_cache p2 = ?d \<or> fp_cache p2 = ?d\<lparr>f_valid := True\<rparr>" "fp_abuf p2 = rest"
    using cv by (auto simp: check_validity_def Let_def split: if_splits)
  have "f_final ?d = (128 \<le> uchar c0) \<and> f_rsv1 ?d = odd (uchar c0 div 64) \<and> f_rsv2 ?d = odd (uchar c0 div 32) \<and>
      f_rsv3 ?d = odd (uchar c0 div 16) \<and> f_op_code ?d = uchar c0 mod 16 \<and>
      (0 < f_mask ?d) = (128 \<le> uchar c1) \<and> unat (f_length ?d) = uchar c1 mod 128"
    using byte_bits [of ?b0] m [of ?b1] l [of ?b1] unfolding u decode_header_def by simp
  moreover have "f_final (fp_cache p2) = f_final ?d" "f_rsv1 (fp_cache p2) = f_rsv1 ?d"
    "f_rsv2 (fp_cache p2) = f_rsv2 ?d" "f_rsv3 (fp_cache p2) = f_rsv3 ?d"
    "f_op_code (fp_cache p2) = f_op_code ?d" "f_mask (fp_cache p2) = f_mask ?d" "f_length (fp_cache p2) = f_length ?d"
    using c(1) by (elim disjE; simp)+
  ultimately show ?thesis unfolding Let_def r by (simp only: has_mask_def option.case c(2) simp_thms)
qed

text \<open>Extended payload lengths are read in network order on hosts of either byte order, and only
  in their shortest form: a two-byte length is accepted from 126 on, an eight-byte length from
  65536 on and below the 63rd power of two.\<close>

theorem payload_length_minimal:
  assumes "length s2 = 2" and "length s8 = 8"
  shows "(let (q, ok) = read_payload_length e (p\<lparr>fp_abuf := s2 @ rest, fp_cache := c\<lparr>f_length := 126\<rparr>\<rparr>)
     in unat (f_length (fp_cache q)) = be_value s2 \<and> fp_abuf q = rest \<and> ok = (126 \<le> be_value s2)) \<and>
    (let (q, ok) = read_payload_length e (p\<lparr>fp_abuf := s8 @ rest, fp_cache := c\<lparr>f_length := 127\<rparr>\<rparr>)
     in unat (f_length (fp_cache q)) = be_value s8 \<and> fp_abuf q = rest \<and>
        ok = (65536 \<le> be_value s8 \<and> be_value s8 < 2 ^ 63))"
proof
  have v: "be_value s2 < 65536" "be_value s8 < 2 ^ 64"
    using be_value_less [of s2] be_value_less [of s8] assms by simp_all
  then have u: "unat (of_nat (be_value s2) :: u64) = be_value s2" "unat (of_nat (be_value s8) :: u64) = be_value s8"
    by (simp_all add: unsigned_of_nat take_bit_nat_eq_self)
  have r: "read_be e 2 (s2 @ rest) = be_value s2" "read_be e 8 (s8 @ rest) = be_value s8"
    using assms by (simp_all add: read_be_value)
  show "let (q, ok) = read_payload_length e (p\<lparr>fp_abuf := s2 @ rest, fp_cache := c\<lparr>f_length := 126\<rparr>\<rparr>)
     in unat (f_length (fp_cache q)) = be_value s2 \<and> fp_abuf q = rest \<and> ok = (126 \<le> be_value s2)"
    using assms u r by (simp add: read_payload_length_def Let_def word_less_nat_alt)
  have top: "((of_nat (be_value s8) :: u64) AND push_bit 63 1 \<noteq> 0) = (2 ^ 63 \<le> be_value s8)"
    using top_bit [of "of_nat (be_value s8)"] u by simp
  show "let (q, ok) = read_payload_length e (p\<lparr>fp_abuf := s8 @ rest, fp_cache := c\<lparr>f_length := 127\<rparr>\<rparr>)
     in unat (f_length (fp_cache q)) = be_value s8 \<and> fp_abuf q = rest \<and>
        ok = (65536 \<le> be_value s8 \<and> be_value s8 < 2 ^ 63)"
    using assms u r top by (auto simp: read_payload_length_def Let_def word_le_nat_alt)
qed


lemma payload_length_minimal_witness:
  "snd (read_payload_length Little (fp_new\<lparr>fp_abuf := [CHR 0x01, CHR 0x02] @ ''x'', fp_cache := frame_new\<lparr>f_length := 126\<rparr>\<rparr>)) \<and>
   \<not> snd (read_payload_length Little (fp_new\<lparr>fp_abuf := replicate 8 (CHR 0x00) @ ''x'',
      fp_cache := frame_new\<lparr>f_length := 127\<rparr>\<rparr>))"
proof -
  have "length [CHR 0x01, CHR 0x02] = 2" "length (replicate 8 (CHR 0x00)) = 8" by simp_all
  note t = payload_length_minimal [OF this, where e = Little and p = fp_new and rest = "''x''" and c = frame_new]
  have "be_value [CHR 0x01, CHR 0x02] = 258" by (simp add: be_value_def)
  moreover have "be_value (replicate 8 (CHR 0x00)) = 0" by (simp add: be_value_def numeral_eq_Suc)
  ultimately show ?thesis
    using conjunct1 [OF t] conjunct2 [OF t] unfolding Let_def case_prod_beta by simp
qed

section \<open>The parser accepts nothing\<close>

definition stuck :: "frame_parser \<Rightarrow> bool" where
  "stuck p = (fp_status p = Read_header \<and> fp_op_code p = oc_reserved_c \<and> \<not> f_valid (fp_cache p))"

lemma check_validity_stuck: "stuck p \<Longrightarrow> check_validity p = (p, False)"
  by (simp add: check_validity_def stuck_def Let_def is_op_code_reserved_def oc_reserved_c_def oc_pong_def)

lemma read_header_stuck:
  assumes "stuck p" shows "\<exists>q. read_header p = (q, False) \<and> stuck q"
proof (cases "str_bytes (fp_abuf p)")
  case (Cons b0 bs)
  show ?thesis
  proof (cases bs)
    case (Cons b1 bs')
    have "stuck (p\<lparr>fp_cache := decode_header (fp_cache p) b0 b1, fp_abuf := drop 2 (fp_abuf p)\<rparr>)"
      using assms by (simp add: stuck_def decode_header_def)
    with \<open>str_bytes (fp_abuf p) = b0 # bs\<close> Cons show ?thesis
      by (simp add: read_header_def check_validity_stuck)
  qed (use Cons assms in \<open>simp add: read_header_def\<close>)
qed (use assms in \<open>simp add: read_header_def\<close>)

lemma append_stuck:
  assumes "stuck p" shows "\<exists>q. fp_append e p d = Some (q, False) \<and> stuck q"
proof -
  let ?p = "p\<lparr>fp_abuf := fp_abuf p @ d\<rparr>"
  have s: "stuck ?p" using assms by (simp add: stuck_def)
  then obtain q where q: "read_header ?p = (q, False)" "stuck q" using read_header_stuck by blast
  then have "fp_loop e ?p = Some (q\<lparr>fp_status := Read_header\<rparr>, False)"
    using s by (simp add: fp_loop.simps [of e ?p] stuck_def)
  moreover have "stuck (q\<lparr>fp_status := Read_header\<rparr>)" using q(2) by (simp add: stuck_def)
  moreover have "\<not> is_done ?p" using s by (simp add: is_done_def stuck_def)
  ultimately show ?thesis using s by (auto simp: fp_append_def Let_def)
qed

text \<open>The frame parser never accepts a frame.  Whatever bytes arrive in whatever pieces, every
  \<open>append\<close> returns false, the parser is never done and \<open>next_frame\<close> gives an invalid frame: its
  check of the opcode looks at a member that always holds a reserved opcode instead of the opcode
  of the frame.\<close>

theorem frame_parser_accepts_nothing:
  "\<exists>p. fp_appends e fp_new ds = Some (p, replicate (length ds) False) \<and> \<not> is_done p \<and>
     \<not> frame_is_valid (snd (next_frame p))"
proof -
  have "\<exists>q. fp_appends e p ds = Some (q, replicate (length ds) False) \<and> stuck q" if "stuck p" for p
    using that
  proof (induction ds arbitrary: p)
    case (Cons d ds)
    obtain q where "fp_append e p d = Some (q, False)" "stuck q" using append_stuck [OF Cons.prems] by blast
    with Cons.IH [of q] show ?case by auto
  qed simp
  moreover have "stuck fp_new" by (simp add: stuck_def fp_new_def frame_new_def)
  ultimately obtain q where "fp_appends e fp_new ds = Some (q, replicate (length ds) False)" "stuck q" by blast
  then show ?thesis
    by (simp add: stuck_def is_done_def next_frame_def frame_is_valid_def frame_new_def)
qed

section \<open>A handshake\<close>

definition ws_request :: request where
  "ws_request =
     request_new\<lparr>m_version := ''1.1'', m_path := ''/'', m_socket := Some (tcp_new 64 []),
       m_headers := [(''Sec-WebSocket-Key'', ''k''), (''Upgrade'', ''WebSocket'')]\<rparr>"

lemma handshake_accepts_witness:
  "\<exists>r sk. ws_handshake ws_request plain_response [] = Some (Inr (r, sk)) \<and>
     sk_out sk = message_head r ''Switching Protocols'' \<and>
     header_find (rs_headers r) ''sec-websocket-accept'' =
       Some (base64_enc (digest_bytes (sha1_digest (str_bytes (''k'' @ ws_guid)))))"
proof -
  have h: "map_option str_to_lower (header_find (m_headers ws_request) hdr_upgrade) = Some ''websocket''"
    "header_find (m_headers ws_request) ''sec-websocket-key'' = Some ''k''"
    by code_simp+
  have v: "rs_is_valid plain_response"
    by (simp add: rs_is_valid_def is_valid_def plain_response_def response_new_def tcp_new_def request_new_def)
       (simp add: header_find_def)
  show ?thesis
    using handshake_accepts [OF h plain_response_ok(1-3,5,4) v] plain_response_ok(6) by auto
qed

end
