(* ===== verification/ArgsParser.thy ===== *)
theory ArgsParser
  imports HttpMap
begin

text \<open>
  The command line parser of \<open>gts/args_parser.cpp\<close>.  The calls that print and end the process are
  values of \<open>exit_with\<close>; the identification of a rule group comes from a counter that is part of
  the parser (in the program it is a static variable that all parsers share).
\<close>

record arg_info =
  ai_group :: string
  ai_iden :: string

record args_parser =
  ap_group :: "arg_info umap"
  ap_flag :: "arg_info umap"
  ap_version :: string
  ap_v :: string
  ap_help_title :: string
  ap_help :: string
  ap_help_ex :: string
  ap_h :: bool
  ap_id_source :: nat

datatype exit_with = Invalid_arguments | Too_many_parameters | Printed string

definition args_parser_new :: "string \<Rightarrow> args_parser" where
  "args_parser_new help_title =
     \<lparr>ap_group = [], ap_flag = [], ap_version = [], ap_v = [], ap_help_title = help_title, ap_help = [],
      ap_help_ex = [], ap_h = False, ap_id_source = 0\<rparr>"

section \<open>Registration\<close>

definition bad_char :: "char \<Rightarrow> bool" where
  "bad_char c = (schar c < 33 \<or> schar c = 61 \<or> schar c = 92 \<or> 126 < schar c)"

text \<open>The loop of \<open>check\<close> runs from index 1 to the last but one.\<close>

definition arg_check :: "string \<Rightarrow> bool" where
  "arg_check str = (str \<noteq> [] \<and> list_all (\<lambda>i. \<not> bad_char (str ! i)) [1..<length str - 1])"

definition add_rule :: "string \<Rightarrow> string \<Rightarrow> arg_info umap \<Rightarrow> string \<Rightarrow> arg_info umap" where
  "add_rule buf i cache arg0 =
     (let arg = str_trimmed arg0
      in if \<not> arg_check arg \<or> arg = ''--'' then cache
         else if length arg = 1 then
           (if arg \<noteq> ''-'' then fst (umap_emplace cache arg \<lparr>ai_group = buf, ai_iden = (if i = [] then arg else i)\<rparr>)
            else cache)
         else fst (umap_emplace cache arg \<lparr>ai_group = buf, ai_iden = (if i = [] then arg else i)\<rparr>))"

definition add_help :: "string \<Rightarrow> string \<Rightarrow> string" where
  "add_help r d = ''    '' @ r @ '' :'' @ [LF] @ ''        '' @ d @ [LF, LF]"

definition add_group :: "args_parser \<Rightarrow> string \<Rightarrow> string \<Rightarrow> string \<Rightarrow> args_parser" where
  "add_group p r d i =
     p\<lparr>ap_group := fold (\<lambda>arg c. add_rule (dec (ap_id_source p)) i c arg) (splitted r '','' True) (ap_group p),
       ap_help := ap_help p @ add_help r d, ap_id_source := ap_id_source p + 1\<rparr>"

definition add_flag :: "args_parser \<Rightarrow> string \<Rightarrow> string \<Rightarrow> string \<Rightarrow> args_parser" where
  "add_flag p r d i =
     p\<lparr>ap_flag := fold (\<lambda>arg c. add_rule (dec (ap_id_source p)) i c arg) (splitted r '','' True) (ap_flag p),
       ap_help := ap_help p @ add_help r d, ap_id_source := ap_id_source p + 1\<rparr>"

definition set_help_title :: "args_parser \<Rightarrow> string \<Rightarrow> args_parser" where
  "set_help_title p t = p\<lparr>ap_help_title := t\<rparr>"

definition set_version :: "args_parser \<Rightarrow> string \<Rightarrow> args_parser" where
  "set_version p d = p\<lparr>ap_version := d\<rparr>"

definition set_v :: "args_parser \<Rightarrow> string \<Rightarrow> args_parser" where
  "set_v p d = p\<lparr>ap_v := d\<rparr>"

definition enable_h :: "args_parser \<Rightarrow> args_parser" where
  "enable_h p = p\<lparr>ap_h := True\<rparr>"

definition disable_h :: "args_parser \<Rightarrow> args_parser" where
  "disable_h p = p\<lparr>ap_h := False\<rparr>"

definition set_help_extension :: "args_parser \<Rightarrow> string \<Rightarrow> args_parser" where
  "set_help_extension p d = p\<lparr>ap_help_ex := d\<rparr>"

section \<open>Texts\<close>

definition print_version :: "args_parser \<Rightarrow> string" where
  "print_version p = [LF] @ ap_version p @ [LF, LF]"

definition print_v :: "args_parser \<Rightarrow> string" where
  "print_v p = [LF] @ ap_v p @ [LF, LF]"

definition print_help :: "args_parser \<Rightarrow> string" where
  "print_help p =
     [LF] @ (if ap_help_title p \<noteq> [] then ap_help_title p @ [LF, LF] else []) @ ap_help p @
     (if ap_v p = [] then ''    --version:'' else ''    -v, --version:'') @
     [LF] @ ''        Viewing server version.'' @ [LF, LF] @
     (if ap_h p then ''    -h, --help:'' else ''    --help:'') @
     [LF] @ ''        Viewing help.'' @ [LF, LF] @
     (if ap_help_ex p \<noteq> [] then ap_help_ex p @ [LF, LF] else [])"

section \<open>Parsing\<close>

record parsing =
  pa_cache :: "string list"
  pa_result :: "val umap"
  pa_other :: "string list"

definition parsing_new :: parsing where
  "parsing_new = \<lparr>pa_cache = [], pa_result = [], pa_other = []\<rparr>"

text \<open>\<open>group_check_duplication\<close>.\<close>

definition group_check_duplication :: "string \<Rightarrow> parsing \<Rightarrow> exit_with + parsing" where
  "group_check_duplication g s =
     (if g \<in> set (pa_cache s) then Inl Too_many_parameters else Inr (s\<lparr>pa_cache := g # pa_cache s\<rparr>))"

text \<open>Note a value under the identification of a rule, or a word that is no option.\<close>

definition note_value :: "arg_info \<Rightarrow> string \<Rightarrow> parsing \<Rightarrow> exit_with + parsing" where
  "note_value info v s =
     (case group_check_duplication (ai_group info) s of
        Inl e \<Rightarrow> Inl e
      | Inr s1 \<Rightarrow> Inr (s1\<lparr>pa_result := fst (umap_emplace (pa_result s1) (ai_iden info) v)\<rparr>))"

definition note_other :: "string \<Rightarrow> parsing \<Rightarrow> exit_with + parsing" where
  "note_other arg s =
     (case group_check_duplication arg s of
        Inl e \<Rightarrow> Inl e
      | Inr s1 \<Rightarrow> Inr (s1\<lparr>pa_other := pa_other s1 @ [arg]\<rparr>))"

text \<open>The words that end the process; \<open>None\<close>: go on.\<close>

definition special_word :: "args_parser \<Rightarrow> nat \<Rightarrow> string \<Rightarrow> exit_with option" where
  "special_word p argc arg =
     (if arg = ''-'' \<or> arg = ''--'' then Some Invalid_arguments
      else if arg = ''--version'' then
        (if 2 < argc then Some Too_many_parameters
         else if ap_version p \<noteq> [] then Some (Printed (print_version p))
         else if ap_v p \<noteq> [] then Some (Printed (print_v p))
         else Some Invalid_arguments)
      else if arg = ''-v'' then
        (if ap_v p \<noteq> [] then
           (if 2 < argc then Some Too_many_parameters else Some (Printed (print_v p)))
         else None)
      else if arg = ''--help'' then
        (if 2 < argc then Some Too_many_parameters
         else if ap_help p \<noteq> [] then Some (Printed (print_help p))
         else Some Invalid_arguments)
      else if arg = ''-h'' then
        (if ap_h p then
           (if 2 < argc then Some Too_many_parameters else Some (Printed (print_help p)))
         else None)
      else None)"

text \<open>A group takes the next word, which must not be an option.\<close>

definition take_value :: "args_parser \<Rightarrow> arg_info \<Rightarrow> string list \<Rightarrow> parsing \<Rightarrow> exit_with + parsing \<times> string list" where
  "take_value p info rest s =
     (case rest of
        [] \<Rightarrow> Inl Invalid_arguments
      | v # rest' \<Rightarrow>
          if umap_find (ap_group p) v \<noteq> None \<or> umap_find (ap_flag p) v \<noteq> None then Inl Invalid_arguments
          else map_sum id (\<lambda>s1. (s1, rest')) (note_value info v s))"

definition is_letter :: "char \<Rightarrow> bool" where
  "is_letter c = (\<not> (schar c < 65 \<or> (90 < schar c \<and> schar c < 97) \<or> 122 < schar c))"

text \<open>The letters of a bundle but the last.\<close>

fun bundle_flags :: "args_parser \<Rightarrow> string \<Rightarrow> string \<Rightarrow> parsing \<Rightarrow> exit_with + parsing" where
  "bundle_flags p arg [] s = Inr s"
| "bundle_flags p arg (c # cs) s =
     (case (case umap_find (ap_flag p) [CHR ''-'', c] of
              None \<Rightarrow> note_other arg s
            | Some info \<Rightarrow> note_value info (ai_iden info) s) of
        Inl e \<Rightarrow> Inl e
      | Inr s1 \<Rightarrow> bundle_flags p arg cs s1)"

definition bundle_last :: "args_parser \<Rightarrow> string \<Rightarrow> char \<Rightarrow> string list \<Rightarrow> parsing \<Rightarrow> exit_with + parsing \<times> string list" where
  "bundle_last p arg c rest s =
     (case umap_find (ap_flag p) [CHR ''-'', c] of
        Some info \<Rightarrow> map_sum id (\<lambda>s1. (s1, rest)) (note_value info (ai_iden info) s)
      | None \<Rightarrow>
          (case umap_find (ap_group p) [CHR ''-'', c] of
             Some info \<Rightarrow> take_value p info rest s
           | None \<Rightarrow> Inr (s\<lparr>pa_other := pa_other s @ [arg]\<rparr>, rest)))"

text \<open>One word: the state and the words that are left.\<close>

definition parse_word ::
  "args_parser \<Rightarrow> nat \<Rightarrow> string \<Rightarrow> string list \<Rightarrow> parsing \<Rightarrow> exit_with + parsing \<times> string list" where
  "parse_word p argc arg rest s =
     (let keep = map_sum id (\<lambda>s1. (s1, rest))
      in case special_word p argc arg of
           Some e \<Rightarrow> Inl e
         | None \<Rightarrow>
             (case umap_find (ap_group p) arg of
                Some info \<Rightarrow> take_value p info rest s
              | None \<Rightarrow>
                  (case umap_find (ap_flag p) arg of
                     Some info \<Rightarrow> keep (note_value info (ai_iden info) s)
                   | None \<Rightarrow>
                       if length arg \<le> 2 then keep (note_other arg s)
                       else (case str_find ''='' arg of
                               Some pos \<Rightarrow>
                                 (case umap_find (ap_group p) (substr arg 0 pos) of
                                    None \<Rightarrow> keep (note_other arg s)
                                  | Some info \<Rightarrow> keep (note_value info (drop (pos + 1) arg) s))
                             | None \<Rightarrow>
                                 if hd arg \<noteq> CHR ''-'' then keep (note_other arg s)
                                 else if \<not> list_all is_letter (tl arg) then keep (note_other arg s)
                                 else (case bundle_flags p arg (butlast (tl arg)) s of
                                         Inl e \<Rightarrow> Inl e
                                       | Inr s1 \<Rightarrow> bundle_last p arg (last arg) rest s1)))))"

lemma take_value_rest: "take_value p info rest s = Inr (s', rest') \<Longrightarrow> length rest' \<le> length rest"
  by (auto simp: take_value_def split: list.splits if_splits)

lemma parse_word_rest: "parse_word p argc arg rest s = Inr (s', rest') \<Longrightarrow> length rest' \<le> length rest"
  by (auto simp: parse_word_def bundle_last_def Let_def dest: take_value_rest
      split: option.splits if_splits sum.splits)

function parse_words :: "args_parser \<Rightarrow> nat \<Rightarrow> string list \<Rightarrow> parsing \<Rightarrow> exit_with + parsing" where
  "parse_words p argc [] s = Inr s"
| "parse_words p argc (arg # rest) s =
     (case parse_word p argc arg rest s of
        Inl e \<Rightarrow> Inl e
      | Inr (s1, rest1) \<Rightarrow> parse_words p argc rest1 s1)"
  by pat_completeness auto
termination
  by (relation "measure (\<lambda>(p, argc, ws, s). length ws)") (auto dest!: parse_word_rest)

text \<open>\<open>parsing(argc, argv, other)\<close>; \<open>argv\<close> without the name of the program.\<close>

definition parsing_other :: "args_parser \<Rightarrow> string list \<Rightarrow> exit_with + val umap \<times> string list" where
  "parsing_other p argv =
     map_sum id (\<lambda>s. (pa_result s, pa_other s)) (parse_words p (length argv + 1) argv parsing_new)"

definition parsing_all :: "args_parser \<Rightarrow> string list \<Rightarrow> exit_with + val umap" where
  "parsing_all p argv =
     (case parsing_other p argv of
        Inl e \<Rightarrow> Inl e
      | Inr (res, other) \<Rightarrow> if other \<noteq> [] then Inl Invalid_arguments else Inr res)"

definition args_has :: "val umap \<Rightarrow> string \<Rightarrow> bool" where
  "args_has args key = (umap_find args key \<noteq> None)"

section \<open>Options that are written are read back\<close>

datatype opt = Flag string | Valued string string | Equals string string

fun opt_words :: "opt \<Rightarrow> string list" where
  "opt_words (Flag r) = [r]"
| "opt_words (Valued r v) = [r, v]"
| "opt_words (Equals r v) = [r @ ''='' @ v]"

text \<open>What an option means: its group and its identification with the value.\<close>

fun opt_meaning :: "args_parser \<Rightarrow> opt \<Rightarrow> (arg_info \<times> string) option" where
  "opt_meaning p (Flag r) =
     (case umap_find (ap_group p) r of
        Some _ \<Rightarrow> None
      | None \<Rightarrow> map_option (\<lambda>info. (info, ai_iden info)) (umap_find (ap_flag p) r))"
| "opt_meaning p (Valued r v) =
     (if umap_find (ap_group p) v \<noteq> None \<or> umap_find (ap_flag p) v \<noteq> None then None
      else map_option (\<lambda>info. (info, v)) (umap_find (ap_group p) r))"
| "opt_meaning p (Equals r v) =
     (if CHR ''='' \<in> set r \<or> length r < 2 \<or> umap_find (ap_group p) (r @ ''='' @ v) \<noteq> None \<or>
         umap_find (ap_flag p) (r @ ''='' @ v) \<noteq> None then None
      else map_option (\<lambda>info. (info, v)) (umap_find (ap_group p) r))"

definition ordinary :: "args_parser \<Rightarrow> string \<Rightarrow> bool" where
  "ordinary p w = (\<forall>argc. special_word p argc w = None)"

definition opt_ok :: "args_parser \<Rightarrow> opt \<Rightarrow> bool" where
  "opt_ok p ob = (opt_meaning p ob \<noteq> None \<and> ordinary p (hd (opt_words ob)))"

definition opts_groups :: "args_parser \<Rightarrow> opt list \<Rightarrow> string list" where
  "opts_groups p os = map (\<lambda>ob. ai_group (fst (the (opt_meaning p ob)))) os"

definition opts_values :: "args_parser \<Rightarrow> opt list \<Rightarrow> (string \<times> string) list" where
  "opts_values p os = map (\<lambda>ob. case the (opt_meaning p ob) of (info, v) \<Rightarrow> (ai_iden info, v)) os"

lemma parse_opt:
  assumes "opt_ok p ob" and "ai_group (fst (the (opt_meaning p ob))) \<notin> set (pa_cache s)"
  shows "parse_words p argc (opt_words ob @ rest) s =
    (let (info, v) = the (opt_meaning p ob)
     in parse_words p argc rest
          (s\<lparr>pa_cache := ai_group info # pa_cache s,
             pa_result := fst (umap_emplace (pa_result s) (ai_iden info) v)\<rparr>))"
proof -
  have sp: "special_word p argc (hd (opt_words ob)) = None" using assms(1) by (simp add: opt_ok_def ordinary_def)
  show ?thesis
  proof (cases ob)
    case (Flag r)
    then obtain info where m: "umap_find (ap_group p) r = None" "umap_find (ap_flag p) r = Some info"
      using assms(1) by (auto simp: opt_ok_def split: option.splits)
    then have "parse_word p argc r rest s = map_sum id (\<lambda>s1. (s1, rest)) (note_value info (ai_iden info) s)"
      using sp Flag by (simp add: parse_word_def)
    with Flag m assms(2) show ?thesis by (simp add: note_value_def group_check_duplication_def)
  next
    case (Valued r v)
    then obtain info where m: "umap_find (ap_group p) r = Some info" "umap_find (ap_group p) v = None"
      "umap_find (ap_flag p) v = None"
      using assms(1) by (auto simp: opt_ok_def split: if_splits)
    then have "parse_word p argc r (v # rest) s = map_sum id (\<lambda>s1. (s1, rest)) (note_value info v s)"
      using sp Valued by (simp add: parse_word_def take_value_def)
    with Valued m assms(2) show ?thesis by (simp add: note_value_def group_check_duplication_def)
  next
    case (Equals r v)
    then have r: "CHR ''='' \<notin> set r" "2 \<le> length r" using assms(1) by (auto simp: opt_ok_def split: if_splits)
    let ?w = "r @ ''='' @ v"
    have f: "str_find ''='' ?w = Some (length r)" using r(1) by (induction r) auto
    obtain info where m: "umap_find (ap_group p) r = Some info" "umap_find (ap_group p) ?w = None"
      "umap_find (ap_flag p) ?w = None"
      using assms(1) Equals by (auto simp: opt_ok_def split: if_splits)
    have cut: "substr ?w 0 (length r) = r" "drop (length r + 1) ?w = v" "\<not> length ?w \<le> 2"
      using r(2) by (simp_all add: substr_def)
    have sp': "special_word p argc ?w = None" using sp Equals by simp
    have "parse_word p argc ?w rest s = map_sum id (\<lambda>s1. (s1, rest)) (note_value info v s)"
      unfolding parse_word_def sp' m option.case Let_def f cut(1,2) if_not_P [OF cut(3)] by simp
    moreover have "the (opt_meaning p ob) = (info, v)" using Equals assms(1) m by (simp add: opt_ok_def split: if_splits)
    ultimately show ?thesis
      using assms(2) Equals by (simp add: note_value_def group_check_duplication_def)
  qed
qed

lemma parse_opts:
  assumes "list_all (opt_ok p) os" "distinct (opts_groups p os)"
  shows "parsing_other p (concat (map opt_words os)) =
    Inr (fold (\<lambda>(k, v) m. fst (umap_emplace m k v)) (opts_values p os) [], [])"
proof -
  have "parse_words p argc (concat (map opt_words os)) s =
      Inr (s\<lparr>pa_cache := rev (opts_groups p os) @ pa_cache s,
             pa_result := fold (\<lambda>(k, v) m. fst (umap_emplace m k v)) (opts_values p os) (pa_result s)\<rparr>)"
    if "list_all (opt_ok p) os" "distinct (opts_groups p os)" "set (opts_groups p os) \<inter> set (pa_cache s) = {}"
    for argc s os
    using that
  proof (induction os arbitrary: s)
    case (Cons ob os)
    obtain info v where m: "opt_meaning p ob = Some (info, v)" using Cons.prems by (auto simp: opt_ok_def)
    let ?s = "s\<lparr>pa_cache := ai_group info # pa_cache s, pa_result := fst (umap_emplace (pa_result s) (ai_iden info) v)\<rparr>"
    have "parse_words p argc (opt_words ob @ concat (map opt_words os)) s = parse_words p argc (concat (map opt_words os)) ?s"
      using parse_opt [of p ob s argc "concat (map opt_words os)"] Cons.prems m by (simp add: opts_groups_def)
    with Cons.IH [of ?s] Cons.prems m show ?case by (auto simp: opts_groups_def opts_values_def)
  qed (simp add: opts_groups_def opts_values_def)
  from this [OF assms, of parsing_new] show ?thesis by (simp add: parsing_other_def parsing_new_def)
qed

text \<open>C16: Command lines are read back.  A list of registered options, each written as a flag, as a
  rule followed by its value or as \<open>rule=value\<close>, no two of the same group, is parsed into exactly
  their values under the identifications of the rules, in order, and no word is left over.\<close>

theorem options_read_back:
  assumes "list_all (opt_ok p) os" and "distinct (opts_groups p os)"
  shows "parsing_all p (concat (map opt_words os)) =
    Inr (fold (\<lambda>(k, v) m. fst (umap_emplace m k v)) (opts_values p os) [])"
  using parse_opts [OF assms] by (simp add: parsing_all_def)

section \<open>Bundles of flags\<close>

definition single_flag :: "args_parser \<Rightarrow> char \<Rightarrow> bool" where
  "single_flag p c =
     (is_letter c \<and> umap_find (ap_flag p) [CHR ''-'', c] \<noteq> None \<and> umap_find (ap_group p) [CHR ''-'', c] = None \<and>
      ordinary p [CHR ''-'', c])"

lemma bundle_flags_append:
  "bundle_flags p arg (cs @ ds) s =
     (case bundle_flags p arg cs s of Inl e \<Rightarrow> Inl e | Inr s1 \<Rightarrow> bundle_flags p arg ds s1)"
proof (induction cs arbitrary: s)
  case (Cons c cs)
  show ?case
    by (simp add: Cons.IH split: sum.split)
qed simp

lemma parse_single:
  assumes "single_flag p c"
  shows "parse_words p argc ([CHR ''-'', c] # rest) s =
    (case bundle_flags p arg [c] s of Inl e \<Rightarrow> Inl e | Inr s1 \<Rightarrow> parse_words p argc rest s1)"
proof -
  obtain info where m: "umap_find (ap_flag p) [CHR ''-'', c] = Some info" "umap_find (ap_group p) [CHR ''-'', c] = None"
    "special_word p argc [CHR ''-'', c] = None"
    using assms by (auto simp: single_flag_def ordinary_def)
  then have "parse_word p argc [CHR ''-'', c] rest s = map_sum id (\<lambda>s1. (s1, rest)) (note_value info (ai_iden info) s)"
    by (simp add: parse_word_def)
  with m show ?thesis by (cases "note_value info (ai_iden info) s") simp_all
qed

lemma parse_singles:
  "list_all (single_flag p) cs \<Longrightarrow>
   parse_words p argc (map (\<lambda>c. [CHR ''-'', c]) cs @ rest) s =
     (case bundle_flags p arg cs s of Inl e \<Rightarrow> Inl e | Inr s1 \<Rightarrow> parse_words p argc rest s1)"
proof (induction cs arbitrary: s)
  case (Cons c cs)
  then have "single_flag p c" by simp
  from parse_single [OF this, of argc "map (\<lambda>c. [CHR ''-'', c]) cs @ rest" s arg] Cons
  have "parse_words p argc (map (\<lambda>c. [CHR ''-'', c]) (c # cs) @ rest) s =
      (case bundle_flags p arg [c] s of Inl e \<Rightarrow> Inl e
       | Inr s1 \<Rightarrow> (case bundle_flags p arg cs s1 of Inl e \<Rightarrow> Inl e | Inr s2 \<Rightarrow> parse_words p argc rest s2))"
    by (simp del: bundle_flags.simps cong: sum.case_cong)
  also have "\<dots> = (case bundle_flags p arg ([c] @ cs) s of Inl e \<Rightarrow> Inl e | Inr s1 \<Rightarrow> parse_words p argc rest s1)"
    unfolding bundle_flags_append by (simp split: sum.split del: bundle_flags.simps)
  finally show ?case by simp
qed simp

lemma is_letter_not_equals: "is_letter c \<Longrightarrow> c \<noteq> CHR ''=''"
  by (auto simp: is_letter_def schar_def)

text \<open>A bundle of flags means its letters.  A word \<open>-abc\<close> that is no rule itself and whose letters
  are registered flags is parsed exactly as \<open>-a -b -c\<close>, whatever was parsed before and whatever
  follows, in the errors too.\<close>

theorem bundle_means_flags:
  assumes "2 \<le> length cs" and "list_all (single_flag p) cs" and "special_word p argc (CHR ''-'' # cs) = None"
    and "umap_find (ap_group p) (CHR ''-'' # cs) = None" and "umap_find (ap_flag p) (CHR ''-'' # cs) = None"
  shows "parse_words p argc ((CHR ''-'' # cs) # rest) s =
    parse_words p argc (map (\<lambda>c. [CHR ''-'', c]) cs @ rest) s"
proof -
  let ?arg = "CHR ''-'' # cs"
  have letters: "list_all is_letter cs" using assms(2) by (auto simp: list_all_iff single_flag_def)
  then have "CHR ''='' \<notin> set ?arg" using is_letter_not_equals by (auto simp: list_all_iff)
  then have eq: "str_find ''='' ?arg = None" by (simp add: str_find_char)
  have ne: "cs \<noteq> []" using assms(1) by auto
  then have "single_flag p (last cs)" using assms(2) by (simp add: list_all_iff)
  then have last: "bundle_last p ?arg (last cs) rest s1 = map_sum id (\<lambda>s2. (s2, rest)) (bundle_flags p ?arg [last cs] s1)" for s1
    by (auto simp: single_flag_def bundle_last_def split: sum.split)
  have "parse_word p argc ?arg rest s =
      (case bundle_flags p ?arg (butlast cs) s of Inl e \<Rightarrow> Inl e | Inr s1 \<Rightarrow> bundle_last p ?arg (last cs) rest s1)"
    using assms(1,3-5) letters eq ne by (simp add: parse_word_def cong: sum.case_cong)
  also have "\<dots> = map_sum id (\<lambda>s2. (s2, rest)) (bundle_flags p ?arg (butlast cs @ [last cs]) s)"
    unfolding bundle_flags_append last by (simp split: sum.split del: bundle_flags.simps)
  also have "butlast cs @ [last cs] = cs" using ne by simp
  finally have "parse_words p argc (?arg # rest) s =
      (case bundle_flags p ?arg cs s of Inl e \<Rightarrow> Inl e | Inr s1 \<Rightarrow> parse_words p argc rest s1)"
    by (simp split: sum.split)
  then show ?thesis by (simp only: parse_singles [OF assms(2), of argc rest s ?arg])
qed

section \<open>A parser\<close>

definition sample_parser :: args_parser where
  "sample_parser =
     add_flag (add_flag (add_group (args_parser_new []) ''-f, --file'' ''File.'' ''file'') ''-a'' ''A.'' []) ''-b'' ''B.'' []"

lemma sample_words:
  "splitted ''-f, --file'' '','' True = [''-f'', '' --file'']" "splitted ''-a'' '','' True = [''-a'']"
  "splitted ''-b'' '','' True = [''-b'']"
  by (simp_all add: splitted_char)

lemma sample_trimmed:
  "str_trimmed ''-f'' = ''-f''" "str_trimmed '' --file'' = ''--file''" "str_trimmed ''-a'' = ''-a''"
  "str_trimmed ''-b'' = ''-b''"
  by code_simp+

lemma sample_ids: "dec 0 = ''0''" "dec (Suc 0) = ''1''" "dec (Suc (Suc 0)) = ''2''"
  by code_simp+

lemma sample_checked: "arg_check ''-f''" "arg_check ''--file''" "arg_check ''-a''" "arg_check ''-b''"
  by code_simp+

lemma sample_rules:
  "ap_group sample_parser = [(''-f'', \<lparr>ai_group = ''0'', ai_iden = ''file''\<rparr>), (''--file'', \<lparr>ai_group = ''0'', ai_iden = ''file''\<rparr>)]"
  "ap_flag sample_parser = [(''-a'', \<lparr>ai_group = ''1'', ai_iden = ''-a''\<rparr>), (''-b'', \<lparr>ai_group = ''2'', ai_iden = ''-b''\<rparr>)]"
  by (simp_all add: sample_parser_def args_parser_new_def add_group_def add_flag_def sample_words add_rule_def
      sample_trimmed sample_checked sample_ids umap_emplace_def umap_find_def Let_def)

lemma options_read_back_witness:
  "parsing_all sample_parser [''--file=x'', ''-b''] = Inr [(''file'', ''x''), (''-b'', ''-b'')]"
proof -
  let ?os = "[Equals ''--file'' ''x'', Flag ''-b'']"
  have o: "list_all (opt_ok sample_parser) ?os"
    by (simp add: opt_ok_def ordinary_def special_word_def sample_rules umap_find_def)
  have d: "distinct (opts_groups sample_parser ?os)"
    by (simp add: opts_groups_def sample_rules umap_find_def)
  from options_read_back [OF o d] show ?thesis
    by (simp add: opts_values_def sample_rules umap_find_def umap_emplace_def)
qed

lemma bundle_means_flags_witness:
  "parse_words sample_parser 2 [''-ab''] parsing_new = parse_words sample_parser 2 [''-a'', ''-b''] parsing_new"
proof -
  have f: "list_all (single_flag sample_parser) ''ab''"
    by (simp add: single_flag_def ordinary_def special_word_def sample_rules umap_find_def is_letter_def schar_def)
  have "special_word sample_parser 2 ''-ab'' = None" by (simp add: special_word_def)
  from bundle_means_flags [OF _ f this, of "[]" parsing_new] show ?thesis
    by (simp add: sample_rules umap_find_def)
qed

end
