(* ===== verification/Registration.thy ===== *)
theory Registration
  imports HttpParser
begin

text \<open>
  \<open>gts/web/detail/registration.h\<close>: the tables of request handlers and filters that plugins fill in,
  and the normal forms of the paths they are filed under.  The type of the handlers is a
  parameter.  A registration that ends in \<open>gts_log_fatal\<close> aborts the process: it is \<open>None\<close>.
\<close>

record 'h service =
  sv_class :: "string option"
  sv_method :: "'h option"

type_synonym 'h service_array = "'h service list"

record 'h registry =
  g_path_hash :: "'h service_array umap"
  g_filter_path_map :: "'h service smap"

definition registry_new :: "'h registry" where
  "registry_new = \<lparr>g_path_hash = [], g_filter_path_map = []\<rparr>"

definition service_new :: "'h service" where
  "service_new = \<lparr>sv_class = None, sv_method = None\<rparr>"

definition service_array_new :: "'h service_array" where
  "service_array_new = replicate 8 service_new"

section \<open>The paths\<close>

definition handle_path :: "string \<Rightarrow> string" where
  "handle_path path0 =
     (if path0 = [] then ''/''
      else
        (let path1 = collapse_slashes path0;
             path2 = (if hd path1 \<noteq> CHR ''/'' then ''/'' @ path1 else path1)
         in if 1 < length path2 \<and> last path2 = CHR ''/'' then butlast path2 else path2))"

definition filter_path :: "string \<Rightarrow> string" where
  "filter_path path0 =
     (if path0 = [] then ''/''
      else
        (let path1 = collapse_slashes path0
         in if hd path1 \<noteq> CHR ''/'' then ''/'' @ path1 else path1))"

text \<open>The path of a class, the constructor of \<open>class_\<close>.\<close>

definition class_path :: "string \<Rightarrow> string" where
  "class_path path =
     (if path = ''/'' then path
      else if path = [] then ''/''
      else
        (let path1 = collapse_slashes path;
             path2 = (if last path1 \<noteq> CHR ''/'' then path1 @ ''/'' else path1)
         in if hd path2 \<noteq> CHR ''/'' then ''/'' @ path2 else path2))"

text \<open>\<open>class_::_request_handle_method\<close> and \<open>class_::_filter_method\<close>; the first argument is \<open>m_path\<close>.\<close>

definition class_handle_path :: "string \<Rightarrow> string \<Rightarrow> string" where
  "class_handle_path base path0 =
     (if path0 \<noteq> [] then
        (let path1 = collapse_slashes path0;
             path2 = (if hd path1 = CHR ''/'' then tl path1 else path1);
             path3 = (if path2 \<noteq> [] \<and> last path2 = CHR ''/'' then butlast path2 else path2)
         in base @ path3)
      else butlast base)"

definition class_filter_path :: "string \<Rightarrow> string \<Rightarrow> string" where
  "class_filter_path base path0 =
     (let path1 =
        (if path0 = [] then butlast base
         else
           (let q1 = collapse_slashes path0;
                q2 = (if hd q1 \<noteq> CHR ''/'' then ''/'' @ q1 else q1);
                q3 = (if q2 \<noteq> [] \<and> last q2 = CHR ''/'' then butlast q2 else q2)
            in base @ q3))
      in if path1 = [] \<or> hd path1 \<noteq> CHR ''/'' then ''/'' @ path1 else path1)"

section \<open>The tables\<close>

text \<open>The values the loop variable of \<open>service_array_insert\<close> takes, as methods.\<close>

definition all_methods :: "http_method list" where
  "all_methods = [GET, PUT, POST, HEAD, DELETE, OPTIONS, CONNECT, TRACH]"

definition install :: "string option \<Rightarrow> 'h \<Rightarrow> 'h service \<Rightarrow> 'h service" where
  "install cls h s =
     (case cls of None \<Rightarrow> s | Some c \<Rightarrow> s\<lparr>sv_class := Some c\<rparr>)\<lparr>sv_method := Some h\<rparr>"

fun insert_methods :: "string option \<Rightarrow> 'h \<Rightarrow> int \<Rightarrow> http_method list \<Rightarrow> 'h service_array \<Rightarrow> 'h service_array option" where
  "insert_methods cls h http_method [] method_array = Some method_array"
| "insert_methods cls h http_method (i # rest) method_array =
     (if http_method AND method_value i = 0 then insert_methods cls h http_method rest method_array
      else case method_log2 i of
             None \<Rightarrow> None
           | Some hc \<Rightarrow>
               if sv_method (method_array ! hc) \<noteq> None then None
               else insert_methods cls h http_method rest (method_array[hc := install cls h (method_array ! hc)]))"

definition service_array_insert :: "string option \<Rightarrow> 'h \<Rightarrow> int \<Rightarrow> 'h service_array \<Rightarrow> 'h service_array option" where
  "service_array_insert cls h http_method method_array =
     (if http_method < method_value GET \<or> method_value TRACH < http_method then None
      else insert_methods cls h http_method all_methods method_array)"

fun service_array_inserts :: "string option \<Rightarrow> 'h \<Rightarrow> int list \<Rightarrow> 'h service_array \<Rightarrow> 'h service_array option" where
  "service_array_inserts cls h [] method_array = Some method_array"
| "service_array_inserts cls h (m # ms) method_array =
     (case service_array_insert cls h m method_array of
        None \<Rightarrow> None
      | Some a \<Rightarrow> service_array_inserts cls h ms a)"

text \<open>What both \<open>_request_handle_method\<close> and both \<open>_filter_method\<close> do with the path.\<close>

definition add_handler :: "string option \<Rightarrow> string \<Rightarrow> 'h \<Rightarrow> int list \<Rightarrow> 'h registry \<Rightarrow> 'h registry option" where
  "add_handler cls path h methods reg =
     (let hash = fst (umap_emplace (g_path_hash reg) path service_array_new)
      in case umap_find hash path of
           None \<Rightarrow> None
         | Some a \<Rightarrow>
             map_option (\<lambda>a'. reg\<lparr>g_path_hash := umap_put hash path a'\<rparr>) (service_array_inserts cls h methods a))"

definition add_filter :: "string option \<Rightarrow> string \<Rightarrow> 'h \<Rightarrow> 'h registry \<Rightarrow> 'h registry option" where
  "add_filter cls path h reg =
     (case map_emplace std_less (g_filter_path_map reg) path service_new of
        (m, inserted) \<Rightarrow>
          if \<not> inserted then None
          else Some (reg\<lparr>g_filter_path_map := map_put std_less m path (install cls h service_new)\<rparr>))"

definition request_handle_method :: "string \<Rightarrow> 'h \<Rightarrow> int list \<Rightarrow> 'h registry \<Rightarrow> 'h registry option" where
  "request_handle_method path h methods reg = add_handler None (handle_path path) h methods reg"

definition filter_method :: "string \<Rightarrow> 'h \<Rightarrow> 'h registry \<Rightarrow> 'h registry option" where
  "filter_method path h reg = add_filter None (filter_path path) h reg"

definition class_request_handle_method ::
  "string \<Rightarrow> string \<Rightarrow> string \<Rightarrow> 'h \<Rightarrow> int list \<Rightarrow> 'h registry \<Rightarrow> 'h registry option" where
  "class_request_handle_method cls cpath path h methods reg =
     add_handler (Some cls) (class_handle_path (class_path cpath) path) h methods reg"

definition class_filter_method ::
  "string \<Rightarrow> string \<Rightarrow> string \<Rightarrow> 'h \<Rightarrow> 'h registry \<Rightarrow> 'h registry option" where
  "class_filter_method cls cpath path h reg =
     add_filter (Some cls) (class_filter_path (class_path cpath) path) h reg"

section \<open>Paths as lists of names\<close>

text \<open>Reference: the names between the slashes, and the text of a list of names.\<close>

definition segments :: "string \<Rightarrow> string list" where
  "segments s = filter (\<lambda>p. p \<noteq> []) (pieces (CHR ''/'') s)"

definition rooted :: "string list \<Rightarrow> string" where
  "rooted ns = concat (map (\<lambda>n. ''/'' @ n) ns)"

lemma segments_Nil [simp]: "segments [] = []"
  by (simp add: segments_def)

lemma segments_slash [simp]: "segments (CHR ''/'' # s) = segments s"
  by (simp add: segments_def)

lemma segments_char:
  "c \<noteq> CHR ''/'' \<Longrightarrow>
   segments (c # s) = (if s = [] \<or> hd s = CHR ''/'' then [c] # segments s else (c # hd (segments s)) # tl (segments s))"
  by (cases s; cases "pieces (CHR ''/'') (tl s)") (auto simp: segments_def)

lemma segments_name: "s \<noteq> [] \<Longrightarrow> hd s \<noteq> CHR ''/'' \<Longrightarrow> segments s \<noteq> []"
  by (cases s) (auto simp: segments_char)

lemma segments_append_slash: "segments (a @ CHR ''/'' # b) = segments a @ segments b"
proof (induction a)
  case (Cons c a)
  show ?case
  proof (cases "c = CHR ''/''")
    case False
    have "segments (a @ CHR ''/'' # b) = segments a @ segments b" by (rule Cons)
    with False segments_name [of a] show ?thesis by (cases a) (auto simp: segments_char)
  qed (simp add: Cons)
qed simp

lemma segments_free: "n \<in> set (segments s) \<Longrightarrow> n \<noteq> [] \<and> CHR ''/'' \<notin> set n"
  by (auto simp: segments_def dest: pieces_free)

lemma segments_empty_iff: "segments s = [] \<longleftrightarrow> set s \<subseteq> {CHR ''/''}"
proof (induction s)
  case (Cons c s)
  then show ?case by (cases "c = CHR ''/''") (auto simp: segments_char)
qed simp

lemma segments_empty_last: "segments s = [] \<Longrightarrow> s \<noteq> [] \<Longrightarrow> last s = CHR ''/''"
  unfolding segments_empty_iff using last_in_set by blast

lemma segments_collapse [simp]: "segments (collapse_slashes s) = segments s"
proof (induction s rule: collapse_slashes.induct)
  case (3 a b s)
  have "hd (collapse_slashes (b # s)) = b" "collapse_slashes (b # s) \<noteq> []"
    using collapse_hd [of "b # s"] by auto
  with 3 show ?case by (cases "a = CHR ''/''") (auto simp: segments_char)
qed auto

lemma rooted_simps [simp]: "rooted [] = []" "rooted (n # ns) = CHR ''/'' # n @ rooted ns"
  "rooted (ms @ ns) = rooted ms @ rooted ns"
  by (simp_all add: rooted_def)

lemma rooted_eq_Nil [simp]: "(rooted ns = []) = (ns = [])"
  by (cases ns) auto

lemma segments_rooted: "list_all (\<lambda>n. n \<noteq> [] \<and> CHR ''/'' \<notin> set n) ns \<Longrightarrow> segments (rooted ns) = ns"
proof (induction ns rule: rev_induct)
  case (snoc n ns)
  have n: "segments n = [n]" using snoc.prems by (simp add: segments_def pieces_no_sep)
  have "rooted (ns @ [n]) = rooted ns @ CHR ''/'' # n" by simp
  then have "segments (rooted (ns @ [n])) = segments (rooted ns) @ segments n"
    by (simp only: segments_append_slash)
  with snoc n show ?case by simp
qed simp

text \<open>Collapsing keeps a leading and a trailing slash.\<close>

lemma collapse_rooted:
  "collapse_slashes s =
     (if s = [] then []
      else if segments s = [] then ''/''
      else (if hd s = CHR ''/'' then rooted (segments s) else tl (rooted (segments s))) @
           (if last s = CHR ''/'' then ''/'' else []))"
proof (induction s rule: collapse_slashes.induct)
  case (3 a b s)
  show ?case
  proof (cases "a = CHR ''/''")
    case a: True
    show ?thesis
    proof (cases "b = CHR ''/''")
      case True
      with a 3 show ?thesis by simp
    next
      case False
      then have "segments (b # s) \<noteq> []" by (simp add: segments_name)
      with a False 3 show ?thesis by (cases "segments (b # s)") auto
    qed
  next
    case a: False
    show ?thesis
    proof (cases "b = CHR ''/''")
      case True
      with a 3 show ?thesis by (cases "segments s") (auto simp: segments_char segments_empty_last)
    next
      case False
      then have "segments (b # s) \<noteq> []" by (simp add: segments_name)
      with a False 3 show ?thesis by (cases "segments (b # s)") (auto simp: segments_char [of a])
    qed
  qed
qed (auto simp: segments_char)

lemma rooted_last: "list_all (\<lambda>n. n \<noteq> [] \<and> CHR ''/'' \<notin> set n) ns \<Longrightarrow> ns \<noteq> [] \<Longrightarrow> last (rooted ns) \<noteq> CHR ''/''"
  by (induction ns rule: rev_induct) (auto dest: last_in_set)

lemma segments_last: "segments s \<noteq> [] \<Longrightarrow> last (rooted (segments s)) \<noteq> CHR ''/''"
  using segments_free by (intro rooted_last) (auto simp: list_all_iff)

lemma segments_last_tl: "segments s \<noteq> [] \<Longrightarrow> last (tl (rooted (segments s))) \<noteq> CHR ''/''"
  using segments_last [of s] segments_free [of _ s] by (cases "segments s") auto

section \<open>The normal forms\<close>

lemma tl_rooted: "ns \<noteq> [] \<Longrightarrow> CHR ''/'' # tl (rooted ns) = rooted ns"
  by (cases ns) auto

lemma hd_rooted: "ns \<noteq> [] \<Longrightarrow> hd (rooted ns) = CHR ''/''"
  by (cases ns) auto

lemma rooted_long: "segments p \<noteq> [] \<Longrightarrow> 1 < length (rooted (segments p))"
  using segments_free [of "hd (segments p)" p] by (cases "segments p") auto

lemma tl_rooted_names: "segments p \<noteq> [] \<Longrightarrow> tl (rooted (segments p)) \<noteq> [] \<and> hd (tl (rooted (segments p))) \<noteq> CHR ''/''"
  using segments_free [of "hd (segments p)" p] by (cases "segments p"; cases "hd (segments p)") auto

text \<open>After the leading slash has been added.\<close>

lemma collapse_with_slash:
  "p \<noteq> [] \<Longrightarrow> (if hd (collapse_slashes p) \<noteq> CHR ''/'' then ''/'' @ collapse_slashes p else collapse_slashes p) =
     (if segments p = [] then ''/'' else rooted (segments p) @ (if last p = CHR ''/'' then ''/'' else []))"
  using tl_rooted_names [of p] by (cases "hd p = CHR ''/''") (auto simp: collapse_rooted tl_rooted hd_rooted)

lemma handle_path_rooted: "handle_path p = (if segments p = [] then ''/'' else rooted (segments p))"
proof (cases "p = []")
  case False
  then show ?thesis
    unfolding handle_path_def Let_def collapse_with_slash [OF False]
    using segments_last [of p] rooted_long [of p] by (auto simp: butlast_append)
qed (simp add: handle_path_def)

lemma filter_path_rooted:
  "filter_path p = (if segments p = [] then ''/'' else rooted (segments p) @ (if last p = CHR ''/'' then ''/'' else []))"
proof (cases "p = []")
  case False
  then show ?thesis unfolding filter_path_def Let_def collapse_with_slash [OF False] by simp
qed (simp add: filter_path_def)

lemma class_path_rooted: "class_path p = rooted (segments p) @ ''/''"
proof -
  have "p \<noteq> [] \<Longrightarrow> segments p = [] \<Longrightarrow> collapse_slashes p = ''/''" by (simp add: collapse_rooted)
  then show ?thesis
    using segments_last [of p] segments_last_tl [of p] tl_rooted_names [of p]
    by (cases "hd p = CHR ''/''"; cases "last p = CHR ''/''")
      (auto simp: class_path_def Let_def collapse_rooted tl_rooted hd_rooted)
qed

lemma class_handle_path_rooted:
  "class_handle_path (class_path c) p =
     (if p = [] then rooted (segments c)
      else if segments p = [] then rooted (segments c) @ ''/''
      else rooted (segments c @ segments p))"
proof (cases "p = [] \<or> segments p = []")
  case True
  then show ?thesis by (auto simp: class_handle_path_def class_path_rooted collapse_rooted)
next
  case False
  let ?q = "collapse_slashes p"
  have "(if hd ?q = CHR ''/'' then tl ?q else ?q) = tl (rooted (segments p)) @ (if last p = CHR ''/'' then ''/'' else [])"
    using False tl_rooted_names [of p] by (auto simp: collapse_rooted hd_rooted)
  then show ?thesis
    using False tl_rooted_names [of p] segments_last_tl [of p]
    by (auto simp: class_handle_path_def class_path_rooted Let_def butlast_append tl_rooted)
qed

lemma class_filter_path_rooted:
  "class_filter_path (class_path c) p =
     (if p = [] then (if segments c = [] then ''/'' else rooted (segments c))
      else if segments p = [] then rooted (segments c) @ ''/''
      else rooted (segments c) @ ''/'' @ rooted (segments p))"
proof (cases "p = []")
  case True
  then show ?thesis by (auto simp: class_filter_path_def class_path_rooted hd_rooted)
next
  case False
  have "hd (rooted (segments c) @ x) = CHR ''/''" if "x \<noteq> []" "hd x = CHR ''/''" for x
    using that by (cases "segments c") auto
  with False show ?thesis
    unfolding class_filter_path_def class_path_rooted Let_def collapse_with_slash [OF False]
    using segments_last [of p] by (auto simp: butlast_append)
qed

text \<open>Registered paths have one normal form, whatever slashes they are written with.  A handler
  path is filed under its names, each after one slash (the root under a slash alone); a handler of
  a class is filed under the names of the class path and then its own, exactly where the joined
  path would be.\<close>

theorem class_routes_join:
  "handle_path p = (if segments p = [] then ''/'' else rooted (segments p)) \<and> handle_path (handle_path p) = handle_path p \<and>
   (segments p \<noteq> [] \<longrightarrow> class_handle_path (class_path c) p = handle_path (c @ ''/'' @ p)) \<and>
   (segments c \<noteq> [] \<longrightarrow> class_handle_path (class_path c) [] = handle_path c)"
proof -
  have "segments (rooted (segments p)) = segments p"
    using segments_free by (intro segments_rooted) (auto simp: list_all_iff)
  then show ?thesis by (auto simp: class_handle_path_rooted handle_path_rooted segments_append_slash)
qed

lemma class_routes_join_witness:
  "class_handle_path (class_path ''api'') ''//x/'' = handle_path (''api'' @ ''/'' @ ''//x/'') \<and>
   class_handle_path (class_path ''api'') [] = handle_path ''api''"
  using class_routes_join [of "''//x/''" "''api''"] by (simp add: segments_char)

section \<open>The contents of the tables\<close>

definition array_ok :: "'h service_array \<Rightarrow> bool" where
  "array_ok a = (length a = 8)"

definition registry_ok :: "'h registry \<Rightarrow> bool" where
  "registry_ok reg =
     (umap_ok (g_path_hash reg) \<and> map_ok std_less (g_filter_path_map reg) \<and>
      (\<forall>p a. umap_find (g_path_hash reg) p = Some a \<longrightarrow> array_ok a))"

lemma registry_ok_new: "registry_ok registry_new"
  by (simp add: registry_ok_def registry_new_def umap_ok_def map_ok_def umap_find_def)

text \<open>The service that answers a method under a path.\<close>

definition slot :: "http_method \<Rightarrow> nat" where
  "slot m = (case method_log2 m of Some hc \<Rightarrow> hc | None \<Rightarrow> 0)"

definition service_at :: "'h registry \<Rightarrow> string \<Rightarrow> http_method \<Rightarrow> 'h service option" where
  "service_at reg p m = map_option (\<lambda>a. a ! slot m) (umap_find (g_path_hash reg) p)"

definition handler_at :: "'h registry \<Rightarrow> string \<Rightarrow> http_method \<Rightarrow> 'h option" where
  "handler_at reg p m = (case service_at reg p m of None \<Rightarrow> None | Some s \<Rightarrow> sv_method s)"

lemma method_log2_values:
  "method_log2 GET = Some 0" "method_log2 PUT = Some 1" "method_log2 POST = Some 2" "method_log2 HEAD = Some 3"
  "method_log2 DELETE = Some 4" "method_log2 OPTIONS = Some 5" "method_log2 CONNECT = Some 6" "method_log2 TRACH = Some 7"
  by (simp_all add: method_log2_def log2_loop_step log2_loop_done)

lemma slot_values [simp]:
  "slot GET = 0" "slot PUT = 1" "slot POST = 2" "slot HEAD = 3" "slot DELETE = 4" "slot OPTIONS = 5"
  "slot CONNECT = 6" "slot TRACH = 7"
  by (simp_all add: slot_def method_log2_values)

lemma method_log2_slot: "m \<noteq> METHOD_UNKNOWN \<Longrightarrow> method_log2 m = Some (slot m) \<and> slot m < 8"
  by (cases m) (simp_all add: method_log2_values)

lemma slot_inj: "m \<noteq> METHOD_UNKNOWN \<Longrightarrow> n \<noteq> METHOD_UNKNOWN \<Longrightarrow> (slot m = slot n) = (m = n)"
  by (cases m; cases n) simp_all

lemma all_methods_set: "(m \<in> set all_methods) = (m \<noteq> METHOD_UNKNOWN)"
  by (cases m) (simp_all add: all_methods_def)

definition flagged :: "int \<Rightarrow> http_method \<Rightarrow> bool" where
  "flagged f m = (f AND method_value m \<noteq> 0)"

lemma insert_methods_eq:
  assumes "array_ok a" "METHOD_UNKNOWN \<notin> set ms" "distinct ms"
  shows "(insert_methods cls h f ms a = None) = (\<exists>m\<in>set ms. flagged f m \<and> sv_method (a ! slot m) \<noteq> None) \<and>
    (\<forall>a'. insert_methods cls h f ms a = Some a' \<longrightarrow> array_ok a' \<and>
      (\<forall>m. m \<noteq> METHOD_UNKNOWN \<longrightarrow> a' ! slot m = (if m \<in> set ms \<and> flagged f m then install cls h (a ! slot m) else a ! slot m)))"
  using assms
proof (induction ms arbitrary: a)
  case (Cons n ms)
  then have n: "n \<noteq> METHOD_UNKNOWN" "METHOD_UNKNOWN \<notin> set ms" "distinct ms" "n \<notin> set ms" by auto
  show ?case
  proof (cases "flagged f n \<and> sv_method (a ! slot n) = None")
    case True
    let ?a = "a[slot n := install cls h (a ! slot n)]"
    have a: "array_ok ?a" using Cons.prems(1) by (simp add: array_ok_def)
    have nth: "?a ! slot m = (if m = n then install cls h (a ! slot m) else a ! slot m)" if "m \<noteq> METHOD_UNKNOWN" for m
      using Cons.prems(1) n(1) that method_log2_slot [of n] slot_inj [of n m] by (auto simp: array_ok_def nth_list_update)
    have same: "?a ! slot m = a ! slot m" if "m \<in> set ms" for m
      using nth [of m] n that by (metis (full_types))
    have e: "insert_methods cls h f (n # ms) a = insert_methods cls h f ms ?a"
      using True n(1) method_log2_slot [of n] by (simp add: flagged_def)
    have ex: "(\<exists>m\<in>set ms. flagged f m \<and> sv_method (?a ! slot m) \<noteq> None) =
        (\<exists>m\<in>set (n # ms). flagged f m \<and> sv_method (a ! slot m) \<noteq> None)"
      using True by (simp add: same cong: bex_cong)
    note IH = Cons.IH [OF a n(2,3)]
    have "array_ok a' \<and> (\<forall>m. m \<noteq> METHOD_UNKNOWN \<longrightarrow>
        a' ! slot m = (if m \<in> set (n # ms) \<and> flagged f m then install cls h (a ! slot m) else a ! slot m))"
      if "insert_methods cls h f ms ?a = Some a'" for a'
      using IH that True n(4) nth by simp
    with IH show ?thesis unfolding e ex by blast
  next
    case False
    then show ?thesis using Cons.IH [OF Cons.prems(1) n(2,3)] n method_log2_slot [of n] by (auto simp: flagged_def)
  qed
qed simp

lemma array_ok_new: "array_ok service_array_new"
  by (simp add: array_ok_def service_array_new_def)

lemma new_slot: "m \<noteq> METHOD_UNKNOWN \<Longrightarrow> service_array_new ! slot m = service_new"
  using method_log2_slot [of m] by (simp add: service_array_new_def)

lemma install_method [simp]: "sv_method (install cls h s) = Some h"
  by (simp add: install_def split: option.split)

lemma service_array_insert_eq:
  assumes "array_ok a"
  shows "(service_array_insert cls h f a = None) =
      (f < 1 \<or> 0x80 < f \<or> (\<exists>m. m \<noteq> METHOD_UNKNOWN \<and> flagged f m \<and> sv_method (a ! slot m) \<noteq> None))"
    and "service_array_insert cls h f a = Some a' \<Longrightarrow> array_ok a' \<and>
      (\<forall>m. m \<noteq> METHOD_UNKNOWN \<longrightarrow> a' ! slot m = (if flagged f m then install cls h (a ! slot m) else a ! slot m))"
proof -
  have ms: "METHOD_UNKNOWN \<notin> set all_methods" "distinct all_methods" by (simp_all add: all_methods_def)
  note eq = insert_methods_eq [OF assms ms, of cls h f]
  show "(service_array_insert cls h f a = None) =
      (f < 1 \<or> 0x80 < f \<or> (\<exists>m. m \<noteq> METHOD_UNKNOWN \<and> flagged f m \<and> sv_method (a ! slot m) \<noteq> None))"
    using eq by (auto simp: service_array_insert_def all_methods_set)
  assume "service_array_insert cls h f a = Some a'"
  then have "insert_methods cls h f all_methods a = Some a'" by (simp add: service_array_insert_def split: if_splits)
  with eq show "array_ok a' \<and>
      (\<forall>m. m \<noteq> METHOD_UNKNOWN \<longrightarrow> a' ! slot m = (if flagged f m then install cls h (a ! slot m) else a ! slot m))"
    by (simp add: all_methods_set)
qed

text \<open>The array of a path after \<open>emplace\<close>.\<close>

definition array_at :: "'h registry \<Rightarrow> string \<Rightarrow> 'h service_array" where
  "array_at reg p = (case umap_find (g_path_hash reg) p of Some a \<Rightarrow> a | None \<Rightarrow> service_array_new)"

lemma array_at_ok: "registry_ok reg \<Longrightarrow> array_ok (array_at reg p)"
  by (auto simp: array_at_def registry_ok_def array_ok_new split: option.split)

lemma array_at_handler: "m \<noteq> METHOD_UNKNOWN \<Longrightarrow> sv_method (array_at reg p ! slot m) = handler_at reg p m"
  by (simp add: array_at_def handler_at_def service_at_def new_slot service_new_def split: option.split)

lemma add_handler_eq:
  assumes "registry_ok reg"
  shows "add_handler cls p h fs reg =
    map_option (\<lambda>a. reg\<lparr>g_path_hash := umap_put (fst (umap_emplace (g_path_hash reg) p service_array_new)) p a\<rparr>)
      (service_array_inserts cls h fs (array_at reg p))"
proof -
  have ok: "umap_ok (g_path_hash reg)" using assms by (simp add: registry_ok_def)
  have "umap_find (fst (umap_emplace (g_path_hash reg) p service_array_new)) p = Some (array_at reg p)"
    using unordered.lookup_emplace [OF ok, of p service_array_new p]
    by (cases "umap_find (g_path_hash reg) p") (simp_all add: array_at_def)
  then show ?thesis by (simp add: add_handler_def Let_def)
qed

lemma add_handler_find:
  assumes "registry_ok reg" and "service_array_inserts cls h fs (array_at reg p) = Some a" and "array_ok a"
  shows "\<exists>reg'. add_handler cls p h fs reg = Some reg' \<and> registry_ok reg' \<and>
    (\<forall>q. umap_find (g_path_hash reg') q = (if q = p then Some a else umap_find (g_path_hash reg) q)) \<and>
    g_filter_path_map reg' = g_filter_path_map reg"
proof -
  have ok: "umap_ok (g_path_hash reg)" using assms(1) by (simp add: registry_ok_def)
  let ?m = "fst (umap_emplace (g_path_hash reg) p service_array_new)"
  have okm: "umap_ok ?m" by (rule unordered.ok_emplace [OF ok])
  have "umap_find (umap_put ?m p a) q = (if q = p then Some a else umap_find (g_path_hash reg) q)" for q
    using unordered.lookup_put [OF okm, of p a q] unordered.lookup_emplace [OF ok, of p service_array_new q] by simp
  moreover have "umap_ok (umap_put ?m p a)" by (rule unordered.ok_put [OF okm])
  ultimately show ?thesis
    using assms by (simp add: add_handler_eq registry_ok_def)
qed

lemma add_handler_None:
  assumes "registry_ok reg"
  shows "(add_handler cls p h [f] reg = None) =
    (f < 1 \<or> 0x80 < f \<or> (\<exists>m. m \<noteq> METHOD_UNKNOWN \<and> flagged f m \<and> handler_at reg p m \<noteq> None))"
proof -
  have "(add_handler cls p h [f] reg = None) = (service_array_insert cls h f (array_at reg p) = None)"
    by (simp add: add_handler_eq [OF assms] split: option.split)
  then show ?thesis
    unfolding service_array_insert_eq(1) [OF array_at_ok [OF assms]] by (auto simp: array_at_handler)
qed

lemma add_handler_Some:
  assumes "registry_ok reg" and "add_handler cls p h [f] reg = Some reg'"
  shows "registry_ok reg' \<and> g_filter_path_map reg' = g_filter_path_map reg \<and>
    (\<forall>q m. m \<noteq> METHOD_UNKNOWN \<longrightarrow>
       handler_at reg' q m = (if q = p \<and> flagged f m then Some h else handler_at reg q m)) \<and>
    (\<forall>q. (umap_find (g_path_hash reg') q = None) = (q \<noteq> p \<and> umap_find (g_path_hash reg) q = None))"
proof -
  obtain a where a: "service_array_insert cls h f (array_at reg p) = Some a"
    using assms by (auto simp: add_handler_eq split: option.splits)
  note ins = service_array_insert_eq(2) [OF array_at_ok [OF assms(1)] a]
  then obtain reg'' where r: "add_handler cls p h [f] reg = Some reg''" "registry_ok reg''"
    "\<forall>q. umap_find (g_path_hash reg'') q = (if q = p then Some a else umap_find (g_path_hash reg) q)"
    "g_filter_path_map reg'' = g_filter_path_map reg"
    using add_handler_find [OF assms(1), of cls h "[f]" p a] a by auto
  have "handler_at reg' q m = (if q = p \<and> flagged f m then Some h else handler_at reg q m)" if "m \<noteq> METHOD_UNKNOWN" for q m
    using r assms(2) ins that array_at_handler [OF that, of reg p]
    by (cases "q = p") (auto simp: handler_at_def service_at_def)
  with r assms(2) show ?thesis by auto
qed

text \<open>Registering handlers.  Registering a handler under a path for a set of methods, in whatever
  state the registrations before have left the table, aborts exactly when the set is empty, is
  larger than the value of TRACE (so that no other method can be combined with TRACE), or holds a
  method for which the path has a handler already; otherwise exactly the methods of the set under
  the normal form of the path get the handler, every other entry stays, and the table stays
  well-formed.\<close>

theorem handler_registration:
  assumes "registry_ok reg"
  shows "(request_handle_method path h [f] reg = None \<longleftrightarrow>
      f < 1 \<or> 0x80 < f \<or>
      (\<exists>m. m \<noteq> METHOD_UNKNOWN \<and> flagged f m \<and> handler_at reg (handle_path path) m \<noteq> None)) \<and>
    (\<forall>reg'. request_handle_method path h [f] reg = Some reg' \<longrightarrow> registry_ok reg' \<and>
       (\<forall>p m. m \<noteq> METHOD_UNKNOWN \<longrightarrow>
          handler_at reg' p m = (if p = handle_path path \<and> flagged f m then Some h else handler_at reg p m)))"
  using add_handler_None [OF assms] add_handler_Some [OF assms] unfolding request_handle_method_def by blast

lemma handler_registration_witness:
  "request_handle_method ''/a'' (1 :: nat) [0x81] registry_new = None \<and>
   (\<exists>reg. request_handle_method ''//a/'' (1 :: nat) [3] registry_new = Some reg \<and> handler_at reg ''/a'' PUT = Some 1 \<and>
      handler_at reg ''/a'' POST = None)"
proof -
  have n: "handler_at registry_new p m = (None :: nat option)" for p m
    by (simp add: handler_at_def service_at_def registry_new_def umap_find_def)
  have p: "handle_path ''//a/'' = ''/a''" by (simp add: handle_path_def)
  have x: "request_handle_method ''//a/'' (1 :: nat) [3] registry_new \<noteq> None"
    using handler_registration [OF registry_ok_new, of "''//a/''" "1 :: nat" 3] n by simp
  then obtain reg where reg: "request_handle_method ''//a/'' (1 :: nat) [3] registry_new = Some reg" by blast
  have f: "flagged 3 PUT" "\<not> flagged 3 POST" by (simp_all add: flagged_def)
  have "handler_at reg ''/a'' m = (if flagged 3 m then Some 1 else None)" if "m \<noteq> METHOD_UNKNOWN" for m
    using handler_registration [OF registry_ok_new, of "''//a/''" "1 :: nat" 3] reg n p that by simp
  from this [of PUT] this [of POST] f reg handler_registration [OF registry_ok_new, of "''/a''" "1 :: nat" "0x81"]
  show ?thesis by auto
qed

end
