(* ===== verification/Dispatch.thy ===== *)
theory Dispatch
  imports Registration FileTransfer WebSocket
begin

text \<open>
  How a request is answered: \<open>gts/web/service/service_io.cpp\<close>, \<open>plugins_service.cpp\<close> and \<open>task.cpp\<close>.

  A plugin function is a value of \<open>plugin_method\<close>: its parameter types, whether it returns \<open>bool\<close>, and
  what it does to the response, to the request behind it and to the state \<open>'w\<close> of the plugins, given
  its arguments; \<open>None\<close> is the abort of the process.  Exceptions of plugin functions are not modelled.
  The file system, the configuration, the end points of the connection and the run of a CGI program
  are the fields of \<open>site\<close>.
\<close>

datatype param_type = T_request | T_response | T_socket | T_environments | T_other

type_synonym environments = "val umap"

datatype arg = A_request | A_response | A_socket tcp | A_environments environments

record 'w plugin_method =
  pm_params :: "param_type list"
  pm_bool :: bool
  pm_call :: "arg list \<Rightarrow> response \<Rightarrow> 'w \<Rightarrow> (bool \<times> response \<times> 'w) option"

record 'w service_io =
  url_name :: string
  io_response :: response
  io_world :: 'w
  io_closed :: bool

record 'w site =
  st_registry :: "'w plugin_method registry"
  st_files :: filesys
  st_directory :: "string \<Rightarrow> bool"
  st_mime :: "string \<Rightarrow> string"
  st_now_ms :: nat
  st_hook :: hook
  st_home :: "string option"
  st_root :: string
  st_default_resource :: string
  st_cgi_access :: string
  st_cgi_path :: string
  st_cgi :: "string \<Rightarrow> 'w service_io \<Rightarrow> 'w service_io option"
  st_remote_addr :: string
  st_local_addr :: string
  st_local_port :: nat
  st_rttr_version :: string
  st_gts_version :: string

section \<open>service_io\<close>

abbreviation io_request :: "'w service_io \<Rightarrow> request" where
  "io_request io \<equiv> rs_request (io_response io)"

text \<open>The response of a \<open>service_context\<close>, and the headers the constructor of \<open>service_io\<close> adds to it.\<close>

definition service_context_new :: "request \<Rightarrow> response" where
  "service_context_new r = response_new r hs_ok"

definition service_io_new :: "response \<Rightarrow> 'w \<Rightarrow> 'w service_io" where
  "service_io_new rs w =
     (let r1 = set_header rs ''server'' ''gts3'';
          r2 = (case header_find (m_headers (rs_request r1)) ''origin'' of
                  None \<Rightarrow> r1 | Some v \<Rightarrow> set_header r1 ''access-control-allow-origin'' v);
          r3 = (if m_version (rs_request r2) = ''1.1'' \<and> \<not> m_keep_alive (rs_request r2)
                then set_header r2 ''connection'' ''close'' else r2)
      in \<lparr>url_name = [], io_response = r3, io_world = w, io_closed = False\<rparr>)"

definition return_to_null :: "'w service_io \<Rightarrow> int \<Rightarrow> 'w service_io option" where
  "return_to_null io status =
     (case status_description status of
        None \<Rightarrow> None
      | Some d \<Rightarrow>
          (let body = d @ '' ('' @ int_str status @ '')''
           in case write_response (set_status (set_header (io_response io) ''content-length'' (dec (length body))) status) body of
                None \<Rightarrow> None
              | Some r1 \<Rightarrow>
                  map_option (\<lambda>r. io\<lparr>io_response := r\<rparr>)
                    (if \<not> m_keep_alive (rs_request r1) then rs_close r1 else Some r1)))"

section \<open>plugins_service\<close>

definition check_url :: "string \<Rightarrow> string" where
  "check_url url =
     (if url = [] then ''/'' else if 1 < length url \<and> last url = CHR ''/'' then butlast url else url)"

definition check :: "'w site \<Rightarrow> 'w service_io \<Rightarrow> 'w service_io \<times> 'w plugin_method service_array option" where
  "check st io =
     (let io1 = io\<lparr>url_name := check_url (url_name io)\<rparr>
      in (io1, umap_find (g_path_hash (st_registry st)) (url_name io1)))"

definition exists_plugin :: "'w site \<Rightarrow> 'w service_io \<Rightarrow> 'w service_io \<times> bool" where
  "exists_plugin st io = (case check st io of (io1, a) \<Rightarrow> (io1, a \<noteq> None))"

definition make_envs :: "'w site \<Rightarrow> 'w service_io \<Rightarrow> environments option" where
  "make_envs st io =
     map_option (\<lambda>m.
       [(''REQUEST_METHOD'', m),
        (''QUERY_STRING'', m_parameters_string (io_request io)),
        (''REMOTE_ADDR'', st_remote_addr st),
        (''GATEWAY_INTERFACE'', ''RTTR/'' @ st_rttr_version st),
        (''SERVER_NAME'', st_local_addr st),
        (''SERVER_PORT'', dec (st_local_port st)),
        (''SERVER_PROTOCOL'', ''HTTP/'' @ m_version (io_request io)),
        (''DOCUMENT_ROOT'', st_root st),
        (''SERVER_SOFTWARE'', ''GTS/1.0(GTS/'' @ st_gts_version st @ '')'')])
       (method_string (m_method (io_request io)))"

definition invoke :: "'w plugin_method \<Rightarrow> arg list \<Rightarrow> 'w service_io \<Rightarrow> (bool \<times> 'w service_io) option" where
  "invoke meth args io =
     map_option (\<lambda>(b, r, w). (b, io\<lparr>io_response := r, io_world := w\<rparr>)) (pm_call meth args (io_response io) (io_world io))"

definition invoke_envs ::
  "'w site \<Rightarrow> 'w plugin_method \<Rightarrow> (environments \<Rightarrow> arg list) \<Rightarrow> 'w service_io \<Rightarrow> (bool \<times> 'w service_io) option" where
  "invoke_envs st meth args io =
     (case make_envs st io of None \<Rightarrow> None | Some e \<Rightarrow> invoke meth (args e) io)"

text \<open>The positions of a parameter list are filled by their types.\<close>

definition call_three ::
  "'w site \<Rightarrow> 'w plugin_method \<Rightarrow> param_type list \<Rightarrow> 'w service_io \<Rightarrow> (bool \<times> 'w service_io) option" where
  "call_three st meth ts io =
     (if ts = [T_request, T_response, T_environments] then
        invoke_envs st meth (\<lambda>e. [A_request, A_response, A_environments e]) io
      else if ts = [T_response, T_request, T_environments] then
        invoke_envs st meth (\<lambda>e. [A_response, A_request, A_environments e]) io
      else if ts = [T_response, T_environments, T_request] then
        invoke_envs st meth (\<lambda>e. [A_response, A_environments e, A_request]) io
      else if ts = [T_environments, T_response, T_request] then
        invoke_envs st meth (\<lambda>e. [A_environments e, A_response, A_request]) io
      else if ts = [T_environments, T_request, T_response] then
        invoke_envs st meth (\<lambda>e. [A_environments e, A_request, A_response]) io
      else if ts = [T_request, T_environments, T_response] then
        invoke_envs st meth (\<lambda>e. [A_request, A_environments e, A_response]) io
      else None)"

text \<open>\<open>make_websocket_ptr\<close>: a failed handshake is \<open>Inl\<close>.\<close>

definition websocket :: "'w service_io \<Rightarrow> ('w service_io + 'w service_io \<times> tcp) option" where
  "websocket io =
     map_option (map_sum (\<lambda>(e, r). io\<lparr>io_response := r\<rparr>) (\<lambda>(r, sk). (io\<lparr>io_response := r\<rparr>, sk)))
       (ws_handshake (io_request io) (io_response io) [])"

definition call_two ::
  "'w site \<Rightarrow> 'w plugin_method \<Rightarrow> param_type \<Rightarrow> param_type list \<Rightarrow> 'w service_io \<Rightarrow> (bool \<times> 'w service_io) option" where
  "call_two st meth p1 ts io =
     (let plain = (\<lambda>io1.
            if ts = [T_request, T_response] then invoke meth [A_request, A_response] io1
            else if ts = [T_response, T_request] then invoke meth [A_response, A_request] io1
            else None)
      in if p1 = T_socket then
           (case websocket io of
              None \<Rightarrow> None
            | Some (Inl io1) \<Rightarrow> Some (False, io1)
            | Some (Inr (io1, sk)) \<Rightarrow>
                if ts = [T_socket, T_environments] then invoke_envs st meth (\<lambda>e. [A_socket sk, A_environments e]) io1
                else if ts = [T_environments, T_socket] then invoke_envs st meth (\<lambda>e. [A_environments e, A_socket sk]) io1
                else plain io1)
         else plain io)"

definition call_one :: "'w plugin_method \<Rightarrow> param_type \<Rightarrow> param_type \<Rightarrow> 'w service_io \<Rightarrow> (bool \<times> 'w service_io) option" where
  "call_one meth p1 t0 io =
     (if t0 = p1 then
        (if p1 = T_request then invoke meth [A_request] io
         else if p1 = T_response then invoke meth [A_response] io
         else if p1 = T_socket then
           (case websocket io of
              None \<Rightarrow> None
            | Some (Inl io1) \<Rightarrow> Some (False, io1)
            | Some (Inr (io1, sk)) \<Rightarrow> invoke meth [A_socket sk] io1)
         else None)
      else if t0 = T_socket then Some (False, io)
      else None)"

definition method_call ::
  "'w site \<Rightarrow> 'w plugin_method \<Rightarrow> param_type \<Rightarrow> 'w service_io \<Rightarrow> (bool \<times> 'w service_io) option" where
  "method_call st meth p1 io =
     (case pm_params meth of
        [t0] \<Rightarrow> call_one meth p1 t0 io
      | [t0, t1] \<Rightarrow> call_two st meth p1 [t0, t1] io
      | [t0, t1, t2] \<Rightarrow> call_three st meth [t0, t1, t2] io
      | _ \<Rightarrow> None)"

definition call_filter_one :: "'w site \<Rightarrow> 'w plugin_method service \<Rightarrow> 'w service_io \<Rightarrow> (bool \<times> 'w service_io) option" where
  "call_filter_one st rs io =
     (case sv_method rs of
        None \<Rightarrow> None
      | Some meth \<Rightarrow> if \<not> pm_bool meth then None else method_call st meth T_request io)"

text \<open>The loop over \<open>g_filter_path_map\<close>, in the order of the map.\<close>

definition filter_applies :: "string \<Rightarrow> string \<Rightarrow> bool" where
  "filter_applies url path = (str_starts_with url path \<and> (last path = CHR ''/'' \<longrightarrow> url \<noteq> path))"

fun filter_loop :: "'w site \<Rightarrow> (string \<times> 'w plugin_method service) list \<Rightarrow> 'w service_io \<Rightarrow> (bool \<times> 'w service_io) option" where
  "filter_loop st [] io = Some (False, io)"
| "filter_loop st ((path, rs) # rest) io =
     (if \<not> filter_applies (url_name io) path then filter_loop st rest io
      else case call_filter_one st rs io of
             None \<Rightarrow> None
           | Some (True, io1) \<Rightarrow> Some (True, io1)
           | Some (False, io1) \<Rightarrow> filter_loop st rest io1)"

definition call_filter :: "'w site \<Rightarrow> 'w service_io \<Rightarrow> (bool \<times> 'w service_io) option" where
  "call_filter st io = filter_loop st (g_filter_path_map (st_registry st)) io"

definition wants_websocket :: "request \<Rightarrow> bool" where
  "wants_websocket r =
     (map_option str_to_lower (header_find (m_headers r) hdr_connection) = Some ''upgrade'' \<and>
      map_option str_to_lower (header_find (m_headers r) hdr_upgrade) = Some ''websocket'')"

definition plugins_call :: "'w site \<Rightarrow> 'w service_io \<Rightarrow> (bool \<times> 'w service_io) option" where
  "plugins_call st io0 =
     (case check st io0 of
        (io, None) \<Rightarrow> Some (False, io)
      | (io, Some array) \<Rightarrow>
          (case method_log2 (m_method (io_request io)) of
             None \<Rightarrow> None
           | Some hc \<Rightarrow>
               (case sv_method (array ! hc) of
                  None \<Rightarrow> map_option (Pair True) (return_to_null io hs_method_not_allowed)
                | Some meth \<Rightarrow>
                    (case call_filter st io of
                       None \<Rightarrow> None
                     | Some (True, io1) \<Rightarrow> Some (True, io1)
                     | Some (False, io1) \<Rightarrow>
                         map_option (\<lambda>(b, io2). (True, io2))
                           (method_call st meth (if wants_websocket (io_request io1) then T_socket else T_response) io1)))))"

section \<open>task\<close>

definition path_char :: "char \<Rightarrow> bool" where
  "path_char c = (c = CHR ''/'' \<or> c = CHR 0x5C)"

text \<open>\<open>trimmed_path\<close> and \<open>access_check\<close>; \<open>None\<close> aborts.\<close>

definition trimmed_path :: "string \<Rightarrow> string option" where
  "trimmed_path str =
     (let n = length (takeWhile path_char str)
      in if n = length str then None
         else (let start = n - 1
               in Some (str ! start # takeWhile (\<lambda>c. \<not> path_char c) (drop (start + 1) str))))"

definition access_check :: "string \<Rightarrow> string option" where
  "access_check str =
     (case trimmed_path str of
        None \<Rightarrow> None
      | Some s1 \<Rightarrow>
          (case str_replace s1 [CHR 0x5C] ''/'' of
             None \<Rightarrow> None
           | Some (s2, _) \<Rightarrow>
               (let s3 = (if \<not> str_starts_with s2 ''/'' then ''/'' @ s2 else s2)
                in if s3 = ''/'' then None else Some s3)))"

text \<open>\<open>task::init\<close>: the configured values, \<open>app::absolute_path\<close>, the equality of \<open>fs::path\<close> and the
  resource root to the three settings of the task.\<close>

definition task_init ::
  "(string \<Rightarrow> bool) \<Rightarrow> (string \<Rightarrow> string \<Rightarrow> bool) \<Rightarrow> (string \<Rightarrow> string) \<Rightarrow> string \<Rightarrow> string \<Rightarrow> string \<Rightarrow> string \<Rightarrow>
   (string \<times> string \<times> string) option" where
  "task_init is_dir same_path absolute root resource access cgi =
     (case access_check resource of
        None \<Rightarrow> None
      | Some resource1 \<Rightarrow>
          if is_dir resource1 then None
          else case access_check access of
                 None \<Rightarrow> None
               | Some access1 \<Rightarrow>
                   (let cgi1 = absolute cgi;
                        cgi2 = (if \<not> str_ends_with cgi1 ''/'' then cgi1 @ ''/'' else cgi1)
                    in if same_path cgi2 root then None else Some (resource1, access1, cgi2)))"

text \<open>\<open>TASK_DO_PARSING\<close>; the result tells whether the caller returns at once.\<close>

definition cgi_part :: "'w site \<Rightarrow> 'w service_io \<Rightarrow> (bool \<times> 'w service_io) option" where
  "cgi_part st io =
     (case str_find_from ''/'' (url_name io) 1 of
        None \<Rightarrow> Some (False, io)
      | Some pos \<Rightarrow>
          if substr (url_name io) 0 pos \<noteq> st_cgi_access st then Some (False, io)
          else
            (let tmp = url_name io;
                 io1 = io\<lparr>url_name := st_cgi_path st @ drop (pos + 1) (url_name io)\<rparr>
             in if st_files st (url_name io1) = None then Some (False, io1\<lparr>url_name := tmp\<rparr>)
                else case call_filter st io1 of
                       None \<Rightarrow> None
                     | Some (True, io2) \<Rightarrow> Some (False, io2\<lparr>url_name := tmp\<rparr>)
                     | Some (False, io2) \<Rightarrow> map_option (Pair True) (st_cgi st (url_name io1) io2)))"

definition do_parsing :: "'w site \<Rightarrow> 'w service_io \<Rightarrow> (bool \<times> 'w service_io) option" where
  "do_parsing st io0 =
     (let p = m_path (io_request io0);
          io = io0\<lparr>url_name := (if p = [] then ''/'' else p)\<rparr>
      in case plugins_call st io of
           None \<Rightarrow> None
         | Some (True, io1) \<Rightarrow> Some (True, io1)
         | Some (False, io1) \<Rightarrow> cgi_part st io1)"

definition serve_file :: "'w site \<Rightarrow> 'w service_io \<Rightarrow> 'w service_io option" where
  "serve_file st io =
     map_option (\<lambda>r. io\<lparr>io_response := r\<rparr>)
       (write_file (st_files st) (st_mime st) (st_now_ms st) (st_hook st) (st_root st) (st_home st)
         (io_response io) (url_name io))"

definition CALL_GET :: "'w site \<Rightarrow> 'w service_io \<Rightarrow> 'w service_io option" where
  "CALL_GET st io0 =
     (case do_parsing st io0 of
        None \<Rightarrow> None
      | Some (True, io1) \<Rightarrow> Some io1
      | Some (False, io1) \<Rightarrow>
          (let io2 = (if url_name io1 = ''/'' then io1\<lparr>url_name := st_default_resource st\<rparr> else io1);
               io3 = io2\<lparr>url_name := st_root st @ url_name io2\<rparr>
           in if st_directory st (url_name io3) then return_to_null io3 hs_not_found
              else case call_filter st io3 of
                     None \<Rightarrow> None
                   | Some (True, io4) \<Rightarrow> Some io4
                   | Some (False, io4) \<Rightarrow> serve_file st io4))"

text \<open>\<open>CALL_POST\<close>, \<open>CALL_PUT\<close> and \<open>CALL_DELETE\<close> are the same.\<close>

definition CALL_POST :: "'w site \<Rightarrow> 'w service_io \<Rightarrow> 'w service_io option" where
  "CALL_POST st io0 =
     (case do_parsing st io0 of
        None \<Rightarrow> None
      | Some (True, io1) \<Rightarrow> Some io1
      | Some (False, io1) \<Rightarrow> return_to_null io1 hs_not_implemented)"

definition CALL_PUT :: "'w site \<Rightarrow> 'w service_io \<Rightarrow> 'w service_io option" where
  "CALL_PUT st io0 =
     (case do_parsing st io0 of
        None \<Rightarrow> None
      | Some (True, io1) \<Rightarrow> Some io1
      | Some (False, io1) \<Rightarrow> return_to_null io1 hs_not_implemented)"

definition CALL_DELETE :: "'w site \<Rightarrow> 'w service_io \<Rightarrow> 'w service_io option" where
  "CALL_DELETE st io0 =
     (case do_parsing st io0 of
        None \<Rightarrow> None
      | Some (True, io1) \<Rightarrow> Some io1
      | Some (False, io1) \<Rightarrow> return_to_null io1 hs_not_implemented)"

definition CALL_HEAD :: "'w site \<Rightarrow> 'w service_io \<Rightarrow> 'w service_io option" where
  "CALL_HEAD st io0 =
     (let p = m_path (io_request io0)
      in case exists_plugin st (io0\<lparr>url_name := (if p = [] then ''/'' else p)\<rparr>) of
           (io, True) \<Rightarrow> return_to_null io hs_ok
         | (io, False) \<Rightarrow>
             if (case str_find_from ''/'' (url_name io) 1 of
                   None \<Rightarrow> False
                 | Some pos \<Rightarrow> substr (url_name io) 0 pos = st_cgi_access st \<and>
                     st_files st (st_cgi_path st @ drop (pos + 1) (url_name io)) \<noteq> None)
             then return_to_null io hs_ok
             else if st_files st (st_root st @ url_name io) \<noteq> None then return_to_null io hs_not_found
             else return_to_null io hs_ok)"

definition CALL_OPTIONS :: "'w site \<Rightarrow> 'w service_io \<Rightarrow> 'w service_io option" where
  "CALL_OPTIONS st io = return_to_null io hs_service_unavailable"

definition CALL_CONNECT :: "'w site \<Rightarrow> 'w service_io \<Rightarrow> 'w service_io option" where
  "CALL_CONNECT st io = return_to_null io hs_service_unavailable"

definition CALL_TRACH :: "'w site \<Rightarrow> 'w service_io \<Rightarrow> 'w service_io option" where
  "CALL_TRACH st io = return_to_null io hs_service_unavailable"

text \<open>\<open>m_socket->close(true)\<close>: the connection's socket, which the request holds until it is taken.\<close>

definition io_close :: "'w service_io \<Rightarrow> 'w service_io" where
  "io_close io =
     (case rs_close (io_response io) of None \<Rightarrow> io | Some r \<Rightarrow> io\<lparr>io_response := r\<rparr>)\<lparr>io_closed := True\<rparr>"

definition run_method :: "'w site \<Rightarrow> 'w service_io \<Rightarrow> 'w service_io option" where
  "run_method st io =
     (case m_method (io_request io) of
        GET \<Rightarrow> CALL_GET st io
      | POST \<Rightarrow> CALL_POST st io
      | HEAD \<Rightarrow> CALL_HEAD st io
      | PUT \<Rightarrow> CALL_PUT st io
      | DELETE \<Rightarrow> CALL_DELETE st io
      | OPTIONS \<Rightarrow> CALL_OPTIONS st io
      | CONNECT \<Rightarrow> CALL_CONNECT st io
      | TRACH \<Rightarrow> CALL_TRACH st io
      | METHOD_UNKNOWN \<Rightarrow>
          map_option (\<lambda>r. io\<lparr>io_response := r\<rparr>) (write_default_status (st_hook st) (io_response io) hs_bad_request))"

definition task_run :: "'w site \<Rightarrow> response \<Rightarrow> 'w \<Rightarrow> 'w service_io option" where
  "task_run st context w =
     map_option (\<lambda>io. if \<not> m_keep_alive (io_request io) then io_close io else io)
       (run_method st (service_io_new context w))"

section \<open>Which handler answers\<close>

lemma collapse_id: "str_find ''//'' p = None \<Longrightarrow> collapse_slashes p = p"
proof (induction p rule: collapse_slashes.induct)
  case (3 a b s)
  have n: "str_find ''//'' (b # s) = None" "\<not> (a = CHR ''/'' \<and> b = CHR ''/'')"
    using 3(3) by (auto split: if_splits)
  then show ?case using 3 by auto
qed auto

lemma check_url_handle_path:
  assumes "str_find ''//'' p = None" and "p = [] \<or> hd p = CHR ''/''"
  shows "check_url p = handle_path p"
  using assms by (auto simp: check_url_def handle_path_def collapse_id)

lemma check_found:
  "plugins_call st io = (case umap_find (g_path_hash (st_registry st)) (check_url (url_name io)) of
     None \<Rightarrow> Some (False, io\<lparr>url_name := check_url (url_name io)\<rparr>)
   | Some array \<Rightarrow> plugins_call st io)"
  by (simp add: plugins_call_def check_def Let_def split: option.split)

text \<open>A registered path: the method decides between the handler and the answer 405.\<close>

lemma plugins_call_at:
  assumes "umap_find (g_path_hash (st_registry st)) (check_url (url_name io)) \<noteq> None"
    and "m_method (io_request io) \<noteq> METHOD_UNKNOWN"
  shows "plugins_call st io =
    (let io1 = io\<lparr>url_name := check_url (url_name io)\<rparr>
     in case handler_at (st_registry st) (check_url (url_name io)) (m_method (io_request io)) of
          None \<Rightarrow> map_option (Pair True) (return_to_null io1 hs_method_not_allowed)
        | Some meth \<Rightarrow>
            (case call_filter st io1 of
               None \<Rightarrow> None
             | Some (True, io2) \<Rightarrow> Some (True, io2)
             | Some (False, io2) \<Rightarrow>
                 map_option (\<lambda>(b, io3). (True, io3))
                   (method_call st meth (if wants_websocket (io_request io2) then T_socket else T_response) io2)))"
  using assms method_log2_slot [OF assms(2)]
  by (auto simp: plugins_call_def check_def Let_def handler_at_def service_at_def)

lemma no_filters: "g_filter_path_map (st_registry st) = [] \<Longrightarrow> call_filter st io = Some (False, io)"
  by (simp add: call_filter_def)


section \<open>Filters\<close>

definition matching_filters :: "'w site \<Rightarrow> string \<Rightarrow> (string \<times> 'w plugin_method service) list" where
  "matching_filters st url = filter (\<lambda>f. filter_applies url (fst f)) (g_filter_path_map (st_registry st))"

text \<open>Reference: call the filters of a list until one of them returns true.\<close>

fun run_filters :: "'w site \<Rightarrow> (string \<times> 'w plugin_method service) list \<Rightarrow> 'w service_io \<Rightarrow> (bool \<times> 'w service_io) option" where
  "run_filters st [] io = Some (False, io)"
| "run_filters st ((path, rs) # rest) io =
     (case call_filter_one st rs io of
        None \<Rightarrow> None
      | Some (True, io1) \<Rightarrow> Some (True, io1)
      | Some (False, io1) \<Rightarrow> run_filters st rest io1)"

lemma invoke_url: "invoke meth args io = Some (b, io1) \<Longrightarrow> url_name io1 = url_name io"
  by (auto simp: invoke_def)

lemma websocket_url:
  "websocket io = Some (Inl io1) \<Longrightarrow> url_name io1 = url_name io"
  "websocket io = Some (Inr (io2, sk)) \<Longrightarrow> url_name io2 = url_name io"
  by (auto simp: websocket_def)

lemma invoke_envs_url: "invoke_envs st meth args io = Some (b, io1) \<Longrightarrow> url_name io1 = url_name io"
  by (auto simp: invoke_envs_def dest: invoke_url split: option.splits)

lemmas call_urls = invoke_url invoke_envs_url websocket_url

lemma call_three_url: "call_three st meth ts io = Some (b, io1) \<Longrightarrow> url_name io1 = url_name io"
  by (simp add: call_three_def split: if_splits) (auto dest: call_urls)

lemma call_two_url: "call_two st meth p1 ts io = Some (b, io1) \<Longrightarrow> url_name io1 = url_name io"
  by (auto simp: call_two_def Let_def dest!: call_urls split: if_splits option.splits sum.splits)

lemma call_one_url: "call_one meth p1 t0 io = Some (b, io1) \<Longrightarrow> url_name io1 = url_name io"
  by (auto simp: call_one_def dest!: call_urls split: if_splits option.splits sum.splits)

lemma method_call_url: "method_call st meth p1 io = Some (b, io1) \<Longrightarrow> url_name io1 = url_name io"
  by (auto simp: method_call_def dest: call_one_url call_two_url call_three_url split: list.splits)

lemma call_filter_one_url: "call_filter_one st rs io = Some (b, io1) \<Longrightarrow> url_name io1 = url_name io"
  by (auto simp: call_filter_one_def dest: method_call_url split: option.splits if_splits)

lemma filter_loop_run:
  "filter_loop st fs io = run_filters st (filter (\<lambda>f. filter_applies (url_name io) (fst f)) fs) io"
proof (induction fs arbitrary: io)
  case (Cons p fs)
  obtain path rs where p: "p = (path, rs)" by (cases p)
  show ?case
  proof (cases "call_filter_one st rs io")
    case (Some r)
    then obtain b io1 where r: "call_filter_one st rs io = Some (b, io1)" by (cases r) simp
    with Cons.IH [of io1] Cons.IH [of io] call_filter_one_url [OF r] p show ?thesis by (cases b) auto
  qed (use Cons.IH [of io] p in auto)
qed simp

lemma prefix_less_eq: "prefix p q \<Longrightarrow> p \<le> (q :: string)"
  proof (induction p arbitrary: q)
  case (Cons c p)
  then show ?case by (cases q) auto
qed simp

lemma prefixes_ordered: "prefix p u \<Longrightarrow> prefix q u \<Longrightarrow> p < q \<Longrightarrow> strict_prefix p (q :: string)"
  using prefix_same_cases [of p u q] prefix_less_eq [of q p] by (auto simp: strict_prefix_def)

text \<open>C27: The order of the filters.  Whatever filters are registered, those whose path applies to the
  url are called from the outermost path to the innermost (each path is a proper prefix of the
  next), each at most once, until one returns true; the others are not called.\<close>

theorem filters_outside_in:
  assumes "registry_ok (st_registry st)"
  shows "sorted_wrt (\<lambda>f g. strict_prefix (fst f) (fst g)) (matching_filters st url) \<and>
    (\<forall>f. f \<in> set (matching_filters st url) \<longleftrightarrow>
       f \<in> set (g_filter_path_map (st_registry st)) \<and> prefix (fst f) url \<and> (last (fst f) = CHR ''/'' \<longrightarrow> fst f \<noteq> url)) \<and>
    call_filter st io = run_filters st (matching_filters st (url_name io)) io"
proof -
  let ?fs = "g_filter_path_map (st_registry st)"
  have "sorted_wrt (\<lambda>f g. fst f < fst g) ?fs"
    using assms by (simp add: registry_ok_def map_ok_def sorted_wrt_map std_less_norm)
  then have "sorted_wrt (\<lambda>f g. fst f < fst g) (matching_filters st url)"
    unfolding matching_filters_def by (rule sorted_wrt_filter)
  then have "sorted_wrt (\<lambda>f g. strict_prefix (fst f) (fst g)) (matching_filters st url)"
    by (rule sorted_wrt_mono_rel [rotated])
      (auto simp: matching_filters_def filter_applies_def str_starts_with_prefix intro: prefixes_ordered)
  moreover have "f \<in> set (matching_filters st url) \<longleftrightarrow>
      f \<in> set ?fs \<and> prefix (fst f) url \<and> (last (fst f) = CHR ''/'' \<longrightarrow> fst f \<noteq> url)" for f
    by (cases f) (auto simp: matching_filters_def filter_applies_def str_starts_with_prefix)
  ultimately show ?thesis by (simp add: call_filter_def filter_loop_run matching_filters_def)
qed

text \<open>Filters of classes.\<close>

lemma filter_map_ins: "\<not> P k \<Longrightarrow> filter (\<lambda>f. P (fst f)) (map_ins lt m k v) = filter (\<lambda>f. P (fst f)) m"
  by (induction lt m k v rule: map_ins.induct) auto

lemma filter_map_put:
  "\<not> P k \<Longrightarrow> filter (\<lambda>f. P (fst f)) (map_put std_less m k v) = filter (\<lambda>f. P (fst f)) m"
proof -
  assume k: "\<not> P k"
  have "filter (\<lambda>f. P (fst f)) (map (\<lambda>(q, w). if same_key std_less q k then (q, v) else (q, w)) m) = filter (\<lambda>f. P (fst f)) m"
    using k by (induction m) (auto simp: ordered.same_key_norm split: if_splits)
  then show ?thesis by (simp add: map_put_def filter_map_ins [of P, OF k] split: option.split)
qed

lemma add_filter_elsewhere:
  assumes "add_filter cls path h reg = Some reg'" and "\<not> P path"
  shows "filter (\<lambda>f. P (fst f)) (g_filter_path_map reg') = filter (\<lambda>f. P (fst f)) (g_filter_path_map reg)"
proof -
  have "fst (map_emplace std_less (g_filter_path_map reg) path service_new) = map_ins std_less (g_filter_path_map reg) path service_new"
    if "snd (map_emplace std_less (g_filter_path_map reg) path service_new)"
    using that by (simp add: map_emplace_def split: option.splits)
  then show ?thesis
    using assms(1)
    by (auto simp: add_filter_def filter_map_put [of P, OF assms(2)] filter_map_ins [of P, OF assms(2)]
        split: prod.splits if_splits)
qed

lemma prefix_find: "prefix p u \<Longrightarrow> str_find pat p \<noteq> None \<Longrightarrow> str_find pat u \<noteq> None"
  using str_find_append_Some by (auto simp: prefix_def)

lemma rooted_double:
  assumes "segments p \<noteq> []" shows "str_find ''//'' (rooted ns @ ''/'' @ rooted (segments p)) \<noteq> None"
proof -
  obtain n ms where "segments p = n # ms" using assms by (cases "segments p") auto
  then have "rooted ns @ ''/'' @ rooted (segments p) = rooted ns @ ''//'' @ (n @ rooted ms)" by simp
  then show ?thesis using str_find_append_pat [of "''//''" "rooted ns" "n @ rooted ms"] by auto
qed

text \<open>A filter that a class registers under a path of its own is never called: its path is filed
  with two slashes in a row, and no url of a request has them.\<close>

theorem class_filter_never_runs:
  assumes "class_filter_method cls cpath path h reg = Some reg'" and "segments path \<noteq> []"
    and "str_find ''//'' url = None"
  shows "matching_filters (st\<lparr>st_registry := reg'\<rparr>) url = matching_filters (st\<lparr>st_registry := reg\<rparr>) url"
proof -
  let ?p = "class_filter_path (class_path cpath) path"
  have "?p = rooted (segments cpath) @ ''/'' @ rooted (segments path)"
    using assms(2) by (auto simp: class_filter_path_rooted)
  with rooted_double [OF assms(2)] have "str_find ''//'' ?p \<noteq> None" by simp
  with assms(3) have "\<not> filter_applies url ?p"
    using prefix_find [of ?p url "''//''"] by (auto simp: filter_applies_def str_starts_with_prefix)
  with assms(1) show ?thesis
    unfolding class_filter_method_def matching_filters_def
    using add_filter_elsewhere [of "Some cls" ?p h reg reg' "filter_applies url"] by simp
qed

section \<open>Answers of the task\<close>

lemma request_emit: "rs_request (emit rs x) = (rs_request rs)\<lparr>m_socket := map_option (\<lambda>sk. sk\<lparr>sk_out := sk_out sk @ x\<rparr>) (m_socket (rs_request rs))\<rparr>"
  by (simp add: emit_def)

text \<open>A response with a length, written with its body.\<close>

lemma write_reply:
  assumes "full_socket rs" "headers_ok rs" "\<not> m_headers_writed rs" "status_description (m_status rs) = Some d"
    and "rs_headers_contains rs hdr_content_length" "\<not> is_chunked rs"
  shows "\<exists>rs'. write_response rs body = Some rs' \<and> full_socket rs' \<and> sent rs' = sent rs @ message_head rs' d @ body \<and>
     rs_headers rs' = map_erase less_case_insensitive (rs_headers rs) ''set-cookie'' \<and> m_status rs' = m_status rs \<and>
     m_keep_alive (rs_request rs') = m_keep_alive (rs_request rs)"
proof -
  let ?w = "rs\<lparr>m_headers_writed := True\<rparr>"
  let ?r1 = "unset_header ?w ''set-cookie''"
  let ?r2 = "emit ?r1 (message_head ?r1 d)"
  have "headers_ok ?w" using assms(2) by (simp add: headers_ok_def)
  then have c: "\<not> is_chunked ?r2" using assms(6) is_chunked_unset_cookie by simp
  have "rs_headers_contains ?w hdr_content_length" using assms(5) by (simp add: rs_headers_contains_def)
  then have h: "write_head rs n = Some ?r2" for n
    using write_head_eq [OF assms(1,3,4), of n] by (simp add: with_length_def Let_def)
  have "rs_headers ?r1 = map_erase less_case_insensitive (rs_headers rs) ''set-cookie''" by (simp add: unset_header_def)
  then show ?thesis
    using assms(1) h c write_body_plain [of ?r2 body]
    by (cases "body = []") (auto simp: write_response_def request_emit)
qed

lemma close_sent:
  assumes "full_socket rs" shows "\<exists>r. rs_close rs = Some r \<and> sent r = sent rs \<and> m_status r = m_status rs \<and>
    rs_headers r = rs_headers rs \<and> message_head r d = message_head rs d \<and> m_keep_alive (rs_request r) = m_keep_alive (rs_request rs)"
  using assms by (auto simp: full_socket_def rs_close_def sent_def tcp_close_def message_head_def rs_version_def split: option.splits)

text \<open>A response that has not been answered yet.\<close>

definition fresh :: "response \<Rightarrow> bool" where
  "fresh rs = (full_socket rs \<and> headers_ok rs \<and> \<not> m_headers_writed rs \<and> \<not> is_chunked rs)"

definition null_body :: "int \<Rightarrow> string \<Rightarrow> string" where
  "null_body status d = d @ '' ('' @ int_str status @ '')''"

text \<open>What it means that a short text has been sent as the answer.\<close>

definition answered :: "int \<Rightarrow> 'w service_io \<Rightarrow> 'w service_io option \<Rightarrow> bool" where
  "answered status io out =
     (\<exists>io' d. out = Some io' \<and> status_description status = Some d \<and> m_status (io_response io') = status \<and>
        io_world io' = io_world io \<and>
        sent (io_response io') = sent (io_response io) @ message_head (io_response io') d @ null_body status d \<and>
        header_find (rs_headers (io_response io')) hdr_content_length = Some (dec (length (null_body status d))))"

lemma content_length_lower: "map tolower ''content-length'' = map tolower hdr_content_length"
  by code_simp

lemma return_to_null_answers:
  assumes "fresh (io_response io)" and "status_description status = Some d"
  shows "answered status io (return_to_null io status)"
proof -
  let ?b = "null_body status d"
  let ?r0 = "set_header (io_response io) ''content-length'' (dec (length ?b))"
  let ?r1 = "set_status ?r0 status"
  have f: "full_socket (io_response io)" "headers_ok (io_response io)" "\<not> m_headers_writed (io_response io)"
    "\<not> is_chunked (io_response io)"
    using assms(1) by (simp_all add: fresh_def)
  have ok: "headers_ok ?r1" using headers_ok_set [OF f(2)] by (simp add: set_status_def headers_ok_def)
  have "rs_headers ?r1 = rs_headers ?r0" by (simp add: set_status_def)
  then have fnd: "header_find (rs_headers ?r1) k = (if map tolower k = map tolower hdr_content_length then Some (dec (length ?b))
      else header_find (rs_headers (io_response io)) k)" for k
    by (simp only: find_set_header [OF f(2)] content_length_lower)
  have c: "rs_headers_contains ?r1 hdr_content_length" unfolding rs_headers_contains_def fnd by simp
  have "header_find (rs_headers ?r1) hdr_transfer_encoding = header_find (rs_headers (io_response io)) hdr_transfer_encoding"
    unfolding fnd using header_names_differ by simp
  moreover have q: "rs_request ?r1 = io_request io" by (simp add: set_status_def)
  ultimately have nc: "\<not> is_chunked ?r1" using f(4) by (simp only: is_chunked_def not_False_eq_True)
  have fs: "full_socket ?r1" "\<not> m_headers_writed ?r1" "m_status ?r1 = status" "sent ?r1 = sent (io_response io)"
    using f by (simp_all add: set_status_def)
  obtain r2 where r2: "write_response ?r1 ?b = Some r2" "full_socket r2"
    "sent r2 = sent (io_response io) @ message_head r2 d @ ?b" "m_status r2 = status"
    "rs_headers r2 = map_erase less_case_insensitive (rs_headers ?r1) ''set-cookie''"
    using write_reply [OF fs(1) ok fs(2) _ c nc, of d ?b] fs assms(2) by auto
  have len: "header_find (rs_headers r2) hdr_content_length = Some (dec (length ?b))"
    using find_set_cookie [OF ok [unfolded headers_ok_def] header_names_differ(3)]
    unfolding r2(5) fnd by simp
  have "return_to_null io status =
      map_option (\<lambda>r. io\<lparr>io_response := r\<rparr>) (if \<not> m_keep_alive (rs_request r2) then rs_close r2 else Some r2)"
    using r2(1) assms(2) by (simp add: return_to_null_def Let_def null_body_def)
  moreover obtain r3 where "(if \<not> m_keep_alive (rs_request r2) then rs_close r2 else Some r2) = Some r3" "sent r3 = sent r2"
    "m_status r3 = m_status r2" "rs_headers r3 = rs_headers r2" "message_head r3 d = message_head r2 d"
    using close_sent [OF r2(2), of d] by (cases "m_keep_alive (rs_request r2)") auto
  ultimately show ?thesis using r2 len assms(2) by (auto simp: answered_def)
qed

lemma context_fresh:
  assumes "m_socket r = Some sk" "sk_open sk" "sk_writes sk = []"
  shows "fresh (service_context_new r) \<and> sent (service_context_new r) = sk_out sk"
proof -
  have "header_find (rs_headers (service_context_new r)) hdr_transfer_encoding = None"
    by (simp add: service_context_new_def response_new_def header_find_def headers.same_key_norm
        hdr_lower_differ(2) [symmetric])
  then have c: "\<not> is_chunked (service_context_new r)" by (simp add: is_chunked_def)
  show ?thesis
    using assms unfolding fresh_def
    by (intro conjI c) (simp_all add: service_context_new_def response_new_def full_socket_def headers_ok_def map_ok_def sent_def)
qed

lemma fresh_set_header: "fresh rs \<Longrightarrow> map tolower hdr_transfer_encoding \<noteq> map tolower k \<Longrightarrow> fresh (set_header rs k v)"
proof -
  assume f: "fresh rs" and k: "map tolower hdr_transfer_encoding \<noteq> map tolower k"
  then have ok: "headers_ok rs" and c: "\<not> is_chunked rs" by (simp_all add: fresh_def)
  have "header_find (rs_headers (set_header rs k v)) hdr_transfer_encoding = header_find (rs_headers rs) hdr_transfer_encoding"
    unfolding find_set_header [OF ok] using k by simp
  with c have "\<not> is_chunked (set_header rs k v)" by (simp only: is_chunked_def set_header_fields not_False_eq_True)
  with f show ?thesis by (simp add: fresh_def headers_ok_set)
qed

lemma service_io_names_differ:
  "map tolower hdr_transfer_encoding \<noteq> map tolower ''server''"
  "map tolower hdr_transfer_encoding \<noteq> map tolower ''access-control-allow-origin''"
  "map tolower hdr_transfer_encoding \<noteq> map tolower ''connection''"
  by code_simp+

lemma service_io_new_fresh:
  assumes "fresh rs"
  shows "fresh (io_response (service_io_new rs w)) \<and> io_request (service_io_new rs w) = rs_request rs \<and>
    m_status (io_response (service_io_new rs w)) = m_status rs \<and> sent (io_response (service_io_new rs w)) = sent rs \<and>
    io_world (service_io_new rs w) = w"
proof -
  note keep = fresh_set_header [OF _ service_io_names_differ(1)] fresh_set_header [OF _ service_io_names_differ(2)]
    fresh_set_header [OF _ service_io_names_differ(3)]
  show ?thesis
    using assms by (simp add: service_io_new_def Let_def keep split: option.split)
qed

text \<open>A url that no plugin and no CGI program is filed under.\<close>

definition cgi_url :: "'w site \<Rightarrow> string \<Rightarrow> bool" where
  "cgi_url st u =
     (case str_find_from ''/'' u 1 of None \<Rightarrow> False | Some pos \<Rightarrow> substr u 0 pos = st_cgi_access st)"

definition unclaimed :: "'w site \<Rightarrow> string \<Rightarrow> bool" where
  "unclaimed st u = (umap_find (g_path_hash (st_registry st)) (check_url u) = None \<and> \<not> cgi_url st (check_url u))"

lemma check_url_root [simp]: "check_url ''/'' = ''/''" "check_url [] = ''/''"
  by (simp_all add: check_url_def)

lemma plugins_call_none:
  "umap_find (g_path_hash (st_registry st)) (check_url (url_name io)) = None \<Longrightarrow>
   plugins_call st io = Some (False, io\<lparr>url_name := check_url (url_name io)\<rparr>)"
  by (simp add: plugins_call_def check_def Let_def)

lemma cgi_part_none: "\<not> cgi_url st (url_name io) \<Longrightarrow> cgi_part st io = Some (False, io)"
  by (cases "str_find_from ''/'' (url_name io) 1") (simp_all add: cgi_url_def cgi_part_def)

lemma check_url_or_root: "check_url (if p = [] then ''/'' else p) = check_url p"
  by simp

lemma do_parsing_unclaimed:
  assumes "unclaimed st (m_path (io_request io))"
  shows "do_parsing st io = Some (False, io\<lparr>url_name := check_url (m_path (io_request io))\<rparr>)"
proof -
  let ?io = "io\<lparr>url_name := (if m_path (io_request io) = [] then ''/'' else m_path (io_request io))\<rparr>"
  have u: "check_url (url_name ?io) = check_url (m_path (io_request io))" by simp
  have "plugins_call st ?io = Some (False, io\<lparr>url_name := check_url (m_path (io_request io))\<rparr>)"
    using assms plugins_call_none [of st ?io] unfolding u by (simp add: unclaimed_def)
  then show ?thesis using assms by (simp add: do_parsing_def Let_def cgi_part_none unclaimed_def)
qed

lemma head_unclaimed:
  assumes "unclaimed st (m_path (io_request io))"
  shows "CALL_HEAD st io = (let u = check_url (m_path (io_request io))
    in return_to_null (io\<lparr>url_name := u\<rparr>) (if st_files st (st_root st @ u) \<noteq> None then hs_not_found else hs_ok))"
proof -
  let ?u = "check_url (m_path (io_request io))"
  have e: "exists_plugin st (io\<lparr>url_name := (if m_path (io_request io) = [] then ''/'' else m_path (io_request io))\<rparr>) =
      (io\<lparr>url_name := ?u\<rparr>, False)"
    using assms by (cases "m_path (io_request io) = []") (simp_all add: exists_plugin_def check_def unclaimed_def Let_def)
  from assms show ?thesis
    unfolding CALL_HEAD_def Let_def e
    by (cases "str_find_from ''/'' ?u 1") (simp_all add: unclaimed_def cgi_url_def)
qed

lemma answered_url [simp]: "answered s (io\<lparr>url_name := u\<rparr>) out = answered s io out"
  by (simp add: answered_def)

lemma null_descriptions:
  "\<exists>d. status_description 200 = Some d" "\<exists>d. status_description 404 = Some d" "\<exists>d. status_description 405 = Some d"
  "\<exists>d. status_description 501 = Some d" "\<exists>d. status_description 503 = Some d"
  by (simp_all add: status_description_def status_table_def)

lemma null_answers:
  assumes "fresh (io_response io)" and "status \<in> {200, 404, 405, 501, 503}"
  shows "answered status io (return_to_null io status)"
  using return_to_null_answers [OF assms(1)] null_descriptions assms(2) by auto

text \<open>Requests that nothing serves are answered.  For a path without a plugin and without a CGI
  program, on an open connection: POST, PUT and DELETE get status 501, OPTIONS, CONNECT and TRACE
  503, a GET of a directory 404, each with a short text of the announced length.  The answer to
  HEAD is the wrong way round: a file that exists gets 404, one that does not gets 200, and both
  come with a body.\<close>

theorem unserved_requests:
  assumes "m_socket r = Some sk" and "sk_open sk" and "sk_writes sk = []" and "unclaimed st (m_path r)"
  shows "let io = service_io_new (service_context_new r) w;
      file = st_root st @ check_url (m_path r)
    in (m_method r \<in> {POST, PUT, DELETE} \<longrightarrow> answered 501 io (run_method st io)) \<and>
       (m_method r \<in> {OPTIONS, CONNECT, TRACH} \<longrightarrow> answered 503 io (run_method st io)) \<and>
       (m_method r = GET \<and> check_url (m_path r) \<noteq> ''/'' \<and> st_directory st file \<longrightarrow> answered 404 io (run_method st io)) \<and>
       (m_method r = HEAD \<longrightarrow> answered (if st_files st file \<noteq> None then 404 else 200) io (run_method st io))"
proof -
  let ?io = "service_io_new (service_context_new r) w"
  have f: "fresh (io_response ?io)" "io_request ?io = r"
    using service_io_new_fresh [of "service_context_new r" w] context_fresh [OF assms(1-3)]
    by (simp_all add: service_context_new_def response_new_def)
  have fu: "fresh (io_response (?io\<lparr>url_name := u\<rparr>))" for u using f(1) by simp
  have u: "unclaimed st (m_path (io_request ?io))" using assms(4) f(2) by simp
  have a: "answered s ?io (return_to_null (?io\<lparr>url_name := u\<rparr>) s)" "answered s ?io (return_to_null ?io s)"
    if "s \<in> {200, 404, 405, 501, 503}" for s u
    using null_answers [OF fu that] null_answers [OF f(1) that] by simp_all
  have "m_method r \<in> {POST, PUT, DELETE} \<longrightarrow> answered 501 ?io (run_method st ?io)"
    by (auto simp: a run_method_def f(2) CALL_POST_def CALL_PUT_def CALL_DELETE_def do_parsing_unclaimed [OF u])
  moreover have "m_method r \<in> {OPTIONS, CONNECT, TRACH} \<longrightarrow> answered 503 ?io (run_method st ?io)"
    by (auto simp: a run_method_def f(2) CALL_OPTIONS_def CALL_CONNECT_def CALL_TRACH_def)
  moreover have "m_method r = GET \<and> check_url (m_path r) \<noteq> ''/'' \<and> st_directory st (st_root st @ check_url (m_path r)) \<longrightarrow>
      answered 404 ?io (run_method st ?io)"
    by (auto simp: a run_method_def f(2) CALL_GET_def do_parsing_unclaimed [OF u] Let_def)
  moreover have "m_method r = HEAD \<longrightarrow>
      answered (if st_files st (st_root st @ check_url (m_path r)) \<noteq> None then 404 else 200) ?io (run_method st ?io)"
    by (auto simp: a run_method_def f(2) head_unclaimed [OF u] Let_def)
  ultimately show ?thesis by (simp only: Let_def)
qed

lemma no_filter_applies:
  assumes "\<forall>f\<in>set (g_filter_path_map (st_registry st)). \<not> filter_applies (url_name io) (fst f)"
  shows "call_filter st io = Some (False, io)"
proof -
  have "filter (\<lambda>f. filter_applies (url_name io) (fst f)) (g_filter_path_map (st_registry st)) = []"
    using assms by (simp add: filter_empty_conv)
  then show ?thesis by (simp add: call_filter_def filter_loop_run)
qed

lemma CALL_GET_file:
  assumes "unclaimed st (m_path (io_request io))" and "check_url (m_path (io_request io)) \<noteq> ''/''"
    and "file = st_root st @ check_url (m_path (io_request io))" and "\<not> st_directory st file"
    and "\<forall>f\<in>set (g_filter_path_map (st_registry st)). \<not> filter_applies file (fst f)"
  shows "CALL_GET st io = serve_file st (io\<lparr>url_name := file\<rparr>)"
  using assms no_filter_applies [of st "io\<lparr>url_name := file\<rparr>"]
  by (simp add: CALL_GET_def do_parsing_unclaimed Let_def)

lemma io_close_sent:
  assumes "full_socket (io_response io) \<or> (\<exists>sk. m_socket (io_request io) = Some sk)"
  shows "sent (io_response (io_close io)) = sent (io_response io)" "io_world (io_close io) = io_world io"
    "m_status (io_response (io_close io)) = m_status (io_response io)"
    "rs_headers (io_response (io_close io)) = rs_headers (io_response io)"
    "message_head (io_response (io_close io)) d = message_head (io_response io) d" "io_closed (io_close io)"
  by (auto simp: io_close_def rs_close_def sent_def tcp_close_def message_head_def rs_version_def split: option.split)


section \<open>A site\<close>

definition greet :: "unit plugin_method" where
  "greet = \<lparr>pm_params = [T_response], pm_bool = False,
     pm_call = (\<lambda>args rs w. map_option (\<lambda>r. (False, r, w)) (write_response rs ''hi''))\<rparr>"

definition deny :: "unit plugin_method" where
  "deny = \<lparr>pm_params = [T_request], pm_bool = True, pm_call = (\<lambda>args rs w. Some (True, rs, w))\<rparr>"

text \<open>One handler; a filter for each of three nested paths.\<close>

definition sample_filters :: "unit plugin_method registry" where
  "sample_filters =
     \<lparr>g_path_hash = [],
      g_filter_path_map = map (\<lambda>p. (p, \<lparr>sv_class = None, sv_method = Some deny\<rparr>)) [''/private'', ''/private/a'', ''/public'']\<rparr>"

definition sample_site :: "unit plugin_method registry \<Rightarrow> unit site" where
  "sample_site reg =
     \<lparr>st_registry = reg, st_files = (\<lambda>f. if f = ''/srv//private/x'' then Some (True, ''secret'') else None),
      st_directory = (\<lambda>f. False), st_mime = (\<lambda>f. ''text/plain''), st_now_ms = 0, st_hook = None, st_home = None,
      st_root = ''/srv/'', st_default_resource = ''/index.html'', st_cgi_access = ''/cgi-bin'', st_cgi_path = ''/cgi/'',
      st_cgi = (\<lambda>f io. None), st_remote_addr = ''127.0.0.1'', st_local_addr = ''127.0.0.1'', st_local_port = 80,
      st_rttr_version = ''0.9.7'', st_gts_version = ''1''\<rparr>"

definition sample_request :: "http_method \<Rightarrow> string \<Rightarrow> request" where
  "sample_request m p = request_new\<lparr>m_method := m, m_path := p, m_version := ''1.1'', m_socket := Some (tcp_new 64 [])\<rparr>"

lemma sample_filters_ok: "registry_ok sample_filters"
  by (simp add: registry_ok_def sample_filters_def umap_ok_def umap_find_def map_ok_def std_less_norm less_char_def)

lemma sample_fields:
  "st_registry (sample_site reg) = reg" "st_root (sample_site reg) = ''/srv/''" "st_cgi_access (sample_site reg) = ''/cgi-bin''"
  "st_files (sample_site reg) f = (if f = ''/srv//private/x'' then Some (True, ''secret'') else None)"
  "\<not> st_directory (sample_site reg) f" "st_mime (sample_site reg) f = ''text/plain''"
  by (simp_all add: sample_site_def)

lemma sample_socket: "sk_open (tcp_new 64 [])" "sk_writes (tcp_new 64 []) = []" "0 < sk_buffer_size (tcp_new 64 [])"
  "sk_out (tcp_new 64 []) = []"
  by (simp_all add: tcp_new_def)

lemma sample_request_fields:
  "m_socket (sample_request m p) = Some (tcp_new 64 [])" "m_method (sample_request m p) = m" "m_path (sample_request m p) = p"
  "header_find (m_headers (sample_request m p)) k = None" "\<not> wants_websocket (sample_request m p)"
  by (simp_all add: sample_request_def request_new_def header_find_def wants_websocket_def)

lemma sample_unclaimed:
  "unclaimed (sample_site sample_filters) ''/private/x''" "unclaimed (sample_site sample_filters) ''/x''"
  by (simp_all add: unclaimed_def sample_fields sample_filters_def umap_find_def cgi_url_def check_url_def
      str_find_from_def substr_def)

lemma handler_at_new: "handler_at registry_new p m = None"
  by (simp add: handler_at_def service_at_def registry_new_def umap_find_def)


lemma filters_outside_in_witness:
  "sorted_wrt (\<lambda>f g. strict_prefix (fst f) (fst g)) (matching_filters (sample_site sample_filters) ''/private/a/b'') \<and>
   map fst (matching_filters (sample_site sample_filters) ''/private/a/b'') = [''/private'', ''/private/a'']"
  using filters_outside_in [of "sample_site sample_filters"] sample_filters_ok
  by (simp add: sample_fields) (simp add: matching_filters_def sample_fields sample_filters_def filter_applies_def str_starts_with_prefix)

lemma class_filter_never_runs_witness:
  "\<exists>reg. class_filter_method ''C'' ''/api'' ''v1'' deny registry_new = Some reg \<and>
     matching_filters ((sample_site registry_new)\<lparr>st_registry := reg\<rparr>) ''/api/v1/x'' = []"
proof -
  have "class_filter_method ''C'' ''/api'' ''v1'' deny registry_new \<noteq> None"
    by (simp add: class_filter_method_def add_filter_def registry_new_def map_emplace_def)
  then obtain reg where reg: "class_filter_method ''C'' ''/api'' ''v1'' deny registry_new = Some reg" by blast
  have "segments ''v1'' \<noteq> []" "str_find ''//'' ''/api/v1/x'' = None" by (simp_all add: segments_char)
  from class_filter_never_runs [OF reg this, of "sample_site registry_new"] reg show ?thesis
    by (simp add: matching_filters_def registry_new_def)
qed

lemma unserved_requests_witness:
  "\<exists>io. answered 501 io (run_method (sample_site sample_filters) io) \<and> io_request io = sample_request POST ''/x''"
proof -
  let ?r = "sample_request POST ''/x''"
  let ?io = "service_io_new (service_context_new ?r) ()"
  have u: "unclaimed (sample_site sample_filters) (m_path ?r)" using sample_unclaimed by (simp add: sample_request_fields)
  have "answered 501 ?io (run_method (sample_site sample_filters) ?io)"
    using unserved_requests [OF sample_request_fields(1) sample_socket(1,2) u, of "()"]
    by (simp add: Let_def sample_request_fields)
  moreover have "io_request ?io = ?r"
    using service_io_new_fresh [of "service_context_new ?r" "()"] context_fresh [OF sample_request_fields(1) sample_socket(1,2)]
    by (simp add: service_context_new_def response_new_def)
  ultimately show ?thesis by blast
qed


end
