(* ===== verification/Connection.thy ===== *)
theory Connection
  imports Dispatch
begin

text \<open>
  The life of a connection: \<open>gts/web/service/connection.cpp\<close> and the asynchronous part of \<open>task.cpp\<close>,
  over the asio event loop and the thread pool.

  Connections are named by numbers in the order of their creation; one that has been deleted is no
  longer in \<open>sv_conns\<close>.  What the loop has still to run is \<open>sv_queue\<close>, first in, first out: a handler whose
  operation is complete stays there even if the operation is cancelled afterwards, and cancelling
  a pending wait or closing a socket with a pending read queues the handler with an error, as asio
  documents.  \<open>delete_later\<close> queues the deletion.  While a task runs the socket is inside its request.
  The result \<open>None\<close> is the use of a deleted connection or an abort.  Logging is not modelled.
\<close>

datatype conn_timer = T_idle | T_max

datatype io_event =
    Ev_read nat string bool
  | Ev_timer nat conn_timer bool
  | Ev_delete nat
  | Ev_done nat

record conn =
  cn_socket :: tcp
  cn_timer :: "conn_timer option"
  cn_reading :: bool
  cn_ab_size :: nat
  cn_parser :: parser
  cn_context :: "response option"
  cn_running :: bool

record 'w server =
  sv_conns :: "nat \<Rightarrow> conn option"
  sv_next :: nat
  sv_timeout :: "nat list"
  g_counter :: int
  g_max_count :: int
  sv_queue :: "io_event list"
  sv_world :: 'w

section \<open>Settings\<close>

text \<open>\<open>connection::init\<close>: the three settings after their checks.\<close>

definition connection_init :: "int \<Rightarrow> int \<Rightarrow> int \<Rightarrow> int \<times> int \<times> int" where
  "connection_init idle_time_tv max_idle_time max_count =
     (let idle = (if idle_time_tv < 1 then 1 else idle_time_tv);
          max_idle = (if max_idle_time \<le> idle then idle + 1 else max_idle_time);
          count = (if max_count < 1 then 1 else max_count)
      in (idle, max_idle, count))"

definition server_new :: "int \<Rightarrow> 'w \<Rightarrow> 'w server" where
  "server_new n w =
     \<lparr>sv_conns = (\<lambda>c. None), sv_next = 0, sv_timeout = [], g_counter = 0, g_max_count = n, sv_queue = [], sv_world = w\<rparr>"

section \<open>Access to one connection\<close>

definition with_conn :: "'w server \<Rightarrow> nat \<Rightarrow> (conn \<Rightarrow> 'w server option) \<Rightarrow> 'w server option" where
  "with_conn st c f = (case sv_conns st c of None \<Rightarrow> None | Some x \<Rightarrow> f x)"

definition put_conn :: "'w server \<Rightarrow> nat \<Rightarrow> conn \<Rightarrow> 'w server" where
  "put_conn st c x = st\<lparr>sv_conns := (sv_conns st)(c \<mapsto> x)\<rparr>"

definition post :: "'w server \<Rightarrow> io_event \<Rightarrow> 'w server" where
  "post st e = st\<lparr>sv_queue := sv_queue st @ [e]\<rparr>"

text \<open>\<open>m_timer.cancel()\<close>, and \<open>expires_after\<close> with \<open>async_wait\<close>.\<close>

definition timer_cancel :: "'w server \<Rightarrow> nat \<Rightarrow> conn \<Rightarrow> 'w server \<times> conn" where
  "timer_cancel st c x =
     (case cn_timer x of
        None \<Rightarrow> (st, x)
      | Some k \<Rightarrow> (post st (Ev_timer c k True), x\<lparr>cn_timer := None\<rparr>))"

definition timer_start :: "'w server \<Rightarrow> nat \<Rightarrow> conn \<Rightarrow> conn_timer \<Rightarrow> 'w server \<times> conn" where
  "timer_start st c x k = (case timer_cancel st c x of (st1, x1) \<Rightarrow> (st1, x1\<lparr>cn_timer := Some k\<rparr>))"

text \<open>\<open>close(true)\<close>: a pending read completes with an error.\<close>

definition socket_close :: "'w server \<Rightarrow> nat \<Rightarrow> conn \<Rightarrow> 'w server \<times> conn" where
  "socket_close st c x =
     (let x1 = x\<lparr>cn_socket := tcp_close (cn_socket x)\<rparr>
      in if cn_reading x then (post st (Ev_read c [] True), x1\<lparr>cn_reading := False\<rparr>) else (st, x1))"

section \<open>The handlers\<close>

definition do_recv :: "'w server \<Rightarrow> nat \<Rightarrow> conn \<Rightarrow> 'w server" where
  "do_recv st c x =
     (if \<not> sk_open (cn_socket x) then post (put_conn st c x) (Ev_delete c)
      else (case timer_start st c x T_idle of (st1, x1) \<Rightarrow> put_conn st1 c (x1\<lparr>cn_reading := True\<rparr>)))"

definition connection_new :: "'w server \<Rightarrow> tcp \<Rightarrow> nat \<Rightarrow> 'w server" where
  "connection_new st sk ab_size =
     (let c = sv_next st;
          x = \<lparr>cn_socket = sk, cn_timer = None, cn_reading = False, cn_ab_size = ab_size, cn_parser = parser_new,
               cn_context = None, cn_running = False\<rparr>
      in do_recv (st\<lparr>g_counter := g_counter st + 1, sv_next := c + 1\<rparr>) c x)"

definition connection_cancel :: "'w server \<Rightarrow> nat \<Rightarrow> 'w server option" where
  "connection_cancel st c =
     with_conn st c (\<lambda>x. case socket_close st c x of (st1, x1) \<Rightarrow> Some (put_conn st1 c x1))"

definition connection_delete :: "'w server \<Rightarrow> nat \<Rightarrow> 'w server option" where
  "connection_delete st c =
     with_conn st c (\<lambda>x. case timer_cancel (st\<lparr>g_counter := g_counter st - 1\<rparr>) c x of
       (st1, x1) \<Rightarrow> Some (st1\<lparr>sv_conns := (sv_conns st1)(c := None)\<rparr>))"

definition overload_answer :: string where
  "overload_answer =
     ''HTTP/1.0 503 Service Unavailable'' @ CRLF @ ''content-length: 0'' @ CRLF @ ''connection: close'' @ CRLF @ CRLF"

text \<open>\<open>new_connection\<close>; \<open>victim\<close> is the entry of \<open>g_timeout_set\<close> with the smallest address.  The second
  result is the socket of a client that is turned away.\<close>

definition new_connection :: "'w server \<Rightarrow> nat \<Rightarrow> tcp \<Rightarrow> nat \<Rightarrow> ('w server \<times> tcp option) option" where
  "new_connection st victim sk ab_size =
     (if g_counter st < g_max_count st then Some (connection_new st sk ab_size, None)
      else if sv_timeout st \<noteq> [] then
        map_option (\<lambda>st1. (connection_new (st1\<lparr>sv_timeout := removeAll victim (sv_timeout st1)\<rparr>) sk ab_size, None))
          (connection_cancel st victim)
      else (case write_some sk overload_answer of (n, e, sk1) \<Rightarrow> Some (st, Some (tcp_close sk1))))"

definition bad_request_answer :: string where
  "bad_request_answer =
     ''HTTP/1.1 400 Bad Request'' @ CRLF @ ''content-length: 0'' @ CRLF @ ''connection: close'' @ CRLF @ CRLF"

text \<open>The handler of \<open>async_read_some\<close>.\<close>

definition on_request :: "'w server \<Rightarrow> nat \<Rightarrow> conn \<Rightarrow> request \<Rightarrow> 'w server" where
  "on_request st c x context =
     (if \<not> is_valid context then
        (case write_some (cn_socket x) bad_request_answer of
           (n, e, sk1) \<Rightarrow> post (put_conn st c (x\<lparr>cn_socket := tcp_close sk1\<rparr>)) (Ev_delete c))
      else put_conn st c (x\<lparr>cn_context := Some (service_context_new context), cn_running := True\<rparr>))"

definition read_rest :: "'w server \<Rightarrow> nat \<Rightarrow> conn \<Rightarrow> string \<Rightarrow> bool \<Rightarrow> 'w server option" where
  "read_rest st c x data error =
     (if error \<or> data = [] then Some (post (put_conn st c x) (Ev_delete c))
      else case load (cn_parser x) data of
             None \<Rightarrow> None
           | Some (False, p) \<Rightarrow> Some (do_recv st c (x\<lparr>cn_parser := p\<rparr>))
           | Some (True, p) \<Rightarrow>
               (case get_request p (cn_socket x) of
                  (p1, None) \<Rightarrow> None
                | (p1, Some context) \<Rightarrow> Some (on_request st c (x\<lparr>cn_parser := p1\<rparr>) context)))"

definition on_read :: "'w server \<Rightarrow> nat \<Rightarrow> string \<Rightarrow> bool \<Rightarrow> 'w server option" where
  "on_read st0 c data error =
     with_conn st0 c (\<lambda>x0.
       case timer_cancel st0 c x0 of
         (st1, x) \<Rightarrow> read_rest (st1\<lparr>sv_timeout := removeAll c (sv_timeout st1)\<rparr>) c x data error)"

text \<open>\<open>time_out_allow_preemptionx\<close> and \<open>time_out_destory\<close>.\<close>

definition on_timer :: "'w server \<Rightarrow> nat \<Rightarrow> conn_timer \<Rightarrow> bool \<Rightarrow> 'w server option" where
  "on_timer st c k was_cancel =
     (if was_cancel then Some st
      else case k of
             T_idle \<Rightarrow>
               with_conn st c (\<lambda>x.
                 case timer_start (st\<lparr>sv_timeout := List.insert c (sv_timeout st)\<rparr>) c x T_max of
                   (st1, x1) \<Rightarrow> Some (put_conn st1 c x1))
           | T_max \<Rightarrow>
               with_conn st c (\<lambda>x. connection_cancel (st\<lparr>sv_timeout := removeAll c (sv_timeout st)\<rparr>) c))"

text \<open>The rest of \<open>task::start\<close>: the pool thread runs the task and posts its end, which drops the context
  and calls the connection back.\<close>

definition run_task :: "'w site \<Rightarrow> 'w server \<Rightarrow> nat \<Rightarrow> 'w server option" where
  "run_task site st c =
     with_conn st c (\<lambda>x.
       case cn_context x of
         None \<Rightarrow> None
       | Some context \<Rightarrow>
           (case task_run site context (sv_world st) of
              None \<Rightarrow> None
            | Some io \<Rightarrow>
                Some (post (put_conn (st\<lparr>sv_world := io_world io\<rparr>) c
                  (x\<lparr>cn_context := Some (io_response io), cn_running := False\<rparr>)) (Ev_done c))))"

definition on_done :: "'w site \<Rightarrow> 'w server \<Rightarrow> nat \<Rightarrow> 'w server option" where
  "on_done site st c =
     with_conn st c (\<lambda>x.
       case cn_context x of
         None \<Rightarrow> None
       | Some context \<Rightarrow>
           (case response_destroy (st_hook site) context of
              None \<Rightarrow> None
            | Some rs \<Rightarrow>
                (let sk = (case m_socket (rs_request rs) of Some sk \<Rightarrow> sk | None \<Rightarrow> cn_socket x);
                     x1 = x\<lparr>cn_context := None, cn_socket := sk\<rparr>
                 in if rs_is_valid context then Some (do_recv st c x1)
                    else Some (post (put_conn st c x1) (Ev_delete c)))))"

section \<open>The event loop\<close>

definition run_event :: "'w site \<Rightarrow> 'w server \<Rightarrow> io_event \<Rightarrow> 'w server option" where
  "run_event site st e =
     (case e of
        Ev_read c data error \<Rightarrow> on_read st c data error
      | Ev_timer c k was_cancel \<Rightarrow> on_timer st c k was_cancel
      | Ev_delete c \<Rightarrow> connection_delete st c
      | Ev_done c \<Rightarrow> on_done site st c)"

text \<open>What happens from outside: a client connects, a pending read has its result, a timer runs out, a
  task has been run; and the loop runs the next handler.\<close>

datatype sv_label = Accept tcp nat nat | Net nat | Fire nat | Task nat | Loop

fun sv_next_state :: "'w site \<Rightarrow> 'w server \<Rightarrow> sv_label \<Rightarrow> 'w server option" where
  "sv_next_state site st (Accept sk ab_size victim) = map_option fst (new_connection st victim sk ab_size)"
| "sv_next_state site st (Net c) =
     with_conn st c (\<lambda>x. case read_some (cn_socket x) (cn_ab_size x) of
       (data, error, sk) \<Rightarrow> Some (post (put_conn st c (x\<lparr>cn_socket := sk, cn_reading := False\<rparr>)) (Ev_read c data error)))"
| "sv_next_state site st (Fire c) =
     with_conn st c (\<lambda>x. case cn_timer x of
       None \<Rightarrow> None | Some k \<Rightarrow> Some (post (put_conn st c (x\<lparr>cn_timer := None\<rparr>)) (Ev_timer c k False)))"
| "sv_next_state site st (Task c) = run_task site st c"
| "sv_next_state site st Loop =
     (case sv_queue st of [] \<Rightarrow> None | e # es \<Rightarrow> run_event site (st\<lparr>sv_queue := es\<rparr>) e)"

text \<open>Which labels are possible: only pending operations complete, and the victim is an entry of the
  table when there is one.\<close>

definition enabled :: "'w server \<Rightarrow> sv_label \<Rightarrow> bool" where
  "enabled st l =
     (case l of
        Accept sk ab_size victim \<Rightarrow> sk_open sk \<and> (sv_timeout st \<noteq> [] \<longrightarrow> victim \<in> set (sv_timeout st))
      | Net c \<Rightarrow> (case sv_conns st c of None \<Rightarrow> False | Some x \<Rightarrow> cn_reading x)
      | Fire c \<Rightarrow> (case sv_conns st c of None \<Rightarrow> False | Some x \<Rightarrow> cn_timer x \<noteq> None)
      | Task c \<Rightarrow> (case sv_conns st c of None \<Rightarrow> False | Some x \<Rightarrow> cn_running x)
      | Loop \<Rightarrow> sv_queue st \<noteq> [])"

inductive sv_reach :: "'w site \<Rightarrow> 'w server \<Rightarrow> 'w server \<Rightarrow> bool" for site :: "'w site" and st0 :: "'w server" where
  reach_init: "sv_reach site st0 st0"
| reach_step: "sv_reach site st0 st \<Longrightarrow> enabled st l \<Longrightarrow> sv_next_state site st l = Some st' \<Longrightarrow> sv_reach site st0 st'"

section \<open>Every connection has one owner\<close>

text \<open>What keeps a connection alive: its pending read, its running task, or a queued handler that will
  go on with it or delete it.\<close>

fun owns :: "nat \<Rightarrow> io_event \<Rightarrow> bool" where
  "owns c (Ev_read d data error) = (d = c)"
| "owns c (Ev_timer d k was_cancel) = False"
| "owns c (Ev_delete d) = (d = c)"
| "owns c (Ev_done d) = (d = c)"

definition claims :: "io_event list \<Rightarrow> nat \<Rightarrow> nat" where
  "claims q c = length (filter (owns c) q)"

definition holds :: "conn option \<Rightarrow> nat" where
  "holds x = (case x of None \<Rightarrow> 0 | Some x \<Rightarrow> of_bool (cn_reading x) + of_bool (cn_running x))"

definition owners :: "'w server \<Rightarrow> nat \<Rightarrow> nat" where
  "owners st c = holds (sv_conns st c) + claims (sv_queue st) c"

definition conn_ok :: "io_event list \<Rightarrow> nat \<Rightarrow> conn \<Rightarrow> bool" where
  "conn_ok q c x = (parser_ok (cn_parser x) \<and> (cn_context x \<noteq> None \<longleftrightarrow> cn_running x \<or> Ev_done c \<in> set q))"

definition sv_ok :: "'w server \<Rightarrow> bool" where
  "sv_ok st =
     ((\<forall>c. owners st c = of_bool (sv_conns st c \<noteq> None)) \<and>
      (\<forall>c x. sv_conns st c = Some x \<longrightarrow> conn_ok (sv_queue st) c x) \<and>
      finite (dom (sv_conns st)) \<and> g_counter st = int (card (dom (sv_conns st))) \<and>
      (\<forall>c\<in>dom (sv_conns st). c < sv_next st))"

text \<open>The state while a handler works on one connection.\<close>

definition sv_ok_but :: "nat \<Rightarrow> 'w server \<Rightarrow> bool" where
  "sv_ok_but c st =
     ((\<forall>d. d \<noteq> c \<longrightarrow> owners st d = of_bool (sv_conns st d \<noteq> None)) \<and> claims (sv_queue st) c = 0 \<and>
      (\<forall>d x. d \<noteq> c \<longrightarrow> sv_conns st d = Some x \<longrightarrow> conn_ok (sv_queue st) d x) \<and>
      finite (dom (sv_conns st)) \<and> g_counter st = int (card (insert c (dom (sv_conns st)))) \<and>
      (\<forall>d\<in>insert c (dom (sv_conns st)). d < sv_next st))"

lemma put_conn_fields [simp]:
  "sv_conns (put_conn st c x) = (sv_conns st)(c \<mapsto> x)" "sv_queue (put_conn st c x) = sv_queue st"
  "sv_next (put_conn st c x) = sv_next st" "g_counter (put_conn st c x) = g_counter st"
  "sv_timeout (put_conn st c x) = sv_timeout st" "g_max_count (put_conn st c x) = g_max_count st"
  by (simp_all add: put_conn_def)

lemma post_fields [simp]:
  "sv_conns (post st e) = sv_conns st" "sv_queue (post st e) = sv_queue st @ [e]" "sv_next (post st e) = sv_next st"
  "g_counter (post st e) = g_counter st" "sv_timeout (post st e) = sv_timeout st" "g_max_count (post st e) = g_max_count st"
  by (simp_all add: post_def)

lemma claims_simps [simp]: "claims [] c = 0" "claims (q @ r) c = claims q c + claims r c"
  "claims (e # q) c = of_bool (owns c e) + claims q c"
  by (simp_all add: claims_def)

lemma claims_done: "claims q c = 0 \<Longrightarrow> Ev_done c \<notin> set q"
  by (auto simp: claims_def filter_empty_conv)

lemma owns_one: "owns c e \<Longrightarrow> owns d e = (d = c)"
  by (cases e) auto

lemma owns_done: "\<not> owns c e \<Longrightarrow> e \<noteq> Ev_done c"
  by auto

text \<open>A handler ends by leaving the connection to exactly one owner.\<close>

lemma sv_ok_put:
  assumes "sv_ok_but c st" and "holds (Some x) + claims es c = 1" and "list_all (\<lambda>e. \<forall>d. d \<noteq> c \<longrightarrow> \<not> owns d e) es"
    and "parser_ok (cn_parser x)" and "cn_context x \<noteq> None \<longleftrightarrow> cn_running x \<or> Ev_done c \<in> set es"
  shows "sv_ok ((put_conn st c x)\<lparr>sv_queue := sv_queue st @ es\<rparr>)"
proof -
  have other: "claims es d = 0" if "d \<noteq> c" for d
    using assms(3) that by (auto simp: claims_def filter_empty_conv list_all_iff)
  then have dn: "Ev_done d \<notin> set es" if "d \<noteq> c" for d using claims_done that by blast
  have c: "claims (sv_queue st) c = 0" "Ev_done c \<notin> set (sv_queue st)"
    using assms(1) claims_done by (auto simp: sv_ok_but_def)
  have "owners ((put_conn st c x)\<lparr>sv_queue := sv_queue st @ es\<rparr>) d = of_bool (((sv_conns st)(c \<mapsto> x)) d \<noteq> None)" for d
    using assms(1,2) other c by (cases "d = c") (auto simp: owners_def sv_ok_but_def)
  moreover have "conn_ok (sv_queue st @ es) d y" if "((sv_conns st)(c \<mapsto> x)) d = Some y" for d y
    using assms(1,4,5) that c dn by (cases "d = c") (auto simp: conn_ok_def sv_ok_but_def)
  moreover have "g_counter st = int (card (dom ((sv_conns st)(c \<mapsto> x))))" using assms(1) by (simp add: sv_ok_but_def)
  ultimately show ?thesis using assms(1) by (auto simp: sv_ok_def sv_ok_but_def)
qed

lemma put_conn_post: "put_conn (post st e) c x = post (put_conn st c x) e"
  by (simp add: put_conn_def post_def)

lemma put_nothing: "(put_conn st c x)\<lparr>sv_queue := sv_queue st\<rparr> = put_conn st c x"
  by (simp add: put_conn_def)

lemma put_post: "(put_conn st c x)\<lparr>sv_queue := sv_queue st @ [e]\<rparr> = post (put_conn st c x) e"
  by (simp add: put_conn_def post_def)

lemma sv_ok_delete_later:
  assumes "sv_ok_but c st" "parser_ok (cn_parser x)" "cn_context x = None" "\<not> cn_reading x" "\<not> cn_running x"
  shows "sv_ok (post (put_conn st c x) (Ev_delete c))"
  using sv_ok_put [OF assms(1), of x "[Ev_delete c]"] assms by (simp add: holds_def put_post)

lemma sv_ok_but_timer: "sv_ok_but c st \<Longrightarrow> sv_ok_but c (post st (Ev_timer d k b))"
  by (auto simp: sv_ok_but_def owners_def conn_ok_def)

lemma timer_cancel_cases:
  "timer_cancel st c x = (st, x) \<and> cn_timer x = None \<or>
   (\<exists>k. timer_cancel st c x = (post st (Ev_timer c k True), x\<lparr>cn_timer := None\<rparr>))"
  by (auto simp: timer_cancel_def split: option.split)

text \<open>Stopping and starting the timer touches nothing else.\<close>

lemma timer_cancel_keeps:
  assumes "timer_cancel st c x = (st1, x1)"
  shows "x1 = x\<lparr>cn_timer := None\<rparr>" "sv_ok_but d st \<Longrightarrow> sv_ok_but d st1" "sv_conns st1 = sv_conns st"
    "sv_timeout st1 = sv_timeout st" "g_counter st1 = g_counter st" "g_max_count st1 = g_max_count st" "sv_next st1 = sv_next st"
  using assms timer_cancel_cases [of st c x] sv_ok_but_timer [of d st] by auto

lemma sv_ok_recv:
  assumes "sv_ok_but c st" "parser_ok (cn_parser x)" "cn_context x = None" "\<not> cn_reading x" "\<not> cn_running x"
  shows "sv_ok (do_recv st c x)"
proof (cases "sk_open (cn_socket x)")
  case False
  then show ?thesis using sv_ok_delete_later [OF assms] by (simp add: do_recv_def)
next
  case True
  obtain st1 x1 where t: "timer_cancel st c x = (st1, x1)" by (cases "timer_cancel st c x")
  note k = timer_cancel_keeps [OF t]
  let ?x = "x1\<lparr>cn_timer := Some T_idle, cn_reading := True\<rparr>"
  have "sv_ok (put_conn st1 c ?x)"
    using sv_ok_put [OF k(2) [OF assms(1)], of ?x "[]"] assms k(1) by (simp add: holds_def put_nothing)
  then show ?thesis using True t by (simp add: do_recv_def timer_start_def)
qed

lemma sv_ok_start:
  assumes "sv_ok_but c st" "parser_ok (cn_parser x)" "cn_context x \<noteq> None" "\<not> cn_reading x" "cn_running x"
  shows "sv_ok (put_conn st c x)"
  using sv_ok_put [OF assms(1), of x "[]"] assms by (simp add: holds_def put_nothing)

section \<open>Steps keep the invariant\<close>

lemma sv_ok_fields [simp]:
  "sv_ok (st\<lparr>sv_timeout := t\<rparr>) = sv_ok st" "sv_ok (st\<lparr>sv_world := w\<rparr>) = sv_ok st"
  "sv_ok_but c (st\<lparr>sv_timeout := t\<rparr>) = sv_ok_but c st" "sv_ok_but c (st\<lparr>sv_world := w\<rparr>) = sv_ok_but c st"
  by (simp_all add: sv_ok_def sv_ok_but_def owners_def)

lemma sv_ok_post_timer: "sv_ok st \<Longrightarrow> sv_ok (post st (Ev_timer d k b))"
  by (auto simp: sv_ok_def owners_def conn_ok_def)

text \<open>A connection at rest can be taken up by its only owner.\<close>

lemma sv_ok_take:
  assumes "sv_ok st" and "sv_queue st = e # es" and "owns c e"
  shows "\<exists>x. sv_conns st c = Some x \<and> sv_ok_but c (st\<lparr>sv_queue := es\<rparr>) \<and> \<not> cn_reading x \<and> \<not> cn_running x \<and>
    parser_ok (cn_parser x) \<and> (cn_context x \<noteq> None \<longleftrightarrow> e = Ev_done c)"
proof -
  have o: "owners st c = of_bool (sv_conns st c \<noteq> None)" using assms(1) by (simp add: sv_ok_def)
  moreover have "claims (sv_queue st) c = 1 + claims es c" using assms(2,3) by simp
  ultimately obtain x where x: "sv_conns st c = Some x" by (cases "sv_conns st c") (auto simp: owners_def)
  with o assms(2,3) have z: "\<not> cn_reading x" "\<not> cn_running x" "claims es c = 0"
    by (auto simp: owners_def holds_def split: if_splits)
  have ctx: "parser_ok (cn_parser x)" "cn_context x \<noteq> None \<longleftrightarrow> e = Ev_done c"
    using assms(1,2) x z claims_done [OF z(3)] by (auto simp: sv_ok_def conn_ok_def)
  have "owners (st\<lparr>sv_queue := es\<rparr>) d = of_bool (sv_conns st d \<noteq> None)" if "d \<noteq> c" for d
  proof -
    have "owners st d = of_bool (sv_conns st d \<noteq> None)" using assms(1) by (simp add: sv_ok_def)
    then show ?thesis using assms(2) that owns_one [OF assms(3), of d] by (simp add: owners_def)
  qed
  moreover have "conn_ok es d y" if "d \<noteq> c" "sv_conns st d = Some y" for d y
    using assms that owns_one [OF assms(3), of d] by (auto simp: sv_ok_def conn_ok_def)
  moreover have "insert c (dom (sv_conns st)) = dom (sv_conns st)" using x by auto
  ultimately have "sv_ok_but c (st\<lparr>sv_queue := es\<rparr>)"
    using assms(1) z(3) by (simp add: sv_ok_but_def sv_ok_def)
  with x z ctx show ?thesis by blast
qed

lemma sv_ok_drop_timer:
  assumes "sv_ok st" and "sv_queue st = Ev_timer d k b # es"
  shows "sv_ok (st\<lparr>sv_queue := es\<rparr>)"
  using assms by (auto simp: sv_ok_def owners_def conn_ok_def)

text \<open>A change of a living connection that leaves its owner alone.\<close>

lemma sv_ok_change:
  assumes "sv_ok st" and "sv_conns st c = Some x" and "cn_reading x' = cn_reading x" and "cn_running x' = cn_running x"
    and "parser_ok (cn_parser x')" and "(cn_context x' = None) = (cn_context x = None)"
  shows "sv_ok (put_conn st c x')"
proof -
  have "owners (put_conn st c x') d = owners st d" for d
    using assms by (simp add: owners_def holds_def)
  moreover have "(sv_conns (put_conn st c x') d = None) = (sv_conns st d = None)" for d using assms(2) by simp
  moreover have "dom (sv_conns (put_conn st c x')) = dom (sv_conns st)" using assms(2) by auto
  moreover have "conn_ok (sv_queue st) d y" if "sv_conns (put_conn st c x') d = Some y" for d y
  proof (cases "d = c")
    case True
    have "conn_ok (sv_queue st) c x" using assms(1,2) by (simp add: sv_ok_def)
    with True that assms show ?thesis by (auto simp: conn_ok_def)
  next
    case False
    with that assms(1) show ?thesis by (simp add: sv_ok_def)
  qed
  ultimately show ?thesis using assms(1) by (simp add: sv_ok_def)
qed

text \<open>A pending operation becomes its completion.\<close>

lemma sv_ok_move:
  assumes "sv_ok st" and "sv_conns st c = Some x" and "owns c e" and "holds (Some x) = 1" and "holds (Some x') = 0"
    and "parser_ok (cn_parser x')" and "cn_context x' \<noteq> None \<longleftrightarrow> e = Ev_done c"
  shows "sv_ok (post (put_conn st c x') e)"
proof -
  have "owners st c = of_bool (sv_conns st c \<noteq> None)" using assms(1) by (simp add: sv_ok_def)
  then have z: "claims (sv_queue st) c = 0" using assms(2,4) by (simp add: owners_def)
  moreover have "insert c (dom (sv_conns st)) = dom (sv_conns st)" using assms(2) by auto
  ultimately have "sv_ok_but c st" using assms(1) by (simp add: sv_ok_but_def sv_ok_def)
  moreover have "list_all (\<lambda>e. \<forall>d. d \<noteq> c \<longrightarrow> \<not> owns d e) [e]" using owns_one [OF assms(3)] by simp
  moreover have "\<not> cn_running x'" using assms(5) by (auto simp: holds_def)
  ultimately show ?thesis
    using sv_ok_put [of c st x' "[e]"] assms(3,5,6,7) by (auto simp: put_post)
qed

lemma holds_pending:
  assumes "sv_ok st" and "sv_conns st c = Some x" and "cn_reading x \<or> cn_running x"
  shows "holds (Some x) = 1 \<and> (cn_reading x = (\<not> cn_running x)) \<and> parser_ok (cn_parser x) \<and> (cn_context x \<noteq> None \<longleftrightarrow> cn_running x)"
proof -
  have o: "owners st c = of_bool (sv_conns st c \<noteq> None)" "conn_ok (sv_queue st) c x"
    using assms(1,2) by (simp_all add: sv_ok_def)
  then have "claims (sv_queue st) c = 0" "holds (Some x) = 1" "cn_reading x = (\<not> cn_running x)"
    using assms(2,3) by (auto simp: owners_def holds_def split: if_splits)
  with o(2) claims_done show ?thesis by (auto simp: conn_ok_def)
qed

lemma sv_ok_close:
  assumes "sv_ok st" and "sv_conns st c = Some x" and "connection_cancel st c = Some st'"
  shows "sv_ok st'"
proof (cases "cn_reading x")
  case True
  let ?x = "x\<lparr>cn_socket := tcp_close (cn_socket x), cn_reading := False\<rparr>"
  note h = holds_pending [OF assms(1,2) disjI1 [OF True]]
  have "st' = post (put_conn st c ?x) (Ev_read c [] True)"
    using assms(2,3) True by (simp add: connection_cancel_def with_conn_def socket_close_def put_conn_post)
  then show ?thesis using sv_ok_move [OF assms(1,2), of "Ev_read c [] True" ?x] h True by (auto simp: holds_def)
next
  case False
  have "st' = put_conn st c (x\<lparr>cn_socket := tcp_close (cn_socket x)\<rparr>)"
    using assms(2,3) False by (simp add: connection_cancel_def with_conn_def socket_close_def)
  moreover have "parser_ok (cn_parser x)" using assms(1,2) by (simp add: sv_ok_def conn_ok_def)
  ultimately show ?thesis using sv_ok_change [OF assms(1,2), of "x\<lparr>cn_socket := tcp_close (cn_socket x)\<rparr>"] by simp
qed

lemma load_context:
  "load_loop p = Some (True, p') \<Longrightarrow> p_context p' \<noteq> None"
proof (induction p rule: load_loop.induct)
  case (1 p)
  then show ?case
    by (auto simp: load_loop.simps [of p] Let_def split: if_splits option.splits pstate.splits)
qed

lemma sv_ok_on_read:
  assumes "sv_ok_but c st0" and "sv_conns st0 c = Some x0" and "\<not> cn_reading x0" and "\<not> cn_running x0"
    and "parser_ok (cn_parser x0)" and "cn_context x0 = None"
  shows "\<exists>st'. on_read st0 c d e = Some st' \<and> sv_ok st'"
proof -
  obtain st1 x where t: "timer_cancel st0 c x0 = (st1, x)" by (cases "timer_cancel st0 c x0")
  note k = timer_cancel_keeps [OF t]
  let ?st = "st1\<lparr>sv_timeout := removeAll c (sv_timeout st1)\<rparr>"
  have but: "sv_ok_but c ?st" using k(2) [OF assms(1)] by simp
  have x: "\<not> cn_reading x" "\<not> cn_running x" "parser_ok (cn_parser x)" "cn_context x = None" using k(1) assms(3-6) by simp_all
  show ?thesis
  proof (cases "e \<or> d = []")
    case True
    then show ?thesis
      using sv_ok_delete_later [OF but x(3,4,1,2)] assms(2) t by (simp add: on_read_def read_rest_def with_conn_def)
  next
    case False
    have "parser_ok ((cn_parser x)\<lparr>p_buffer := p_buffer (cn_parser x) @ d\<rparr>)" using x(3) by simp
    then obtain b p where l: "load (cn_parser x) d = Some (b, p)" "parser_ok p"
      using load_loop_ok unfolding load_def by blast
    show ?thesis
    proof (cases b)
      case False: False
      have "sv_ok (do_recv ?st c (x\<lparr>cn_parser := p\<rparr>))" using sv_ok_recv [OF but, of "x\<lparr>cn_parser := p\<rparr>"] x l(2) by simp
      with \<open>\<not> (e \<or> d = [])\<close> False l(1) assms(2) t show ?thesis by (simp add: on_read_def read_rest_def with_conn_def)
    next
      case True
      then obtain r where r: "p_context p = Some r" using l(1) load_context [of _ p] unfolding load_def by auto
      let ?p = "p\<lparr>p_context := None\<rparr>"
      let ?r = "r\<lparr>m_socket := Some (cn_socket x)\<rparr>"
      have g: "get_request p (cn_socket x) = (?p, Some ?r)" using r by (simp add: get_request_def)
      have p: "parser_ok ?p" using l(2) by (auto simp: parser_ok_def split: pstate.splits)
      have "sv_ok (on_request ?st c (x\<lparr>cn_parser := ?p\<rparr>) ?r)"
      proof (cases "is_valid ?r")
        case True
        then show ?thesis
          using sv_ok_start [OF but, of "x\<lparr>cn_parser := ?p, cn_context := Some (service_context_new ?r), cn_running := True\<rparr>"] x p
          by (simp add: on_request_def)
      next
        case False
        obtain n er sk1 where "write_some (cn_socket x) bad_request_answer = (n, er, sk1)" by (metis prod_cases3)
        with False show ?thesis
          using sv_ok_delete_later [OF but, of "x\<lparr>cn_parser := ?p, cn_socket := tcp_close sk1\<rparr>"] x p by (simp add: on_request_def)
      qed
      with \<open>\<not> (e \<or> d = [])\<close> True l(1) g assms(2) t show ?thesis by (simp add: on_read_def read_rest_def with_conn_def)
    qed
  qed
qed

lemma sv_ok_on_delete:
  assumes "sv_ok_but c st" and "sv_conns st c = Some x"
  shows "\<exists>st'. connection_delete st c = Some st' \<and> sv_ok st'"
proof -
  let ?st = "st\<lparr>g_counter := g_counter st - 1\<rparr>"
  obtain st1 x1 where t: "timer_cancel ?st c x = (st1, x1)" by (cases "timer_cancel ?st c x")
  note k = timer_cancel_keeps [OF t]
  let ?st' = "st1\<lparr>sv_conns := (sv_conns st1)(c := None)\<rparr>"
  have q: "claims (sv_queue st1) d = claims (sv_queue st) d" "(Ev_done d \<in> set (sv_queue st1)) = (Ev_done d \<in> set (sv_queue st))" for d
    using t timer_cancel_cases [of ?st c x] by auto
  have o: "owners ?st' d = of_bool (((sv_conns st)(c := None)) d \<noteq> None)" for d
    using assms(1) k(3) q(1) by (cases "d = c") (auto simp: sv_ok_but_def owners_def holds_def)
  have i: "insert c (dom (sv_conns st)) = dom (sv_conns st)" "c \<in> dom (sv_conns st)" using assms(2) by auto
  have n: "int (card (dom (sv_conns st))) - 1 = int (card (dom (sv_conns st) - {c}))"
    using assms(1) i(2) by (simp add: sv_ok_but_def card_Diff_singleton) (metis One_nat_def Suc_leI card_gt_0_iff empty_iff of_nat_1 of_nat_diff)
  have cs: "sv_conns ?st' = (sv_conns st)(c := None)" using k(3) by simp
  have "conn_ok (sv_queue st1) d y" if "((sv_conns st)(c := None)) d = Some y" for d y
  proof -
    have "d \<noteq> c" "sv_conns st d = Some y" using that by (auto split: if_splits)
    with assms(1) show ?thesis by (simp add: sv_ok_but_def conn_ok_def q(2))
  qed
  moreover have "g_counter st1 = int (card (dom ((sv_conns st)(c := None))))"
    using assms(1) k(5) i(1) n by (simp add: sv_ok_but_def)
  moreover have "\<forall>d\<in>dom ((sv_conns st)(c := None)). d < sv_next st1" "finite (dom ((sv_conns st)(c := None)))"
    using assms(1) k(7) by (auto simp: sv_ok_but_def)
  ultimately have "sv_ok ?st'" using o unfolding sv_ok_def cs by simp
  then show ?thesis using assms(2) t by (simp add: connection_delete_def with_conn_def)
qed

lemma sv_ok_on_done:
  assumes "sv_ok_but c st" and "sv_conns st c = Some x" and "\<not> cn_reading x" and "\<not> cn_running x"
    and "parser_ok (cn_parser x)" and "on_done site st c = Some st'"
  shows "sv_ok st'"
proof -
  obtain ctx rs where r: "cn_context x = Some ctx" "response_destroy (st_hook site) ctx = Some rs"
    using assms(2,6) by (auto simp: on_done_def with_conn_def split: option.splits)
  let ?x = "x\<lparr>cn_context := None, cn_socket := (case m_socket (rs_request rs) of Some sk \<Rightarrow> sk | None \<Rightarrow> cn_socket x)\<rparr>"
  have "st' = (if rs_is_valid ctx then do_recv st c ?x else post (put_conn st c ?x) (Ev_delete c))"
    using assms(2,6) r by (auto simp: on_done_def with_conn_def Let_def split: if_splits)
  then show ?thesis
    using sv_ok_recv [OF assms(1), of ?x] sv_ok_delete_later [OF assms(1), of ?x] assms(3-5) by auto
qed

lemma sv_ok_on_timer:
  assumes "sv_ok st" and "on_timer st c k b = Some st'"
  shows "sv_ok st'"
proof (cases "b \<or> sv_conns st c = None")
  case True
  then show ?thesis using assms by (auto simp: on_timer_def with_conn_def split: conn_timer.splits if_splits)
next
  case False
  then obtain x where x: "sv_conns st c = Some x" by auto
  show ?thesis
  proof (cases k)
    case T_idle
    let ?st = "st\<lparr>sv_timeout := List.insert c (sv_timeout st)\<rparr>"
    obtain st1 x1 where t: "timer_cancel ?st c x = (st1, x1)" by (cases "timer_cancel ?st c x")
    have x1: "x1 = x\<lparr>cn_timer := None\<rparr>" "sv_conns st1 = sv_conns st" using timer_cancel_keeps [OF t] by simp_all
    have "sv_ok st1"
      using t timer_cancel_cases [of ?st c x] assms(1) sv_ok_post_timer [of ?st c] by auto
    moreover have "parser_ok (cn_parser x)" using assms(1) x by (simp add: sv_ok_def conn_ok_def)
    moreover have "st' = put_conn st1 c (x1\<lparr>cn_timer := Some T_max\<rparr>)"
      using assms(2) False x T_idle t by (simp add: on_timer_def with_conn_def timer_start_def)
    ultimately show ?thesis using sv_ok_change [of st1 c x "x1\<lparr>cn_timer := Some T_max\<rparr>"] x x1 by simp
  next
    case T_max
    let ?st = "st\<lparr>sv_timeout := removeAll c (sv_timeout st)\<rparr>"
    have "connection_cancel ?st c = Some st'" using assms(2) False x T_max by (simp add: on_timer_def with_conn_def)
    moreover have "sv_ok ?st" "sv_conns ?st c = Some x" using assms(1) x by simp_all
    ultimately show ?thesis using sv_ok_close by blast
  qed
qed

lemma sv_ok_connection_new:
  assumes "sv_ok st" shows "sv_ok (connection_new st sk n)"
proof -
  let ?c = "sv_next st"
  let ?st = "st\<lparr>g_counter := g_counter st + 1, sv_next := ?c + 1\<rparr>"
  have none: "sv_conns st ?c = None" using assms by (fastforce simp: sv_ok_def)
  have "owners st ?c = of_bool (sv_conns st ?c \<noteq> None)" using assms by (simp add: sv_ok_def)
  with none have "claims (sv_queue st) ?c = 0" by (simp add: owners_def)
  moreover have "owners ?st d = owners st d" for d by (simp add: owners_def)
  moreover have "?c \<notin> dom (sv_conns st)" using none by auto
  moreover have "\<forall>d\<in>insert ?c (dom (sv_conns st)). d < ?c + 1" using assms by (auto simp: sv_ok_def less_Suc_eq)
  ultimately have "sv_ok_but ?c ?st" using assms by (simp add: sv_ok_def sv_ok_but_def)
  from sv_ok_recv [OF this] show ?thesis by (simp add: connection_new_def Let_def parser_ok_new)
qed

lemma sv_ok_accept:
  assumes "sv_ok st" and "new_connection st v sk n = Some (st', r)"
  shows "sv_ok st'"
proof (cases "g_counter st < g_max_count st")
  case True
  then show ?thesis using assms sv_ok_connection_new [OF assms(1)] by (auto simp: new_connection_def)
next
  case False
  show ?thesis
  proof (cases "sv_timeout st = []")
    case True
    then show ?thesis using False assms by (auto simp: new_connection_def split: prod.splits)
  next
    case ne: False
    with False assms(2) obtain st1 where c: "connection_cancel st v = Some st1"
      "st' = connection_new (st1\<lparr>sv_timeout := removeAll v (sv_timeout st1)\<rparr>) sk n"
      by (auto simp: new_connection_def)
    then obtain x where "sv_conns st v = Some x" by (auto simp: connection_cancel_def with_conn_def split: option.splits)
    from sv_ok_close [OF assms(1) this c(1)] show ?thesis unfolding c(2) by (intro sv_ok_connection_new) simp
  qed
qed

lemma sv_ok_external:
  assumes "sv_ok st" and "enabled st l" and "sv_next_state site st l = Some st'" and "l \<noteq> Loop"
  shows "sv_ok st'"
proof (cases l)
  case (Accept sk n v)
  then obtain r where "new_connection st v sk n = Some (st', r)" using assms(3) by auto
  with assms(1) show ?thesis by (rule sv_ok_accept)
next
  case (Net c)
  then obtain x where x: "sv_conns st c = Some x" "cn_reading x" using assms(2) by (auto simp: enabled_def split: option.splits)
  obtain d e sk where r: "read_some (cn_socket x) (cn_ab_size x) = (d, e, sk)" by (metis prod_cases3)
  note h = holds_pending [OF assms(1) x(1) disjI1 [OF x(2)]]
  show ?thesis
    using sv_ok_move [OF assms(1) x(1), of "Ev_read c d e" "x\<lparr>cn_socket := sk, cn_reading := False\<rparr>"] h x r assms(3) Net
    by (auto simp: with_conn_def holds_def)
next
  case (Fire c)
  then obtain x k where x: "sv_conns st c = Some x" "cn_timer x = Some k"
    using assms(2) by (auto simp: enabled_def split: option.splits)
  have "parser_ok (cn_parser x)" using assms(1) x by (simp add: sv_ok_def conn_ok_def)
  then have "sv_ok (put_conn st c (x\<lparr>cn_timer := None\<rparr>))" using sv_ok_change [OF assms(1) x(1)] by simp
  then show ?thesis using sv_ok_post_timer x assms(3) Fire by (auto simp: with_conn_def)
next
  case (Task c)
  then obtain x where x: "sv_conns st c = Some x" "cn_running x" using assms(2) by (auto simp: enabled_def split: option.splits)
  note h = holds_pending [OF assms(1) x(1) disjI2 [OF x(2)]]
  obtain ctx io where r: "cn_context x = Some ctx" "task_run site ctx (sv_world st) = Some io"
    "st' = post (put_conn (st\<lparr>sv_world := io_world io\<rparr>) c (x\<lparr>cn_context := Some (io_response io), cn_running := False\<rparr>)) (Ev_done c)"
    using assms(3) Task x by (auto simp: run_task_def with_conn_def split: option.splits)
  show ?thesis
    unfolding r(3) using h x assms(1) by (intro sv_ok_move [of "st\<lparr>sv_world := io_world io\<rparr>" c x]) (auto simp: holds_def)
qed (use assms(4) in simp)

text \<open>The handlers that own a connection find it; reading and deleting always succeed.\<close>

lemma sv_ok_run_owner:
  assumes "sv_ok st" and "sv_queue st = e # es" and "e = Ev_read c d b \<or> e = Ev_delete c"
  shows "\<exists>st'. run_event site (st\<lparr>sv_queue := es\<rparr>) e = Some st' \<and> sv_ok st'"
proof -
  have "owns c e" using assms(3) by auto
  from sv_ok_take [OF assms(1,2) this] obtain x where x: "sv_conns (st\<lparr>sv_queue := es\<rparr>) c = Some x"
    "sv_ok_but c (st\<lparr>sv_queue := es\<rparr>)" "\<not> cn_reading x" "\<not> cn_running x" "parser_ok (cn_parser x)"
    "cn_context x \<noteq> None \<longleftrightarrow> e = Ev_done c" by auto
  then have "cn_context x = None" using assms(3) by auto
  from sv_ok_on_read [OF x(2,1,3-5) this, of d b] sv_ok_on_delete [OF x(2,1)] assms(3) show ?thesis
    by (auto simp: run_event_def)
qed

lemma sv_ok_loop:
  assumes "sv_ok st" and "sv_queue st = e # es" and "run_event site (st\<lparr>sv_queue := es\<rparr>) e = Some st'"
  shows "sv_ok st'"
proof (cases e)
  case (Ev_timer c k b)
  then have "sv_ok (st\<lparr>sv_queue := es\<rparr>)" using sv_ok_drop_timer assms(1,2) by blast
  from sv_ok_on_timer [OF this] Ev_timer assms(3) show ?thesis by (simp add: run_event_def)
next
  case (Ev_done c)
  then have "owns c e" by simp
  from sv_ok_take [OF assms(1,2) this] obtain x where x: "sv_conns (st\<lparr>sv_queue := es\<rparr>) c = Some x"
    "sv_ok_but c (st\<lparr>sv_queue := es\<rparr>)" "\<not> cn_reading x" "\<not> cn_running x" "parser_ok (cn_parser x)" by auto
  have "on_done site (st\<lparr>sv_queue := es\<rparr>) c = Some st'" using assms(3) Ev_done by (simp add: run_event_def)
  with sv_ok_on_done [OF x(2,1,3-5)] show ?thesis by blast
next
  case (Ev_read c d b)
  then show ?thesis using sv_ok_run_owner [OF assms(1,2) disjI1, of c d b site] assms(3) by auto
next
  case (Ev_delete c)
  then show ?thesis using sv_ok_run_owner [OF assms(1,2) disjI2, of c site] assms(3) by auto
qed

lemma sv_ok_new: "sv_ok (server_new n w)"
  by (simp add: sv_ok_def server_new_def owners_def holds_def)

lemma sv_ok_reach: "sv_reach site (server_new n w) st \<Longrightarrow> sv_ok st"
proof (induction rule: sv_reach.induct)
  case (reach_step st l st')
  show ?case
  proof (cases "l = Loop")
    case True
    then obtain e es where "sv_queue st = e # es" "run_event site (st\<lparr>sv_queue := es\<rparr>) e = Some st'"
      using reach_step.hyps(3) by (auto split: list.splits)
    with reach_step.IH show ?thesis by (rule sv_ok_loop)
  qed (use reach_step sv_ok_external in blast)
qed (rule sv_ok_new)

text \<open>C29: Who keeps a connection alive.  In every state that clients, data, timers, tasks and the loop can
  lead to, in any order: the counter is the number of connections that exist; each has exactly one
  owner (its pending read, its running task, or one queued handler that goes on with it or deletes
  it) and a deleted one has none, so nothing is deleted twice or forgotten; and the handlers of
  reads and deletions always find their connection and succeed.\<close>

theorem connection_owners:
  assumes "sv_reach site (server_new n w) st"
  shows "g_counter st = int (card (dom (sv_conns st))) \<and>
    (\<forall>c. holds (sv_conns st c) + claims (sv_queue st) c = of_bool (sv_conns st c \<noteq> None)) \<and>
    (\<forall>e es c d b. sv_queue st = e # es \<and> (e = Ev_read c d b \<or> e = Ev_delete c) \<longrightarrow>
       (\<exists>st'. run_event site (st\<lparr>sv_queue := es\<rparr>) e = Some st'))"
proof -
  note ok = sv_ok_reach [OF assms]
  then have "\<exists>st'. run_event site (st\<lparr>sv_queue := es\<rparr>) e = Some st'"
    if "sv_queue st = e # es" "e = Ev_read c d b \<or> e = Ev_delete c" for e es c d b
    using sv_ok_run_owner [OF ok that] by blast
  with ok show ?thesis by (auto simp: sv_ok_def owners_def)
qed

text \<open>The states of a list of labels.\<close>

fun sv_exec :: "'w site \<Rightarrow> 'w server \<Rightarrow> sv_label list \<Rightarrow> 'w server option" where
  "sv_exec site st [] = Some st"
| "sv_exec site st (l # ls) =
     (if \<not> enabled st l then None
      else case sv_next_state site st l of None \<Rightarrow> None | Some st1 \<Rightarrow> sv_exec site st1 ls)"

lemma sv_exec_reach: "sv_exec site st ls = Some st' \<Longrightarrow> sv_reach site st0 st \<Longrightarrow> sv_reach site st0 st'"
proof (induction ls arbitrary: st)
  case (Cons l ls)
  then obtain st1 where "enabled st l" "sv_next_state site st l = Some st1" "sv_exec site st1 ls = Some st'"
    by (auto split: if_splits option.splits)
  with Cons show ?case using reach_step by blast
qed simp

lemmas server_simps = connection_new_def do_recv_def timer_start_def timer_cancel_def put_conn_def post_def with_conn_def
  new_connection_def enabled_def run_event_def on_read_def read_rest_def on_timer_def connection_delete_def connection_cancel_def
  server_new_def Let_def

text \<open>An idle entry can outlive its connection.  When the timer of an idle connection has run out and
  its read has ended before the loop comes to either, the timer's handler enters the connection into
  the table of idle connections after its deletion has been queued; the destructor does not take it
  out, and the next client that finds the server full makes it cancel a deleted object.\<close>

theorem stale_idle_entry:
  "\<exists>st sk. sv_reach site (server_new 1 w) st \<and> sv_timeout st = [0] \<and> sv_conns st 0 = None \<and>
     enabled st (Accept sk 64 0) \<and> sv_next_state site st (Accept sk 64 0) = None"
proof -
  let ?sk = "tcp_new 64 []"
  let ?ls = "[Accept ?sk 64 0, Net 0, Fire 0, Loop, Loop, Loop, Accept ?sk 64 0]"
  obtain st where st: "sv_exec site (server_new 1 w) ?ls = Some st" "sv_timeout st = [0]" "sv_conns st 0 = None"
    "g_counter st = 1" "g_max_count st = 1"
    by (simp add: server_simps tcp_new_def read_some_def)
  have "sv_reach site (server_new 1 w) st" using sv_exec_reach [OF st(1) reach_init] .
  with st(2-5) show ?thesis
    by (intro exI [of _ st] exI [of _ ?sk]) (simp add: server_simps tcp_new_def)
qed

lemma connection_owners_witness:
  "\<forall>site. \<exists>st :: unit server.
     sv_reach site (server_new 4 ()) st \<and> g_counter st = 1 \<and> holds (sv_conns st 0) + claims (sv_queue st) 0 = 1"
proof
  fix site :: "unit site"
  obtain st :: "unit server" where st: "sv_exec site (server_new 4 ()) [Accept (tcp_new 64 []) 64 0, Net 0] = Some st" "g_counter st = 1"
    "sv_conns st 0 \<noteq> None"
    by (simp add: server_simps tcp_new_def read_some_def)
  have r: "sv_reach site (server_new 4 ()) st" using sv_exec_reach [OF st(1) reach_init] .
  have "holds (sv_conns st 0) + claims (sv_queue st) 0 = 1" using connection_owners [OF r] st(3) by simp
  with r st(2) show "\<exists>st :: unit server.
     sv_reach site (server_new 4 ()) st \<and> g_counter st = 1 \<and> holds (sv_conns st 0) + claims (sv_queue st) 0 = 1" by blast
qed

section \<open>A loop that keeps up\<close>

text \<open>The loop runs until its queue is empty; \<open>n\<close> handlers at most (\<open>None\<close>: more were needed, or a
  handler failed).\<close>

fun drain :: "nat \<Rightarrow> 'w site \<Rightarrow> 'w server \<Rightarrow> 'w server option" where
  "drain 0 site st = (if sv_queue st = [] then Some st else None)"
| "drain (Suc n) site st =
     (case sv_queue st of
        [] \<Rightarrow> Some st
      | e # es \<Rightarrow> (case run_event site (st\<lparr>sv_queue := es\<rparr>) e of None \<Rightarrow> None | Some st1 \<Rightarrow> drain n site st1))"

text \<open>States of a server whose loop has nothing left to do before the next thing happens outside.\<close>

inductive sv_calm :: "'w site \<Rightarrow> 'w server \<Rightarrow> 'w server \<Rightarrow> bool" for site :: "'w site" and st0 :: "'w server" where
  calm_init: "sv_calm site st0 st0"
| calm_step: "sv_calm site st0 st \<Longrightarrow> enabled st l \<Longrightarrow> l \<noteq> Loop \<Longrightarrow> sv_next_state site st l = Some st1 \<Longrightarrow>
    drain 4 site st1 = Some st' \<Longrightarrow> sv_calm site st0 st'"

definition idle_ok_but :: "nat \<Rightarrow> 'w server \<Rightarrow> bool" where
  "idle_ok_but c st =
     ((\<forall>d x. d \<noteq> c \<longrightarrow> sv_conns st d = Some x \<longrightarrow>
         (cn_reading x \<longleftrightarrow> cn_timer x \<noteq> None) \<and> (d \<in> set (sv_timeout st) \<longleftrightarrow> cn_timer x = Some T_max)) \<and>
      set (sv_timeout st) \<subseteq> insert c (dom (sv_conns st)))"

definition idle_ok :: "'w server \<Rightarrow> bool" where
  "idle_ok st =
     ((\<forall>d x. sv_conns st d = Some x \<longrightarrow>
         (cn_reading x \<longleftrightarrow> cn_timer x \<noteq> None) \<and> (d \<in> set (sv_timeout st) \<longleftrightarrow> cn_timer x = Some T_max)) \<and>
      set (sv_timeout st) \<subseteq> dom (sv_conns st))"

lemma idle_ok_put:
  assumes "idle_ok_but c st" and "sv_conns st' = (sv_conns st)(c \<mapsto> x)" and "sv_timeout st' = sv_timeout st"
    and "cn_reading x \<longleftrightarrow> cn_timer x \<noteq> None" and "c \<in> set (sv_timeout st) \<longleftrightarrow> cn_timer x = Some T_max"
  shows "idle_ok st'"
  using assms by (auto simp: idle_ok_def idle_ok_but_def)

lemma idle_ok_remove:
  assumes "idle_ok_but c st" and "sv_conns st' = (sv_conns st)(c := None)" and "sv_timeout st' = sv_timeout st"
    and "c \<notin> set (sv_timeout st)"
  shows "idle_ok st'"
  using assms by (auto simp: idle_ok_def idle_ok_but_def split: if_splits)

lemma idle_ok_take: "idle_ok st \<Longrightarrow> idle_ok_but c (st\<lparr>sv_timeout := removeAll c (sv_timeout st)\<rparr>)"
  by (auto simp: idle_ok_def idle_ok_but_def)

text \<open>What a drained handler leaves behind.\<close>

definition calm_after :: "'w server \<Rightarrow> int \<Rightarrow> 'w server option \<Rightarrow> bool" where
  "calm_after st k r =
     (\<exists>st'. r = Some st' \<and> idle_ok st' \<and> sv_queue st' = [] \<and> g_max_count st' = g_max_count st \<and> g_counter st' \<le> g_counter st + k)"

text \<open>A deletion at the end of a queue of cancelled waits.\<close>

lemma drain_delete:
  assumes "idle_ok_but c st" and "sv_conns st c = Some x" and "cn_timer x = None" and "c \<notin> set (sv_timeout st)"
  shows "calm_after st (-1) (drain (Suc n) site (st\<lparr>sv_queue := [Ev_delete c]\<rparr>))"
proof -
  let ?st = "st\<lparr>sv_queue := [], g_counter := g_counter st - 1, sv_conns := (sv_conns st)(c := None)\<rparr>"
  have "drain (Suc n) site (st\<lparr>sv_queue := [Ev_delete c]\<rparr>) = Some ?st"
    using assms(2,3) by (cases n) (simp_all add: run_event_def connection_delete_def with_conn_def timer_cancel_def)
  moreover have "idle_ok ?st" using idle_ok_remove [OF assms(1), of ?st] assms(4) by simp
  ultimately show ?thesis by (simp add: calm_after_def)
qed

lemma drain_cancelled:
  "drain (Suc n) site (st\<lparr>sv_queue := Ev_timer c k True # q\<rparr>) = drain n site (st\<lparr>sv_queue := q\<rparr>)"
  by (simp add: run_event_def on_timer_def)

lemma drain_nothing: "drain n site (st\<lparr>sv_queue := []\<rparr>) = Some (st\<lparr>sv_queue := []\<rparr>)"
  by (cases n) simp_all

lemma calm_after_put:
  assumes "idle_ok_but c st" and "cn_reading x \<longleftrightarrow> cn_timer x \<noteq> None" and "c \<in> set (sv_timeout st) \<longleftrightarrow> cn_timer x = Some T_max"
  shows "calm_after st 0 (drain n site ((put_conn st c x)\<lparr>sv_queue := []\<rparr>))"
proof -
  have "idle_ok ((put_conn st c x)\<lparr>sv_queue := []\<rparr>)"
    by (rule idle_ok_put [OF assms(1)]) (use assms(2,3) in simp_all)
  then show ?thesis unfolding drain_nothing by (simp add: calm_after_def)
qed

lemma calm_after_mono: "calm_after st k r \<Longrightarrow> k \<le> j \<Longrightarrow> calm_after st j r"
  by (auto simp: calm_after_def)

text \<open>\<open>do_recv\<close> and \<open>delete_later\<close> on a connection whose timer has just been stopped.\<close>

lemma drain_recv:
  assumes "idle_ok_but c st" and "cn_timer x = None" and "\<not> cn_reading x" and "c \<notin> set (sv_timeout st)" and "sv_queue st = []"
  shows "calm_after st 0 (drain (Suc n) site (do_recv st c x))"
proof (cases "sk_open (cn_socket x)")
  case True
  then have "do_recv st c x = (put_conn st c (x\<lparr>cn_timer := Some T_idle, cn_reading := True\<rparr>))\<lparr>sv_queue := []\<rparr>"
    using assms(2,5) by (simp add: do_recv_def timer_start_def timer_cancel_def put_conn_def)
  moreover have "calm_after st 0 (drain (Suc n) site ((put_conn st c (x\<lparr>cn_timer := Some T_idle, cn_reading := True\<rparr>))\<lparr>sv_queue := []\<rparr>))"
    by (rule calm_after_put) (use assms in auto)
  ultimately show ?thesis by simp
next
  case False
  then have d: "do_recv st c x = (put_conn st c x)\<lparr>sv_queue := [Ev_delete c]\<rparr>"
    using assms(5) by (simp add: do_recv_def post_def)
  have "idle_ok_but c (put_conn st c x)" using assms(1) by (auto simp: idle_ok_but_def)
  from drain_delete [OF this, of x n site] show ?thesis
    using assms(2,4) calm_after_mono unfolding d by (auto simp: calm_after_def)
qed

lemma drain_mono: "drain n site st = Some st' \<Longrightarrow> drain (Suc n) site st = Some st'"
proof (induction n arbitrary: st)
  case 0
  then show ?case by (simp split: if_splits)
next
  case (Suc n)
  show ?case
  proof (cases "sv_queue st")
    case (Cons e es)
    with Suc show ?thesis by (subst drain.simps) (auto simp del: drain.simps(2) simp: drain.simps(2) [of n] split: option.splits)
  qed (use Suc.prems in simp)
qed

text \<open>Cancelling the timer puts at most one handler without effect in front.\<close>

definition in_front :: "io_event list \<Rightarrow> 'w server \<Rightarrow> 'w server" where
  "in_front q st = st\<lparr>sv_queue := q @ sv_queue st\<rparr>"

lemma calm_in_front:
  assumes "calm_after st k (drain n site st1)" and "q = [] \<or> (\<exists>c t. q = [Ev_timer c t True])"
  shows "calm_after st k (drain (Suc n) site (in_front q st1))"
proof -
  obtain st' where d: "drain n site st1 = Some st'" using assms(1) by (auto simp: calm_after_def)
  have "drain (Suc n) site (in_front q st1) = Some st'"
  proof (cases "q = []")
    case True
    then show ?thesis using drain_mono [OF d] by (simp add: in_front_def)
  next
    case False
    then obtain c t where "q = [Ev_timer c t True]" using assms(2) by auto
    then show ?thesis using d drain_cancelled [where st = st1 and q = "sv_queue st1"] by (simp add: in_front_def)
  qed
  with d assms(1) show ?thesis by (simp add: calm_after_def)
qed

lemma do_recv_in_front: "cn_timer x = None \<Longrightarrow> do_recv (in_front q st) c x = in_front q (do_recv st c x)"
  by (simp add: do_recv_def in_front_def post_def put_conn_def timer_start_def timer_cancel_def)

lemma on_request_in_front: "on_request (in_front q st) c x r = in_front q (on_request st c x r)"
  by (simp add: on_request_def in_front_def post_def put_conn_def split: prod.split)

lemma delete_later_in_front: "post (put_conn (in_front q st) c x) e = in_front q (post (put_conn st c x) e)"
  by (simp add: in_front_def post_def put_conn_def)

lemma read_rest_in_front:
  "cn_timer x = None \<Longrightarrow> read_rest (in_front q st) c x d e = map_option (in_front q) (read_rest st c x d e)"
  by (auto simp: read_rest_def do_recv_in_front on_request_in_front delete_later_in_front
      split: option.split prod.split bool.split)

lemma idle_ok_but_put [simp]: "idle_ok_but c (put_conn st c x) = idle_ok_but c st"
  by (auto simp: idle_ok_but_def)

lemma drain_delete_later:
  assumes "idle_ok_but c st" and "cn_timer x = None" and "c \<notin> set (sv_timeout st)" and "sv_queue st = []"
  shows "calm_after st (-1) (drain (Suc n) site (post (put_conn st c x) (Ev_delete c)))"
proof -
  have "post (put_conn st c x) (Ev_delete c) = (put_conn st c x)\<lparr>sv_queue := [Ev_delete c]\<rparr>"
    using assms(4) by (simp add: post_def)
  with drain_delete [of c "put_conn st c x" x n site] assms show ?thesis by (auto simp: calm_after_def)
qed

lemma read_rest_calm:
  assumes "idle_ok_but c st" and "cn_timer x = None" and "\<not> cn_reading x" and "c \<notin> set (sv_timeout st)" and "sv_queue st = []"
    and "read_rest st c x d e = Some st1"
  shows "calm_after st (if e \<or> d = [] then -1 else 0) (drain (Suc n) site st1)"
proof (cases "e \<or> d = []")
  case True
  then have "st1 = post (put_conn st c x) (Ev_delete c)" using assms(6) by (auto simp: read_rest_def)
  with drain_delete_later [OF assms(1,2,4,5)] True show ?thesis by simp
next
  case False
  then obtain b p where l: "load (cn_parser x) d = Some (b, p)" using assms(6) by (auto simp: read_rest_def split: option.splits)
  show ?thesis
  proof (cases b)
    case False: False
    then have "st1 = do_recv st c (x\<lparr>cn_parser := p\<rparr>)" using assms(6) l \<open>\<not> (e \<or> d = [])\<close> by (simp add: read_rest_def)
    with drain_recv [OF assms(1), of "x\<lparr>cn_parser := p\<rparr>"] assms(2-5) \<open>\<not> (e \<or> d = [])\<close> show ?thesis by simp
  next
    case True
    then obtain p1 r where st1: "st1 = on_request st c (x\<lparr>cn_parser := p1\<rparr>) r"
      using assms(6) l \<open>\<not> (e \<or> d = [])\<close> by (auto simp: read_rest_def split: prod.splits option.splits)
    let ?x = "x\<lparr>cn_parser := p1\<rparr>"
    obtain m er sk1 where w: "write_some (cn_socket x) bad_request_answer = (m, er, sk1)" by (metis prod_cases3)
    show ?thesis
    proof (cases "is_valid r")
      case True
      let ?y = "?x\<lparr>cn_context := Some (service_context_new r), cn_running := True\<rparr>"
      have "st1 = (put_conn st c ?y)\<lparr>sv_queue := []\<rparr>" using st1 True assms(5) by (simp add: on_request_def put_conn_def)
      with calm_after_put [OF assms(1), of ?y "Suc n" site] assms(2-4) \<open>\<not> (e \<or> d = [])\<close> show ?thesis by simp
    next
      case False
      then have "st1 = post (put_conn st c (?x\<lparr>cn_socket := tcp_close sk1\<rparr>)) (Ev_delete c)" using st1 w by (simp add: on_request_def)
      with drain_delete_later [OF assms(1), of "?x\<lparr>cn_socket := tcp_close sk1\<rparr>" n site] assms(2,4,5) \<open>\<not> (e \<or> d = [])\<close>
      show ?thesis by (auto intro: calm_after_mono)
    qed
  qed
qed

lemma on_read_calm:
  assumes "idle_ok_but c st" and "sv_conns st c = Some x" and "\<not> cn_reading x" and "sv_queue st = []"
    and "on_read st c d e = Some st1"
  shows "calm_after st (if e \<or> d = [] then -1 else 0) (drain (Suc (Suc n)) site st1)"
proof -
  let ?q = "case cn_timer x of None \<Rightarrow> [] | Some k \<Rightarrow> [Ev_timer c k True]"
  let ?x = "x\<lparr>cn_timer := None\<rparr>"
  let ?st = "st\<lparr>sv_timeout := removeAll c (sv_timeout st)\<rparr>"
  have t: "timer_cancel st c x = (st\<lparr>sv_queue := ?q\<rparr>, ?x)"
    using assms(4) by (cases "cn_timer x") (simp_all add: timer_cancel_def post_def)
  have "(st\<lparr>sv_queue := ?q\<rparr>)\<lparr>sv_timeout := removeAll c (sv_timeout (st\<lparr>sv_queue := ?q\<rparr>))\<rparr> = in_front ?q ?st"
    using assms(4) by (simp add: in_front_def)
  then have "read_rest (in_front ?q ?st) c ?x d e = Some st1"
    using assms(5) unfolding on_read_def with_conn_def assms(2) option.case t prod.case by simp
  then obtain st2 where r: "read_rest ?st c ?x d e = Some st2" "st1 = in_front ?q st2"
    by (auto simp: read_rest_in_front)
  have "idle_ok_but c ?st" using assms(1) by (auto simp: idle_ok_but_def)
  from read_rest_calm [OF this _ _ _ _ r(1), of n site] assms(3,4)
  have "calm_after st (if e \<or> d = [] then -1 else 0) (drain (Suc n) site st2)" by (simp add: calm_after_def)
  from calm_in_front [OF this] show ?thesis unfolding r(2) by (cases "cn_timer x") auto
qed

definition server_calm :: "'w server \<Rightarrow> bool" where
  "server_calm st = (sv_ok st \<and> idle_ok st \<and> sv_queue st = [] \<and> g_counter st \<le> g_max_count st)"

lemma queue_nil: "sv_queue st = [] \<Longrightarrow> st\<lparr>sv_queue := []\<rparr> = st"
  by (cases st) simp

lemma drain_step:
  "drain (Suc n) site st = Some st' \<Longrightarrow> sv_queue st = e # es \<Longrightarrow>
   \<exists>st1. run_event site (st\<lparr>sv_queue := es\<rparr>) e = Some st1 \<and> drain n site st1 = Some st'"
  by (simp split: option.splits)

lemma drain_ok: "sv_ok st \<Longrightarrow> drain n site st = Some st' \<Longrightarrow> sv_ok st'"
proof (induction n arbitrary: st)
  case (Suc n)
  show ?case
  proof (cases "sv_queue st")
    case (Cons e es)
    then obtain st1 where "run_event site (st\<lparr>sv_queue := es\<rparr>) e = Some st1" "drain n site st1 = Some st'"
      using drain_step [OF Suc.prems(2)] by blast
    with Suc sv_ok_loop [OF Suc.prems(1) Cons] show ?thesis by blast
  qed (use Suc.prems in simp)
qed (auto split: if_splits)

lemma calm_after_Some: "calm_after st k (Some st') \<Longrightarrow> idle_ok st' \<and> sv_queue st' = [] \<and> g_max_count st' = g_max_count st \<and>
    g_counter st' \<le> g_counter st + k"
  by (simp add: calm_after_def)

text \<open>The end of a read in a calm state, caused by the network or by closing the socket.\<close>

lemma read_event_calm:
  assumes "idle_ok_but c st" and "sv_conns st c = Some x" and "\<not> cn_reading x" and "sv_queue st = [Ev_read c d e]"
    and "sv_ok st"
  shows "calm_after st (if e \<or> d = [] then -1 else 0) (drain (Suc (Suc (Suc n))) site st)"
proof -
  let ?st = "st\<lparr>sv_queue := []\<rparr>"
  obtain st1 where "run_event site ?st (Ev_read c d e) = Some st1"
    using sv_ok_run_owner [OF assms(5,4) disjI1, of c d e site] by auto
  then have r: "on_read ?st c d e = Some st1" "drain (Suc (Suc (Suc n))) site st = drain (Suc (Suc n)) site st1"
    using assms(4) by (simp_all add: run_event_def)
  have "idle_ok_but c ?st" using assms(1) by (simp add: idle_ok_but_def)
  from on_read_calm [OF this _ assms(3) _ r(1), of n site] assms(2)
  have "calm_after ?st (if e \<or> d = [] then -1 else 0) (drain (Suc (Suc n)) site st1)" by simp
  then show ?thesis unfolding r(2) by (simp add: calm_after_def)
qed

lemma idle_ok_but_set: "idle_ok st \<Longrightarrow> idle_ok_but c (put_conn st c x)"
  by (auto simp: idle_ok_but_def idle_ok_def)

lemma cancel_event:
  assumes "sv_conns st c = Some x" and "cn_reading x" and "connection_cancel st c = Some st1"
  shows "st1 = post (put_conn st c (x\<lparr>cn_socket := tcp_close (cn_socket x), cn_reading := False\<rparr>)) (Ev_read c [] True)"
  using assms by (simp add: connection_cancel_def with_conn_def socket_close_def put_conn_post)

text \<open>What an outside event does to a calm state: the step succeeds and the loop becomes idle again.\<close>

definition settles :: "'w site \<Rightarrow> 'w server \<Rightarrow> 'w server option \<Rightarrow> bool" where
  "settles site st r = (\<exists>st1. r = Some st1 \<and> calm_after st 0 (drain 4 site st1))"

lemma calm_read:
  assumes "server_calm st" and "sv_conns st c = Some x" and "cn_reading x" and "\<not> cn_reading y" and "\<not> cn_running y"
    and "cn_parser y = cn_parser x" and "cn_context y = cn_context x"
  shows "calm_after st (if e \<or> d = [] then -1 else 0) (drain (Suc (Suc (Suc n))) site (post (put_conn st c y) (Ev_read c d e)))"
proof -
  let ?s = "post (put_conn st c y) (Ev_read c d e)"
  have ok: "sv_ok st" "idle_ok st" "sv_queue st = []" using assms(1) by (simp_all add: server_calm_def)
  note h = holds_pending [OF ok(1) assms(2) disjI1 [OF assms(3)]]
  have "sv_ok ?s"
    using h assms(3-7) by (intro sv_ok_move [OF ok(1) assms(2)]) (auto simp: holds_def)
  moreover have "idle_ok_but c ?s" using idle_ok_but_set [OF ok(2), of c y] by (simp add: idle_ok_but_def)
  ultimately have "calm_after ?s (if e \<or> d = [] then -1 else 0) (drain (Suc (Suc (Suc n))) site ?s)"
    using ok(3) assms(4) by (intro read_event_calm) simp_all
  then show ?thesis by (simp add: calm_after_def)
qed

lemma calm_net:
  assumes "server_calm st" and "enabled st (Net c)"
  shows "settles site st (sv_next_state site st (Net c))"
proof -
  obtain x where x: "sv_conns st c = Some x" "cn_reading x" using assms(2) by (auto simp: enabled_def split: option.splits)
  obtain d e sk where r: "read_some (cn_socket x) (cn_ab_size x) = (d, e, sk)" by (metis prod_cases3)
  let ?x = "x\<lparr>cn_socket := sk, cn_reading := False\<rparr>"
  have "\<not> cn_running x" using holds_pending [OF _ x(1) disjI1 [OF x(2)]] assms(1) x(2) by (simp add: server_calm_def)
  then have "calm_after st (if e \<or> d = [] then -1 else 0) (drain (Suc (Suc (Suc 1))) site (post (put_conn st c ?x) (Ev_read c d e)))"
    using calm_read [OF assms(1) x, of ?x] by simp
  moreover have "sv_next_state site st (Net c) = Some (post (put_conn st c ?x) (Ev_read c d e))" using x r by (simp add: with_conn_def)
  ultimately show ?thesis
    by (auto simp: settles_def numeral_eq_Suc elim!: calm_after_mono split: if_splits)
qed

lemma calm_fire:
  assumes "server_calm st" and "enabled st (Fire c)"
  shows "settles site st (sv_next_state site st (Fire c))"
proof -
  obtain x k where x: "sv_conns st c = Some x" "cn_timer x = Some k" using assms(2) by (auto simp: enabled_def split: option.splits)
  have q: "sv_ok st" "sv_queue st = []" "idle_ok st" using assms(1) by (simp_all add: server_calm_def)
  then have rd: "cn_reading x" using x by (auto simp: idle_ok_def)
  let ?x = "x\<lparr>cn_timer := None\<rparr>"
  let ?s = "put_conn st c ?x"
  have st1: "sv_next_state site st (Fire c) = Some (post ?s (Ev_timer c k False))" using x by (simp add: with_conn_def)
  have s: "(post ?s (Ev_timer c k False))\<lparr>sv_queue := []\<rparr> = ?s" "sv_queue (post ?s (Ev_timer c k False)) = [Ev_timer c k False]"
    using q(2) by (simp_all add: post_def put_conn_def)
  then have dr: "drain (Suc n) site (post ?s (Ev_timer c k False)) = (case on_timer ?s c k False of None \<Rightarrow> None | Some st2 \<Rightarrow> drain n site st2)" for n
    by (simp add: run_event_def)
  show ?thesis
  proof (cases k)
    case T_idle
    let ?t = "st\<lparr>sv_timeout := List.insert c (sv_timeout st)\<rparr>"
    let ?y = "put_conn ?t c (x\<lparr>cn_timer := Some T_max\<rparr>)"
    have e: "on_timer ?s c k False = Some ?y"
      using T_idle by (simp add: on_timer_def with_conn_def timer_start_def timer_cancel_def put_conn_def)
    have "idle_ok_but c ?t" using q(3) x(1) by (auto simp: idle_ok_def idle_ok_but_def)
    from calm_after_put [OF this, of "x\<lparr>cn_timer := Some T_max\<rparr>" 3 site] rd
    have "calm_after ?t 0 (drain 3 site (?y\<lparr>sv_queue := []\<rparr>))" by simp
    moreover have "?y\<lparr>sv_queue := []\<rparr> = ?y" using q(2) by (simp add: queue_nil)
    ultimately have "calm_after st 0 (drain 4 site (post ?s (Ev_timer c k False)))"
      using dr [of 3] e by (simp add: calm_after_def)
    with st1 show ?thesis by (simp add: settles_def)
  next
    case T_max
    let ?t = "st\<lparr>sv_timeout := removeAll c (sv_timeout st)\<rparr>"
    let ?y = "?x\<lparr>cn_socket := tcp_close (cn_socket x), cn_reading := False\<rparr>"
    have e: "on_timer ?s c k False = Some (post (put_conn ?t c ?y) (Ev_read c [] True))"
      using T_max rd by (simp add: on_timer_def connection_cancel_def with_conn_def socket_close_def put_conn_def post_def)
    have run: "\<not> cn_running x" and h: "parser_ok (cn_parser x)" "cn_context x = None"
      using holds_pending [OF q(1) x(1) disjI1 [OF rd]] rd by auto
    have "sv_ok (post (put_conn ?t c ?y) (Ev_read c [] True))"
      by (rule sv_ok_move [of ?t c x]) (use q(1) x(1) rd run h in \<open>auto simp: holds_def\<close>)
    moreover have "idle_ok_but c (post (put_conn ?t c ?y) (Ev_read c [] True))" using q(3) by (auto simp: idle_ok_def idle_ok_but_def)
    ultimately have "calm_after (post (put_conn ?t c ?y) (Ev_read c [] True)) (if True \<or> [] = ([] :: string) then -1 else 0)
        (drain (Suc (Suc (Suc 0))) site (post (put_conn ?t c ?y) (Ev_read c [] True)))"
      by (intro read_event_calm [where x = ?y and d = "[]" and e = True and n = 0]) (use q(2) in simp_all)
    then have "calm_after st 0 (drain 4 site (post ?s (Ev_timer c k False)))"
      using dr [of 3] e by (auto simp: calm_after_def numeral_eq_Suc)
    with st1 show ?thesis by (simp add: settles_def)
  qed
qed

lemma calm_task:
  assumes "server_calm st" and "enabled st (Task c)" and "sv_next_state site st (Task c) = Some st1" and "drain 4 site st1 = Some st'"
  shows "calm_after st 0 (Some st')"
proof -
  obtain x where x: "sv_conns st c = Some x" "cn_running x" using assms(2) by (auto simp: enabled_def split: option.splits)
  have ok: "sv_ok st" "idle_ok st" "sv_queue st = []" using assms(1) by (simp_all add: server_calm_def)
  have rd: "\<not> cn_reading x" using holds_pending [OF ok(1) x(1) disjI2 [OF x(2)]] x(2) by simp
  then have tm: "cn_timer x = None" "c \<notin> set (sv_timeout st)" using ok(2) x(1) by (auto simp: idle_ok_def)
  obtain ctx io where r: "cn_context x = Some ctx" "task_run site ctx (sv_world st) = Some io"
    "st1 = post (put_conn (st\<lparr>sv_world := io_world io\<rparr>) c (x\<lparr>cn_context := Some (io_response io), cn_running := False\<rparr>)) (Ev_done c)"
    using assms(3) x by (auto simp: run_task_def with_conn_def split: option.splits)
  let ?x = "x\<lparr>cn_context := Some (io_response io), cn_running := False\<rparr>"
  let ?s = "put_conn (st\<lparr>sv_world := io_world io\<rparr>) c ?x"
  have s: "st1\<lparr>sv_queue := []\<rparr> = ?s" "sv_queue st1 = [Ev_done c]"
    using ok(3) r(3) by (simp_all add: post_def put_conn_def)
  obtain st2 where st2: "on_done site ?s c = Some st2" "drain 3 site st2 = Some st'"
    using drain_step [of 3 site st1 st', OF _ s(2)] assms(4) s(1) by (auto simp: run_event_def)
  obtain rs where d: "response_destroy (st_hook site) (io_response io) = Some rs"
    using st2(1) by (auto simp: on_done_def with_conn_def split: option.splits)
  let ?y = "?x\<lparr>cn_context := None, cn_socket := (case m_socket (rs_request rs) of Some sk \<Rightarrow> sk | None \<Rightarrow> cn_socket ?x)\<rparr>"
  have e: "st2 = (if rs_is_valid (io_response io) then do_recv ?s c ?y else post (put_conn ?s c ?y) (Ev_delete c))"
    using st2(1) d unfolding on_done_def with_conn_def by (simp add: Let_def split: if_splits)
  have but: "idle_ok_but c ?s" using ok(2) by (auto simp: idle_ok_def idle_ok_but_def)
  have q: "sv_queue ?s = []" "c \<notin> set (sv_timeout ?s)" using ok(3) tm by (simp_all add: put_conn_def)
  have y: "cn_timer ?y = None" "\<not> cn_reading ?y" using tm rd by simp_all
  have "calm_after ?s 0 (drain 3 site st2)"
  proof (cases "rs_is_valid (io_response io)")
    case True
    then have "st2 = do_recv ?s c ?y" using e by simp
    with drain_recv [OF but y q(2,1), of 2 site] show ?thesis by (simp only: numeral_3_eq_3 numeral_2_eq_2)
  next
    case False
    then have "st2 = post (put_conn ?s c ?y) (Ev_delete c)" using e by simp
    with calm_after_mono [OF drain_delete_later [OF but y(1) q(2,1), of 2 site]] show ?thesis
      by (simp only: numeral_3_eq_3 numeral_2_eq_2)
  qed
  then have "calm_after ?s 0 (Some st')" by (simp only: st2(2))
  then show ?thesis by (simp add: calm_after_def put_conn_def)
qed

lemma calm_connection_new:
  assumes "server_calm st" and "g_counter st < g_max_count st" and "sk_open sk"
  shows "idle_ok (connection_new st sk n) \<and> sv_queue (connection_new st sk n) = [] \<and>
    g_max_count (connection_new st sk n) = g_max_count st \<and> g_counter (connection_new st sk n) \<le> g_max_count st"
proof -
  let ?c = "sv_next st"
  have "?c \<notin> dom (sv_conns st)" using assms(1) by (auto simp: server_calm_def sv_ok_def)
  then have "idle_ok_but ?c st" "?c \<notin> set (sv_timeout st)" using assms(1) by (auto simp: server_calm_def idle_ok_def idle_ok_but_def)
  moreover have "connection_new st sk n = put_conn (st\<lparr>g_counter := g_counter st + 1, sv_next := ?c + 1\<rparr>) ?c
      \<lparr>cn_socket = sk, cn_timer = Some T_idle, cn_reading = True, cn_ab_size = n, cn_parser = parser_new, cn_context = None,
       cn_running = False\<rparr>"
    using assms(3) by (simp add: connection_new_def do_recv_def timer_start_def timer_cancel_def Let_def)
  ultimately have "idle_ok (connection_new st sk n)"
    using idle_ok_put [of ?c st "connection_new st sk n"] by simp
  then show ?thesis
    using assms by (simp add: connection_new_def do_recv_def timer_start_def timer_cancel_def Let_def server_calm_def)
qed

lemma calm_accept:
  assumes "server_calm st" and "enabled st (Accept sk n v)"
  shows "\<exists>st1 st'. sv_next_state site st (Accept sk n v) = Some st1 \<and> drain 4 site st1 = Some st' \<and> idle_ok st' \<and>
    sv_queue st' = [] \<and> g_max_count st' = g_max_count st \<and> g_counter st' \<le> g_max_count st"
proof -
  have ok: "sv_ok st" "idle_ok st" "sv_queue st = []" "g_counter st \<le> g_max_count st" and sk: "sk_open sk"
    using assms by (simp_all add: server_calm_def enabled_def)
  consider (room) "g_counter st < g_max_count st" | (full) "\<not> g_counter st < g_max_count st" "sv_timeout st = []"
    | (evict) "\<not> g_counter st < g_max_count st" "sv_timeout st \<noteq> []" by blast
  then show ?thesis
  proof cases
    case room
    have n: "sv_next_state site st (Accept sk n v) = Some (connection_new st sk n)" using room by (simp add: new_connection_def)
    note new = calm_connection_new [OF assms(1) room sk, of n]
    then have "drain 4 site (connection_new st sk n) = Some (connection_new st sk n)" by (simp add: numeral_eq_Suc)
    with n new show ?thesis by blast
  next
    case full
    then show ?thesis using ok by (auto simp: new_connection_def numeral_eq_Suc split: prod.splits)
  next
    case evict
    then have v: "v \<in> set (sv_timeout st)" using assms(2) by (simp add: enabled_def)
    then obtain x where x: "sv_conns st v = Some x" "cn_reading x" using ok(2) by (fastforce simp: idle_ok_def)
    let ?y = "x\<lparr>cn_socket := tcp_close (cn_socket x), cn_reading := False\<rparr>"
    let ?t = "(put_conn st v ?y)\<lparr>sv_timeout := removeAll v (sv_timeout st)\<rparr>"
    let ?q = "[Ev_read v [] True]"
    let ?c = "sv_next st"
    let ?z = "\<lparr>cn_socket = sk, cn_timer = Some T_idle, cn_reading = True, cn_ab_size = n, cn_parser = parser_new,
        cn_context = None, cn_running = False\<rparr>"
    let ?s = "(put_conn (?t\<lparr>g_counter := g_counter st + 1, sv_next := ?c + 1\<rparr>) ?c ?z)\<lparr>sv_queue := ?q\<rparr>"
    have c: "?c \<noteq> v" "?c \<notin> dom (sv_conns st)" "?c \<notin> set (sv_timeout st)"
      using ok(1,2) x(1) by (auto simp: sv_ok_def idle_ok_def)
    have n: "sv_next_state site st (Accept sk n v) = Some ?s"
      using evict x sk ok(3)
      by (simp add: new_connection_def connection_cancel_def with_conn_def socket_close_def connection_new_def do_recv_def
          timer_start_def timer_cancel_def Let_def put_conn_def post_def)
    have "sv_ok ?s" using sv_ok_external [OF ok(1) assms(2) n] by simp
    moreover have "idle_ok_but v ?s" using ok(2) c by (auto simp: idle_ok_def idle_ok_but_def)
    ultimately have "calm_after ?s (if True \<or> [] = ([] :: string) then -1 else 0) (drain (Suc (Suc (Suc 1))) site ?s)"
      by (intro read_event_calm [where x = ?y]) (use c in simp_all)
    then obtain st' where "drain 4 site ?s = Some st'" "idle_ok st'" "sv_queue st' = []" "g_max_count st' = g_max_count st"
      "g_counter st' \<le> g_counter st"
      by (auto simp: calm_after_def numeral_eq_Suc)
    with n ok(4) show ?thesis by (intro exI [of _ ?s] exI [of _ st']) simp
  qed
qed

text \<open>Every event but the end of a task: the loop goes through and the state is calm again.  After a
  task it is so unless the task or the destructor of its answer aborts the program.\<close>

lemma settles_calm:
  assumes "server_calm st" and "settles site st (sv_next_state site st l)"
  shows "\<exists>st1 st'. sv_next_state site st l = Some st1 \<and> drain 4 site st1 = Some st' \<and> idle_ok st' \<and>
    sv_queue st' = [] \<and> g_max_count st' = g_max_count st \<and> g_counter st' \<le> g_max_count st"
  using assms by (auto simp: settles_def calm_after_def server_calm_def)

lemma calm_event:
  assumes "server_calm st" and "enabled st l" and "l \<noteq> Loop" and "\<forall>c. l \<noteq> Task c"
  shows "\<exists>st1 st'. sv_next_state site st l = Some st1 \<and> drain 4 site st1 = Some st' \<and> server_calm st' \<and>
    g_max_count st' = g_max_count st"
proof -
  have "\<exists>st1 st'. sv_next_state site st l = Some st1 \<and> drain 4 site st1 = Some st' \<and> idle_ok st' \<and>
    sv_queue st' = [] \<and> g_max_count st' = g_max_count st \<and> g_counter st' \<le> g_max_count st"
    using assms calm_accept [OF assms(1)] settles_calm [OF assms(1) calm_net [OF assms(1)]]
      settles_calm [OF assms(1) calm_fire [OF assms(1)]] by (cases l) blast+
  then obtain st1 st' where r: "sv_next_state site st l = Some st1" "drain 4 site st1 = Some st'" "idle_ok st'"
    "sv_queue st' = []" "g_max_count st' = g_max_count st" "g_counter st' \<le> g_max_count st" by blast
  have "sv_ok st" using assms(1) by (simp add: server_calm_def)
  then have "sv_ok st'" using drain_ok [OF sv_ok_external [OF _ assms(2) r(1) assms(3)] r(2)] by blast
  with r show ?thesis by (auto simp: server_calm_def)
qed

lemma calm_event_task:
  assumes "server_calm st" and "enabled st (Task c)" and "sv_next_state site st (Task c) = Some st1" and "drain 4 site st1 = Some st'"
  shows "server_calm st' \<and> g_max_count st' = g_max_count st"
proof -
  have "sv_ok st" using assms(1) by (simp add: server_calm_def)
  then have "sv_ok st'" using drain_ok [OF sv_ok_external [OF _ assms(2,3)] assms(4)] by blast
  with calm_task [OF assms] assms(1) show ?thesis by (auto simp: server_calm_def calm_after_def)
qed

lemma calm_new: "0 \<le> n \<Longrightarrow> server_calm (server_new n w)"
  using sv_ok_new [of n w] by (simp add: server_calm_def idle_ok_def server_new_def)

lemma sv_calm_calm: "sv_calm site st0 st \<Longrightarrow> server_calm st0 \<Longrightarrow> server_calm st \<and> g_max_count st = g_max_count st0"
proof (induction rule: sv_calm.induct)
  case (calm_step st l st1 st')
  then have c: "server_calm st" "g_max_count st = g_max_count st0" by auto
  show ?case
  proof (cases "\<exists>c. l = Task c")
    case True
    then show ?thesis using calm_event_task [OF c(1)] calm_step.hyps c(2) by auto
  next
    case False
    then show ?thesis using calm_event [OF c(1) calm_step.hyps(2,3), of site] calm_step.hyps c(2) by auto
  qed
qed simp

text \<open>C30: A loop that keeps up bounds the connections and never meets a deleted one.  When the loop has run
  its handlers before the next event comes from outside, whatever the events are: there are never
  more connections than the limit; the table of idle connections names living connections only,
  those whose second timer runs; and a client, data or a timer always leads, in at most four
  handlers, to an empty queue again, without touching a deleted connection.\<close>

theorem connections_bounded:
  assumes "sv_calm site (server_new n w) st" and "0 \<le> n"
  shows "int (card (dom (sv_conns st))) \<le> n \<and>
    set (sv_timeout st) = {c. \<exists>x. sv_conns st c = Some x \<and> cn_timer x = Some T_max} \<and>
    (\<forall>l. enabled st l \<and> l \<noteq> Loop \<and> (\<forall>c. l \<noteq> Task c) \<longrightarrow>
       (\<exists>st1 st'. sv_next_state site st l = Some st1 \<and> drain 4 site st1 = Some st' \<and> sv_queue st' = []))"
proof -
  have c: "server_calm st" "g_max_count st = n"
    using sv_calm_calm [OF assms(1) calm_new [OF assms(2)]] by (simp_all add: server_new_def)
  have "\<exists>st1 st'. sv_next_state site st l = Some st1 \<and> drain 4 site st1 = Some st' \<and> sv_queue st' = []"
    if "enabled st l" "l \<noteq> Loop" "\<forall>c. l \<noteq> Task c" for l
    using calm_event [OF c(1) that, of site] by (auto simp: server_calm_def)
  moreover have "set (sv_timeout st) = {c. \<exists>x. sv_conns st c = Some x \<and> cn_timer x = Some T_max}"
    using c(1) by (auto simp: server_calm_def idle_ok_def)
  moreover have "int (card (dom (sv_conns st))) \<le> n" using c by (simp add: server_calm_def sv_ok_def)
  ultimately show ?thesis by blast
qed

lemma drain_idle: "sv_queue st = [] \<Longrightarrow> drain n site st = Some st"
  by (cases n) simp_all

lemma drain_4: "sv_queue st = e # es \<Longrightarrow>
  drain 4 site st = (case run_event site (st\<lparr>sv_queue := es\<rparr>) e of None \<Rightarrow> None | Some st1 \<Rightarrow> drain 3 site st1)"
  using drain.simps(2) [of 3 site st] by simp

lemma connections_bounded_witness:
  "\<forall>site. \<exists>st :: unit server. sv_calm site (server_new 1 ()) st \<and> sv_timeout st = [0] \<and> int (card (dom (sv_conns st))) \<le> 1"
proof
  fix site :: "unit site"
  let ?s = "server_new 1 () :: unit server"
  let ?a = "Accept (tcp_new 64 []) 64 0"
  let ?x = "\<lparr>cn_socket = tcp_new 64 [], cn_timer = Some T_idle, cn_reading = True, cn_ab_size = 64, cn_parser = parser_new,
    cn_context = None, cn_running = False\<rparr>"
  obtain s1 where s1: "s1 = put_conn (?s\<lparr>g_counter := 1, sv_next := 1\<rparr>) 0 ?x" by simp
  then have a: "sv_next_state site ?s ?a = Some s1" "drain 4 site s1 = Some s1" "enabled ?s ?a" "enabled s1 (Fire 0)"
    by (simp_all add: server_simps drain_idle tcp_new_def)
  have "sv_next_state site s1 (Fire 0) = Some (post (put_conn s1 0 (?x\<lparr>cn_timer := None\<rparr>)) (Ev_timer 0 T_idle False))"
    using s1 by (simp add: with_conn_def)
  moreover obtain s3 where "drain 4 site (post (put_conn s1 0 (?x\<lparr>cn_timer := None\<rparr>)) (Ev_timer 0 T_idle False)) = Some s3"
    "sv_timeout s3 = [0]"
    using s1 by (simp add: drain_4 drain_idle server_simps)
  ultimately obtain s2 s3 where s3: "sv_next_state site s1 (Fire 0) = Some s2" "drain 4 site s2 = Some s3" "sv_timeout s3 = [0]"
    by blast
  have "sv_calm site ?s s1" using calm_step [OF calm_init a(3) _ a(1,2)] by simp
  then have c: "sv_calm site ?s s3" using calm_step [OF _ a(4) _ s3(1,2)] by simp
  with connections_bounded [OF c] s3(3) show "\<exists>st :: unit server.
     sv_calm site (server_new 1 ()) st \<and> sv_timeout st = [0] \<and> int (card (dom (sv_conns st))) \<le> 1" by auto
qed

end
