(* ===== verification/CgiProcess.thy ===== *)
theory CgiProcess
  imports HttpMap
begin

text \<open>
  Child processes: \<open>gts/web/service/cgi/process.cpp\<close> and \<open>process_unix.cpp\<close>, with the part of the
  operating system they act on.

  The state \<open>os\<close> holds the open descriptors of the server (\<open>pipe2\<close> takes the lowest free ones and
  fails at the limit), its environment, its children that have not been waited for, the signals sent,
  the table \<open>g_process_map\<close> and the \<open>process\<close> objects, named by numbers.  \<open>vfork\<close> shares the
  memory of the server until the child runs its program, so what the child does to the environment
  is done to the server.  A descriptor object closes its descriptor when it is dropped.  The result \<open>None\<close>
  is the use of a deleted object or of an absent descriptor.  Polling with a time limit, the log and
  the Windows variant are not modelled.
\<close>

datatype child_status = Child_running | Child_exited int | Child_signaled

datatype signal = SIGTERM | SIGKILL

record child =
  ch_argv :: "string list"
  ch_environ :: "string umap"
  ch_directory :: string
  ch_status :: child_status

record process =
  pr_pid :: int
  pr_file_name :: string
  pr_work_path :: string
  pr_env :: "string umap"
  pr_read_fd :: "int option"
  pr_write_fd :: "int option"
  pr_pwcr_fd :: "int \<times> int"
  pr_cwpr_fd :: "int \<times> int"

record os =
  os_fds :: "int list"
  os_limit :: nat
  os_environ :: "string umap"
  os_children :: "(int \<times> child) list"
  os_signals :: "(int \<times> signal) list"
  g_process_map :: "(int \<times> nat) list"
  os_processes :: "nat \<Rightarrow> process option"

section \<open>The operating system\<close>

definition lowest_free :: "int list \<Rightarrow> int" where
  "lowest_free fds = hd (filter (\<lambda>n. n \<notin> set fds) (map int [0..<Suc (length fds)]))"

definition sys_close :: "os \<Rightarrow> int \<Rightarrow> os" where
  "sys_close w fd = w\<lparr>os_fds := removeAll fd (os_fds w)\<rparr>"

definition sys_pipe :: "os \<Rightarrow> (os \<times> int \<times> int) option" where
  "sys_pipe w =
     (if os_limit w < length (os_fds w) + 2 then None
      else (let a = lowest_free (os_fds w); b = lowest_free (a # os_fds w)
            in Some (w\<lparr>os_fds := b # a # os_fds w\<rparr>, a, b)))"

definition sys_setenv :: "string umap \<Rightarrow> string \<times> string \<Rightarrow> string umap" where
  "sys_setenv env kv = (if fst kv = [] \<or> CHR ''='' \<in> set (fst kv) then env else umap_put env (fst kv) (snd kv))"

text \<open>\<open>waitpid\<close> on a child that has ended removes it and gives its status.\<close>

definition child_end :: "os \<Rightarrow> int \<Rightarrow> child_status option" where
  "child_end w pid =
     (case map_of (os_children w) pid of
        None \<Rightarrow> None
      | Some c \<Rightarrow> if ch_status c = Child_running then None else Some (ch_status c))"

definition child_exits :: "int \<Rightarrow> child_status \<Rightarrow> os \<Rightarrow> os" where
  "child_exits pid status w =
     (case map_of (os_children w) pid of
        None \<Rightarrow> w
      | Some c \<Rightarrow> w\<lparr>os_children := (pid, c\<lparr>ch_status := status\<rparr>) # filter (\<lambda>(q, c). q \<noteq> pid) (os_children w)\<rparr>)"

definition sys_reap :: "os \<Rightarrow> int \<Rightarrow> os" where
  "sys_reap w pid = w\<lparr>os_children := filter (\<lambda>(p, c). p \<noteq> pid) (os_children w)\<rparr>"

section \<open>Process objects\<close>

definition with_process :: "os \<Rightarrow> nat \<Rightarrow> (process \<Rightarrow> 'a option) \<Rightarrow> 'a option" where
  "with_process w r f = (case os_processes w r of None \<Rightarrow> None | Some p \<Rightarrow> f p)"

definition put_process :: "os \<Rightarrow> nat \<Rightarrow> process \<Rightarrow> os" where
  "put_process w r p = w\<lparr>os_processes := (os_processes w)(r \<mapsto> p)\<rparr>"

definition process_new :: "string \<Rightarrow> process" where
  "process_new file =
     \<lparr>pr_pid = -1, pr_file_name = file, pr_work_path = [], pr_env = [], pr_read_fd = None, pr_write_fd = None,
      pr_pwcr_fd = (-1, -1), pr_cwpr_fd = (-1, -1)\<rparr>"

definition is_running :: "process \<Rightarrow> bool" where
  "is_running p = (0 < pr_pid p)"

definition set_file :: "string \<Rightarrow> process \<Rightarrow> process" where
  "set_file file p = (if \<not> is_running p then p\<lparr>pr_file_name := file\<rparr> else p)"

definition add_env :: "string \<Rightarrow> string \<Rightarrow> process \<Rightarrow> process" where
  "add_env key value p =
     (if is_running p then p
      else (case umap_emplace (pr_env p) key value of
              (m, new) \<Rightarrow> p\<lparr>pr_env := (if \<not> new then umap_put m key value else m)\<rparr>))"

definition set_work_path :: "string \<Rightarrow> process \<Rightarrow> process" where
  "set_work_path path p = (if \<not> is_running p then p\<lparr>pr_work_path := path\<rparr> else p)"

definition process_signal :: "signal \<Rightarrow> os \<Rightarrow> nat \<Rightarrow> os option" where
  "process_signal s w r =
     with_process w r (\<lambda>p. Some (if 0 < pr_pid p then w\<lparr>os_signals := os_signals w @ [(pr_pid p, s)]\<rparr> else w))"

text \<open>\<open>reset_writer\<close> and \<open>reset_reader\<close>: dropping the descriptor object closes the descriptor, which
  is then closed once more by its number.\<close>

definition reset_writer :: "int \<Rightarrow> os \<Rightarrow> nat \<Rightarrow> os option" where
  "reset_writer pid w0 r =
     (let w = w0\<lparr>g_process_map := filter (\<lambda>(q, s). q \<noteq> pid) (g_process_map w0)\<rparr>
      in with_process w r (\<lambda>p.
           case pr_read_fd p of
             None \<Rightarrow> None
           | Some _ \<Rightarrow>
               (case pr_write_fd p of
                  None \<Rightarrow> None
                | Some fd \<Rightarrow>
                    Some (sys_close (sys_close (put_process w r (p\<lparr>pr_write_fd := None\<rparr>)) fd) (snd (pr_pwcr_fd p))))))"

definition reset_reader :: "os \<Rightarrow> nat \<Rightarrow> os option" where
  "reset_reader w r =
     with_process w r (\<lambda>p.
       case pr_read_fd p of
         None \<Rightarrow> None
       | Some fd \<Rightarrow> Some (sys_close (sys_close (put_process w r (p\<lparr>pr_read_fd := None\<rparr>)) fd) (fst (pr_cwpr_fd p))))"

text \<open>The arguments of the program: an empty one stays null and ends the list.\<close>

definition child_argv :: "string \<Rightarrow> string list \<Rightarrow> string list" where
  "child_argv file args = file # takeWhile (\<lambda>a. a \<noteq> []) args"

text \<open>\<open>start\<close>; \<open>forked\<close> is the result of \<open>vfork\<close>.\<close>

definition start_pipes :: "os \<Rightarrow> nat \<Rightarrow> (os + os) option" where
  "start_pipes w r =
     with_process w r (\<lambda>p.
       Some (case sys_pipe w of
               None \<Rightarrow> Inl w
             | Some (w1, a, b) \<Rightarrow>
                 (let p1 = p\<lparr>pr_cwpr_fd := (a, b)\<rparr>; w2 = put_process w1 r p1
                  in case sys_pipe w2 of
                       None \<Rightarrow> Inl (sys_close (sys_close w2 a) b)
                     | Some (w3, c, d) \<Rightarrow> Inr (put_process w3 r (p1\<lparr>pr_pwcr_fd := (c, d)\<rparr>)))))"

definition start_fork :: "string list \<Rightarrow> int \<Rightarrow> os \<Rightarrow> nat \<Rightarrow> (os \<times> bool) option" where
  "start_fork args forked w r =
     with_process w r (\<lambda>p.
       if forked < 0 then Some (put_process w r (p\<lparr>pr_pid := forked\<rparr>), False)
       else (let env = fold (\<lambda>kv e. sys_setenv e kv) (pr_env p) (os_environ w);
                 c = \<lparr>ch_argv = child_argv (pr_file_name p) args, ch_environ = env, ch_directory = pr_work_path p,
                      ch_status = Child_running\<rparr>;
                 p1 = p\<lparr>pr_pid := forked, pr_read_fd := Some (fst (pr_cwpr_fd p)), pr_write_fd := Some (snd (pr_pwcr_fd p))\<rparr>
             in Some ((put_process w r p1)\<lparr>os_environ := env, os_children := (forked, c) # os_children w,
                        g_process_map := (if map_of (g_process_map w) forked = None then (forked, r) # g_process_map w
                                          else g_process_map w)\<rparr>, True)))"

definition process_start :: "string list \<Rightarrow> int \<Rightarrow> os \<Rightarrow> nat \<Rightarrow> (os \<times> bool) option" where
  "process_start args forked w r =
     with_process w r (\<lambda>p.
       if 0 < pr_pid p then Some (w, True)
       else if pr_file_name p = [] then Some (w, False)
       else case (if pr_read_fd p \<noteq> None then reset_reader w r else Some w) of
              None \<Rightarrow> None
            | Some w1 \<Rightarrow>
                (case start_pipes w1 r of
                   None \<Rightarrow> None
                 | Some (Inl w2) \<Rightarrow> Some (w2, False)
                 | Some (Inr w2) \<Rightarrow> start_fork args forked w2 r))"

text \<open>\<open>join\<close> once its \<open>waitpid\<close> can return: the child has ended, or is no child any more, which leaves the
  status zero.  \<open>join_rest\<close> is what follows the test of the process identifier, which another thread's
  \<open>SIGCHLD\<close> handler may precede.\<close>

definition exited_normally :: "child_status \<Rightarrow> bool \<times> int" where
  "exited_normally s = (case s of Child_exited n \<Rightarrow> (True, n) | _ \<Rightarrow> (False, 0))"

definition can_join :: "os \<Rightarrow> nat \<Rightarrow> bool" where
  "can_join w r =
     (case os_processes w r of
        None \<Rightarrow> True
      | Some p \<Rightarrow> (case map_of (os_children w) (pr_pid p) of None \<Rightarrow> True | Some c \<Rightarrow> ch_status c \<noteq> Child_running))"

definition join_rest :: "int \<Rightarrow> os \<Rightarrow> nat \<Rightarrow> (os \<times> bool \<times> int) option" where
  "join_rest pid w r =
     with_process w r (\<lambda>p.
       let w1 = put_process w r (p\<lparr>pr_pid := -1\<rparr>)
       in case child_end w pid of
            Some s \<Rightarrow> map_option (\<lambda>w2. (w2, exited_normally s)) (reset_writer pid (sys_reap w1 pid) r)
          | None \<Rightarrow> Some (w1, exited_normally (Child_exited 0)))"

definition process_join :: "os \<Rightarrow> nat \<Rightarrow> (os \<times> bool \<times> int) option" where
  "process_join w r = with_process w r (\<lambda>p. if pr_pid p \<le> 0 then Some (w, False, 0) else join_rest (pr_pid p) w r)"

text \<open>The handler of \<open>SIGCHLD\<close>; \<open>pid\<close> is what its \<open>waitpid\<close> returns.\<close>

definition signal_hander :: "int \<Rightarrow> os \<Rightarrow> os option" where
  "signal_hander pid w0 =
     (let w = sys_reap w0 pid
      in case map_of (g_process_map w) pid of
           None \<Rightarrow> Some w
         | Some r \<Rightarrow> with_process w r (\<lambda>p. reset_writer pid (put_process w r (p\<lparr>pr_pid := -1\<rparr>)) r))"

text \<open>The destructor.\<close>

definition close_object :: "int option \<Rightarrow> os \<Rightarrow> os" where
  "close_object fd w = (case fd of None \<Rightarrow> w | Some n \<Rightarrow> sys_close w n)"

definition process_delete :: "os \<Rightarrow> nat \<Rightarrow> os option" where
  "process_delete w r =
     (case process_signal SIGKILL w r of
        None \<Rightarrow> None
      | Some w1 \<Rightarrow>
          with_process w1 r (\<lambda>p.
            let w2 = (if 0 < pr_pid p then w1\<lparr>g_process_map := filter (\<lambda>(q, s). q \<noteq> pr_pid p) (g_process_map w1)\<rparr> else w1)
            in Some ((close_object (pr_write_fd p) (close_object (pr_read_fd p) w2))\<lparr>os_processes := (os_processes w2)(r := None)\<rparr>)))"

section \<open>Reading and writing\<close>

text \<open>What \<open>::read\<close> on the pipe gives: bytes, the end of the pipe, nothing for now, or an error.  The pipe
  is at its end when nobody holds its write end.\<close>

datatype pipe_read = Read_bytes string | Read_end | Read_again | Read_error

text \<open>A call of \<open>async_read_some\<close> or \<open>async_write_some\<close> posts its callback with an error flag and the bytes, or
  leaves the operation with asio.\<close>

datatype async_result = Posted bool string | Pending

definition async_read_some :: "pipe_read \<Rightarrow> os \<Rightarrow> nat \<Rightarrow> (os \<times> async_result) option" where
  "async_read_some res w r =
     with_process w r (\<lambda>p.
       let stop = (if \<not> is_running p then map_option (\<lambda>w1. (w1, Posted True [])) (reset_reader w r) else Some (w, Pending))
       in if pr_read_fd p = None then Some (w, Posted True [])
          else case res of
                 Read_bytes d \<Rightarrow> Some (w, Posted False d)
               | Read_end \<Rightarrow> if pr_pid p < 0 then map_option (\<lambda>w1. (w1, Posted True [])) (reset_reader w r) else stop
               | Read_error \<Rightarrow>
                   if pr_pid p < 0 then map_option (\<lambda>w1. (w1, Posted True [])) (reset_reader w r) else Some (w, Posted True [])
               | Read_again \<Rightarrow> stop)"

text \<open>The end of a pending read, after the callback.\<close>

definition read_completed :: "nat \<Rightarrow> os \<Rightarrow> nat \<Rightarrow> os option" where
  "read_completed n w r = (if n = 0 then reset_reader w r else Some w)"

definition async_write_some :: "os \<Rightarrow> nat \<Rightarrow> (os \<times> async_result) option" where
  "async_write_some w r =
     with_process w r (\<lambda>p.
       if 0 < pr_pid p then (if pr_write_fd p = None then None else Some (w, Pending)) else Some (w, Posted True []))"

text \<open>The synchronous \<open>read_some\<close> calls \<open>write_some\<close> on the read end of the pipe, which takes no bytes.\<close>

definition process_read_some :: "os \<Rightarrow> nat \<Rightarrow> (bool \<times> string) option" where
  "process_read_some w r =
     with_process w r (\<lambda>p.
       if 0 < pr_pid p then (if pr_read_fd p = None then None else Some (True, [])) else Some (True, []))"

definition process_cancel :: "os \<Rightarrow> nat \<Rightarrow> unit option" where
  "process_cancel w r =
     with_process w r (\<lambda>p.
       if pr_pid p \<le> 0 then Some () else if pr_write_fd p = None \<or> pr_read_fd p = None then None else Some ())"

section \<open>No absent descriptor is used\<close>

definition os_ok :: "os \<Rightarrow> bool" where
  "os_ok w =
     ((\<forall>r p. os_processes w r = Some p \<longrightarrow> 0 < pr_pid p \<longrightarrow>
         pr_read_fd p \<noteq> None \<and> pr_write_fd p \<noteq> None \<and> map_of (g_process_map w) (pr_pid p) = Some r \<and>
         map_of (os_children w) (pr_pid p) \<noteq> None) \<and>
      (\<forall>pid r. map_of (g_process_map w) pid = Some r \<longrightarrow>
         (\<exists>p. os_processes w r = Some p \<and> pr_pid p = pid \<and> 0 < pid)))"

text \<open>What the program and the operating system do, one call at a time.  Only a cancelled read ends
  without bytes, and reads are cancelled when the child is gone.\<close>

inductive os_step :: "os \<Rightarrow> os \<Rightarrow> bool" where
  do_new: "os_processes w r = None \<Longrightarrow> os_step w (put_process w r (process_new file))"
| do_file: "os_processes w r = Some p \<Longrightarrow> os_step w (put_process w r (set_file file p))"
| do_env: "os_processes w r = Some p \<Longrightarrow> os_step w (put_process w r (add_env k v p))"
| do_path: "os_processes w r = Some p \<Longrightarrow> os_step w (put_process w r (set_work_path path p))"
| do_start: "forked < 0 \<or> 0 < forked \<and> map_of (os_children w) forked = None \<Longrightarrow>
    process_start args forked w r = Some (w', b) \<Longrightarrow> os_step w w'"
| do_signal: "process_signal s w r = Some w' \<Longrightarrow> os_step w w'"
| do_exit: "status \<noteq> Child_running \<Longrightarrow> os_step w (child_exits pid status w)"
| do_sigchld: "child_end w pid \<noteq> None \<Longrightarrow> signal_hander pid w = Some w' \<Longrightarrow> os_step w w'"
| do_join: "can_join w r \<Longrightarrow> process_join w r = Some (w', x) \<Longrightarrow> os_step w w'"
| do_late_join: "map_of (os_children w) pid = None \<Longrightarrow> map_of (g_process_map w) pid = None \<Longrightarrow>
    os_processes w r = Some p \<Longrightarrow> pr_pid p \<le> 0 \<Longrightarrow> join_rest pid w r = Some (w', x) \<Longrightarrow> os_step w w'"
| do_read: "async_read_some res w r = Some (w', y) \<Longrightarrow> os_step w w'"
| do_read_end: "os_processes w r = Some p \<Longrightarrow> 0 < n \<or> pr_pid p \<le> 0 \<Longrightarrow> read_completed n w r = Some w' \<Longrightarrow> os_step w w'"
| do_delete: "process_delete w r = Some w' \<Longrightarrow> os_step w w'"

definition os_new :: "nat \<Rightarrow> string umap \<Rightarrow> os" where
  "os_new limit env =
     \<lparr>os_fds = [0, 1, 2], os_limit = limit, os_environ = env, os_children = [], os_signals = [], g_process_map = [],
      os_processes = (\<lambda>r. None)\<rparr>"

inductive os_reach :: "os \<Rightarrow> os \<Rightarrow> bool" for w0 :: os where
  os_refl: "os_reach w0 w0"
| os_trans: "os_reach w0 w \<Longrightarrow> os_step w w' \<Longrightarrow> os_reach w0 w'"

inductive_cases os_step_cases: "os_step w w'"

lemma put_process_fields [simp]:
  "os_fds (put_process w r p) = os_fds w" "os_limit (put_process w r p) = os_limit w"
  "os_environ (put_process w r p) = os_environ w" "os_children (put_process w r p) = os_children w"
  "g_process_map (put_process w r p) = g_process_map w" "os_processes (put_process w r p) = (os_processes w)(r \<mapsto> p)"
  by (simp_all add: put_process_def)

lemma sys_fields [simp]:
  "os_processes (sys_close w fd) = os_processes w" "g_process_map (sys_close w fd) = g_process_map w"
  "os_children (sys_close w fd) = os_children w" "os_environ (sys_close w fd) = os_environ w" "os_limit (sys_close w fd) = os_limit w"
  "os_fds (sys_close w fd) = removeAll fd (os_fds w)"
  "os_processes (sys_reap w pid) = os_processes w" "g_process_map (sys_reap w pid) = g_process_map w"
  "os_children (sys_reap w pid) = filter (\<lambda>(p, c). p \<noteq> pid) (os_children w)" "os_fds (sys_reap w pid) = os_fds w"
  by (simp_all add: sys_close_def sys_reap_def)

lemma with_process_Some [simp]: "os_processes w r = Some p \<Longrightarrow> with_process w r f = f p"
  by (simp add: with_process_def)

lemma with_process_eq_Some: "with_process w r f = Some x \<longleftrightarrow> (\<exists>p. os_processes w r = Some p \<and> f p = Some x)"
  by (simp add: with_process_def split: option.split)

lemma map_of_removed: "map_of (filter (\<lambda>(p, c). p \<noteq> pid) xs) q = (if q = pid then None else map_of xs q)"
  by (induction xs) auto

lemma os_ok_same_tables:
  assumes "os_ok w" and "os_processes w' = os_processes w" and "g_process_map w' = g_process_map w"
    and "\<And>q. map_of (os_children w') q = None \<longleftrightarrow> map_of (os_children w) q = None"
  shows "os_ok w'"
  using assms unfolding os_ok_def by simp

lemma os_ok_same_pid:
  assumes "os_ok w" and "os_processes w r = Some p" and "pr_pid p' = pr_pid p"
    and "0 < pr_pid p \<Longrightarrow> pr_read_fd p' \<noteq> None \<and> pr_write_fd p' \<noteq> None"
  shows "os_ok (put_process w r p')"
  using assms unfolding os_ok_def by (auto split: if_splits) fastforce

lemma os_ok_config:
  "os_ok w \<Longrightarrow> os_processes w r = Some p \<Longrightarrow> pr_pid p' = pr_pid p \<Longrightarrow> pr_read_fd p' = pr_read_fd p \<Longrightarrow>
   pr_write_fd p' = pr_write_fd p \<Longrightarrow> os_ok (put_process w r p')"
  by (rule os_ok_same_pid) (auto simp: os_ok_def)

lemma os_ok_fresh: "os_ok w \<Longrightarrow> os_processes w r = None \<Longrightarrow> pr_pid p \<le> 0 \<Longrightarrow> os_ok (put_process w r p)"
  unfolding os_ok_def by (auto split: if_splits) fastforce

text \<open>A process leaves the table and the children together.\<close>

lemma os_ok_ended:
  assumes "os_ok w" and "os_processes w r = Some p" and "0 < pr_pid p"
    and "os_processes w' = (os_processes w)(r := x)" and "\<And>q. x = Some q \<Longrightarrow> pr_pid q \<le> 0"
    and "g_process_map w' = filter (\<lambda>(q, s). q \<noteq> pr_pid p) (g_process_map w)"
    and "\<And>q. q \<noteq> pr_pid p \<Longrightarrow> map_of (os_children w') q = map_of (os_children w) q"
  shows "os_ok w'"
proof -
  have other: "pr_pid q \<noteq> pr_pid p" if "os_processes w s = Some q" "s \<noteq> r" "0 < pr_pid q" for s q
    using assms(1-3) that unfolding os_ok_def by (metis option.inject)
  have "pr_read_fd q \<noteq> None \<and> pr_write_fd q \<noteq> None \<and> map_of (g_process_map w') (pr_pid q) = Some s \<and>
      map_of (os_children w') (pr_pid q) \<noteq> None" if "os_processes w' s = Some q" "0 < pr_pid q" for s q
  proof (cases "s = r")
    case True
    with that assms(4,5) show ?thesis by auto
  next
    case False
    with that assms(4) have q: "os_processes w s = Some q" by simp
    with other [OF q False that(2)] assms(1,6,7) that(2) show ?thesis
      unfolding os_ok_def by (auto simp: map_of_removed)
  qed
  moreover have "\<exists>q. os_processes w' s = Some q \<and> pr_pid q = pid \<and> 0 < pid" if "map_of (g_process_map w') pid = Some s" for pid s
  proof -
    have "pid \<noteq> pr_pid p" "map_of (g_process_map w) pid = Some s" using that assms(6) by (auto simp: map_of_removed split: if_splits)
    moreover from this(2) obtain q where q: "os_processes w s = Some q" "pr_pid q = pid" "0 < pid"
      using assms(1) unfolding os_ok_def by blast
    ultimately show ?thesis using assms(2,4) by (metis fun_upd_other option.inject)
  qed
  ultimately show ?thesis unfolding os_ok_def by blast
qed

lemma reset_writer_eq:
  assumes "os_processes w r = Some p" and "pr_read_fd p = Some a" and "pr_write_fd p = Some b"
  shows "reset_writer pid w r =
    Some (sys_close (sys_close (put_process (w\<lparr>g_process_map := filter (\<lambda>(q, s). q \<noteq> pid) (g_process_map w)\<rparr>) r
      (p\<lparr>pr_write_fd := None\<rparr>)) b) (snd (pr_pwcr_fd p)))"
  using assms by (simp add: reset_writer_def Let_def with_process_def)

lemma reset_reader_eq:
  assumes "os_processes w r = Some p" and "pr_read_fd p = Some a"
  shows "reset_reader w r = Some (sys_close (sys_close (put_process w r (p\<lparr>pr_read_fd := None\<rparr>)) a) (fst (pr_cwpr_fd p)))"
  using assms by (simp add: reset_reader_def)

lemma os_ok_running:
  assumes "os_ok w" and "os_processes w r = Some p" and "0 < pr_pid p"
  obtains a b where "pr_read_fd p = Some a" "pr_write_fd p = Some b" "map_of (g_process_map w) (pr_pid p) = Some r"
    "map_of (os_children w) (pr_pid p) \<noteq> None"
  using assms unfolding os_ok_def by blast

lemma reset_reader_ok:
  assumes "os_ok w" and "os_processes w r = Some p" and "pr_pid p \<le> 0" and "reset_reader w r = Some w'"
  shows "os_ok w' \<and> (\<exists>q. os_processes w' r = Some q \<and> pr_pid q = pr_pid p \<and> pr_read_fd q = None \<and> pr_file_name q = pr_file_name p)"
proof -
  obtain a where a: "pr_read_fd p = Some a" using assms(2,4) by (auto simp: reset_reader_def split: option.splits)
  let ?w = "put_process w r (p\<lparr>pr_read_fd := None\<rparr>)"
  have "os_ok ?w" using os_ok_same_pid [OF assms(1,2)] assms(3) by simp
  then have "os_ok w'"
    using assms(4) reset_reader_eq [OF assms(2) a] by (auto intro: os_ok_same_tables)
  with assms(4) reset_reader_eq [OF assms(2) a] show ?thesis by auto
qed

lemma start_pipes_ok:
  assumes "os_ok w" and "os_processes w r = Some p" and "pr_pid p \<le> 0" and "start_pipes w r = Some res"
  shows "(\<exists>w' q. (res = Inl w' \<or> res = Inr w') \<and> os_ok w' \<and> os_processes w' r = Some q \<and> pr_pid q \<le> 0)"
proof -
  have put: "os_ok (put_process v r q)" if "os_ok v" "os_processes v r = Some p'" "pr_pid p' \<le> 0" "pr_pid q = pr_pid p'" for v p' q
    using os_ok_same_pid [OF that(1,2,4)] that(3) by simp
  have pipe: "os_ok w2 \<and> os_processes w2 = os_processes w1" if "sys_pipe w1 = Some (w2, a, b)" "os_ok w1" for w1 w2 a b
    using that by (auto simp: sys_pipe_def Let_def split: if_splits intro: os_ok_same_tables)
  show ?thesis
  proof (cases "sys_pipe w")
    case None
    with assms show ?thesis by (auto simp: start_pipes_def)
  next
    case (Some x)
    obtain w1 a b where p1: "sys_pipe w = Some (w1, a, b)" using Some by (cases x) auto
    let ?p = "p\<lparr>pr_cwpr_fd := (a, b)\<rparr>"
    let ?w = "put_process w1 r ?p"
    note w1 = pipe [OF p1 assms(1)]
    then have ok: "os_ok ?w" using put [of w1 p ?p] assms(2,3) by simp
    show ?thesis
    proof (cases "sys_pipe ?w")
      case None
      let ?w' = "sys_close (sys_close ?w a) b"
      have "os_ok ?w'" using ok by (rule os_ok_same_tables) simp_all
      moreover have "res = Inl ?w'" using assms(2,4) p1 None by (simp add: start_pipes_def Let_def)
      ultimately show ?thesis using assms(3) by auto
    next
      case (Some y)
      obtain w3 c d where p2: "sys_pipe ?w = Some (w3, c, d)" using Some by (cases y) auto
      let ?w' = "put_process w3 r (?p\<lparr>pr_pwcr_fd := (c, d)\<rparr>)"
      have "os_ok ?w'" using put [of w3 ?p] pipe [OF p2 ok] assms(3) by simp
      moreover have "res = Inr ?w'" using assms(2,4) p1 p2 by (simp add: start_pipes_def Let_def)
      ultimately show ?thesis using assms(3) by auto
    qed
  qed
qed

lemma start_fork_ok:
  assumes "os_ok w" and "os_processes w r = Some p" and "pr_pid p \<le> 0"
    and "forked < 0 \<or> 0 < forked \<and> map_of (os_children w) forked = None" and "start_fork args forked w r = Some (w', b)"
  shows "os_ok w'"
proof (cases "forked < 0")
  case True
  then have "w' = put_process w r (p\<lparr>pr_pid := forked\<rparr>)" using assms(2,5) by (simp add: start_fork_def)
  moreover have "os_ok (put_process w r (p\<lparr>pr_pid := forked\<rparr>))"
    using assms(1-3) True unfolding os_ok_def by (auto split: if_splits) fastforce
  ultimately show ?thesis by simp
next
  case False
  then have f: "0 < forked" "map_of (os_children w) forked = None" using assms(4) by auto
  have g: "map_of (g_process_map w) forked = None"
  proof (rule ccontr)
    assume "map_of (g_process_map w) forked \<noteq> None"
    then obtain s q where "os_processes w s = Some q" "pr_pid q = forked" using assms(1) unfolding os_ok_def by blast
    with f assms(1) show False unfolding os_ok_def by blast
  qed
  show ?thesis
    using assms(1-3,5) f g False unfolding os_ok_def start_fork_def by (auto simp: Let_def split: if_splits) fastforce+
qed

lemma process_start_ok:
  assumes "os_ok w" and "forked < 0 \<or> 0 < forked \<and> map_of (os_children w) forked = None"
    and "process_start args forked w r = Some (w', b)"
  shows "os_ok w'"
proof -
  obtain p where p: "os_processes w r = Some p" using assms(3) by (auto simp: process_start_def with_process_eq_Some)
  show ?thesis
  proof (cases "0 < pr_pid p \<or> pr_file_name p = []")
    case True
    then show ?thesis using assms(1,3) p by (auto simp: process_start_def split: if_splits)
  next
    case False
    then have le: "pr_pid p \<le> 0" by simp
    obtain w1 where w1: "(if pr_read_fd p \<noteq> None then reset_reader w r else Some w) = Some w1"
      using False assms(3) p by (auto simp: process_start_def split: if_splits option.splits)
    then obtain q where q: "os_ok w1" "os_processes w1 r = Some q" "pr_pid q \<le> 0" "os_children w1 = os_children w"
      using reset_reader_ok [OF assms(1) p le, of w1] assms(1) p le reset_reader_eq [OF p]
      by (cases "pr_read_fd p") auto
    obtain res where res: "start_pipes w1 r = Some res" using False assms(3) p w1 by (auto simp: process_start_def split: option.splits)
    have ch: "os_children v = os_children w1" if "res = Inr v" for v
      using res that q(2) by (auto simp: start_pipes_def sys_pipe_def Let_def split: if_splits option.splits)
    from start_pipes_ok [OF q(1-3) res] obtain v s where v: "res = Inl v \<or> res = Inr v" "os_ok v" "os_processes v r = Some s" "pr_pid s \<le> 0"
      by blast
    show ?thesis
    proof (cases res)
      case (Inl x)
      then show ?thesis using assms(3) p False w1 res v by (simp add: process_start_def)
    next
      case (Inr x)
      then have "start_fork args forked v r = Some (w', b)" using assms(3) p False w1 res v(1) by (simp add: process_start_def)
      moreover have "os_children v = os_children w" using ch v(1) Inr q(4) by simp
      ultimately show ?thesis using start_fork_ok [OF v(2-4), of forked args w' b] assms(2) by simp
    qed
  qed
qed

lemma join_ok:
  assumes "os_ok w" and "os_processes w r = Some p" and "0 < pr_pid p" and "can_join w r"
  shows "\<exists>w' b n. process_join w r = Some (w', b, n) \<and> os_ok w'"
proof -
  obtain a b where p: "pr_read_fd p = Some a" "pr_write_fd p = Some b" "map_of (os_children w) (pr_pid p) \<noteq> None"
    using os_ok_running [OF assms(1-3)] .
  then obtain s where s: "child_end w (pr_pid p) = Some s" using assms(2,4) by (auto simp: can_join_def child_end_def)
  let ?w = "sys_reap (put_process w r (p\<lparr>pr_pid := -1\<rparr>)) (pr_pid p)"
  have "os_processes ?w r = Some (p\<lparr>pr_pid := -1\<rparr>)" by simp
  from reset_writer_eq [OF this, of a b "pr_pid p"] p obtain w' where w': "reset_writer (pr_pid p) ?w r = Some w'"
    "os_processes w' = (os_processes w)(r := Some (p\<lparr>pr_pid := -1, pr_write_fd := None\<rparr>))"
    "g_process_map w' = filter (\<lambda>(q, s). q \<noteq> pr_pid p) (g_process_map w)"
    "os_children w' = filter (\<lambda>(q, s). q \<noteq> pr_pid p) (os_children w)" by auto
  then have "os_ok w'" by (intro os_ok_ended [OF assms(1-3)]) (auto simp: map_of_removed)
  with w'(1) s assms(2,3) show ?thesis by (cases "exited_normally s") (auto simp: process_join_def join_rest_def Let_def)
qed

lemma sigchld_ok:
  assumes "os_ok w"
  shows "\<exists>w'. signal_hander pid w = Some w' \<and> (child_end w pid \<noteq> None \<longrightarrow> os_ok w')"
proof (cases "map_of (g_process_map w) pid")
  case None
  have "os_ok (sys_reap w pid)" if "child_end w pid \<noteq> None"
    using assms None unfolding os_ok_def by (auto simp: map_of_removed)
  then show ?thesis using None by (simp add: signal_hander_def)
next
  case (Some r)
  then obtain p where p: "os_processes w r = Some p" "pr_pid p = pid" "0 < pid" using assms unfolding os_ok_def by blast
  then obtain a b where f: "pr_read_fd p = Some a" "pr_write_fd p = Some b" using os_ok_running [OF assms p(1)] p(2,3) by blast
  let ?w = "put_process (sys_reap w pid) r (p\<lparr>pr_pid := -1\<rparr>)"
  have "os_processes ?w r = Some (p\<lparr>pr_pid := -1\<rparr>)" by simp
  from reset_writer_eq [OF this, of a b pid] f obtain w' where w': "reset_writer pid ?w r = Some w'"
    "os_processes w' = (os_processes w)(r := Some (p\<lparr>pr_pid := -1, pr_write_fd := None\<rparr>))"
    "g_process_map w' = filter (\<lambda>(q, s). q \<noteq> pid) (g_process_map w)"
    "os_children w' = filter (\<lambda>(q, s). q \<noteq> pid) (os_children w)" by auto
  then have "os_ok w'" using p by (intro os_ok_ended [OF assms p(1)]) (auto simp: map_of_removed)
  with w'(1) Some p(1) show ?thesis by (simp add: signal_hander_def Let_def)
qed

lemma read_ok:
  assumes "os_ok w" and "os_processes w r = Some p"
  shows "\<exists>w' x. async_read_some res w r = Some (w', x) \<and> os_ok w'"
proof (cases "pr_read_fd p")
  case None
  then show ?thesis using assms by (simp add: async_read_some_def)
next
  case (Some a)
  note rr = reset_reader_eq [OF assms(2) Some]
  have "os_ok (sys_close (sys_close (put_process w r (p\<lparr>pr_read_fd := None\<rparr>)) a) (fst (pr_cwpr_fd p)))" if "pr_pid p \<le> 0"
    using reset_reader_ok [OF assms that rr] by simp
  with assms Some rr show ?thesis by (cases res) (auto simp: async_read_some_def is_running_def Let_def)
qed

lemma delete_ok:
  assumes "os_ok w" and "os_processes w r = Some p"
  shows "\<exists>w'. process_delete w r = Some w' \<and> os_ok w'"
proof -
  have fields: "os_processes (close_object fd v) = os_processes v" "g_process_map (close_object fd v) = g_process_map v"
    "os_children (close_object fd v) = os_children v" for fd v by (simp_all add: close_object_def split: option.split)
  obtain w1 where w1: "process_signal SIGKILL w r = Some w1" "os_processes w1 = os_processes w" "g_process_map w1 = g_process_map w"
    "os_children w1 = os_children w" using assms(2) by (simp add: process_signal_def)
  then obtain w' where w': "process_delete w r = Some w'" "os_processes w' = (os_processes w)(r := None)"
    "g_process_map w' = (if 0 < pr_pid p then filter (\<lambda>(q, s). q \<noteq> pr_pid p) (g_process_map w) else g_process_map w)"
    "os_children w' = os_children w"
    using assms(2) by (simp add: process_delete_def with_process_def Let_def fields)
  have "os_ok w'"
  proof (cases "0 < pr_pid p")
    case True
    then show ?thesis using os_ok_ended [OF assms True w'(2)] w'(3,4) by simp
  next
    case False
    then show ?thesis using assms w'(2-4) unfolding os_ok_def by (auto split: if_splits) fastforce
  qed
  with w'(1) show ?thesis by blast
qed

lemma os_step_ok: "os_step w w' \<Longrightarrow> os_ok w \<Longrightarrow> os_ok w'"
proof (induction rule: os_step.induct)
  case (do_new w r name)
  then show ?case using os_ok_fresh by (simp add: process_new_def)
next
  case (do_file w r p name)
  show ?case by (rule os_ok_config [OF do_file.prems do_file.hyps]) (auto simp: set_file_def is_running_def)
next
  case (do_env w r p k v)
  show ?case by (rule os_ok_config [OF do_env.prems do_env.hyps]) (auto simp: add_env_def split: prod.split)
next
  case (do_path w r p path)
  show ?case by (rule os_ok_config [OF do_path.prems do_path.hyps]) (auto simp: set_work_path_def is_running_def)
next
  case (do_start forked w args r w' b)
  then show ?case using process_start_ok by blast
next
  case (do_signal s w r w')
  then have "os_processes w' = os_processes w" "g_process_map w' = g_process_map w" "os_children w' = os_children w"
    by (auto simp: process_signal_def with_process_eq_Some)
  with do_signal.prems show ?case by (auto intro: os_ok_same_tables)
next
  case (do_exit status w pid)
  then show ?case
    by (auto intro!: os_ok_same_tables [OF do_exit.prems] simp: child_exits_def map_of_removed split: if_splits option.split)
next
  case (do_sigchld w pid w')
  then show ?case using sigchld_ok [of w pid] by auto
next
  case (do_join w r w' x)
  then obtain p where p: "os_processes w r = Some p" by (auto simp: process_join_def with_process_eq_Some)
  with do_join join_ok [OF do_join.prems p] show ?case by (cases "0 < pr_pid p") (auto simp: process_join_def)
next
  case (do_late_join w pid r p w' x)
  then have "w' = put_process w r (p\<lparr>pr_pid := -1\<rparr>)" by (auto simp: join_rest_def Let_def child_end_def)
  then show ?case using do_late_join unfolding os_ok_def by (auto split: if_splits) fastforce
next
  case (do_read res w r w' y)
  then obtain p where "os_processes w r = Some p" by (auto simp: async_read_some_def with_process_eq_Some)
  with do_read read_ok [of w r p res] show ?case by auto
next
  case (do_read_end w r p n w')
  then show ?case using reset_reader_ok [of w r p w'] by (auto simp: read_completed_def split: if_splits)
next
  case (do_delete w r w')
  then obtain p where "os_processes w r = Some p" by (auto simp: process_delete_def process_signal_def with_process_eq_Some split: option.splits)
  with do_delete delete_ok [of w r p] show ?case by auto
qed

lemma os_reach_ok: "os_reach (os_new limit env) w \<Longrightarrow> os_ok w"
  by (induction rule: os_reach.induct) (auto simp: os_ok_def os_new_def dest: os_step_ok [unfolded os_ok_def])



section \<open>What a child inherits\<close>

lemma start_success:
  assumes "os_processes w r = Some p" and "\<not> is_running p" and "process_start args forked w r = Some (w', True)" and "0 < forked"
  shows "os_environ w' = fold (\<lambda>kv e. sys_setenv e kv) (pr_env p) (os_environ w) \<and>
    (\<exists>c. map_of (os_children w') forked = Some c \<and> ch_environ c = os_environ w' \<and>
       ch_argv c = child_argv (pr_file_name p) args \<and> ch_directory c = pr_work_path p)"
proof -
  have le: "\<not> 0 < pr_pid p" "pr_file_name p \<noteq> []" using assms(1-3) by (auto simp: is_running_def process_start_def split: if_splits)
  obtain w1 where w1: "(if pr_read_fd p \<noteq> None then reset_reader w r else Some w) = Some w1"
    using le assms(1,3) by (auto simp: process_start_def split: if_splits option.splits)
  then obtain q where q: "os_processes w1 r = Some q" "os_environ w1 = os_environ w" "pr_env q = pr_env p"
    "pr_file_name q = pr_file_name p" "pr_work_path q = pr_work_path p"
    using assms(1) reset_reader_eq [OF assms(1)] by (cases "pr_read_fd p") auto
  obtain v where v: "start_pipes w1 r = Some (Inr v)" "start_fork args forked v r = Some (w', True)"
    using le assms(1,3) w1 by (auto simp: process_start_def split: if_splits option.splits sum.splits)
  from v(1) q obtain s where s: "os_processes v r = Some s" "os_environ v = os_environ w" "pr_env s = pr_env p"
    "pr_file_name s = pr_file_name p" "pr_work_path s = pr_work_path p"
    by (auto simp: start_pipes_def sys_pipe_def Let_def split: if_splits option.splits)
  then show ?thesis using v(2) assms(4) by (auto simp: start_fork_def Let_def split: if_splits)
qed

definition valid_key :: "string \<Rightarrow> bool" where
  "valid_key k = (k \<noteq> [] \<and> CHR ''='' \<notin> set k)"

lemma umap_put_lookup: "umap_find (umap_put m k v) q = (if q = k then Some v else umap_find m q)"
  by (auto simp: umap_put_def umap_find_def umap_put_find map_add_def split: option.split)

lemma setenv_find: "umap_find (sys_setenv e kv) k = (if valid_key (fst kv) \<and> k = fst kv then Some (snd kv) else umap_find e k)"
  by (simp add: sys_setenv_def valid_key_def umap_put_lookup)

lemma setenv_all_find:
  "distinct (map fst kvs) \<Longrightarrow> valid_key k \<Longrightarrow>
   umap_find (fold (\<lambda>kv e. sys_setenv e kv) kvs e) k = (case umap_find kvs k of Some v \<Rightarrow> Some v | None \<Rightarrow> umap_find e k)"
proof (induction kvs arbitrary: e)
  case Nil
  then show ?case by (simp add: umap_find_def)
next
  case (Cons kv kvs)
  have "map_of kvs (fst kv) = None" using Cons.prems(1) by (simp add: map_of_eq_None_iff)
  moreover have "umap_find (kv # kvs) k = (if k = fst kv then Some (snd kv) else umap_find kvs k)"
    by (cases kv) (auto simp: umap_find_def)
  moreover have "umap_find kvs (fst kv) = None" using Cons.prems(1) by (simp add: umap_find_def map_of_eq_None_iff)
  ultimately show ?case using Cons by (auto simp: setenv_find split: option.split)
qed

text \<open>Environments leak from one program to the next.  A child that has been forked with \<open>vfork\<close> sets its
  variables in the memory of the server: the program started later for another request finds in
  its environment, under every name it is not given itself, the value the earlier program was
  given, with the cookies and headers of that request among them.\<close>

theorem environment_leaks:
  assumes "os_processes w r = Some p" and "\<not> is_running p" and "process_start args forked w r = Some (w1, True)" and "0 < forked"
    and "os_environ w' = os_environ w1" and "os_processes w' s = Some q" and "\<not> is_running q"
    and "process_start args' forked' w' s = Some (w2, True)" and "0 < forked'"
    and "umap_ok (pr_env p)" and "umap_ok (pr_env q)" and "valid_key k"
  shows "\<exists>c. map_of (os_children w2) forked' = Some c \<and>
    umap_find (ch_environ c) k =
      (case umap_find (pr_env q) k of
         Some v \<Rightarrow> Some v
       | None \<Rightarrow> (case umap_find (pr_env p) k of Some v \<Rightarrow> Some v | None \<Rightarrow> umap_find (os_environ w) k))"
proof -
  obtain c where c: "map_of (os_children w2) forked' = Some c"
    "ch_environ c = fold (\<lambda>kv e. sys_setenv e kv) (pr_env q) (os_environ w1)"
    using start_success [OF assms(6-9)] assms(5) by auto
  have "os_environ w1 = fold (\<lambda>kv e. sys_setenv e kv) (pr_env p) (os_environ w)" using start_success [OF assms(1-4)] by simp
  with c assms(10-12) show ?thesis by (auto simp: umap_ok_def setenv_all_find split: option.split)
qed

section \<open>Who hears of the end of a program\<close>

text \<open>The exit status depends on a race.  When the program of a running process has ended, \<open>join\<close>
  gives its status; but when the signal handler is told of the end first, \<open>join\<close> reports an abnormal
  end, and when it is told between the first test of \<open>join\<close> and its \<open>waitpid\<close>, a normal end with code 0,
  whatever the status was.\<close>

theorem exit_status_race:
  assumes "os_reach (os_new limit env) w" and "os_processes w r = Some p" and "is_running p" and "child_end w (pr_pid p) = Some s"
  shows "(\<exists>w1. process_join w r = Some (w1, exited_normally s)) \<and>
    (\<exists>w2. signal_hander (pr_pid p) w = Some w2 \<and> process_join w2 r = Some (w2, False, 0) \<and>
       (\<exists>w3. join_rest (pr_pid p) w2 r = Some (w3, True, 0)))"
proof -
  note ok = os_reach_ok [OF assms(1)]
  have pid: "0 < pr_pid p" using assms(3) by (simp add: is_running_def)
  obtain a b where f: "pr_read_fd p = Some a" "pr_write_fd p = Some b" "map_of (g_process_map w) (pr_pid p) = Some r"
    using os_ok_running [OF ok assms(2) pid] .
  have cj: "can_join w r" using assms(2,4) by (auto simp: can_join_def child_end_def split: option.splits if_splits)
  obtain w1 x y where j: "process_join w r = Some (w1, x, y)" using join_ok [OF ok assms(2) pid cj] by blast
  then have "process_join w r = Some (w1, exited_normally s)" using assms(2,4) pid by (auto simp: process_join_def join_rest_def Let_def)
  let ?q = "p\<lparr>pr_pid := -1\<rparr>"
  let ?w = "put_process (sys_reap w (pr_pid p)) r ?q"
  have "os_processes ?w r = Some ?q" by simp
  from reset_writer_eq [OF this, of a b "pr_pid p"] f obtain w2 where w2: "reset_writer (pr_pid p) ?w r = Some w2"
    "os_processes w2 r = Some (?q\<lparr>pr_write_fd := None\<rparr>)"
    "os_children w2 = filter (\<lambda>(q, s). q \<noteq> pr_pid p) (os_children w)" by auto
  have "child_end w2 (pr_pid p) = None" using w2(3) by (simp add: child_end_def map_of_removed)
  with w2 have "process_join w2 r = Some (w2, False, 0)" "\<exists>w3. join_rest (pr_pid p) w2 r = Some (w3, True, 0)"
    by (simp_all add: process_join_def join_rest_def Let_def exited_normally_def)
  moreover have "signal_hander (pr_pid p) w = Some w2" using w2(1) f(3) assms(2) by (simp add: signal_hander_def Let_def)
  ultimately show ?thesis using \<open>process_join w r = Some (w1, exited_normally s)\<close> by blast
qed

section \<open>Descriptors\<close>

lemma lowest_free_notin: "lowest_free fds \<notin> set fds"
proof -
  let ?c = "filter (\<lambda>n. n \<notin> set fds) (map int [0..<Suc (length fds)])"
  have "card (set fds) < card (int ` {0..length fds})"
    using card_length [of fds] by (simp add: card_image)
  then have "\<not> int ` {0..length fds} \<subseteq> set fds" by (meson card_mono finite_set leD)
  then obtain n where "n \<in> int ` {0..length fds}" "n \<notin> set fds" by blast
  then have "n \<in> set ?c" by (auto simp: less_Suc_eq_le simp del: upt_Suc)
  then have "?c \<noteq> []" by (metis empty_iff empty_set)
  then have "lowest_free fds \<in> set ?c" unfolding lowest_free_def by (rule hd_in_set)
  then show ?thesis by (simp del: upt_Suc)
qed

lemma sys_pipe_Some:
  "length (os_fds w) + 2 \<le> os_limit w \<Longrightarrow>
   \<exists>a b. sys_pipe w = Some (w\<lparr>os_fds := b # a # os_fds w\<rparr>, a, b) \<and> a \<notin> set (os_fds w) \<and> b \<notin> set (a # os_fds w)"
  using lowest_free_notin [of "os_fds w"] lowest_free_notin [of "lowest_free (os_fds w) # os_fds w"]
  by (simp add: sys_pipe_def Let_def)

text \<open>Every program costs two descriptors for ever.  Once a program has been started, has ended, and
  both \<open>reset_writer\<close> and \<open>reset_reader\<close> have been at work, the ends of the pipes that were meant for
  the child are still open in the server; among them is the write end of the pipe the server reads
  from, so that pipe never comes to its end.\<close>

theorem descriptors_leak:
  assumes "os_processes w r = Some p" and "\<not> is_running p" and "pr_file_name p \<noteq> []" and "pr_read_fd p = None"
    and "0 < forked" and "map_of (g_process_map w) forked = None" and "length (os_fds w) + 4 \<le> os_limit w"
  shows "\<exists>w1 w2 w3 d e q. process_start args forked w r = Some (w1, True) \<and>
    signal_hander forked (child_exits forked status w1) = Some w2 \<and> reset_reader w2 r = Some w3 \<and>
    os_processes w1 r = Some q \<and> e = snd (pr_cwpr_fd q) \<and> d = fst (pr_pwcr_fd q) \<and>
    d \<notin> set (os_fds w) \<and> e \<notin> set (os_fds w) \<and> d \<noteq> e \<and> set (os_fds w3) = {d, e} \<union> set (os_fds w)"
proof -
  obtain a b where p1: "sys_pipe w = Some (w\<lparr>os_fds := b # a # os_fds w\<rparr>, a, b)" "a \<notin> set (os_fds w)" "b \<notin> set (a # os_fds w)"
    using sys_pipe_Some [of w] assms(7) by auto
  let ?p = "p\<lparr>pr_cwpr_fd := (a, b)\<rparr>"
  let ?w = "put_process (w\<lparr>os_fds := b # a # os_fds w\<rparr>) r ?p"
  obtain c d where p2: "sys_pipe ?w = Some (?w\<lparr>os_fds := d # c # b # a # os_fds w\<rparr>, c, d)" "c \<notin> set (b # a # os_fds w)"
    "d \<notin> set (c # b # a # os_fds w)"
    using sys_pipe_Some [of ?w] assms(7) by auto
  let ?q = "p\<lparr>pr_cwpr_fd := (a, b), pr_pwcr_fd := (c, d), pr_pid := forked, pr_read_fd := Some a, pr_write_fd := Some d\<rparr>"
  obtain w1 where w1: "process_start args forked w r = Some (w1, True)" "os_processes w1 r = Some ?q"
    "os_fds w1 = d # c # b # a # os_fds w" "map_of (g_process_map w1) forked = Some r"
    using assms p1(1) p2(1) by (simp add: process_start_def start_pipes_def start_fork_def is_running_def Let_def)
  let ?v = "sys_reap (child_exits forked status w1) forked"
  have v: "os_processes ?v r = Some ?q" "os_fds ?v = os_fds w1" "map_of (g_process_map ?v) forked = Some r"
    using w1 by (simp_all add: child_exits_def split: option.split)
  let ?u = "put_process ?v r (?q\<lparr>pr_pid := -1\<rparr>)"
  have "os_processes ?u r = Some (?q\<lparr>pr_pid := -1\<rparr>)" by simp
  from reset_writer_eq [OF this, of a d forked] obtain w2 where w2: "reset_writer forked ?u r = Some w2"
    "os_processes w2 r = Some (?q\<lparr>pr_pid := -1, pr_write_fd := None\<rparr>)" "os_fds w2 = removeAll d (os_fds w1)" using v(2) by auto
  from reset_reader_eq [OF w2(2), of a] obtain w3 where w3: "reset_reader w2 r = Some w3" "os_fds w3 = removeAll a (os_fds w2)"
    by auto
  have "signal_hander forked (child_exits forked status w1) = Some w2" using v w2(1) by (simp add: signal_hander_def Let_def)
  moreover have "set (os_fds w3) = {c, b} \<union> set (os_fds w)" using w3(2) w2(3) w1(3) p1 p2 by auto
  ultimately show ?thesis
    using w1(1,2) w3(1) p1(2,3) p2(2,3)
    by (intro exI [of _ w1] exI [of _ w2] exI [of _ w3] exI [of _ c] exI [of _ b] exI [of _ ?q]) simp
qed

section \<open>Concrete runs\<close>

text \<open>A server with the programs of two requests, the first of which carries a cookie.\<close>

definition two_programs :: os where
  "two_programs =
     (os_new 64 [])\<lparr>os_processes :=
       [0 \<mapsto> add_env ''COOKIE_ID'' ''secret'' (process_new ''/cgi/a''), 1 \<mapsto> process_new ''/cgi/b'']\<rparr>"

lemmas start_defs = process_start_def start_pipes_def start_fork_def put_process_def sys_pipe_def is_running_def Let_def

lemma two_programs_start:
  "\<exists>w1 q. process_start [] 7 two_programs 0 = Some (w1, True) \<and> os_processes w1 1 = Some (process_new ''/cgi/b'') \<and>
     length (os_fds w1) = 7 \<and> os_limit w1 = 64 \<and> map_of (os_children w1) 8 = None \<and>
     os_processes w1 0 = Some q \<and> pr_pid q = 7 \<and> map_of (os_children w1) 7 \<noteq> None"
  by (simp add: start_defs two_programs_def os_new_def process_new_def add_env_def umap_emplace_def umap_find_def with_process_def)

lemma environment_leaks_witness:
  "\<exists>w1 w2 c. process_start [] 7 two_programs 0 = Some (w1, True) \<and> process_start [] 8 w1 1 = Some (w2, True) \<and>
     map_of (os_children w2) 8 = Some c \<and> umap_find (ch_environ c) ''COOKIE_ID'' = Some ''secret''"
proof -
  let ?p = "add_env ''COOKIE_ID'' ''secret'' (process_new ''/cgi/a'')"
  let ?q = "process_new ''/cgi/b''"
  obtain w1 where w1: "process_start [] 7 two_programs 0 = Some (w1, True)" "os_processes w1 1 = Some ?q"
    "length (os_fds w1) = 7" "os_limit w1 = 64" using two_programs_start by blast
  have "sys_pipe w1 \<noteq> None" using sys_pipe_Some [of w1] w1(3,4) by auto
  then have two: "\<exists>w2. process_start [] 8 w1 1 = Some (w2, True)"
    using w1(2-4) by (auto simp: start_defs process_new_def with_process_def split: if_splits)
  then obtain w2 where w2: "process_start [] 8 w1 1 = Some (w2, True)" by blast
  have p: "os_processes two_programs 0 = Some ?p" by (simp add: two_programs_def)
  have e: "pr_env ?p = [(''COOKIE_ID'', ''secret'')]" "\<not> is_running ?p" "pr_env ?q = []" "\<not> is_running ?q"
    by (simp_all add: add_env_def process_new_def umap_emplace_def umap_find_def is_running_def)
  from environment_leaks [OF p e(2) w1(1) _ refl w1(2) e(4) w2, of "''COOKIE_ID''"] e(1,3) w1(1) w2
  show ?thesis by (auto simp: umap_ok_def valid_key_def umap_find_def)
qed

lemma exit_status_race_witness:
  "\<exists>w1 w2. process_start [] 7 (put_process (os_new 64 []) 0 (process_new ''/cgi/b'')) 0 = Some (w1, True) \<and>
     signal_hander 7 (child_exits 7 (Child_exited 0) w1) = Some w2 \<and> process_join w2 0 = Some (w2, False, 0)"
proof -
  let ?w = "put_process (os_new 64 []) 0 (process_new ''/cgi/b'')"
  obtain w1 p c where w1: "process_start [] 7 ?w 0 = Some (w1, True)" "os_processes w1 0 = Some p" "pr_pid p = 7"
    "map_of (os_children w1) 7 = Some c"
    by (simp add: start_defs os_new_def process_new_def with_process_def)
  have r0: "os_reach (os_new 64 []) ?w" by (rule os_trans [OF os_refl]) (rule do_new, simp add: os_new_def)
  have "os_step ?w w1" by (rule do_start [OF _ w1(1)]) (simp add: os_new_def)
  moreover have "os_step w1 (child_exits 7 (Child_exited 0) w1)" by (rule do_exit) simp
  ultimately have r: "os_reach (os_new 64 []) (child_exits 7 (Child_exited 0) w1)" using r0 os_trans by blast
  have "child_end (child_exits 7 (Child_exited 0) w1) (pr_pid p) = Some (Child_exited 0)"
    using w1(3,4) by (simp add: child_end_def child_exits_def)
  moreover have "os_processes (child_exits 7 (Child_exited 0) w1) 0 = Some p" using w1(2,4) by (simp add: child_exits_def)
  moreover have "is_running p" using w1(3) by (simp add: is_running_def)
  ultimately obtain w2 where "signal_hander (pr_pid p) (child_exits 7 (Child_exited 0) w1) = Some w2"
    "process_join w2 0 = Some (w2, False, 0)" using exit_status_race [OF r] by blast
  with w1(1,3) show ?thesis by auto
qed

lemma descriptors_leak_witness:
  "\<exists>w1 w2 w3. process_start [] 7 (put_process (os_new 64 []) 0 (process_new ''/cgi/b'')) 0 = Some (w1, True) \<and>
     signal_hander 7 (child_exits 7 (Child_exited 0) w1) = Some w2 \<and> reset_reader w2 0 = Some w3 \<and>
     3 < card (set (os_fds w3))"
proof -
  let ?w = "put_process (os_new 64 []) 0 (process_new ''/cgi/b'')"
  have p: "os_processes ?w 0 = Some (process_new ''/cgi/b'')" "\<not> is_running (process_new ''/cgi/b'')"
    "pr_file_name (process_new ''/cgi/b'') \<noteq> []" "pr_read_fd (process_new ''/cgi/b'') = None"
    "map_of (g_process_map ?w) 7 = None" "length (os_fds ?w) + 4 \<le> os_limit ?w" "os_fds ?w = [0, 1, 2]"
    by (simp_all add: process_new_def is_running_def os_new_def)
  from descriptors_leak [OF p(1-4) _ p(5,6), of "[]" "Child_exited 0"] obtain w1 w2 w3 d e where w:
    "process_start [] 7 ?w 0 = Some (w1, True)" "signal_hander 7 (child_exits 7 (Child_exited 0) w1) = Some w2"
    "reset_reader w2 0 = Some w3" "d \<notin> {0, 1, 2}" "e \<notin> {0, 1, 2}" "d \<noteq> e" "set (os_fds w3) = {d, e} \<union> {0, 1, 2}"
    unfolding p(7) by auto
  have "3 < card (set (os_fds w3))" using w(4-7) by (simp add: card_insert_if)
  then show ?thesis using w(1-3) by blast
qed

end
