(* ===== verification/CgiPump.thy ===== *)
theory CgiPump
  imports Prelude
begin

text \<open>
  The pump between a client and a CGI program: the asynchronous part of
  \<open>gts/web/service/cgi/service.cpp\<close>.

  The pool thread runs \<open>call\<close>: it starts the first read of the program's output, hands over the part of
  the body that is there, joins the process and waits until the operations have ended.  The handlers
  run on the thread of the event loop; a handler begins with the decrement of \<open>m_counter\<close> and goes on in a
  step of its own, because the other thread can look at the counter in between.  What the
  operations transfer is the label of their completion: asio transfers at least one byte and at most what
  was asked for unless it reports an error.  A condition variable wakes who waits on it when it is
  notified, and nobody else.  \<open>p_failed_out\<close>, \<open>p_failed_in\<close>, \<open>p_read\<close> and \<open>p_taken\<close> record what has
  happened: that a direction was given up, and the bytes read from the program and from the client.
\<close>

datatype out_op = Read_cgi | Write_socket string

datatype in_op = Read_socket nat | Write_cgi string

datatype pool_thread = At_start | At_body | At_join | At_check | At_lock | Waiting | Returned

datatype handler =
    Socket_written string nat bool
  | Socket_read string bool
  | Cgi_written string nat bool
  | Cgi_read string

record pump =
  p_out :: "out_op option"
  p_in :: "in_op option"
  m_counter :: nat
  m_content_length :: u64
  m_tcp_buf_size :: nat
  p_first :: string
  p_thread :: pool_thread
  p_handler :: "handler option"
  p_terminated :: bool
  p_sent :: string
  p_given :: string
  p_read :: string
  p_taken :: string
  p_failed_out :: bool
  p_failed_in :: bool

text \<open>The state after \<open>start\<close>; \<open>body\<close> is what \<open>read_body\<close> will give.\<close>

definition pump_new :: "u64 \<Rightarrow> nat \<Rightarrow> string \<Rightarrow> pump" where
  "pump_new content_length buf_size body =
     \<lparr>p_out = None, p_in = None, m_counter = 0, m_content_length = content_length, m_tcp_buf_size = buf_size,
      p_first = body, p_thread = At_start, p_handler = None, p_terminated = False, p_sent = [], p_given = [],
      p_read = [], p_taken = [], p_failed_out = False, p_failed_in = False\<rparr>"

section \<open>The operations\<close>

definition async_read_cgi :: "pump \<Rightarrow> pump" where
  "async_read_cgi p = p\<lparr>m_counter := m_counter p + 1, p_out := Some Read_cgi\<rparr>"

definition async_write_socket :: "string \<Rightarrow> pump \<Rightarrow> pump" where
  "async_write_socket buf p = p\<lparr>m_counter := m_counter p + 1, p_out := Some (Write_socket buf)\<rparr>"

definition async_write_cgi :: "string \<Rightarrow> pump \<Rightarrow> pump" where
  "async_write_cgi buf p = p\<lparr>m_counter := m_counter p + 1, p_in := Some (Write_cgi buf)\<rparr>"

definition async_read_socket :: "pump \<Rightarrow> pump" where
  "async_read_socket p =
     (let n = unat (m_content_length p);
          k = (if m_tcp_buf_size p < n then m_tcp_buf_size p else n)
      in if \<not> m_tcp_buf_size p < n \<and> k = 0 then p
         else p\<lparr>m_counter := m_counter p + 1, p_in := Some (Read_socket k)\<rparr>)"

definition notify_one :: "pump \<Rightarrow> pump" where
  "notify_one p = (if p_thread p = Waiting then p\<lparr>p_thread := Returned\<rparr> else p)"

definition notify_if_last :: "pump \<Rightarrow> pump" where
  "notify_if_last p = (if m_counter p = 0 then notify_one p else p)"

text \<open>The handlers after their decrement; \<open>running\<close> is what \<open>m_cgi.is_running()\<close> says.\<close>

definition on_socket_written :: "string \<Rightarrow> nat \<Rightarrow> bool \<Rightarrow> pump \<Rightarrow> pump" where
  "on_socket_written buf n error p =
     (if error then notify_if_last (p\<lparr>p_terminated := True, p_failed_out := True\<rparr>)
      else if n < length buf then async_write_socket (drop n buf) p
      else async_read_cgi p)"

definition on_socket_read :: "bool \<Rightarrow> string \<Rightarrow> bool \<Rightarrow> pump \<Rightarrow> pump" where
  "on_socket_read running data error p =
     (if error \<or> data = [] \<or> \<not> running then notify_if_last (p\<lparr>p_failed_in := True\<rparr>)
      else async_write_cgi data (p\<lparr>m_content_length := m_content_length p - of_nat (length data)\<rparr>))"

definition on_cgi_written :: "string \<Rightarrow> nat \<Rightarrow> bool \<Rightarrow> pump \<Rightarrow> pump" where
  "on_cgi_written buf n error p =
     (if error then notify_if_last (p\<lparr>p_failed_in := True\<rparr>)
      else if n < length buf then async_write_cgi (drop n buf) p
      else if 0 < m_content_length p then async_read_socket p
      else notify_if_last p)"

definition on_cgi_read :: "string \<Rightarrow> pump \<Rightarrow> pump" where
  "on_cgi_read data p = (if data \<noteq> [] then async_write_socket data p else notify_if_last p)"

definition run_handler :: "bool \<Rightarrow> handler \<Rightarrow> pump \<Rightarrow> pump" where
  "run_handler running h p =
     (case h of
        Socket_written buf n error \<Rightarrow> on_socket_written buf n error p
      | Socket_read data error \<Rightarrow> on_socket_read running data error p
      | Cgi_written buf n error \<Rightarrow> on_cgi_written buf n error p
      | Cgi_read data \<Rightarrow> on_cgi_read data p)"

lemmas run_handler_simps = run_handler_def on_socket_written_def on_socket_read_def on_cgi_written_def on_cgi_read_def

text \<open>The pool thread; \<open>None\<close> when it cannot go on.\<close>

definition call_step :: "pump \<Rightarrow> pump option" where
  "call_step p =
     (case p_thread p of
        At_start \<Rightarrow> Some ((async_read_cgi p)\<lparr>p_thread := At_body\<rparr>)
      | At_body \<Rightarrow>
          Some ((if 0 < length (p_first p) then
                   async_write_cgi (p_first p)
                     (p\<lparr>m_content_length := m_content_length p - of_nat (length (p_first p)), p_taken := p_first p\<rparr>)
                 else async_read_socket p)\<lparr>p_thread := At_join\<rparr>)
      | At_join \<Rightarrow> Some (p\<lparr>p_thread := At_check\<rparr>)
      | At_check \<Rightarrow> Some (p\<lparr>p_thread := (if 0 < m_counter p then At_lock else Returned)\<rparr>)
      | At_lock \<Rightarrow> Some (p\<lparr>p_thread := Waiting\<rparr>)
      | Waiting \<Rightarrow> None
      | Returned \<Rightarrow> None)"

section \<open>Steps\<close>

datatype pump_label = Call | Handler bool | Sock_written nat bool | Sock_read string bool | Cgi_accepts nat bool | Cgi_says string

definition begin_handler :: "handler \<Rightarrow> pump \<Rightarrow> pump" where
  "begin_handler h p = p\<lparr>m_counter := m_counter p - 1, p_handler := Some h\<rparr>"

text \<open>\<open>None\<close>: the label is not possible now.\<close>

fun pump_next :: "pump_label \<Rightarrow> pump \<Rightarrow> pump option" where
  "pump_next Call p = call_step p"
| "pump_next (Handler running) p =
     (case p_handler p of None \<Rightarrow> None | Some h \<Rightarrow> Some (run_handler running h (p\<lparr>p_handler := None\<rparr>)))"
| "pump_next (Sock_written n error) p =
     (case p_out p of
        Some (Write_socket buf) \<Rightarrow>
          if p_handler p = None \<and> n \<le> length buf \<and> (0 < n \<or> error \<or> buf = []) then
            Some (begin_handler (Socket_written buf n error) (p\<lparr>p_out := None, p_sent := p_sent p @ take n buf\<rparr>))
          else None
      | _ \<Rightarrow> None)"
| "pump_next (Sock_read data error) p =
     (case p_in p of
        Some (Read_socket n) \<Rightarrow>
          if p_handler p = None \<and> length data \<le> n then
            Some (begin_handler (Socket_read data error) (p\<lparr>p_in := None, p_taken := p_taken p @ data\<rparr>))
          else None
      | _ \<Rightarrow> None)"
| "pump_next (Cgi_accepts n error) p =
     (case p_in p of
        Some (Write_cgi buf) \<Rightarrow>
          if p_handler p = None \<and> n \<le> length buf \<and> (0 < n \<or> error \<or> buf = []) then
            Some (begin_handler (Cgi_written buf n error) (p\<lparr>p_in := None, p_given := p_given p @ take n buf\<rparr>))
          else None
      | _ \<Rightarrow> None)"
| "pump_next (Cgi_says data) p =
     (case p_out p of
        Some Read_cgi \<Rightarrow>
          if p_handler p = None \<and> length data \<le> 65536 then
            Some (begin_handler (Cgi_read data) (p\<lparr>p_out := None, p_read := p_read p @ data\<rparr>))
          else None
      | _ \<Rightarrow> None)"

inductive pump_reach :: "pump \<Rightarrow> pump \<Rightarrow> bool" for p0 :: pump where
  pump_init: "pump_reach p0 p0"
| pump_step: "pump_reach p0 p \<Longrightarrow> pump_next l p = Some p' \<Longrightarrow> pump_reach p0 p'"

section \<open>What the pump keeps\<close>

text \<open>The handler seen from each direction, and the bytes under way there.\<close>

fun out_part :: "handler option \<Rightarrow> handler option" where
  "out_part (Some (Cgi_read d)) = Some (Cgi_read d)"
| "out_part (Some (Socket_written buf n e)) = Some (Socket_written buf n e)"
| "out_part h = None"

fun in_part :: "handler option \<Rightarrow> handler option" where
  "in_part (Some (Socket_read d e)) = Some (Socket_read d e)"
| "in_part (Some (Cgi_written buf n e)) = Some (Cgi_written buf n e)"
| "in_part h = None"

fun out_tail :: "out_op option \<Rightarrow> handler option \<Rightarrow> string" where
  "out_tail (Some (Write_socket buf)) h = buf"
| "out_tail op (Some (Cgi_read d)) = d"
| "out_tail op (Some (Socket_written buf n e)) = drop n buf"
| "out_tail op h = []"

fun in_tail :: "in_op option \<Rightarrow> handler option \<Rightarrow> string" where
  "in_tail (Some (Write_cgi buf)) h = buf"
| "in_tail op (Some (Socket_read d e)) = d"
| "in_tail op (Some (Cgi_written buf n e)) = drop n buf"
| "in_tail op h = []"

fun count_op :: "'a option \<Rightarrow> nat" where
  "count_op None = 0"
| "count_op (Some x) = 1"

fun uncounted :: "handler option \<Rightarrow> nat" where
  "uncounted (Some (Socket_read d e)) = length d"
| "uncounted h = 0"

definition out_ok :: "bool \<Rightarrow> out_op option \<Rightarrow> handler option \<Rightarrow> string \<Rightarrow> string \<Rightarrow> bool" where
  "out_ok failed op h sent got =
     ((h \<noteq> None \<longrightarrow> op = None) \<and>
      (if failed then op = None \<and> h = None \<and> prefix sent got else sent @ out_tail op h = got))"

definition in_ok :: "nat \<Rightarrow> bool \<Rightarrow> in_op option \<Rightarrow> handler option \<Rightarrow> string \<Rightarrow> string \<Rightarrow> nat \<Rightarrow> bool" where
  "in_ok n failed op h given taken left =
     ((h \<noteq> None \<longrightarrow> op = None) \<and> (\<forall>k. op = Some (Read_socket k) \<longrightarrow> k \<le> left) \<and>
      (if failed then op = None \<and> h = None \<and> prefix given taken \<and> length taken \<le> n
       else given @ in_tail op h = taken \<and> left + length taken = n + uncounted h \<and> uncounted h \<le> left))"

definition thread_ok :: "pump \<Rightarrow> bool" where
  "thread_ok p =
     ((p_thread p = At_start \<longrightarrow> p_out p = None \<and> p_handler p = None \<and> \<not> p_failed_out p) \<and>
      (p_thread p \<in> {At_start, At_body} \<longrightarrow>
         p_in p = None \<and> in_part (p_handler p) = None \<and> p_taken p = [] \<and> \<not> p_failed_in p \<and>
         length (p_first p) \<le> unat (m_content_length p)))"

definition pump_ok :: "nat \<Rightarrow> pump \<Rightarrow> bool" where
  "pump_ok n p =
     (m_counter p = count_op (p_out p) + count_op (p_in p) \<and>
      out_ok (p_failed_out p) (p_out p) (out_part (p_handler p)) (p_sent p) (p_read p) \<and>
      in_ok n (p_failed_in p) (p_in p) (in_part (p_handler p)) (p_given p) (p_taken p) (unat (m_content_length p)) \<and>
      thread_ok p)"

lemma unat_minus_of_nat: "n \<le> unat (a :: u64) \<Longrightarrow> unat (a - of_nat n) = unat a - n"
proof -
  assume n: "n \<le> unat a"
  moreover have "unat a < 2 ^ 64" using unsigned_less [of a, where ?'a = nat] by simp
  ultimately have "unat (of_nat n :: u64) = n" by (simp add: unat_of_nat)
  with n show ?thesis by (simp add: unat_sub word_le_nat_alt)
qed

lemma notify_fields [simp]:
  "p_out (notify_if_last p) = p_out p" "p_in (notify_if_last p) = p_in p" "m_counter (notify_if_last p) = m_counter p"
  "m_content_length (notify_if_last p) = m_content_length p" "p_first (notify_if_last p) = p_first p"
  "p_handler (notify_if_last p) = p_handler p" "p_sent (notify_if_last p) = p_sent p" "p_given (notify_if_last p) = p_given p"
  "p_read (notify_if_last p) = p_read p" "p_taken (notify_if_last p) = p_taken p"
  "p_failed_out (notify_if_last p) = p_failed_out p" "p_failed_in (notify_if_last p) = p_failed_in p"
  "p_thread (notify_if_last p) = (if m_counter p = 0 \<and> p_thread p = Waiting then Returned else p_thread p)"
  by (simp_all add: notify_if_last_def notify_one_def)

lemma pump_ok_thread: "pump_ok n p \<Longrightarrow> t \<notin> {At_start, At_body} \<Longrightarrow> pump_ok n (p\<lparr>p_thread := t\<rparr>)"
  by (simp add: pump_ok_def thread_ok_def)

lemma pump_notify: "pump_ok n p \<Longrightarrow> pump_ok n (notify_if_last p)"
  by (simp add: notify_if_last_def notify_one_def pump_ok_thread)

lemma call_step_ok:
  assumes "pump_ok n p" and "call_step p = Some p'"
  shows "pump_ok n p'"
proof (cases "p_thread p")
  case At_start
  then have "p' = (async_read_cgi p)\<lparr>p_thread := At_body\<rparr>" "p_out p = None" "p_handler p = None" "\<not> p_failed_out p"
    using assms by (simp_all add: call_step_def pump_ok_def thread_ok_def)
  with assms(1) At_start show ?thesis by (auto simp: async_read_cgi_def pump_ok_def thread_ok_def out_ok_def)
next
  case At_body
  then have i: "p_in p = None" "in_part (p_handler p) = None" "p_taken p = []" "\<not> p_failed_in p" "p_given p = []"
    "length (p_first p) \<le> unat (m_content_length p)" "unat (m_content_length p) = n"
    using assms(1) by (auto simp: pump_ok_def thread_ok_def in_ok_def)
  show ?thesis
  proof (cases "p_first p = []")
    case True
    then have "p' = (async_read_socket p)\<lparr>p_thread := At_join\<rparr>" using At_body assms(2) by (simp add: call_step_def)
    with i assms(1) show ?thesis by (simp add: async_read_socket_def pump_ok_def thread_ok_def in_ok_def Let_def)
  next
    case False
    then have "p' = (async_write_cgi (p_first p) (p\<lparr>m_content_length := m_content_length p - of_nat (length (p_first p)),
        p_taken := p_first p\<rparr>))\<lparr>p_thread := At_join\<rparr>"
      using At_body assms(2) by (simp add: call_step_def)
    with i assms(1) show ?thesis by (simp add: async_write_cgi_def pump_ok_def thread_ok_def in_ok_def unat_minus_of_nat)
  qed
next
  case At_check
  then have "p' = p\<lparr>p_thread := if 0 < m_counter p then At_lock else Returned\<rparr>" using assms(2) by (simp add: call_step_def)
  with pump_ok_thread [OF assms(1)] show ?thesis by (cases "0 < m_counter p") simp_all
qed (use assms pump_ok_thread [OF assms(1)] in \<open>auto simp: call_step_def\<close>)

text \<open>The rest of a handler.\<close>

lemma run_handler_ok:
  assumes "pump_ok n p" and "p_handler p = Some h"
  shows "pump_ok n (run_handler running h (p\<lparr>p_handler := None\<rparr>))"
proof -
  let ?p = "p\<lparr>p_handler := None\<rparr>"
  have c: "m_counter p = count_op (p_out p) + count_op (p_in p)" and t: "thread_ok p"
    and o: "out_ok (p_failed_out p) (p_out p) (out_part (Some h)) (p_sent p) (p_read p)"
    and i: "in_ok n (p_failed_in p) (p_in p) (in_part (Some h)) (p_given p) (p_taken p) (unat (m_content_length p))"
    using assms by (simp_all add: pump_ok_def)
  show ?thesis
  proof (cases h)
    case (Socket_written buf k e)
    then have "p_out p = None" "\<not> p_failed_out p" "p_sent p @ drop k buf = p_read p" using o by (auto simp: out_ok_def split: if_splits)
    moreover from this(3) have "prefix (p_sent p) (p_read p)" by (metis prefixI)
    ultimately show ?thesis using c t i assms(2) Socket_written
      by (auto intro!: pump_notify simp: run_handler_simps async_write_socket_def async_read_cgi_def pump_ok_def thread_ok_def out_ok_def)
  next
    case (Cgi_read d)
    then have "p_out p = None" "\<not> p_failed_out p" "p_sent p @ d = p_read p" using o by (auto simp: out_ok_def split: if_splits)
    with c t i assms(2) Cgi_read show ?thesis
      by (auto intro!: pump_notify simp: run_handler_simps async_write_socket_def pump_ok_def thread_ok_def out_ok_def)
  next
    case (Socket_read d e)
    then have "p_in p = None" "\<not> p_failed_in p" "p_given p @ d = p_taken p" "unat (m_content_length p) + length (p_taken p) = n + length d"
      "length d \<le> unat (m_content_length p)" "p_thread p \<notin> {At_start, At_body}"
      using i t assms(2) by (auto simp: in_ok_def thread_ok_def split: if_splits)
    moreover from this(3) have "prefix (p_given p) (p_taken p)" by (metis prefixI)
    ultimately show ?thesis using c o assms(2) Socket_read
      by (auto intro!: pump_notify simp: run_handler_simps async_write_cgi_def pump_ok_def thread_ok_def in_ok_def unat_minus_of_nat)
  next
    case (Cgi_written buf k e)
    then have "p_in p = None" "\<not> p_failed_in p" "p_given p @ drop k buf = p_taken p" "unat (m_content_length p) + length (p_taken p) = n"
      "p_thread p \<notin> {At_start, At_body}"
      using i t assms(2) by (auto simp: in_ok_def thread_ok_def split: if_splits)
    moreover from this(3) have "prefix (p_given p) (p_taken p)" by (metis prefixI)
    ultimately show ?thesis using c o assms(2) Cgi_written
      by (auto intro!: pump_notify simp: run_handler_simps async_write_cgi_def async_read_socket_def pump_ok_def thread_ok_def in_ok_def Let_def)
  qed
qed

lemma pump_next_ok:
  assumes "pump_ok n p" and "pump_next l p = Some p'"
  shows "pump_ok n p'"
proof (cases l)
  case Call
  then show ?thesis using call_step_ok assms by simp
next
  case (Handler running)
  then show ?thesis using run_handler_ok [OF assms(1)] assms(2) by (auto split: option.splits)
next
  case (Sock_written k e)
  then obtain buf where b: "p_out p = Some (Write_socket buf)" "p_handler p = None"
    "p' = begin_handler (Socket_written buf k e) (p\<lparr>p_out := None, p_sent := p_sent p @ take k buf\<rparr>)"
    using assms(2) by (auto split: option.splits out_op.splits if_splits)
  then show ?thesis using assms(1) by (auto simp: begin_handler_def pump_ok_def thread_ok_def out_ok_def)
next
  case (Sock_read d e)
  then obtain k where b: "p_in p = Some (Read_socket k)" "p_handler p = None" "length d \<le> k"
    "p' = begin_handler (Socket_read d e) (p\<lparr>p_in := None, p_taken := p_taken p @ d\<rparr>)"
    using assms(2) by (auto split: option.splits in_op.splits if_splits)
  then show ?thesis using assms(1) by (auto simp: begin_handler_def pump_ok_def thread_ok_def in_ok_def)
next
  case (Cgi_accepts k e)
  then obtain buf where b: "p_in p = Some (Write_cgi buf)" "p_handler p = None"
    "p' = begin_handler (Cgi_written buf k e) (p\<lparr>p_in := None, p_given := p_given p @ take k buf\<rparr>)"
    using assms(2) by (auto split: option.splits in_op.splits if_splits)
  then show ?thesis using assms(1) by (auto simp: begin_handler_def pump_ok_def thread_ok_def in_ok_def)
next
  case (Cgi_says d)
  then obtain b: "p_out p = Some Read_cgi" "p_handler p = None"
    "p' = begin_handler (Cgi_read d) (p\<lparr>p_out := None, p_read := p_read p @ d\<rparr>)"
    using assms(2) by (auto split: option.splits out_op.splits if_splits)
  then show ?thesis using assms(1) by (auto simp: begin_handler_def pump_ok_def thread_ok_def out_ok_def)
qed

lemma pump_ok_new: "length body \<le> unat cl \<Longrightarrow> pump_ok (unat cl) (pump_new cl size0 body)"
  by (simp add: pump_ok_def pump_new_def out_ok_def in_ok_def thread_ok_def)

lemma pump_reach_ok: "pump_reach p0 p \<Longrightarrow> pump_ok n p0 \<Longrightarrow> pump_ok n p"
  by (induction rule: pump_reach.induct) (auto intro: pump_next_ok)


text \<open>A schedule.\<close>

fun pump_exec :: "pump \<Rightarrow> pump_label list \<Rightarrow> pump option" where
  "pump_exec p [] = Some p"
| "pump_exec p (l # ls) = (case pump_next l p of None \<Rightarrow> None | Some p1 \<Rightarrow> pump_exec p1 ls)"

lemma pump_exec_reach: "pump_exec p ls = Some p' \<Longrightarrow> pump_reach p0 p \<Longrightarrow> pump_reach p0 p'"
proof (induction ls arbitrary: p)
  case (Cons l ls)
  then show ?case by (auto split: option.splits intro: pump_step)
qed simp

lemmas pump_run = pump_new_def call_step_def async_read_cgi_def async_write_socket_def async_write_cgi_def async_read_socket_def
  run_handler_simps notify_if_last_def notify_one_def begin_handler_def Let_def

section \<open>Waking the pool thread\<close>


text \<open>A wake-up can be lost.  The last handler can run between the test of the counter and the wait,
  for the lock that \<open>call\<close> takes is not taken by the handlers: then the pool thread waits and nothing
  is left that could wake it.\<close>

theorem wakeup_lost:
  "\<exists>p. pump_reach (pump_new 0 64 []) p \<and> p_thread p = Waiting \<and> p_out p = None \<and> p_in p = None \<and> p_handler p = None \<and>
     (\<forall>l. pump_next l p = None)"
proof -
  let ?ls = "[Call, Call, Call, Call, Cgi_says [], Handler False, Call]"
  obtain p where p: "pump_exec (pump_new 0 64 []) ?ls = Some p" "p_thread p = Waiting" "p_out p = None" "p_in p = None"
    "p_handler p = None"
    by (simp add: pump_run)
  have "pump_next l p = None" for l using p(2-5) by (cases l) (simp_all add: call_step_def)
  with p pump_exec_reach [OF p(1) pump_init] show ?thesis by blast
qed

text \<open>The pool thread can return too early.  A handler decrements the counter before it starts the next
  operation of its chain; when the thread looks at the counter in between, it takes the chain for
  ended and returns, which destroys the objects of the handler, while the client has not yet
  been sent what the program wrote.\<close>

theorem early_return:
  "\<exists>p. pump_reach (pump_new 0 64 []) p \<and> p_thread p = Returned \<and> p_handler p \<noteq> None \<and> p_read p = ''x'' \<and> p_sent p = [] \<and>
     \<not> p_failed_out p"
proof -
  let ?ls = "[Call, Call, Call, Cgi_says ''x'', Call]"
  obtain p where p: "pump_exec (pump_new 0 64 []) ?ls = Some p" "p_thread p = Returned" "p_handler p \<noteq> None" "p_read p = ''x''"
    "p_sent p = []" "\<not> p_failed_out p"
    by (simp add: pump_run)
  with pump_exec_reach [OF p(1) pump_init] show ?thesis by blast
qed

text \<open>Without a \<open>Content-Length\<close> the first part of a chunked body makes the count wrap around.\<close>

lemma chunked_body_wraps:
  "\<exists>p. pump_reach (pump_new 0 64 ''x'') p \<and> m_content_length p = - 1"
proof -
  obtain p where p: "pump_exec (pump_new 0 64 ''x'') [Call, Call] = Some p" "m_content_length p = - 1"
    by (simp add: pump_run)
  with pump_exec_reach [OF p(1) pump_init] show ?thesis by blast
qed

text \<open>A run in which both directions are used and the thread waits to be woken.\<close>

definition sample_schedule :: "pump_label list" where
  "sample_schedule = [Call, Call, Call, Call, Call, Cgi_accepts 1 False, Handler True, Sock_read ''b'' False, Handler True,
     Cgi_accepts 1 False, Handler True, Cgi_says ''ok'', Handler True, Sock_written 1 False, Handler True,
     Sock_written 1 False, Handler True, Cgi_says []]"

lemma sample_schedule_run:
  "\<exists>p. pump_exec (pump_new 2 64 ''a'') sample_schedule = Some p \<and> p_thread p = Waiting \<and> p_handler p \<noteq> None \<and>
     p_read p = ''ok'' \<and> p_sent p = ''ok'' \<and> p_given p = ''ab''"
  by (simp add: sample_schedule_def pump_run)



end
