(* ===== verification/CgiService.thy ===== *)
theory CgiService
  imports Dispatch CgiProcess CgiPump
begin

text \<open>
  CGI programs answering requests: \<open>init\<close>, \<open>exists\<close> and \<open>call\<close> of \<open>gts/web/service/cgi/service.cpp\<close>.

  \<open>call\<close> builds the environment, starts the process and runs the pump (\<open>CgiProcess\<close>, \<open>CgiPump\<close>).  What comes of
  the run of the program is the parameter \<open>run\<close>: \<open>None\<close> when \<open>start\<close> fails, otherwise the socket of the
  client afterwards and what \<open>join\<close> reports.  The pump writes to the socket itself, past the response.
\<close>

section \<open>The configured environment\<close>

definition env_entry :: "string \<Rightarrow> string \<times> string" where
  "env_entry env =
     (case str_find ''='' env of
        None \<Rightarrow> (str_trimmed env, [])
      | Some pos \<Rightarrow> (str_trimmed (substr env 0 pos), str_trimmed (drop (pos + 1) env)))"

text \<open>\<open>cgi_service::init\<close>; \<open>ssl\<close> holds the two file settings in a build with SSL.\<close>

definition emplace_all :: "(string \<times> string) list \<Rightarrow> string umap \<Rightarrow> string umap" where
  "emplace_all kvs m = fold (\<lambda>(k, v) m. fst (umap_emplace m k v)) kvs m"

definition ssl_entries :: "(string \<Rightarrow> string) \<Rightarrow> (string \<times> string) option \<Rightarrow> (string \<times> string) list" where
  "ssl_entries absolute ssl =
     (case ssl of
        None \<Rightarrow> []
      | Some (crt, key) \<Rightarrow>
          (if crt \<noteq> [] then [(''SSL_CRT_FILE'', absolute crt)] else []) @
          (if key \<noteq> [] then [(''SSL_KEY_FILE'', absolute key)] else []))"

definition cgi_init :: "(string \<Rightarrow> string) \<Rightarrow> string \<Rightarrow> (string \<times> string) option \<Rightarrow> string umap option" where
  "cgi_init absolute setting ssl =
     map_option (\<lambda>l. emplace_all (map env_entry l @ ssl_entries absolute ssl) []) (str_split setting '';'' True)"

section \<open>The call\<close>

definition cgi_exists :: "'w site \<Rightarrow> 'w service_io \<Rightarrow> string" where
  "cgi_exists st io = (if st_files st (url_name io) = None then [] else url_name io)"

definition replace_http_to_env :: "string \<Rightarrow> string" where
  "replace_http_to_env s = map (\<lambda>c. if c = CHR ''-'' then CHR ''_'' else c) s"

definition env_name :: "string \<Rightarrow> string" where
  "env_name k = str_to_upper (replace_http_to_env k)"

text \<open>The variables of \<open>call\<close>; the method is an enumerator, which \<open>add_env\<close> prints as a number.\<close>

definition request_variables :: "'w site \<Rightarrow> 'w service_io \<Rightarrow> string \<Rightarrow> (string \<times> string) list" where
  "request_variables st io script =
     (let parameter = (if m_parameters_string (io_request io) = [] then ''/'' else m_parameters_string (io_request io))
      in [(''REQUEST_METHOD'', int_str (method_value (m_method (io_request io)))),
          (''QUERY_STRING'', parameter),
          (''SCRIPT_NAME'', url_name io),
          (''SCRIPT_FILENAME'', file_path script),
          (''REMOTE_ADDR'', st_remote_addr st),
          (''GATEWAY_INTERFACE'', ''CGI/1.1''),
          (''SERVER_NAME'', st_local_addr st),
          (''SERVER_PORT'', dec (st_local_port st)),
          (''SERVER_PROTOCOL'', ''HTTP/'' @ m_version (io_request io)),
          (''DOCUMENT_ROOT'', st_root st),
          (''SERVER_SOFTWARE'', ''GTS/1.0(GTS/'' @ st_gts_version st @ '')'')])"

definition cgi_variables :: "string umap \<Rightarrow> 'w site \<Rightarrow> 'w service_io \<Rightarrow> string \<Rightarrow> (string \<times> string) list" where
  "cgi_variables g_cgi_env st io script =
     g_cgi_env @ request_variables st io script @
     map (\<lambda>(k, v). (''HTTP_'' @ env_name k, v)) (m_headers (io_request io)) @
     map (\<lambda>(k, v). (''COOKIE_'' @ env_name k, v)) (m_cookies (io_request io))"

definition cgi_prepare :: "string umap \<Rightarrow> 'w site \<Rightarrow> 'w service_io \<Rightarrow> string \<Rightarrow> process" where
  "cgi_prepare g_cgi_env st io script =
     fold (\<lambda>(k, v) p. add_env k v p) (cgi_variables g_cgi_env st io script)
       (set_work_path (file_path script) (process_new (url_name io)))"

text \<open>\<open>m_content_length\<close>, which the pump starts with.\<close>

definition cgi_content_length :: "request \<Rightarrow> u64" where
  "cgi_content_length r = (case header_find (m_headers r) ''content-length'' of None \<Rightarrow> 0 | Some v \<Rightarrow> get_u64 v)"

text \<open>After the pump.\<close>

definition cgi_finish :: "'w service_io \<Rightarrow> bool \<Rightarrow> int \<Rightarrow> 'w service_io option" where
  "cgi_finish io pro_is_nor pro_res =
     (if \<not> m_headers_writed (io_response io) \<and> (\<not> pro_is_nor \<or> pro_res \<noteq> 0)
      then return_to_null io hs_internal_server_error else Some io)"

definition put_socket :: "tcp \<Rightarrow> 'w service_io \<Rightarrow> 'w service_io" where
  "put_socket sk io =
     io\<lparr>io_response := (io_response io)\<lparr>rs_request := (io_request io)\<lparr>m_socket := Some sk\<rparr>\<rparr>\<rparr>"

definition cgi_call ::
  "string umap \<Rightarrow> (process \<Rightarrow> request \<Rightarrow> (tcp \<times> bool \<times> int) option) \<Rightarrow> 'w site \<Rightarrow> string \<Rightarrow> 'w service_io \<Rightarrow>
   'w service_io option" where
  "cgi_call g_cgi_env run st script io =
     (case run (cgi_prepare g_cgi_env st io script) (io_request io) of
        None \<Rightarrow> return_to_null io hs_forbidden
      | Some (sk, pro_is_nor, pro_res) \<Rightarrow> cgi_finish (put_socket sk io) pro_is_nor pro_res)"

section \<open>What the program is told\<close>

lemma add_env_find:
  assumes "\<not> is_running p"
  shows "umap_find (pr_env (add_env k v p)) q = (if q = k then Some v else umap_find (pr_env p) q) \<and> \<not> is_running (add_env k v p)"
proof (cases "umap_find (pr_env p) k")
  case None
  then have "pr_env (add_env k v p) = umap_put (pr_env p) k v"
    using assms by (simp add: add_env_def umap_emplace_def umap_put_def)
  then show ?thesis using assms by (simp add: umap_put_lookup add_env_def is_running_def split: prod.split)
next
  case (Some w)
  then have "pr_env (add_env k v p) = umap_put (pr_env p) k v"
    using assms by (simp add: add_env_def umap_emplace_def)
  then show ?thesis using assms by (simp add: umap_put_lookup add_env_def is_running_def split: prod.split)
qed

lemma add_envs_find:
  "\<not> is_running p \<Longrightarrow>
   umap_find (pr_env (fold (\<lambda>(k, v) p. add_env k v p) kvs p)) q =
     (case map_of (rev kvs) q of Some v \<Rightarrow> Some v | None \<Rightarrow> umap_find (pr_env p) q) \<and>
   \<not> is_running (fold (\<lambda>(k, v) p. add_env k v p) kvs p)"
proof (induction kvs rule: rev_induct)
  case (snoc kv kvs)
  obtain k v where kv: "kv = (k, v)" by (cases kv)
  from snoc add_env_find [of "fold (\<lambda>(k, v) p. add_env k v p) kvs p" k v q] show ?case by (simp add: kv split: option.split)
qed simp

lemma cgi_prepare_find:
  "umap_find (pr_env (cgi_prepare genv st io script)) q = map_of (rev (cgi_variables genv st io script)) q"
  using add_envs_find [of "set_work_path (file_path script) (process_new (url_name io))" "cgi_variables genv st io script" q]
  by (simp add: cgi_prepare_def set_work_path_def process_new_def is_running_def umap_find_def split: option.split)

lemma prefixed_absent: "\<not> prefix x q \<Longrightarrow> map_of (rev (map (\<lambda>(k, v). (x @ f k, v)) kvs)) q = None"
  by (auto simp: map_of_eq_None_iff)

lemma map_of_only: "(q, v) \<in> set kvs \<Longrightarrow> (\<And>w. (q, w) \<in> set kvs \<Longrightarrow> w = v) \<Longrightarrow> map_of kvs q = Some v"
  by (metis map_of_SomeD weak_map_of_SomeI)

lemma map_of_renamed:
  assumes "(k, v) \<in> set kvs" and "\<And>k' v'. (k', v') \<in> set kvs \<Longrightarrow> f k' = f k \<Longrightarrow> v' = v"
  shows "map_of (rev (map (\<lambda>(k, v). (x @ f k, v)) kvs)) (x @ f k) = Some v"
proof (rule map_of_only)
  show "(x @ f k, v) \<in> set (rev (map (\<lambda>(k, v). (x @ f k, v)) kvs))" using assms(1) by force
next
  fix w
  assume "(x @ f k, w) \<in> set (rev (map (\<lambda>(k, v). (x @ f k, v)) kvs))"
  then obtain k' where "(k', w) \<in> set kvs" "f k' = f k" by auto
  then show "w = v" by (rule assms(2))
qed


section \<open>What the client gets\<close>

lemma write_default_message:
  assumes "fresh rs" and "status_description (m_status rs) = Some d"
  shows "\<exists>rs'. write_default None rs = Some rs' \<and> sent rs' = sent rs @ message_head rs' d @ null_body (m_status rs) d \<and>
    rs_headers_contains rs' hdr_content_length \<and> m_status rs' = m_status rs"
proof -
  let ?w = "rs\<lparr>m_headers_writed := True\<rparr>"
  let ?b = "null_body (m_status rs) d"
  let ?r1 = "set_header ?w hdr_content_length (dec (length ?b))"
  let ?r2 = "unset_header ?r1 hdr_transfer_encoding"
  let ?r3 = "unset_header ?r2 ''set-cookie''"
  have f: "full_socket rs" "headers_ok ?w" using assms(1) by (simp_all add: fresh_def headers_ok_def)
  note ok1 = headers_ok_set [OF f(2), of hdr_content_length "dec (length ?b)"]
  note ok2 = headers_ok_unset [OF ok1, of hdr_transfer_encoding]
  have full: "full_socket ?r3" "sent ?r3 = sent rs" "m_status ?r3 = m_status rs" "m_status ?r2 = m_status rs" using f(1) by simp_all
  have len: "rs_headers_contains ?r3 hdr_content_length"
    unfolding rs_headers_contains_def find_unset_header [OF ok2] find_unset_header [OF ok1] find_set_header [OF f(2)]
    using header_names_differ by simp
  have l: "status_line ?r2 = Some (''HTTP/'' @ rs_version rs @ '' '' @ int_str (m_status rs) @ '' '' @ d @ CRLF)"
    using assms(2) by (simp add: status_line_def rs_version_def)
  have head: "(''HTTP/'' @ rs_version rs @ '' '' @ int_str (m_status rs) @ '' '' @ d @ CRLF) @
      concat (map header_text (rs_headers ?r3)) @ concat (map cookie_text (rs_cookies ?r2)) @ CRLF = message_head ?r3 d"
    by (simp add: message_head_def rs_version_def)
  let ?r4 = "emit ?r3 (message_head ?r3 d)"
  have "write_default None rs = Some (emit ?r4 ?b)"
    using assms full l head unfolding write_default_def fresh_def null_body_def [symmetric]
    by (simp add: Let_def serialize_eq sock_write_full null_body_def [symmetric])
  moreover have "rs_headers_contains (emit ?r4 ?b) hdr_content_length" using len by (simp add: rs_headers_contains_def)
  ultimately show ?thesis using full by simp
qed

text \<open>The destructor of a response that nobody has written to.\<close>

lemma destroy_fresh:
  assumes "fresh rs" and "rs_is_valid rs" and "\<not> m_websocket (rs_request rs)" and "status_description (m_status rs) = Some d"
  shows "\<exists>rs'. response_destroy None rs = Some rs' \<and> sent rs' = sent rs @ message_head rs' d @ null_body (m_status rs) d"
proof -
  obtain rs' where w: "write_default None rs = Some rs'" "sent rs' = sent rs @ message_head rs' d @ null_body (m_status rs) d"
    "rs_headers_contains rs' hdr_content_length"
    using write_default_message [OF assms(1,4)] by blast
  then have "response_destroy None rs = Some rs'"
    using assms by (simp add: response_destroy_def chunk_end_def fresh_def)
  with w(2) show ?thesis by blast
qed

definition cgi_script :: "'w site \<Rightarrow> string \<Rightarrow> string option" where
  "cgi_script st u =
     (case str_find_from ''/'' u 1 of
        None \<Rightarrow> None
      | Some pos \<Rightarrow> if substr u 0 pos = st_cgi_access st then Some (st_cgi_path st @ drop (pos + 1) u) else None)"

lemma do_parsing_cgi:
  assumes "umap_find (g_path_hash (st_registry st)) (check_url (m_path (io_request io))) = None"
    and "cgi_script st (check_url (m_path (io_request io))) = Some script" and "st_files st script \<noteq> None"
    and "\<forall>f\<in>set (g_filter_path_map (st_registry st)). \<not> filter_applies script (fst f)"
  shows "do_parsing st io = map_option (Pair True) (st_cgi st script (io\<lparr>url_name := script\<rparr>))"
proof -
  let ?u = "check_url (m_path (io_request io))"
  let ?io = "io\<lparr>url_name := (if m_path (io_request io) = [] then ''/'' else m_path (io_request io))\<rparr>"
  have "plugins_call st ?io = Some (False, io\<lparr>url_name := ?u\<rparr>)"
    using plugins_call_none [of st ?io] assms(1) by (simp add: check_url_or_root)
  then have d: "do_parsing st io = cgi_part st (io\<lparr>url_name := ?u\<rparr>)" by (simp add: do_parsing_def Let_def)
  obtain pos where pos: "str_find_from ''/'' ?u 1 = Some pos" "substr ?u 0 pos = st_cgi_access st" "script = st_cgi_path st @ drop (pos + 1) ?u"
    using assms(2) by (auto simp: cgi_script_def split: option.splits if_splits)
  have "call_filter st (io\<lparr>url_name := script\<rparr>) = Some (False, io\<lparr>url_name := script\<rparr>)"
    using no_filter_applies [of st "io\<lparr>url_name := script\<rparr>"] assms(4) by simp
  then have "cgi_part st (io\<lparr>url_name := ?u\<rparr>) = map_option (Pair True) (st_cgi st script (io\<lparr>url_name := script\<rparr>))"
    using pos assms(3) by (auto simp: cgi_part_def Let_def)
  with d show ?thesis by simp
qed

text \<open>The output of a program is followed by an answer nobody asked for.  A request on a connection
  that is kept open, for a program that runs, writes \<open>out\<close> and ends well: the task leaves the response
  unwritten, because the pump writes to the socket past it, so its destructor sends the default
  answer \<open>200 OK\<close> behind the output of the program, for every method a program can be run with.\<close>

theorem cgi_answer_doubled:
  assumes "m_socket r = Some sk" and "sk_open sk" and "sk_writes sk = []" and "is_valid r" and "\<not> m_websocket r" and "m_keep_alive r"
    and "m_method r \<in> {GET, POST, PUT, DELETE}"
    and "umap_find (g_path_hash (st_registry st)) (check_url (m_path r)) = None"
    and "cgi_script st (check_url (m_path r)) = Some script" and "st_files st script \<noteq> None"
    and "\<forall>f\<in>set (g_filter_path_map (st_registry st)). \<not> filter_applies script (fst f)"
    and "\<And>io. st_cgi st script io = cgi_call genv run st script io"
    and "\<And>p q. m_socket q = Some sk \<Longrightarrow> run p q = Some (sk\<lparr>sk_out := sk_out sk @ out\<rparr>, True, 0)"
  shows "\<exists>io rs. task_run st (service_context_new r) w = Some io \<and> sent (io_response io) = sk_out sk @ out \<and>
    response_destroy None (io_response io) = Some rs \<and> sent rs = sk_out sk @ out @ message_head rs ''OK'' @ ''OK (200)''"
proof -
  let ?io = "service_io_new (service_context_new r) w"
  let ?sk = "sk\<lparr>sk_out := sk_out sk @ out\<rparr>"
  let ?io' = "put_socket ?sk (?io\<lparr>url_name := script\<rparr>)"
  note n = service_io_new_fresh [OF conjunct1 [OF context_fresh [OF assms(1-3)]], of w]
  have req: "io_request ?io = r" "m_status (io_response ?io) = 200" "fresh (io_response ?io)"
    using n by (simp_all add: service_context_new_def response_new_def)
  have "cgi_call genv run st script (?io\<lparr>url_name := script\<rparr>) = Some ?io'"
    using assms(13) [of r] assms(1) req by (simp add: cgi_call_def cgi_finish_def)
  then have "do_parsing st ?io = Some (True, ?io')"
    using do_parsing_cgi [of st ?io script] assms(8-12) req by simp
  then have "run_method st ?io = Some ?io'"
    using assms(7) req by (auto simp: run_method_def CALL_GET_def CALL_POST_def CALL_PUT_def CALL_DELETE_def)
  moreover have kept: "m_keep_alive (io_request ?io')" using assms(6) req by (simp add: put_socket_def)
  ultimately have run: "task_run st (service_context_new r) w = Some ?io'" by (simp add: task_run_def)
  have st: "status_description (m_status (io_response ?io')) = Some ''OK''" "m_status (io_response ?io') = 200"
    using req by (simp_all add: put_socket_def status_description_def status_table_def)
  have fr: "fresh (io_response ?io')"
    using req assms(2,3) by (auto simp: put_socket_def fresh_def full_socket_def headers_ok_def is_chunked_def)
  have v: "rs_is_valid (io_response ?io')" "\<not> m_websocket (io_request ?io')"
    using assms(1,4,5) req by (auto simp: put_socket_def rs_is_valid_def is_valid_def split: if_splits)
  have sent: "sent (io_response ?io') = sk_out sk @ out" by (simp add: put_socket_def sent_def)
  have b: "null_body (m_status (io_response ?io')) ''OK'' = ''OK (200)''" unfolding st(2) by code_simp
  obtain rs where "response_destroy None (io_response ?io') = Some rs"
    "sent rs = sent (io_response ?io') @ message_head rs ''OK'' @ null_body (m_status (io_response ?io')) ''OK''"
    using destroy_fresh [OF fr v st(1)] by blast
  with run sent b show ?thesis by auto
qed

text \<open>A site with one program that writes a short answer.\<close>

definition sample_run :: "process \<Rightarrow> request \<Rightarrow> (tcp \<times> bool \<times> int) option" where
  "sample_run p q = map_option (\<lambda>sk. (sk\<lparr>sk_out := sk_out sk @ ''hello''\<rparr>, True, 0)) (m_socket q)"

definition cgi_site :: "unit site" where
  "cgi_site =
     (let st = (sample_site registry_new)\<lparr>st_files := (\<lambda>f. if f = ''/cgi/x'' then Some (True, ''bin'') else None)\<rparr>
      in st\<lparr>st_cgi := cgi_call [] sample_run st\<rparr>)"

lemma cgi_answer_doubled_witness:
  "\<exists>io rs. task_run cgi_site (service_context_new (sample_request GET ''/cgi-bin/x'')) () = Some io \<and>
     sent (io_response io) = ''hello'' \<and> response_destroy None (io_response io) = Some rs \<and>
     sent rs = ''hello'' @ message_head rs ''OK'' @ ''OK (200)''"
proof -
  let ?r = "sample_request GET ''/cgi-bin/x''"
  let ?sk = "tcp_new 64 []"
  have 1: "m_socket ?r = Some ?sk" "is_valid ?r" "\<not> m_websocket ?r" "m_keep_alive ?r" "m_method ?r = GET" "m_path ?r = ''/cgi-bin/x''"
    by (simp_all add: sample_request_def request_new_def is_valid_def tcp_new_def header_find_def)
  have 2: "umap_find (g_path_hash (st_registry cgi_site)) u = None" "g_filter_path_map (st_registry cgi_site) = []"
    "st_files cgi_site ''/cgi/x'' \<noteq> None" for u
    by (simp_all add: cgi_site_def sample_site_def registry_new_def umap_find_def Let_def)
  have 3: "cgi_script cgi_site (check_url (m_path ?r)) = Some ''/cgi/x''"
    unfolding 1 by (simp add: cgi_script_def check_url_def str_find_from_def substr_def cgi_site_def sample_site_def Let_def)
  have 4: "st_cgi cgi_site f io = cgi_call [] sample_run cgi_site f io" for f io
    by (simp add: cgi_site_def cgi_call_def cgi_prepare_def cgi_variables_def request_variables_def Let_def)
  have 5: "sample_run p q = Some (?sk\<lparr>sk_out := sk_out ?sk @ ''hello''\<rparr>, True, 0)" if "m_socket q = Some ?sk" for p q
    using that by (simp add: sample_run_def)
  have 6: "sk_out ?sk = []" "sk_open ?sk" "sk_writes ?sk = []" by (simp_all add: tcp_new_def)
  from cgi_answer_doubled [OF 1(1) 6(2,3) 1(2-4) _ 2(1) 3 2(3) _ 4 5, where w = "()"] 1(5) 2(2) 6(1)
  show ?thesis by simp
qed


end
