(* ===== verification/Ini.thy ===== *)
theory Ini
  imports HttpMap
begin

text \<open>
  \<open>3rd_party/inifile/inicpp.h\<close>, the configuration file the program reads and writes: the field conversions
  that \<open>gts::settings\<close> uses, the comment and escape handling, and \<open>decode\<close>/\<open>encode\<close> of a whole file.
  A file is a map of sections, a section a map of fields, both ordered by \<open>std::less\<close>.  A syntax error is
  a value of \<open>ini_error\<close> beside the map as it was filled up to that line, which is what the
  exception leaves behind.
\<close>

section \<open>Field conversions\<close>

text \<open>The C functions see the bytes before the first NUL; \<open>strto_end\<close> is \<open>*endptr\<close>: the text after the number, or the
  whole text when there is no number.\<close>

definition c_str :: "string \<Rightarrow> string" where
  "c_str s = takeWhile (\<lambda>c. c \<noteq> CHR 0x00) s"

definition base_digit :: "nat \<Rightarrow> char \<Rightarrow> bool" where
  "base_digit b c = (case digit_val c of None \<Rightarrow> False | Some d \<Rightarrow> d < b)"

definition strto_end :: "string \<Rightarrow> nat \<Rightarrow> string" where
  "strto_end s b =
     (let s1 = dropWhile isspace s;
          s2 = (if s1 \<noteq> [] \<and> (hd s1 = CHR ''-'' \<or> hd s1 = CHR ''+'') then tl s1 else s1);
          hexp = (b = 16 \<and> (take 2 s2 = ''0x'' \<or> take 2 s2 = ''0X'') \<and> 2 < length s2 \<and> base_digit b (s2 ! 2));
          s3 = (if hexp then drop 2 s2 else s2);
          ds = takeWhile (base_digit b) s3
      in if ds = [] then s else drop (length ds) s3)"

definition str_to_long :: "string \<Rightarrow> int option" where
  "str_to_long v =
     (let s = c_str v in
      if strto_end s 10 = [] then Some (strtol s 10)
      else if strto_end s 8 = [] then Some (strtol s 8)
      else if strto_end s 16 = [] then Some (strtol s 16)
      else None)"

definition str_to_ulong :: "string \<Rightarrow> u64 option" where
  "str_to_ulong v =
     (let s = c_str v in
      if strto_end s 10 = [] then Some (strtoul s 10)
      else if strto_end s 8 = [] then Some (strtoul s 8)
      else if strto_end s 16 = [] then Some (strtoul s 16)
      else None)"

text \<open>\<open>Convert<T>::decode\<close>; \<open>None\<close> is the \<open>invalid_argument\<close> it throws.\<close>

definition decode_bool :: "string \<Rightarrow> bool option" where
  "decode_bool v =
     (if str_to_upper v = ''TRUE'' then Some True
      else if str_to_upper v = ''FALSE'' then Some False
      else None)"

definition decode_short :: "string \<Rightarrow> u16 option" where
  "decode_short v = map_option word_of_int (str_to_long v)"

definition decode_ushort :: "string \<Rightarrow> u16 option" where
  "decode_ushort v = map_option ucast (str_to_ulong v)"

definition decode_int :: "string \<Rightarrow> u32 option" where
  "decode_int v = map_option word_of_int (str_to_long v)"

definition decode_uint :: "string \<Rightarrow> u32 option" where
  "decode_uint v = map_option ucast (str_to_ulong v)"

definition decode_long :: "string \<Rightarrow> u64 option" where
  "decode_long v = map_option word_of_int (str_to_long v)"

definition decode_ulong :: "string \<Rightarrow> u64 option" where
  "decode_ulong v = str_to_ulong v"

definition decode_string :: "string \<Rightarrow> string" where
  "decode_string v = v"

text \<open>\<open>Convert<T>::encode\<close>.\<close>

definition sdec :: "int \<Rightarrow> string" where
  "sdec i = (if i < 0 then CHR ''-'' # dec (nat (- i)) else dec (nat i))"

definition encode_bool :: "bool \<Rightarrow> string" where
  "encode_bool b = (if b then ''true'' else ''false'')"

definition encode_short :: "u16 \<Rightarrow> string" where "encode_short n = sdec (sint n)"
definition encode_ushort :: "u16 \<Rightarrow> string" where "encode_ushort n = dec (unat n)"
definition encode_int :: "u32 \<Rightarrow> string" where "encode_int n = sdec (sint n)"
definition encode_uint :: "u32 \<Rightarrow> string" where "encode_uint n = dec (unat n)"
definition encode_long :: "u64 \<Rightarrow> string" where "encode_long n = sdec (sint n)"
definition encode_ulong :: "u64 \<Rightarrow> string" where "encode_ulong n = dec (unat n)"
definition encode_string :: "string \<Rightarrow> string" where "encode_string v = v"

text \<open>A \<open>const char *\<close> is stored up to its NUL.\<close>

definition encode_cstring :: "string \<Rightarrow> string" where "encode_cstring v = c_str v"

section \<open>Comments and escapes\<close>

record ini_config =
  field_sep :: char
  esc :: char
  comment_prefixes :: "string list"
  multi_line :: bool

text \<open>The default constructor, the only one \<open>gts::settings\<close> uses.\<close>

definition ini_default :: ini_config where
  "ini_default = \<lparr>field_sep = CHR ''='', esc = CHR 0x5C, comment_prefixes = [''#'', '';''], multi_line = False\<rparr>"

text \<open>\<open>find_last_not_of\<close> and \<open>find_first_not_of\<close>.\<close>

fun first_not_of :: "(char \<Rightarrow> bool) \<Rightarrow> string \<Rightarrow> nat option" where
  "first_not_of p [] = None"
| "first_not_of p (c # cs) = (if p c then map_option Suc (first_not_of p cs) else Some 0)"

definition last_not_of :: "(char \<Rightarrow> bool) \<Rightarrow> string \<Rightarrow> nat option" where
  "last_not_of p s = map_option (\<lambda>i. length s - 1 - i) (first_not_of p (rev s))"

definition ini_trim :: "string \<Rightarrow> string" where
  "ini_trim s =
     (case last_not_of isspace s of
        None \<Rightarrow> []
      | Some l \<Rightarrow>
          (let s1 = take (l + 1) s
           in case first_not_of isspace s1 of None \<Rightarrow> s1 | Some i \<Rightarrow> drop i s1))"

lemma str_find_from_le: "str_find_from p s i = Some j \<Longrightarrow> i \<le> j \<and> j + length p \<le> length s"
  by (auto simp: str_find_from_def split: if_splits dest: str_find_Some_le)

function erase_comment :: "char \<Rightarrow> string \<Rightarrow> string \<Rightarrow> nat \<Rightarrow> string" where
  "erase_comment e pre s start =
     (case str_find_from pre s start of
        None \<Rightarrow> s
      | Some pos \<Rightarrow>
          if 0 < pos \<and> s ! (pos - 1) = e
          then erase_comment e pre (take (pos - 1) s @ drop pos s) (pos - 1 + length pre)
          else take pos s)"
  by pat_completeness auto
termination
  by (relation "measure (\<lambda>(e, pre, s, start). length s)") (auto dest: str_find_from_le)

declare erase_comment.simps [simp del]

fun erase_each :: "char \<Rightarrow> string list \<Rightarrow> string \<Rightarrow> string" where
  "erase_each e [] s = s"
| "erase_each e (p # ps) s = erase_each e ps (erase_comment e p s 0)"

definition erase_comments :: "ini_config \<Rightarrow> string \<Rightarrow> string" where
  "erase_comments c s = erase_each (esc c) (comment_prefixes c) s"

text \<open>The first comment prefix that stands at the beginning of the text.\<close>

fun find_comment_prefix :: "string list \<Rightarrow> string \<Rightarrow> string option" where
  "find_comment_prefix [] s = None"
| "find_comment_prefix (p # ps) s = (if s \<noteq> [] \<and> prefix p s then Some p else find_comment_prefix ps s)"

text \<open>\<open>None\<close>: an empty prefix is configured and the loop does not advance.\<close>

partial_function (option) write_escaped :: "ini_config \<Rightarrow> string \<Rightarrow> string \<Rightarrow> string option" where
  "write_escaped c s acc =
     (case s of
        [] \<Rightarrow> Some acc
      | x # xs \<Rightarrow>
          (case find_comment_prefix (comment_prefixes c) s of
             Some p \<Rightarrow> write_escaped c (drop (length p) s) (acc @ esc c # p)
           | None \<Rightarrow>
               if multi_line c \<and> x = LF then write_escaped c xs (acc @ [LF, CHR 0x09])
               else write_escaped c xs (acc @ [x])))"

section \<open>Reading a file\<close>

type_synonym ini_section = "string smap"
type_synonym ini_file = "ini_section smap"

datatype ini_error =
    Section_not_closed nat
  | Section_empty nat
  | Field_no_section nat
  | No_separator nat

record ini_state =
  sections :: ini_file
  current :: "string option"
  ml_field :: string

definition find_section :: "ini_file \<Rightarrow> string \<Rightarrow> ini_section" where
  "find_section m s = (case map_find std_less m s of Some f \<Rightarrow> f | None \<Rightarrow> [])"

text \<open>\<open>(*currentSection)[name] = value\<close>.\<close>

definition put_field :: "string \<Rightarrow> string \<Rightarrow> string \<Rightarrow> ini_file \<Rightarrow> ini_file" where
  "put_field sec k v m = map_put std_less m sec (map_put std_less (find_section m sec) k v)"

definition decode_section :: "nat \<Rightarrow> string \<Rightarrow> ini_state \<Rightarrow> ini_error option \<times> ini_state" where
  "decode_section n l st =
     (case str_find '']'' l of
        None \<Rightarrow> (Some (Section_not_closed n), st)
      | Some pos \<Rightarrow>
          if pos = 1 then (Some (Section_empty n), st)
          else let name = substr l 1 (pos - 1)
               in (None, \<lparr>sections = fst (map_emplace std_less (sections st) name []), current = Some name,
                         ml_field = []\<rparr>))"

definition decode_field :: "ini_config \<Rightarrow> nat \<Rightarrow> bool \<Rightarrow> string \<Rightarrow> ini_state \<Rightarrow> ini_error option \<times> ini_state" where
  "decode_field c n indent l st =
     (case current st of
        None \<Rightarrow> (Some (Field_no_section n), st)
      | Some sec \<Rightarrow>
          if multi_line c \<and> indent \<and> ml_field st \<noteq> [] then
            (let v = (case map_find std_less (find_section (sections st) sec) (ml_field st) of Some v \<Rightarrow> v | None \<Rightarrow> []) @ LF # l
             in (None, st\<lparr>sections := put_field sec (ml_field st) v (sections st)\<rparr>))
          else
            (case str_find [field_sep c] l of
               None \<Rightarrow> (Some (No_separator n), st)
             | Some pos \<Rightarrow>
                 let name = ini_trim (take pos l); v = ini_trim (drop (pos + 1) l)
                 in (None, st\<lparr>sections := put_field sec name v (sections st), ml_field := name\<rparr>)))"

definition indent_char :: "char \<Rightarrow> bool" where
  "indent_char x = (x = CHR '' '' \<or> x = CHR 0x09)"

definition decode_line :: "ini_config \<Rightarrow> nat \<Rightarrow> string \<Rightarrow> ini_state \<Rightarrow> ini_error option \<times> ini_state" where
  "decode_line c n raw st =
     (let s = erase_comments c raw;
          indent = (first_not_of indent_char s \<noteq> Some 0);
          l = ini_trim s
      in if l = [] then (None, st)
         else if hd l = CHR ''['' then decode_section n l st
         else decode_field c n indent l st)"

text \<open>The lines are numbered from 1; what follows the last line feed is a line of its own.\<close>

fun decode_lines :: "ini_config \<Rightarrow> nat \<Rightarrow> string list \<Rightarrow> ini_state \<Rightarrow> ini_error option \<times> ini_state" where
  "decode_lines c n [] st = (None, st)"
| "decode_lines c n (l # ls) st =
     (case decode_line c (Suc n) l st of
        (Some e, st') \<Rightarrow> (Some e, st')
      | (None, st') \<Rightarrow> decode_lines c (Suc n) ls st')"

definition ini_decode :: "ini_config \<Rightarrow> string \<Rightarrow> ini_error option \<times> ini_file" where
  "ini_decode c s =
     (let (e, st) = decode_lines c 0 (pieces LF s) \<lparr>sections = [], current = None, ml_field = []\<rparr>
      in (e, sections st))"

text \<open>\<open>load\<close>: a file that cannot be opened (\<open>None\<close>) is an empty map.\<close>

definition ini_load :: "ini_config \<Rightarrow> string option \<Rightarrow> ini_error option \<times> ini_file" where
  "ini_load c content = (case content of None \<Rightarrow> (None, []) | Some s \<Rightarrow> ini_decode c s)"

section \<open>Writing a file\<close>

definition encode_field :: "ini_config \<Rightarrow> string \<times> string \<Rightarrow> string option" where
  "encode_field c kv =
     (case (write_escaped c (fst kv) [], write_escaped c (decode_string (snd kv)) []) of
        (Some k, Some v) \<Rightarrow> Some (k @ field_sep c # v @ [LF])
      | _ \<Rightarrow> None)"

fun encode_fields :: "ini_config \<Rightarrow> ini_section \<Rightarrow> string option" where
  "encode_fields c [] = Some []"
| "encode_fields c (kv # kvs) =
     (case (encode_field c kv, encode_fields c kvs) of (Some a, Some b) \<Rightarrow> Some (a @ b) | _ \<Rightarrow> None)"

fun ini_encode :: "ini_config \<Rightarrow> ini_file \<Rightarrow> string option" where
  "ini_encode c [] = Some []"
| "ini_encode c ((name, fs) # m) =
     (case (write_escaped c name [], encode_fields c fs, ini_encode c m) of
        (Some n, Some f, Some r) \<Rightarrow> Some (CHR ''['' # n @ CHR '']'' # LF # f @ r)
      | _ \<Rightarrow> None)"

section \<open>Escaping and unescaping\<close>

definition esc1 :: "char \<Rightarrow> string \<Rightarrow> string" where
  "esc1 c s = concat (map (\<lambda>x. if x = c then [CHR 0x5C, c] else [x]) s)"

definition escape_ref :: "string \<Rightarrow> string" where
  "escape_ref s = esc1 (CHR ''#'') (esc1 (CHR '';'') s)"

lemma esc1_simps [simp]:
  "esc1 c [] = []" "esc1 c (x # s) = (if x = c then [CHR 0x5C, c] else [x]) @ esc1 c s"
  "esc1 c (s @ t) = esc1 c s @ esc1 c t"
  by (simp_all add: esc1_def)

lemma esc1_free: "c \<notin> set s \<Longrightarrow> esc1 c s = s"
  by (induction s) auto

lemma escape_ref_simps [simp]:
  "escape_ref [] = []"
  "escape_ref (x # s) = (if x = CHR ''#'' \<or> x = CHR '';'' then [CHR 0x5C, x] else [x]) @ escape_ref s"
  "escape_ref (s @ t) = escape_ref s @ escape_ref t"
  by (simp_all add: escape_ref_def)

lemma write_escaped_acc: "write_escaped ini_default s acc = Some (acc @ escape_ref s)"
proof (induction "length s" arbitrary: s acc)
  case 0
  then show ?case by (subst write_escaped.simps) simp
next
  case (Suc n)
  then obtain x xs where s: "s = x # xs" "n = length xs" by (cases s) auto
  show ?case
    using Suc.hyps(1) [OF s(2)] unfolding s(1) by (subst write_escaped.simps) (auto simp: ini_default_def)
qed

lemma write_escaped_default [simp]: "write_escaped ini_default s [] = Some (escape_ref s)"
  using write_escaped_acc [of s "[]"] by simp

lemma str_find_from_append: "str_find_from p (a @ s) (length a) = map_option (\<lambda>i. i + length a) (str_find p s)"
  by (simp add: str_find_from_def)

lemma erase_escaped:
  assumes "c \<noteq> CHR 0x5C"
  shows "erase_comment (CHR 0x5C) [c] (a @ esc1 c s) (length a) = a @ s"
proof (induction "length s" arbitrary: a s rule: less_induct)
  case less
  show ?case
  proof (cases "c \<in> set s")
    case False
    then show ?thesis
      by (subst erase_comment.simps) (simp add: esc1_free str_find_from_append str_find_char)
  next
    case True
    then obtain p t where s: "s = p @ c # t" "c \<notin> set p" by (meson split_list_first)
    let ?q = "p @ [CHR 0x5C]"
    have "takeWhile (\<lambda>x. x \<noteq> c) (?q @ c # esc1 c t) = ?q" using s(2) assms by (subst takeWhile_append2) auto
    then have "str_find_from [c] (a @ ?q @ c # esc1 c t) (length a) = Some (length (a @ ?q))"
      unfolding str_find_from_append str_find_char by simp
    then have "erase_comment (CHR 0x5C) [c] (a @ ?q @ c # esc1 c t) (length a) =
        erase_comment (CHR 0x5C) [c] ((a @ p @ [c]) @ esc1 c t) (length (a @ p @ [c]))"
      by (subst erase_comment.simps) (simp add: nth_append)
    also have "\<dots> = (a @ p @ [c]) @ t" using s(1) by (intro less) simp
    finally show ?thesis using s by (simp add: esc1_free)
  qed
qed

lemma erase_comments_escaped [simp]: "erase_comments ini_default (escape_ref s) = s"
  using erase_escaped [of "CHR ''#''" "[]" "esc1 (CHR '';'') s"] erase_escaped [of "CHR '';''" "[]" s]
  by (simp add: erase_comments_def ini_default_def escape_ref_def)

section \<open>Trimming\<close>

definition trimmed :: "string \<Rightarrow> bool" where
  "trimmed s = (s = [] \<or> \<not> isspace (hd s) \<and> \<not> isspace (last s))"

lemma first_not_of_eq: "first_not_of p s = (if \<forall>c \<in> set s. p c then None else Some (length (takeWhile p s)))"
  by (induction s) auto

lemma ini_trim_eq: "ini_trim s = dropWhile isspace (rev (dropWhile isspace (rev s)))"
proof (cases "\<forall>c \<in> set s. isspace c")
  case True
  then have d: "dropWhile isspace (rev s) = []" by simp
  show ?thesis using True by (simp add: ini_trim_def last_not_of_def first_not_of_eq d)
next
  case False
  let ?w = "length (takeWhile isspace (rev s))"
  have "?w < length s" using False length_takeWhile_less [of _ "rev s" isspace] by auto
  then have "length s - 1 - ?w + 1 = length s - ?w" by simp
  then have s1: "take (length s - 1 - ?w + 1) s = rev (dropWhile isspace (rev s))"
    by (simp only: rev_dropWhile_rev_take)
  have d: "dropWhile isspace (rev s) \<noteq> []" using False by simp
  then have "\<not> isspace (hd (dropWhile isspace (rev s)))" by (rule hd_dropWhile)
  then have "\<not> (\<forall>c \<in> set (dropWhile isspace (rev s)). isspace c)" using d hd_in_set by blast
  then show ?thesis
    using False s1 by (auto simp: ini_trim_def last_not_of_def first_not_of_eq Let_def simp flip: dropWhile_eq_drop)
qed

lemma ini_trim_set: "set (ini_trim s) \<subseteq> set s"
  by (auto simp: ini_trim_eq dest!: set_dropWhileD)

lemma ini_trim_trimmed: "trimmed (ini_trim s)"
proof (cases "ini_trim s = []")
  case False
  let ?t = "rev (dropWhile isspace (rev s))"
  have ne: "dropWhile isspace ?t \<noteq> []" using False by (simp only: ini_trim_eq not_False_eq_True)
  then have h: "\<not> isspace (hd (dropWhile isspace ?t))" by (rule hd_dropWhile)
  have "last (dropWhile isspace ?t) = last ?t"
    using ne by (metis last_appendR takeWhile_dropWhile_id)
  moreover have "dropWhile isspace (rev s) \<noteq> []" using ne by (metis dropWhile.simps(1) rev.simps(1))
  then have "\<not> isspace (last ?t)" using hd_dropWhile [of isspace "rev s"] by (simp add: last_rev)
  ultimately show ?thesis using h by (simp add: trimmed_def ini_trim_eq)
qed (simp add: trimmed_def)

lemma ini_trim_id: "trimmed s \<Longrightarrow> ini_trim s = s"
proof (cases s rule: rev_cases)
  case (snoc t x)
  assume "trimmed s"
  then have "\<not> isspace x" "\<not> isspace (hd s)" by (simp_all add: trimmed_def snoc)
  then have r: "rev (dropWhile isspace (rev s)) = s" by (simp add: snoc)
  have "dropWhile isspace s = s" using \<open>\<not> isspace (hd s)\<close> by (cases s) simp_all
  then show ?thesis unfolding ini_trim_eq r .
qed (simp add: ini_trim_eq)

section \<open>Well-formed files\<close>

definition section_name_ok :: "string \<Rightarrow> bool" where
  "section_name_ok n = (n \<noteq> [] \<and> CHR '']'' \<notin> set n \<and> LF \<notin> set n)"

definition key_ok :: "string \<Rightarrow> bool" where
  "key_ok k = (trimmed k \<and> LF \<notin> set k \<and> CHR ''='' \<notin> set k \<and> (k \<noteq> [] \<longrightarrow> hd k \<noteq> CHR ''[''))"

definition value_ok :: "string \<Rightarrow> bool" where
  "value_ok v = (trimmed v \<and> LF \<notin> set v)"

definition section_ok :: "ini_section \<Rightarrow> bool" where
  "section_ok sec = (map_ok std_less sec \<and> (\<forall>kv \<in> set sec. key_ok (fst kv) \<and> value_ok (snd kv)))"

definition ini_ok :: "ini_file \<Rightarrow> bool" where
  "ini_ok m = (map_ok std_less m \<and> (\<forall>ns \<in> set m. section_name_ok (fst ns) \<and> section_ok (snd ns)))"

lemma char_facts: "\<not> isspace (CHR ''['')" "\<not> isspace (CHR '']'')" "\<not> isspace (CHR ''='')" "isspace LF"
  by (simp_all add: isspace_def LF_def)

lemma decode_section_line:
  assumes "section_name_ok n"
  shows "decode_line ini_default i (escape_ref (CHR ''['' # n @ '']'')) st =
    (None, \<lparr>sections = fst (map_emplace std_less (sections st) n []), current = Some n, ml_field = []\<rparr>)"
proof -
  let ?l = "CHR ''['' # n @ '']''"
  have t: "ini_trim ?l = ?l" by (intro ini_trim_id) (simp add: trimmed_def char_facts)
  have "takeWhile (\<lambda>x. x \<noteq> CHR '']'') (n @ '']'') = n"
    using assms by (subst takeWhile_append2) (auto simp: section_name_ok_def)
  then have "str_find '']'' ?l = Some (Suc (length n))" by (simp add: str_find_char del: takeWhile_append)
  moreover have "length n \<noteq> 0" using assms by (simp add: section_name_ok_def)
  ultimately show ?thesis
    unfolding decode_line_def erase_comments_escaped Let_def t by (simp add: decode_section_def substr_def)
qed

lemma trimmed_join: "trimmed k \<Longrightarrow> trimmed v \<Longrightarrow> trimmed (k @ CHR ''='' # v)"
  by (cases k; cases v rule: rev_cases) (auto simp: trimmed_def char_facts)

lemma decode_field_line:
  assumes "key_ok k" and "value_ok v" and "current st = Some sec"
  shows "decode_line ini_default i (escape_ref (k @ CHR ''='' # v)) st =
    (None, st\<lparr>sections := put_field sec k v (sections st), ml_field := k\<rparr>)"
proof -
  let ?l = "k @ CHR ''='' # v"
  have t: "ini_trim ?l = ?l" "ini_trim k = k" "ini_trim v = v"
    using assms by (simp_all add: ini_trim_id trimmed_join key_ok_def value_ok_def)
  have "takeWhile (\<lambda>x. x \<noteq> CHR ''='') ?l = k"
    using assms by (subst takeWhile_append2) (auto simp: key_ok_def)
  then have f: "str_find ''='' ?l = Some (length k)" by (simp add: str_find_char del: takeWhile_append)
  have "hd ?l \<noteq> CHR ''[''" using assms by (cases k) (auto simp: key_ok_def)
  then show ?thesis
    unfolding decode_line_def erase_comments_escaped Let_def t(1)
    using t f assms(3) by (simp add: decode_field_def ini_default_def)
qed

section \<open>What is written is read back\<close>

text \<open>Entries that arrive in the order of their keys go to the end of the map.\<close>

context ordered_keys begin

lemma map_ok_snoc: "map_ok lt (m @ [(k, v)]) = (map_ok lt m \<and> (\<forall>x \<in> set m. lt (fst x) k))"
  by (auto simp: map_ok_def sorted_wrt_append)

lemma map_find_less: "\<forall>x \<in> set m. lt (fst x) k \<Longrightarrow> map_find lt m k = None"
  by (induction m) (auto simp: same_key_def)

lemma map_ins_less: "\<forall>x \<in> set m. lt (fst x) k \<Longrightarrow> map_ins lt m k v = m @ [(k, v)]"
  by (induction m) auto

lemma map_put_snoc: "map_ok lt (m @ [(k, v)]) \<Longrightarrow> map_put lt m k v = m @ [(k, v)]"
  by (simp add: map_put_def map_ok_snoc map_find_less map_ins_less)

lemma map_emplace_snoc: "map_ok lt (m @ [(k, v)]) \<Longrightarrow> fst (map_emplace lt m k v) = m @ [(k, v)]"
  by (simp add: map_emplace_def map_ok_snoc map_find_less map_ins_less)

lemma same_key_refl: "same_key lt k k"
  by (simp add: same_key_norm)

lemma map_find_last: "map_ok lt (m @ [(k, w)]) \<Longrightarrow> map_find lt (m @ [(k, w)]) k = Some w"
proof -
  assume "map_ok lt (m @ [(k, w)])"
  then have "\<forall>x \<in> set m. lt (fst x) k" by (simp add: map_ok_snoc)
  then show ?thesis by (induction m) (auto simp: same_key_refl, auto simp: same_key_def)
qed

lemma map_put_last:
  assumes "map_ok lt (m @ [(k, w)])"
  shows "map_put lt (m @ [(k, w)]) k v = m @ [(k, v)]"
proof -
  have "map (\<lambda>(q, x). if same_key lt q k then (q, v) else (q, x)) m = m"
    using assms by (auto simp: map_ok_snoc same_key_def intro!: map_idI)
  then show ?thesis using assms by (simp add: map_put_def map_find_last same_key_refl)
qed

end

definition field_line :: "string \<times> string \<Rightarrow> string" where
  "field_line kv = escape_ref (fst kv @ CHR ''='' # snd kv)"

definition section_lines :: "string \<times> ini_section \<Rightarrow> string list" where
  "section_lines ns = escape_ref (CHR ''['' # fst ns @ '']'') # map field_line (snd ns)"

definition ini_lines :: "ini_file \<Rightarrow> string list" where
  "ini_lines m = concat (map section_lines m)"

definition unlines :: "string list \<Rightarrow> string" where
  "unlines ls = concat (map (\<lambda>l. l @ [LF]) ls)"

lemma unlines_simps [simp]: "unlines [] = []" "unlines (l # ls) = l @ LF # unlines ls" "unlines (ls @ ks) = unlines ls @ unlines ks"
  by (simp_all add: unlines_def)

lemma encode_fields_lines: "encode_fields ini_default fs = Some (unlines (map field_line fs))"
  by (induction fs) (simp_all add: encode_field_def field_line_def decode_string_def, simp_all add: ini_default_def)

lemma ini_encode_lines: "ini_encode ini_default m = Some (unlines (ini_lines m))"
  by (induction m) (auto simp: ini_lines_def section_lines_def encode_fields_lines)

lemma pieces_unlines: "\<forall>l \<in> set ls. LF \<notin> set l \<Longrightarrow> pieces LF (unlines ls) = ls @ [[]]"
  by (induction ls) (simp_all add: pieces_sep)

lemma escape_ref_LF: "LF \<notin> set s \<Longrightarrow> LF \<notin> set (escape_ref s)"
  by (induction s) (auto simp: LF_def)

lemma section_line_LF: "section_name_ok n \<Longrightarrow> LF \<notin> set (escape_ref (CHR ''['' # n @ '']''))"
  by (rule escape_ref_LF) (auto simp: section_name_ok_def LF_def)

lemma field_line_LF: "key_ok (fst kv) \<Longrightarrow> value_ok (snd kv) \<Longrightarrow> LF \<notin> set (field_line kv)"
  unfolding field_line_def by (rule escape_ref_LF) (auto simp: key_ok_def value_ok_def LF_def)

lemma ini_lines_LF: "ini_ok m \<Longrightarrow> \<forall>l \<in> set (ini_lines m). LF \<notin> set l"
  using section_line_LF field_line_LF
  by (fastforce simp: ini_ok_def ini_lines_def section_lines_def section_ok_def simp del: escape_ref_simps)

lemma decode_lines_append:
  "decode_lines c n ls st = (None, st') \<Longrightarrow>
   decode_lines c n (ls @ ks) st = decode_lines c (n + length ls) ks st'"
  by (induction c n ls st rule: decode_lines.induct) (auto split: prod.splits option.splits)

lemma decode_field_lines:
  assumes "map_ok std_less (pre @ [(sec, fs0 @ fs)])" and "section_ok (fs0 @ fs)"
    and "sections st = pre @ [(sec, fs0)]" and "current st = Some sec"
  shows "\<exists>st'. decode_lines ini_default n (map field_line fs) st = (None, st') \<and>
    sections st' = pre @ [(sec, fs0 @ fs)] \<and> current st' = Some sec"
  using assms
proof (induction fs arbitrary: fs0 st n)
  case Nil
  then show ?case by simp
next
  case (Cons kv fs)
  obtain k v where kv: "kv = (k, v)" by (cases kv)
  have kok: "key_ok k" "value_ok v" using Cons.prems(2) by (simp_all add: section_ok_def kv)
  have pre: "map_ok std_less (pre @ [(sec, x)])" for x using Cons.prems(1) by (simp add: map_ok_def)
  have "map_ok std_less (fs0 @ [(k, v)])"
    using Cons.prems(2) by (auto simp: section_ok_def map_ok_def sorted_wrt_append kv)
  then have "put_field sec k v (sections st) = pre @ [(sec, fs0 @ [(k, v)])]"
    by (simp add: Cons.prems(3) put_field_def find_section_def ordered.map_find_last [OF pre]
        ordered.map_put_last [OF pre] ordered.map_put_snoc)
  then have step: "decode_line ini_default (Suc n) (field_line kv) st =
      (None, st\<lparr>sections := pre @ [(sec, fs0 @ [(k, v)])], ml_field := k\<rparr>)"
    using decode_field_line [OF kok Cons.prems(4)] by (simp add: field_line_def kv del: escape_ref_simps)
  show ?case
    using Cons.IH [of "fs0 @ [(k, v)]" "st\<lparr>sections := pre @ [(sec, fs0 @ [(k, v)])], ml_field := k\<rparr>" "Suc n"]
      Cons.prems step by (simp add: kv pre)
qed

lemma decode_sections:
  assumes "ini_ok (pre @ m)" and "sections st = pre"
  shows "\<exists>st'. decode_lines ini_default n (ini_lines m) st = (None, st') \<and> sections st' = pre @ m"
  using assms
proof (induction m arbitrary: pre st n)
  case Nil
  then show ?case by (simp add: ini_lines_def)
next
  case (Cons ns m)
  obtain name fs where ns: "ns = (name, fs)" by (cases ns)
  have ok: "section_name_ok name" "section_ok fs" using Cons.prems(1) by (simp_all add: ini_ok_def ns)
  have pre: "map_ok std_less (pre @ [(name, x)])" for x
    using Cons.prems(1) by (auto simp: ini_ok_def map_ok_def sorted_wrt_append ns)
  let ?st = "\<lparr>sections = pre @ [(name, [])], current = Some name, ml_field = []\<rparr>"
  have "decode_line ini_default (Suc n) (escape_ref (CHR ''['' # name @ '']'')) st = (None, ?st)"
    unfolding decode_section_line [OF ok(1)] by (simp add: Cons.prems(2) ordered.map_emplace_snoc [OF pre])
  moreover obtain st1 where st1: "decode_lines ini_default (Suc n) (map field_line fs) ?st = (None, st1)"
      "sections st1 = pre @ [(name, fs)]"
    using decode_field_lines [of pre name "[]" fs ?st "Suc n"] pre ok by auto
  ultimately have "decode_lines ini_default n (section_lines ns) st = (None, st1)"
    by (simp add: section_lines_def ns del: escape_ref_simps)
  from decode_lines_append [OF this, of "ini_lines m"] Cons.IH [of "pre @ [ns]" st1] Cons.prems(1) st1(2)
  show ?case by (simp add: ini_lines_def ns)
qed

lemma ini_decode_lines:
  assumes "ini_ok m"
  shows "ini_decode ini_default (unlines (ini_lines m)) = (None, m)"
proof -
  let ?st = "\<lparr>sections = [], current = None, ml_field = []\<rparr>"
  obtain st where st: "decode_lines ini_default 0 (ini_lines m) ?st = (None, st)" "sections st = m"
    using decode_sections [of "[]" m ?st 0] assms by auto
  have "decode_line ini_default n [] st = (None, st)" for n
    by (simp add: decode_line_def erase_comments_def ini_default_def erase_comment.simps str_find_from_def
        ini_trim_eq)
  then show ?thesis
    using decode_lines_append [OF st(1), of "[[]]"] st(2)
    by (simp add: ini_decode_def pieces_unlines [OF ini_lines_LF [OF assms]])
qed

text \<open>Reading keeps the map well formed, whatever the text and whether or not it ends in an error.\<close>

lemma put_field_ok:
  assumes "ini_ok m" and "section_name_ok sec" and "key_ok k" and "value_ok v"
  shows "ini_ok (put_field sec k v m)"
proof -
  let ?fs = "find_section m sec"
  have put_set: "x \<in> set (map_put std_less a q w) \<Longrightarrow> x \<in> set a \<or> x = (q, w) \<or> (\<exists>y. (fst x, y) \<in> set a \<and> snd x = w)"
    for x :: "string \<times> 'b" and a q w
    by (auto simp: map_put_def ordered.map_ins_keys split: option.splits if_splits)
  have "map_find std_less m sec = Some y \<Longrightarrow> \<exists>q. (q, y) \<in> set m" for y
    by (induction m) (auto split: if_splits)
  then have f: "section_ok ?fs"
    using assms(1) by (cases "map_find std_less m sec") (fastforce simp: find_section_def ini_ok_def section_ok_def map_ok_def)+
  have "section_ok (map_put std_less ?fs k v)"
    using f assms(3,4) put_set [of _ ?fs k v] ordered.ok_put [of ?fs k v] unfolding section_ok_def by fastforce
  then show ?thesis
    using assms(1,2) put_set [of _ m sec "map_put std_less ?fs k v"] ordered.ok_put [of m sec "map_put std_less ?fs k v"]
    unfolding ini_ok_def put_field_def by fastforce
qed

lemma emplace_section_ok:
  assumes "ini_ok m" and "section_name_ok sec"
  shows "ini_ok (fst (map_emplace std_less m sec []))"
proof -
  have "x \<in> set (fst (map_emplace std_less m sec [])) \<Longrightarrow> x \<in> set m \<or> x = (sec, [])" for x
    by (auto simp: map_emplace_def ordered.map_ins_keys split: option.splits)
  moreover have "section_ok []" by (simp add: section_ok_def map_ok_def)
  ultimately show ?thesis
    using assms ordered.ok_emplace [of m sec "[]"] unfolding ini_ok_def by fastforce
qed

definition ini_state_ok :: "ini_state \<Rightarrow> bool" where
  "ini_state_ok st = (ini_ok (sections st) \<and> (\<forall>sec. current st = Some sec \<longrightarrow> section_name_ok sec))"

lemma erase_comment_set: "set (erase_comment e p s i) \<subseteq> set s"
proof (induction e p s i rule: erase_comment.induct)
  case (1 e p s i)
  show ?case
  proof (cases "str_find_from p s i")
    case None
    then show ?thesis by (subst erase_comment.simps) simp
  next
    case (Some pos)
    have "set (take (pos - 1) s @ drop pos s) \<subseteq> set s" by (auto dest: in_set_takeD in_set_dropD)
    then show ?thesis using 1 [OF Some] Some
      by (subst erase_comment.simps) (auto dest: in_set_takeD)
  qed
qed

lemma erase_each_set: "set (erase_each e ps s) \<subseteq> set s"
  by (induction e ps s rule: erase_each.induct) (use erase_comment_set in fastforce)+

lemma ini_trim_hd:
  assumes "s \<noteq> []" and "\<not> isspace (hd s)"
  shows "hd (ini_trim s) = hd s"
proof -
  obtain x t where s: "s = x # t" using assms(1) by (cases s) auto
  then have x: "\<not> isspace x" using assms(2) by simp
  have "\<exists>u. dropWhile isspace (rev s) = u @ [x]" using x by (auto simp: s dropWhile_append)
  then obtain u where "dropWhile isspace (rev s) = u @ [x]" ..
  then show ?thesis using x unfolding ini_trim_eq by (simp add: s)
qed

lemma field_parts_ok:
  assumes "l \<noteq> []" and "trimmed l" and "hd l \<noteq> CHR ''[''" and "LF \<notin> set l" and "str_find ''='' l = Some pos"
  shows "key_ok (ini_trim (take pos l))" and "value_ok (ini_trim (drop (pos + 1) l))"
proof -
  let ?k = "take pos l"
  have k: "?k = takeWhile (\<lambda>x. x \<noteq> CHR ''='') l"
    using assms(5) by (auto simp: str_find_char simp flip: takeWhile_eq_take split: if_splits)
  then have eq: "CHR ''='' \<notin> set ?k" by (metis set_takeWhileD)
  have "hd ?k = hd l" if "?k \<noteq> []" using that by (cases l; cases pos) auto
  then have hd: "hd (ini_trim ?k) = hd l" if "?k \<noteq> []"
    using that assms(1,2) ini_trim_hd [of ?k] by (simp add: trimmed_def)
  have "ini_trim ?k \<noteq> [] \<Longrightarrow> ?k \<noteq> []" by (metis ini_trim_id trimmed_def)
  then show "key_ok (ini_trim ?k)"
    using hd assms(3,4) eq ini_trim_set [of ?k] set_take_subset [of pos l] by (auto simp: key_ok_def ini_trim_trimmed)
  show "value_ok (ini_trim (drop (pos + 1) l))"
    using assms(4) ini_trim_set [of "drop (pos + 1) l"] set_drop_subset [of "pos + 1" l]
    by (auto simp: value_ok_def ini_trim_trimmed)
qed

lemma section_name_substr:
  assumes "l \<noteq> []" and "hd l = CHR ''[''" and "LF \<notin> set l" and "str_find '']'' l = Some pos" and "pos \<noteq> 1"
  shows "section_name_ok (substr l 1 (pos - 1))"
proof -
  let ?n = "substr l 1 (pos - 1)"
  have p: "pos = length (takeWhile (\<lambda>x. x \<noteq> CHR '']'') l)" "CHR '']'' \<in> set l"
    using assms(4) by (auto simp: str_find_char split: if_splits)
  then have "pos < length l" using length_takeWhile_less [of "CHR '']''" l] by auto
  moreover have "0 < pos" using assms(1,2) p(1) by (cases l) auto
  ultimately have "?n \<noteq> []" using assms(5) by (simp add: substr_def)
  have "take pos l = takeWhile (\<lambda>x. x \<noteq> CHR '']'') l" unfolding p(1) by (rule takeWhile_eq_take [symmetric])
  moreover have "?n = drop 1 (take pos l)" by (simp add: substr_def drop_take)
  ultimately have "CHR '']'' \<notin> set ?n" by (metis in_set_dropD set_takeWhileD)
  moreover have "LF \<notin> set ?n" using assms(3) by (auto simp: substr_def dest: in_set_takeD in_set_dropD)
  ultimately show ?thesis using \<open>?n \<noteq> []\<close> by (simp add: section_name_ok_def)
qed

lemma decode_line_ok:
  assumes "ini_state_ok st" and "LF \<notin> set raw"
  shows "ini_state_ok (snd (decode_line ini_default n raw st))"
proof -
  define l where "l = ini_trim (erase_comments ini_default raw)"
  have l: "LF \<notin> set l" "trimmed l"
    using assms(2) ini_trim_set erase_each_set by (auto simp: l_def erase_comments_def ini_trim_trimmed dest!: subsetD)
  have sec: "ini_state_ok (snd (decode_section n l st))" if "l \<noteq> []" "hd l = CHR ''[''"
    using assms(1) section_name_substr [OF that l(1)]
    by (auto simp: decode_section_def Let_def ini_state_ok_def emplace_section_ok split: option.split)
  have fld: "ini_state_ok (snd (decode_field ini_default n i l st))" if "l \<noteq> []" "hd l \<noteq> CHR ''[''" for i
    using assms(1) field_parts_ok [OF that(1) l(2) that(2) l(1)]
    by (auto simp: decode_field_def Let_def ini_state_ok_def ini_default_def put_field_ok split: option.split)
  show ?thesis using sec fld assms(1) unfolding decode_line_def l_def by (simp add: Let_def)
qed

lemma decode_lines_ok:
  "ini_state_ok st \<Longrightarrow> \<forall>l \<in> set ls. LF \<notin> set l \<Longrightarrow> ini_state_ok (snd (decode_lines ini_default n ls st))"
proof (induction ls arbitrary: st n)
  case (Cons l ls)
  have "ini_state_ok (snd (decode_line ini_default (Suc n) l st))" using Cons.prems by (intro decode_line_ok) auto
  with Cons show ?case by (auto split: prod.split option.split)
qed simp

lemma ini_decode_ok: "ini_ok (snd (ini_decode ini_default s))"
proof -
  have "ini_state_ok \<lparr>sections = [], current = None, ml_field = []\<rparr>" by (simp add: ini_state_ok_def ini_ok_def map_ok_def)
  then have "ini_state_ok (snd (decode_lines ini_default 0 (pieces LF s) \<lparr>sections = [], current = None, ml_field = []\<rparr>))"
    by (rule decode_lines_ok) (blast dest: pieces_free)
  then show ?thesis by (simp add: ini_decode_def ini_state_ok_def case_prod_beta)
qed

section \<open>Numbers in fields\<close>

lemma dec_digits: "\<forall>c \<in> set (dec n). \<exists>d < 10. c = digit_char d"
  using radix_str_digits [of 10 n] by (simp add: dec_def)

lemma dec_base_digit: "c \<in> set (dec n) \<Longrightarrow> base_digit 10 c \<and> c \<noteq> CHR 0x00 \<and> \<not> isspace c \<and> c \<noteq> LF \<and> c \<noteq> CHR ''-'' \<and> c \<noteq> CHR ''+''"
proof -
  assume "c \<in> set (dec n)"
  then obtain d where d: "d < 10" "c = digit_char d" using dec_digits by blast
  then have "uchar c = 48 + d" using digit_char_uchar [of d] by simp
  then show ?thesis using d digit_val_digit_char [of d] by (auto simp: base_digit_def isspace_def LF_def)
qed

lemma c_str_id: "CHR 0x00 \<notin> set s \<Longrightarrow> c_str s = s"
  by (auto simp: c_str_def takeWhile_eq_all_conv)

lemma c_str_dec [simp]: "c_str (dec n) = dec n" "c_str (CHR ''-'' # dec n) = CHR ''-'' # dec n"
  using dec_base_digit [of "CHR 0x00" n] by (auto intro!: c_str_id)

lemma dec_head: "dropWhile isspace (dec n) = dec n" "hd (dec n) \<noteq> CHR ''-''" "hd (dec n) \<noteq> CHR ''+''"
  using dec_base_digit [of "hd (dec n)" n] by (cases "dec n"; simp)+

lemma takeWhile_dec [simp]: "takeWhile (base_digit 10) (dec n) = dec n"
  using dec_base_digit by (simp add: takeWhile_eq_all_conv)

lemma strto_end_dec: "strto_end (dec n) 10 = []" "strto_end (CHR ''-'' # dec n) 10 = []"
  using dec_head [of n] by (simp_all add: strto_end_def isspace_def)

lemma strto_parse_neg: "strto_parse (CHR ''-'' # dec n) 10 = (True, n)"
proof -
  have "digits_value 10 0 (dec n) = n" by (simp add: dec_def digits_value_radix)
  then show ?thesis by (simp add: strto_parse_def isspace_def Let_def)
qed

lemma str_to_long_sdec:
  assumes "- (2 ^ 63) \<le> i" and "i < 2 ^ 63"
  shows "str_to_long (sdec i) = Some i"
  using assms by (simp add: str_to_long_def sdec_def strto_end_dec strtol_def strto_parse_dec strto_parse_neg)

lemma str_to_ulong_dec: "n < 2 ^ 64 \<Longrightarrow> str_to_ulong (dec n) = Some (of_nat n)"
  by (simp add: str_to_ulong_def strto_end_dec strtoul_dec)

lemma dec_trimmed: "value_ok (dec n)" "value_ok (CHR ''-'' # dec n)"
proof -
  have "\<not> isspace (last (dec n))" "\<not> isspace (hd (dec n))"
    using dec_base_digit [of "last (dec n)" n] dec_base_digit [of "hd (dec n)" n] by (cases "dec n"; simp)+
  then show "value_ok (dec n)" "value_ok (CHR ''-'' # dec n)"
    using dec_base_digit [of LF n] by (auto simp: value_ok_def trimmed_def isspace_def LF_def)
qed

lemma sdec_value_ok: "value_ok (sdec i)"
  by (simp add: sdec_def dec_trimmed)

lemma decode_encode_bool: "decode_bool (encode_bool True) = Some True" "decode_bool (encode_bool False) = Some False"
  by code_simp+

text \<open>An octal number is a decimal one.\<close>

lemma octal_decimal: "strto_end s 8 = [] \<Longrightarrow> strto_end s 10 = []"
proof -
  assume e: "strto_end s 8 = []"
  define t where "t = (let s1 = dropWhile isspace s
    in if s1 \<noteq> [] \<and> (hd s1 = CHR ''-'' \<or> hd s1 = CHR ''+'') then tl s1 else s1)"
  have t: "strto_end s b = (let ds = takeWhile (base_digit b) t in if ds = [] then s else drop (length ds) t)"
    if "b \<noteq> 16" for b
    using that by (simp add: strto_end_def t_def Let_def)
  show ?thesis
  proof (cases "takeWhile (base_digit 8) t = []")
    case True
    with e t [of 8] have s: "s = []" by (simp add: Let_def)
    show ?thesis by (simp add: s strto_end_def)
  next
    case False
    then have "drop (length (takeWhile (base_digit 8) t)) t = []" using e t [of 8] by (simp add: Let_def)
    then have "takeWhile (base_digit 8) t = t" by (metis append_Nil2 append_take_drop_id takeWhile_eq_take)
    moreover have "base_digit 8 c \<Longrightarrow> base_digit 10 c" for c by (auto simp: base_digit_def split: option.splits)
    ultimately have d: "takeWhile (base_digit 10) t = t" by (metis takeWhile_eq_all_conv)
    show ?thesis using t [of 10] False unfolding d by (cases t) (simp_all add: Let_def)
  qed
qed

section \<open>Properties\<close>

text \<open>C22: A configuration that is saved is the configuration that is loaded: for every well-formed map, comment
  characters and escape characters in names and values included, decoding the encoded text gives the
  same map and no error.\<close>

theorem ini_round_trip:
  assumes "ini_ok m"
  shows "\<exists>s. ini_encode ini_default m = Some s \<and> ini_decode ini_default s = (None, m)"
  using ini_decode_lines [OF assms] by (simp add: ini_encode_lines)

theorem ini_round_trip_witness:
  "\<exists>s. ini_encode ini_default [(''gts'', [(''key#1'', ''a;b = c''), (''path'', CHR 0x5C # ''#'')]), (''w;eb'', [])] = Some s \<and>
     ini_decode ini_default s =
       (None, [(''gts'', [(''key#1'', ''a;b = c''), (''path'', CHR 0x5C # ''#'')]), (''w;eb'', [])])"
  by (rule ini_round_trip)
    (simp add: ini_ok_def section_ok_def section_name_ok_def key_ok_def value_ok_def map_ok_def trimmed_def std_less_def
      isspace_def LF_def)

text \<open>C23: Whatever text is read, and even when reading stops at a syntax error, the map left behind is well
  formed (both levels in the order of their keys without duplicates, names and values trimmed and free of the
  characters that would break a line), and saving it and loading it again gives the same map.\<close>

theorem ini_decode_normal:
  "ini_ok (snd (ini_decode ini_default s)) \<and>
   (\<exists>t. ini_encode ini_default (snd (ini_decode ini_default s)) = Some t \<and>
        ini_decode ini_default t = (None, snd (ini_decode ini_default s)))"
  using ini_decode_ok [of s] ini_decode_lines by (simp add: ini_encode_lines)

text \<open>The typed fields survive the text: every boolean and every integer of 16, 32 and 64 bits, signed or
  not, is decoded from what it was encoded to, and the encoded text can stand as a field of the file.\<close>

theorem field_round_trip:
  "decode_bool (encode_bool b) = Some b \<and> decode_short (encode_short w) = Some w \<and>
   decode_ushort (encode_ushort w) = Some w \<and> decode_int (encode_int i) = Some i \<and>
   decode_uint (encode_uint i) = Some i \<and> decode_long (encode_long l) = Some l \<and>
   decode_ulong (encode_ulong l) = Some l \<and> value_ok (encode_bool b) \<and> value_ok (encode_int i) \<and>
   value_ok (encode_long l)"
proof -
  have s: "- (2 ^ 63) \<le> sint w" "sint w < 2 ^ 63" "- (2 ^ 63) \<le> sint i" "sint i < 2 ^ 63" "- (2 ^ 63) \<le> sint l" "sint l < 2 ^ 63"
    using sint_range_size [of w] sint_range_size [of i] sint_range_size [of l] by (simp_all add: word_size)
  have u: "unat w < 2 ^ 64" "unat i < 2 ^ 64" "unat l < 2 ^ 64"
    using unsigned_less [of w, where 'a = nat] unsigned_less [of i, where 'a = nat] unsigned_less [of l, where 'a = nat] by simp_all
  have "ucast (ucast w :: u64) = w" "ucast (ucast i :: u64) = i" by (transfer, simp)+
  moreover have "value_ok (encode_bool b)" by (simp add: encode_bool_def value_ok_def trimmed_def isspace_def LF_def)
  moreover have "decode_bool (encode_bool b) = Some b" by (cases b) (simp_all add: decode_encode_bool)
  ultimately show ?thesis
    using s u by (simp add: decode_short_def encode_short_def decode_ushort_def encode_ushort_def decode_int_def encode_int_def
      decode_uint_def encode_uint_def decode_long_def encode_long_def decode_ulong_def encode_ulong_def
      str_to_long_sdec str_to_ulong_dec sdec_value_ok)
qed

text \<open>The octal reading of a field never decides anything: a text that is an octal number is a decimal one too, so
  a leading zero does not make a number octal, and only hexadecimal adds to the decimal reading.\<close>

theorem octal_never_used:
  "str_to_long v =
     (if strto_end (c_str v) 10 = [] then Some (strtol (c_str v) 10)
      else if strto_end (c_str v) 16 = [] then Some (strtol (c_str v) 16) else None) \<and>
   str_to_long (CHR ''0'' # dec n) = str_to_long (dec n)"
proof -
  have z: "strto_parse (CHR ''0'' # dec n) 10 = (False, n)" "strto_end (CHR ''0'' # dec n) 10 = []"
    "c_str (CHR ''0'' # dec n) = CHR ''0'' # dec n"
    using dec_base_digit [of "CHR 0x00" n] digits_value_radix [of 10 n]
    by (auto simp: strto_parse_def strto_end_def isspace_def Let_def digit_val_def base_digit_def dec_def
        intro!: c_str_id simp flip: dec_def)
  show ?thesis
    using octal_decimal [of "c_str v"] by (auto simp: str_to_long_def Let_def z strto_end_dec strtol_def strto_parse_dec)
qed

end
