(* ===== verification/Settings.thy ===== *)
theory Settings
  imports Ini
begin

text \<open>
  \<open>gts/settings.cpp\<close>, \<open>gts/settings.h\<close>, \<open>gts/detail/settings.h\<close>: the configuration object, and its use at
  start: \<open>applictaion_impl::set_config_file\<close> (\<open>gts/server/application.cpp\<close>) and the initialisation of the web
  plugin (\<open>gts/web/main.cpp\<close>).  The disk is the contents of the files and which paths can be removed and
  created; a call gives the exception it throws, if any, with the disk and the object it leaves.
\<close>

section \<open>State\<close>

record disk =
  contents :: "string \<Rightarrow> string option"
  writable :: "string \<Rightarrow> bool"

record settings =
  m_file_name :: string
  m_ini_map :: ini_file
  m_delete_on_flush :: bool

datatype settings_error = Load_failed ini_error | Remove_failed

type_synonym outcome = "settings_error option \<times> disk \<times> settings"

text \<open>\<open>rttr::variant\<close>, by the types the program stores; \<open>VField\<close> is an \<open>ini::IniField\<close>.\<close>

datatype variant = VInt u32 | VEnum u32 | VBool bool | VString string | VCString string | VField string | VOther

section \<open>Loading and saving\<close>

definition settings_new :: "disk \<Rightarrow> string \<Rightarrow> settings_error + settings" where
  "settings_new d f =
     (case ini_load ini_default (contents d f) of
        (Some e, m) \<Rightarrow> Inl (Load_failed e)
      | (None, m) \<Rightarrow> Inr \<lparr>m_file_name = f, m_ini_map = m, m_delete_on_flush = True\<rparr>)"

definition reload :: "disk \<Rightarrow> settings \<Rightarrow> outcome" where
  "reload d s =
     (case ini_load ini_default (contents d (m_file_name s)) of
        (e, m) \<Rightarrow> (map_option Load_failed e, d, s\<lparr>m_ini_map := m\<rparr>))"

definition disk_remove :: "disk \<Rightarrow> string \<Rightarrow> disk option" where
  "disk_remove d f =
     (if contents d f = None then Some d
      else if writable d f then Some (d\<lparr>contents := (contents d)(f := None)\<rparr>)
      else None)"

definition disk_save :: "disk \<Rightarrow> string \<Rightarrow> string \<Rightarrow> disk" where
  "disk_save d f t = (if writable d f then d\<lparr>contents := (contents d)(f := Some t)\<rparr> else d)"

definition flush :: "disk \<Rightarrow> settings \<Rightarrow> outcome" where
  "flush d s =
     (case disk_remove d (m_file_name s) of
        None \<Rightarrow> (Some Remove_failed, d, s)
      | Some d' \<Rightarrow>
          (None, (case ini_encode ini_default (m_ini_map s) of Some t \<Rightarrow> disk_save d' (m_file_name s) t | None \<Rightarrow> d'), s))"

definition set_file :: "disk \<Rightarrow> settings \<Rightarrow> string \<Rightarrow> outcome" where
  "set_file d s f =
     (case (if m_delete_on_flush s then flush d s else (None, d, s)) of
        (Some e, d', s') \<Rightarrow> (Some e, d', s')
      | (None, d', s') \<Rightarrow> reload d' (s'\<lparr>m_file_name := f\<rparr>))"

text \<open>The destructor: the disk it leaves, and the exception that would end the program.\<close>

definition settings_delete :: "disk \<Rightarrow> settings \<Rightarrow> settings_error option \<times> disk" where
  "settings_delete d s =
     (if m_delete_on_flush s then (case flush d s of (e, d', s') \<Rightarrow> (e, d')) else (None, d))"

definition set_delete_on_flush :: "settings \<Rightarrow> bool \<Rightarrow> settings" where
  "set_delete_on_flush s b = s\<lparr>m_delete_on_flush := b\<rparr>"

section \<open>Reading and writing fields\<close>

text \<open>The three overloads of \<open>read\<close>: a conversion that throws gives the default value.\<close>

definition settings_read :: "(string \<Rightarrow> 'a option) \<Rightarrow> settings \<Rightarrow> string \<Rightarrow> string \<Rightarrow> 'a \<Rightarrow> 'a" where
  "settings_read conv s g k d =
     (case map_find std_less (m_ini_map s) g of
        None \<Rightarrow> d
      | Some sec \<Rightarrow>
          (case map_find std_less sec k of
             None \<Rightarrow> d
           | Some v \<Rightarrow> (case conv v of Some x \<Rightarrow> x | None \<Rightarrow> d)))"

definition settings_read_enum :: "(u32 \<Rightarrow> 'e) \<Rightarrow> settings \<Rightarrow> string \<Rightarrow> string \<Rightarrow> 'e \<Rightarrow> 'e" where
  "settings_read_enum cast s g k d = settings_read (\<lambda>v. map_option cast (decode_int v)) s g k d"

definition settings_read_string :: "settings \<Rightarrow> string \<Rightarrow> string \<Rightarrow> string \<Rightarrow> val" where
  "settings_read_string s g k d = settings_read (\<lambda>v. Some (decode_string v)) s g k d"

text \<open>\<open>write\<close>, with the encoded value.\<close>

definition settings_write :: "settings \<Rightarrow> string \<Rightarrow> string \<Rightarrow> string \<Rightarrow> settings" where
  "settings_write s g k text = s\<lparr>m_ini_map := put_field g k text (m_ini_map s)\<rparr>"

definition settings_find :: "settings \<Rightarrow> string \<Rightarrow> ini_section option" where
  "settings_find s g = map_find std_less (m_ini_map s) g"

text \<open>\<open>operator[]\<close> creates the group.\<close>

definition settings_index :: "settings \<Rightarrow> string \<Rightarrow> settings" where
  "settings_index s g = s\<lparr>m_ini_map := fst (map_emplace std_less (m_ini_map s) g [])\<rparr>"

section \<open>Completing a configuration\<close>

text \<open>
  \<open>ini_file_check\<close>.  The hash table is an \<open>unordered_multimap\<close>: a list whose order is not
  specified.  The fields of the file that the sample names are added to a copy, keys that then occur more than once are
  erased, and what is left is written.
\<close>

definition add_present :: "(string \<times> variant) list \<Rightarrow> ini_section option \<Rightarrow> (string \<times> variant) list" where
  "add_present sample sec =
     (case sec of
        None \<Rightarrow> sample
      | Some fs \<Rightarrow> sample @ map (\<lambda>(k, v). (k, VField v)) (filter (\<lambda>(k, v). k \<in> fst ` set sample) fs))"

fun erase_repeated :: "(string \<times> variant) list \<Rightarrow> (string \<times> variant) list \<Rightarrow> (string \<times> variant) list" where
  "erase_repeated [] tmp = tmp"
| "erase_repeated (kv # sample) tmp =
     erase_repeated sample
       (if 1 < length (filter (\<lambda>x. fst x = fst kv) tmp) then filter (\<lambda>x. fst x \<noteq> fst kv) tmp else tmp)"

definition variant_text :: "variant \<Rightarrow> string option" where
  "variant_text v =
     (case v of
        VInt i \<Rightarrow> Some (encode_int i)
      | VEnum i \<Rightarrow> Some (encode_int i)
      | VBool b \<Rightarrow> Some (encode_bool b)
      | VString t \<Rightarrow> Some (encode_string t)
      | VCString t \<Rightarrow> Some (encode_cstring t)
      | VField t \<Rightarrow> None
      | VOther \<Rightarrow> None)"

fun write_missing :: "string \<Rightarrow> (string \<times> variant) list \<Rightarrow> settings \<Rightarrow> settings" where
  "write_missing g [] s = s"
| "write_missing g ((k, v) # tmp) s =
     write_missing g tmp (case variant_text v of Some t \<Rightarrow> settings_write s g k t | None \<Rightarrow> s)"

definition ini_file_check :: "string \<Rightarrow> (string \<times> variant) list \<Rightarrow> disk \<Rightarrow> settings \<Rightarrow> outcome" where
  "ini_file_check g sample d s =
     (let tmp = erase_repeated sample (add_present sample (settings_find s g));
          s' = write_missing g tmp s
      in if 0 < length tmp then flush d s' else (None, d, s'))"

section \<open>The start of the program\<close>

text \<open>\<open>set_config_file\<close> from the opened configuration on, and the check of the web plugin.\<close>

definition sample_gts :: "(string \<times> variant) list" where
  "sample_gts =
     [(''plugins_config'', VCString ''../plugins.json''), (''sites_config_file'', VCString ''sites.json''), (''tcp_buffer_size'', VInt 65536),
      (''ssl_crt_file'', VCString []), (''ssl_key_file'', VCString []), (''ssl_key'', VCString [])]"

definition sample_gtslog :: "(string \<times> variant) list" where
  "sample_gtslog =
     [(''directory'', VCString []), (''level_mask'', VInt 4), (''async'', VBool True), (''time_category'', VBool False),
      (''max_size_one_file'', VInt 10240), (''max_size_one_day'', VInt 10485760), (''max_size'', VInt 1073741824)]"

definition sample_web :: "(string \<times> variant) list" where
  "sample_web =
     [(''default_resource'', VCString ''/index.html''), (''cgi_env'', VCString []), (''cgi_access'', VCString ''/cgi-bin''),
      (''cgi_path'', VCString ''../cgi/''), (''resource_path'', VCString ''../resource/''), (''idle_time_tv'', VInt 2048),
      (''max_idle_time'', VInt 65536), (''max_session_count'', VInt 4096), (''thread_pool_tc'', VInt 255),
      (''enable_websocket_server'', VBool False), (''websocket_server_name'', VCString []),
      (''websocket_server_port'', VCString [])]"

definition and_then :: "outcome \<Rightarrow> (disk \<Rightarrow> settings \<Rightarrow> outcome) \<Rightarrow> outcome" where
  "and_then r f = (case r of (None, d, s) \<Rightarrow> f d s | (Some e, d, s) \<Rightarrow> (Some e, d, s))"

definition set_config_file :: "string \<Rightarrow> disk \<Rightarrow> settings \<Rightarrow> outcome" where
  "set_config_file f d s =
     and_then (and_then (set_file d (set_delete_on_flush s False) f)
       (ini_file_check ''gts'' sample_gts))
       (ini_file_check ''gtslog'' sample_gtslog)"

definition plugin_init :: "disk \<Rightarrow> settings \<Rightarrow> outcome" where
  "plugin_init = ini_file_check ''web'' sample_web"

text \<open>The variable is a \<open>size_t\<close>: the \<open>int\<close> that is read is widened with its sign before it is compared.\<close>

definition thread_count :: "settings \<Rightarrow> u64" where
  "thread_count s =
     (let n = scast (settings_read decode_int s ''web'' ''thread_pool_tc'' 255) in if n < 1 then 1 else n)"

text \<open>The values that \<open>connection::init\<close> reads, from the initial values of its variables.\<close>

definition session_limits :: "settings \<Rightarrow> int \<times> int \<times> int" where
  "session_limits s =
     (sint (settings_read decode_long s ''web'' ''idle_time_tv'' 3000),
      sint (settings_read decode_long s ''web'' ''max_idle_time'' 60000),
      sint (settings_read decode_long s ''web'' ''max_session_count'' 1024))"

section \<open>Fields\<close>

definition field :: "ini_file \<Rightarrow> string \<Rightarrow> string \<Rightarrow> string option" where
  "field m g k = map_find std_less (find_section m g) k"

lemma settings_read_field:
  "settings_read conv s g k d =
     (case field (m_ini_map s) g k of None \<Rightarrow> d | Some v \<Rightarrow> (case conv v of Some x \<Rightarrow> x | None \<Rightarrow> d))"
  by (simp add: settings_read_def field_def find_section_def split: option.split)

lemma map_find_in: "map_find std_less m k = Some v \<Longrightarrow> (k, v) \<in> set m"
  by (induction m) (auto simp: ordered.same_key_norm split: if_splits)

lemma find_section_ok: "ini_ok m \<Longrightarrow> section_ok (find_section m g)"
proof (cases "map_find std_less m g")
  case None
  then show ?thesis by (simp add: find_section_def section_ok_def map_ok_def)
next
  case (Some sec)
  then show "ini_ok m \<Longrightarrow> ?thesis" using map_find_in [OF Some] by (auto simp: find_section_def ini_ok_def)
qed

lemma field_put:
  assumes "ini_ok m"
  shows "field (put_field g k v m) g' k' = (if g' = g \<and> k' = k then Some v else field m g' k')"
proof -
  have m: "map_ok std_less m" "map_ok std_less (find_section m g)"
    using assms find_section_ok [OF assms, of g] by (simp_all add: ini_ok_def section_ok_def)
  have "find_section (put_field g k v m) g' = (if g' = g then map_put std_less (find_section m g) k v else find_section m g')"
    using ordered.lookup_put [OF m(1), of g _ g'] by (simp add: find_section_def put_field_def)
  then show ?thesis by (simp add: field_def ordered.lookup_put [OF m(2)])
qed

section \<open>The entries that are missing\<close>

lemma erase_repeated_eq:
  "erase_repeated sample tmp =
     filter (\<lambda>x. \<not> (fst x \<in> fst ` set sample \<and> 1 < length (filter (\<lambda>y. fst y = fst x) tmp))) tmp"
proof (induction sample tmp rule: erase_repeated.induct)
  case (2 kv sample tmp)
  let ?n = "\<lambda>k t. length (filter (\<lambda>y. fst y = k) t)"
  show ?case
  proof (cases "1 < ?n (fst kv) tmp")
    case True
    let ?t = "filter (\<lambda>x. fst x \<noteq> fst kv) tmp"
    have n: "?n k ?t = ?n k tmp" if "k \<noteq> fst kv" for k
      using that by (induction tmp) auto
    have "erase_repeated (kv # sample) tmp = filter (\<lambda>x. \<not> (fst x \<in> fst ` set sample \<and> 1 < ?n (fst x) ?t)) ?t"
      using 2 True by simp
    also have "\<dots> = filter (\<lambda>x. fst x \<noteq> fst kv \<and> \<not> (fst x \<in> fst ` set sample \<and> 1 < ?n (fst x) ?t)) tmp"
      by (simp add: conj_commute)
    also have "\<dots> = filter (\<lambda>x. \<not> (fst x \<in> fst ` set (kv # sample) \<and> 1 < ?n (fst x) tmp)) tmp"
    proof (rule filter_cong [OF refl])
      fix x
      show "(fst x \<noteq> fst kv \<and> \<not> (fst x \<in> fst ` set sample \<and> 1 < ?n (fst x) ?t)) =
          (\<not> (fst x \<in> fst ` set (kv # sample) \<and> 1 < ?n (fst x) tmp))"
        using True n by (cases "fst x = fst kv") simp_all
    qed
    finally show ?thesis .
  next
    case False
    with 2 show ?thesis by (auto intro!: filter_cong)
  qed
qed simp

lemma std_less_eq: "std_less = (<)"
  by (intro ext) (simp add: std_less_norm)

lemma count_key: "distinct (map fst l) \<Longrightarrow> length (filter (\<lambda>y. fst y = k) l) = (if k \<in> fst ` set l then 1 else 0)"
  by (induction l) (auto simp: image_iff)

lemma missing_entries:
  assumes "distinct (map fst sample)" and "ini_ok (m_ini_map s)"
  shows "erase_repeated sample (add_present sample (settings_find s g)) =
    filter (\<lambda>x. field (m_ini_map s) g (fst x) = None) sample"
proof (cases "settings_find s g")
  case None
  then have "field (m_ini_map s) g k = None" for k by (simp add: field_def find_section_def settings_find_def)
  then show ?thesis
    using assms(1) by (simp add: None add_present_def erase_repeated_eq count_key)
next
  case (Some fs)
  let ?p = "map (\<lambda>(k, v). (k, VField v)) (filter (\<lambda>(k, v). k \<in> fst ` set sample) fs)"
  have fs: "find_section (m_ini_map s) g = fs" using Some by (simp add: find_section_def settings_find_def)
  have "sorted_wrt (<) (map fst fs)"
    using find_section_ok [OF assms(2), of g] by (simp add: fs section_ok_def map_ok_def std_less_eq)
  then have d: "distinct (map fst fs)" by (simp add: strict_sorted_iff)
  have pk: "map fst ?p = filter (\<lambda>k. k \<in> fst ` set sample) (map fst fs)"
    by (simp add: filter_map comp_def case_prod_unfold)
  have dp: "distinct (map fst ?p)" unfolding pk using d by simp
  have pin: "k \<in> fst ` set ?p \<longleftrightarrow> k \<in> fst ` set sample \<and> k \<in> fst ` set fs" for k
  proof -
    have "fst ` set ?p = set (map fst ?p)" by (rule set_map [symmetric])
    also have "\<dots> = {k \<in> fst ` set fs. k \<in> fst ` set sample}" unfolding pk by simp
    finally show ?thesis by (simp only: mem_Collect_eq conj_commute)
  qed
  have f: "field (m_ini_map s) g k = None \<longleftrightarrow> k \<notin> fst ` set fs" for k
    by (simp add: field_def fs ordered.map_find_norm map_of_eq_None_iff)
  have "erase_repeated sample (sample @ ?p) =
      filter (\<lambda>x. fst x \<notin> fst ` set fs) sample @ filter (\<lambda>x. False) ?p"
    unfolding erase_repeated_eq filter_append length_append count_key [OF assms(1)] count_key [OF dp] pin
  proof (intro arg_cong2 [where f = append] filter_cong refl, goal_cases)
    case (1 x)
    then have "fst x \<in> fst ` set sample" by (rule imageI)
    then show ?case by simp
  next
    case (2 x)
    from imageI [OF 2, of fst] have "fst x \<in> fst ` set sample" "fst x \<in> fst ` set fs" unfolding pin by blast+
    then show ?case by simp
  qed
  then show ?thesis by (simp add: Some add_present_def f)
qed

section \<open>Completing the map\<close>

definition sample_ok :: "(string \<times> variant) list \<Rightarrow> bool" where
  "sample_ok sample =
     (distinct (map fst sample) \<and>
      list_all (\<lambda>(k, v). key_ok k \<and> (case variant_text v of Some t \<Rightarrow> value_ok t | None \<Rightarrow> False)) sample)"

definition default_text :: "(string \<times> variant) list \<Rightarrow> string \<Rightarrow> string option" where
  "default_text sample k = Option.bind (map_of sample k) variant_text"

lemma write_missing_frame [simp]:
  "m_file_name (write_missing g tmp s) = m_file_name s"
  "m_delete_on_flush (write_missing g tmp s) = m_delete_on_flush s"
  by (induction g tmp s rule: write_missing.induct) (simp_all add: settings_write_def split: option.split)

lemma write_missing_fields:
  assumes "sample_ok tmp" and "ini_ok (m_ini_map s)" and "section_name_ok g"
  shows "ini_ok (m_ini_map (write_missing g tmp s)) \<and>
    field (m_ini_map (write_missing g tmp s)) g' k =
      (if g' = g \<and> k \<in> fst ` set tmp then default_text tmp k else field (m_ini_map s) g' k)"
  using assms
proof (induction g tmp s rule: write_missing.induct)
  case (2 g q v tmp s)
  obtain t where t: "variant_text v = Some t" "value_ok t" "key_ok q"
    using 2(2) by (auto simp: sample_ok_def split: option.splits)
  let ?s = "settings_write s g q t"
  have ok: "ini_ok (m_ini_map ?s)" using 2(3,4) t by (simp add: settings_write_def put_field_ok)
  have tail: "sample_ok tmp" "q \<notin> fst ` set tmp" using 2(2) by (auto simp: sample_ok_def)
  have "ini_ok (m_ini_map (write_missing g tmp ?s)) \<and> field (m_ini_map (write_missing g tmp ?s)) g' k =
      (if g' = g \<and> k \<in> fst ` set tmp then default_text tmp k else field (m_ini_map ?s) g' k)"
    using 2(1) [of ] ok tail(1) 2(4) t by simp
  then show ?case
    using t tail by (auto simp: settings_write_def field_put [OF 2(3)] default_text_def)
qed simp

text \<open>The check in one equation: only the missing entries are written, and saved when there are any.\<close>

lemma ini_file_check_missing:
  assumes "sample_ok sample" and "ini_ok (m_ini_map s)"
  shows "ini_file_check g sample d s =
    (let tmp = filter (\<lambda>x. field (m_ini_map s) g (fst x) = None) sample; s' = write_missing g tmp s
     in if tmp \<noteq> [] then flush d s' else (None, d, s'))"
  using assms by (simp add: ini_file_check_def missing_entries sample_ok_def)

lemma flush_writable:
  assumes "writable d (m_file_name s)" and "ini_encode ini_default (m_ini_map s) = Some t"
  shows "flush d s = (None, d\<lparr>contents := (contents d)(m_file_name s := Some t)\<rparr>, s)"
  using assms by (simp add: flush_def disk_remove_def disk_save_def)

lemma sample_ok_filter: "sample_ok sample \<Longrightarrow> sample_ok (filter P sample)"
  by (auto simp: sample_ok_def distinct_map_filter list_all_iff)

lemma default_text_filter:
  "P k \<Longrightarrow> default_text (filter (\<lambda>x. P (fst x)) sample) k = default_text sample k"
  by (induction sample) (auto simp: default_text_def)

lemma default_text_present: "sample_ok sample \<Longrightarrow> kv \<in> set sample \<Longrightarrow> default_text sample (fst kv) \<noteq> None"
proof -
  assume s: "sample_ok sample" "kv \<in> set sample"
  then have "map_of sample (fst kv) = Some (snd kv)" by (intro map_of_is_SomeI) (simp_all add: sample_ok_def)
  then show ?thesis using s by (fastforce simp: default_text_def sample_ok_def list_all_iff split: option.splits)
qed

definition saved_map :: "disk \<Rightarrow> string \<Rightarrow> ini_file \<Rightarrow> bool" where
  "saved_map d f m = (ini_load ini_default (contents d f) = (None, m))"

text \<open>What a check makes of the map, and of the file when the two agreed before.\<close>

lemma check_completes:
  assumes "sample_ok sample" and "ini_ok (m_ini_map s)" and "section_name_ok g" and "writable d (m_file_name s)"
  obtains d' s' where "ini_file_check g sample d s = (None, d', s')" and "ini_ok (m_ini_map s')"
    and "\<And>g' k. field (m_ini_map s') g' k =
      (case field (m_ini_map s) g' k of Some v \<Rightarrow> Some v | None \<Rightarrow> if g' = g then default_text sample k else None)"
    and "m_file_name s' = m_file_name s" and "m_delete_on_flush s' = m_delete_on_flush s" and "writable d' = writable d"
    and "saved_map d (m_file_name s) (m_ini_map s) \<Longrightarrow> saved_map d' (m_file_name s) (m_ini_map s')"
    and "list_all (\<lambda>x. field (m_ini_map s) g (fst x) \<noteq> None) sample \<Longrightarrow> d' = d \<and> s' = s"
proof -
  let ?P = "\<lambda>k. field (m_ini_map s) g k = None"
  let ?tmp = "filter (\<lambda>x. ?P (fst x)) sample"
  define s' where "s' = write_missing g ?tmp s"
  note w = write_missing_fields [OF sample_ok_filter [OF assms(1)] assms(2,3), of "\<lambda>x. ?P (fst x)", folded s'_def]
  have none: "default_text sample k = None" if "k \<notin> fst ` set sample" for k
    using map_of_eq_None_iff [of sample k] that by (simp add: default_text_def)
  have f: "field (m_ini_map s') g' k =
      (case field (m_ini_map s) g' k of Some v \<Rightarrow> Some v | None \<Rightarrow> if g' = g then default_text sample k else None)" for g' k
  proof (cases "g' = g \<and> ?P k \<and> k \<in> fst ` set sample")
    case True
    then show ?thesis using w [of g' k] default_text_filter [of ?P k sample] by (force split: option.split)
  next
    case False
    then have "field (m_ini_map s') g' k = field (m_ini_map s) g' k" using w [of g' k] by (auto split: if_splits)
    with False none show ?thesis by (auto split: option.split)
  qed
  obtain t where t: "ini_encode ini_default (m_ini_map s') = Some t" "ini_decode ini_default t = (None, m_ini_map s')"
    using ini_decode_lines [of "m_ini_map s'"] w ini_encode_lines by blast
  have fr: "m_file_name s' = m_file_name s" "m_delete_on_flush s' = m_delete_on_flush s" by (simp_all add: s'_def)
  show thesis
  proof (cases "?tmp = []")
    case True
    then have "s' = s" by (simp add: s'_def)
    moreover have "ini_file_check g sample d s = (None, d, s)"
      using True by (simp add: ini_file_check_missing [OF assms(1,2)] Let_def)
    ultimately show thesis using that [of d s] f w assms(2) by simp
  next
    case False
    let ?d = "d\<lparr>contents := (contents d)(m_file_name s := Some t)\<rparr>"
    have "ini_file_check g sample d s = (None, ?d, s')"
      using False flush_writable [of d s' t] assms(4) t(1) fr
      by (simp add: ini_file_check_missing [OF assms(1,2)] Let_def s'_def)
    moreover have "saved_map ?d (m_file_name s) (m_ini_map s')" using t by (simp add: saved_map_def ini_load_def)
    moreover have "\<not> list_all (\<lambda>x. field (m_ini_map s) g (fst x) \<noteq> None) sample"
      using False by (auto simp: filter_empty_conv list_all_iff)
    ultimately show thesis using that [of ?d s'] f w fr by simp
  qed
qed

section \<open>The start\<close>

lemma value_ok_literal: "value_ok []" "value_ok (c # cs) = (\<not> isspace c \<and> \<not> isspace (last (c # cs)) \<and> LF \<notin> set (c # cs))"
  by (simp_all add: value_ok_def trimmed_def)

lemma samples_ok: "sample_ok sample_gts" "sample_ok sample_gtslog" "sample_ok sample_web"
  by (simp_all add: sample_ok_def sample_gts_def sample_gtslog_def sample_web_def variant_text_def encode_int_def
      sdec_value_ok encode_bool_def encode_cstring_def c_str_def key_ok_def value_ok_literal trimmed_def isspace_def LF_def)

lemma groups_ok: "section_name_ok ''gts''" "section_name_ok ''gtslog''" "section_name_ok ''web''"
  by (simp_all add: section_name_ok_def LF_def)

definition start :: "string \<Rightarrow> disk \<Rightarrow> settings \<Rightarrow> outcome" where
  "start f d s = and_then (set_config_file f d s) plugin_init"

definition start_default :: "string \<Rightarrow> string \<Rightarrow> string option" where
  "start_default g k =
     (if g = ''gts'' then default_text sample_gts k
      else if g = ''gtslog'' then default_text sample_gtslog k
      else if g = ''web'' then default_text sample_web k
      else None)"

lemma ini_load_ok: "ini_load ini_default t = (e, m) \<Longrightarrow> ini_ok m"
  using ini_decode_ok [of "the t"] by (auto simp: ini_load_def ini_ok_def map_ok_def split: option.splits)

lemma start_loads:
  assumes "ini_load ini_default (contents d f) = (None, m)"
  shows "set_config_file f d s =
    and_then (ini_file_check ''gts'' sample_gts d \<lparr>m_file_name = f, m_ini_map = m, m_delete_on_flush = False\<rparr>)
      (ini_file_check ''gtslog'' sample_gtslog)"
  using assms by (cases s) (simp add: set_config_file_def set_file_def set_delete_on_flush_def reload_def and_then_def)

text \<open>The state between the checks of a start.\<close>

definition in_step :: "disk \<Rightarrow> string \<Rightarrow> settings \<Rightarrow> bool" where
  "in_step d f s =
     (ini_ok (m_ini_map s) \<and> saved_map d f (m_ini_map s) \<and> m_file_name s = f \<and> \<not> m_delete_on_flush s \<and> writable d f)"

lemma check_step:
  assumes "sample_ok sample" and "section_name_ok g" and "in_step d f s"
  obtains d' s' where "ini_file_check g sample d s = (None, d', s')" and "in_step d' f s'"
    and "\<And>g' k. field (m_ini_map s') g' k =
      (case field (m_ini_map s) g' k of Some v \<Rightarrow> Some v | None \<Rightarrow> if g' = g then default_text sample k else None)"
proof -
  have s: "ini_ok (m_ini_map s)" "writable d (m_file_name s)" "saved_map d f (m_ini_map s)" "m_file_name s = f"
    "\<not> m_delete_on_flush s" "writable d f"
    using assms(3) by (auto simp: in_step_def)
  obtain d' s' where c: "ini_file_check g sample d s = (None, d', s')" "ini_ok (m_ini_map s')"
      "\<And>g' k. field (m_ini_map s') g' k =
        (case field (m_ini_map s) g' k of Some v \<Rightarrow> Some v | None \<Rightarrow> if g' = g then default_text sample k else None)"
      "m_file_name s' = m_file_name s" "m_delete_on_flush s' = m_delete_on_flush s" "writable d' = writable d"
      "saved_map d (m_file_name s) (m_ini_map s) \<Longrightarrow> saved_map d' (m_file_name s) (m_ini_map s')"
    by (rule check_completes [OF assms(1) s(1) assms(2) s(2)]) (rule that)
  have "in_step d' f s'" using c s by (simp add: in_step_def)
  then show thesis by (rule that [OF c(1) _ c(3)])
qed

text \<open>A start on a file that has everything reads it and writes nothing.\<close>

lemma start_complete_file:
  assumes "ini_load ini_default (contents d f) = (None, m)"
    and "\<And>g k. start_default g k \<noteq> None \<Longrightarrow> field m g k \<noteq> None"
  shows "start f d s = (None, d, \<lparr>m_file_name = f, m_ini_map = m, m_delete_on_flush = False\<rparr>)"
proof -
  let ?s = "\<lparr>m_file_name = f, m_ini_map = m, m_delete_on_flush = False\<rparr>"
  have ok: "ini_ok (m_ini_map ?s)" using ini_load_ok [OF assms(1)] by simp
  have "ini_file_check g sample d ?s = (None, d, ?s)"
    if "sample_ok sample" and "\<And>k. start_default g k = default_text sample k" for g sample
  proof -
    have "filter (\<lambda>x. field (m_ini_map ?s) g (fst x) = None) sample = []"
      using default_text_present [OF that(1)] assms(2) [of g] that(2) by (auto simp: filter_empty_conv)
    then show ?thesis by (simp add: ini_file_check_missing [OF that(1) ok] Let_def)
  qed
  from this [of sample_gts "''gts''"] this [of sample_gtslog "''gtslog''"] this [of sample_web "''web''"] show ?thesis
    by (simp add: start_def start_loads [OF assms(1)] plugin_init_def and_then_def samples_ok start_default_def)
qed

section \<open>Properties\<close>

text \<open>Completing a group keeps every entry the configuration has, adds exactly the sample entries that are missing,
  with the text of their values, and leaves the other groups alone; if the file agreed with the map
  before, it agrees afterwards, so a new object loads the completed map; and checking again writes nothing.\<close>

theorem check_keeps_and_completes:
  assumes "sample_ok sample" and "ini_ok (m_ini_map s)" and "section_name_ok g" and "writable d (m_file_name s)"
    and "saved_map d (m_file_name s) (m_ini_map s)"
  shows "\<exists>d' s'. ini_file_check g sample d s = (None, d', s') \<and>
    (\<forall>g' k. field (m_ini_map s') g' k =
      (case field (m_ini_map s) g' k of Some v \<Rightarrow> Some v | None \<Rightarrow> if g' = g then default_text sample k else None)) \<and>
    saved_map d' (m_file_name s) (m_ini_map s') \<and> ini_file_check g sample d' s' = (None, d', s')"
proof -
  obtain d1 s1 where 1: "ini_file_check g sample d s = (None, d1, s1)" "ini_ok (m_ini_map s1)"
      "\<And>g' k. field (m_ini_map s1) g' k =
        (case field (m_ini_map s) g' k of Some v \<Rightarrow> Some v | None \<Rightarrow> if g' = g then default_text sample k else None)"
      "m_file_name s1 = m_file_name s" "writable d1 = writable d" "saved_map d1 (m_file_name s) (m_ini_map s1)"
    using check_completes [OF assms(1-4)] assms(5) by metis
  have "filter (\<lambda>x. field (m_ini_map s1) g (fst x) = None) sample = []"
    using default_text_present [OF assms(1)] by (auto simp: filter_empty_conv 1(3) split: option.split)
  then have "ini_file_check g sample d1 s1 = (None, d1, s1)"
    by (simp add: ini_file_check_missing [OF assms(1) 1(2)] Let_def)
  with 1 show ?thesis by blast
qed

theorem check_keeps_and_completes_witness:
  "\<exists>d' s'.
     ini_file_check ''gts'' [(''port'', VInt 80), (''host'', VCString ''h'')]
       \<lparr>contents = (\<lambda>p. ini_encode ini_default [(''gts'', [(''port'', ''81'')])]), writable = (\<lambda>p. True)\<rparr>
       \<lparr>m_file_name = ''c'', m_ini_map = [(''gts'', [(''port'', ''81'')])], m_delete_on_flush = False\<rparr> = (None, d', s') \<and>
     field (m_ini_map s') ''gts'' ''port'' = Some ''81'' \<and> field (m_ini_map s') ''gts'' ''host'' = Some ''h''"
proof -
  let ?m = "[(''gts'', [(''port'', ''81'')])]"
  let ?d = "\<lparr>contents = (\<lambda>p. ini_encode ini_default ?m), writable = (\<lambda>p. True)\<rparr>"
  let ?s = "\<lparr>m_file_name = ''c'', m_ini_map = ?m, m_delete_on_flush = False\<rparr>"
  let ?l = "[(''port'', VInt 80), (''host'', VCString ''h'')]"
  have m: "ini_ok ?m"
    by (simp add: ini_ok_def section_ok_def section_name_ok_def key_ok_def value_ok_def map_ok_def trimmed_def std_less_def
      isspace_def LF_def)
  have l: "sample_ok ?l"
    by (simp add: sample_ok_def variant_text_def encode_int_def sdec_value_ok encode_cstring_def c_str_def key_ok_def
      value_ok_literal trimmed_def isspace_def LF_def)
  have d: "saved_map ?d ''c'' ?m" using ini_decode_lines [OF m] ini_encode_lines [of ?m] by (simp add: saved_map_def ini_load_def)
  have f: "field ?m ''gts'' ''port'' = Some ''81''" "field ?m ''gts'' ''host'' = None" "default_text ?l ''host'' = Some ''h''"
    by (simp_all add: field_def find_section_def ordered.same_key_norm default_text_def variant_text_def encode_cstring_def c_str_def)
  have "\<exists>d' s'. ini_file_check ''gts'' ?l ?d ?s = (None, d', s') \<and>
      (\<forall>g' k. field (m_ini_map s') g' k =
        (case field (m_ini_map ?s) g' k of Some v \<Rightarrow> Some v | None \<Rightarrow> if g' = ''gts'' then default_text ?l k else None)) \<and>
      saved_map d' (m_file_name ?s) (m_ini_map s') \<and> ini_file_check ''gts'' ?l d' s' = (None, d', s')"
    by (rule check_keeps_and_completes [OF l _ groups_ok(1)]) (simp_all only: settings.select_convs disk.select_convs m d)
  then obtain d' s' where r: "ini_file_check ''gts'' ?l ?d ?s = (None, d', s')"
      "\<forall>g' k. field (m_ini_map s') g' k =
        (case field ?m g' k of Some v \<Rightarrow> Some v | None \<Rightarrow> if g' = ''gts'' then default_text ?l k else None)"
    unfolding settings.select_convs by blast
  have "field (m_ini_map s') ''gts'' ''port'' = Some ''81''" "field (m_ini_map s') ''gts'' ''host'' = Some ''h''"
    using r(2) [rule_format, of "''gts''" "''port''"] r(2) [rule_format, of "''gts''" "''host''"] by (simp_all only: f option.case if_True refl)
  with r(1) show ?thesis by blast
qed

text \<open>An object that is pointed at a file with a syntax error throws, but has already taken the name of the
  file and the entries before the error; when it is destroyed in its default mode it replaces the file by these
  entries, and everything from the error on is lost.\<close>

theorem failed_load_overwrites:
  assumes "m_delete_on_flush s" and "m_file_name s = []" and "contents d [] = None" and "\<not> writable d []"
    and "contents d f = Some t" and "ini_decode ini_default t = (Some e, m)" and "writable d f"
  shows "\<exists>s' u. set_file d s f = (Some (Load_failed e), d, s') \<and> ini_encode ini_default m = Some u \<and>
    settings_delete d s' = (None, d\<lparr>contents := (contents d)(f := Some u)\<rparr>)"
proof -
  let ?s = "s\<lparr>m_file_name := f, m_ini_map := m\<rparr>"
  obtain u where u: "ini_encode ini_default m = Some u" using ini_encode_lines by blast
  have "flush d s = (None, d, s)"
    using assms(2-4) ini_encode_lines [of "m_ini_map s"] by (simp add: flush_def disk_remove_def disk_save_def)
  then have "set_file d s f = (Some (Load_failed e), d, ?s)"
    using assms by (simp add: set_file_def reload_def ini_load_def)
  moreover have "settings_delete d ?s = (None, d\<lparr>contents := (contents d)(f := Some u)\<rparr>)"
    using assms(1,7) flush_writable [of d ?s u] u by (simp add: settings_delete_def)
  ultimately show ?thesis using u by blast
qed

theorem failed_load_overwrites_witness:
  "\<exists>s' u. set_file \<lparr>contents = [''c'' \<mapsto> ''[a]'' @ LF # ''x=1'' @ LF # ''bad''], writable = (\<lambda>p. p = ''c'')\<rparr>
       \<lparr>m_file_name = [], m_ini_map = [], m_delete_on_flush = True\<rparr> ''c'' =
         (Some (Load_failed (No_separator 3)), \<lparr>contents = [''c'' \<mapsto> ''[a]'' @ LF # ''x=1'' @ LF # ''bad''], writable = (\<lambda>p. p = ''c'')\<rparr>, s') \<and>
     ini_encode ini_default [(''a'', [(''x'', ''1'')])] = Some u \<and>
     settings_delete \<lparr>contents = [''c'' \<mapsto> ''[a]'' @ LF # ''x=1'' @ LF # ''bad''], writable = (\<lambda>p. p = ''c'')\<rparr> s' =
       (None, \<lparr>contents = [''c'' \<mapsto> ''[a]'' @ LF # ''x=1'' @ LF # ''bad'', ''c'' \<mapsto> u], writable = (\<lambda>p. p = ''c'')\<rparr>)"
proof -
  have "ini_decode ini_default (''[a]'' @ LF # ''x=1'' @ LF # ''bad'') = (Some (No_separator 3), [(''a'', [(''x'', ''1'')])])"
    by code_simp
  then show ?thesis
    using failed_load_overwrites [of "\<lparr>m_file_name = [], m_ini_map = [], m_delete_on_flush = True\<rparr>"
      "\<lparr>contents = [''c'' \<mapsto> ''[a]'' @ LF # ''x=1'' @ LF # ''bad''], writable = (\<lambda>p. p = ''c'')\<rparr>" "''c''"
      "''[a]'' @ LF # ''x=1'' @ LF # ''bad''"] by simp
qed

text \<open>C21: Starting on any file that can be parsed and written (a missing one included): every setting the user
  gave keeps its value, every other setting of the three groups gets its default, and the file is completed so that
  the next start reads the same values and writes nothing.\<close>

theorem start_completes:
  assumes "ini_load ini_default (contents d f) = (None, m)" and "writable d f"
  shows "\<exists>d' s'. start f d s = (None, d', s') \<and>
    (\<forall>g k. field (m_ini_map s') g k = (case field m g k of Some v \<Rightarrow> Some v | None \<Rightarrow> start_default g k)) \<and>
    (\<forall>s2. start f d' s2 = (None, d', s'))"
proof -
  let ?s = "\<lparr>m_file_name = f, m_ini_map = m, m_delete_on_flush = False\<rparr>"
  have 0: "in_step d f ?s" using ini_load_ok [OF assms(1)] assms by (simp add: in_step_def saved_map_def)
  obtain d1 s1 where 1: "ini_file_check ''gts'' sample_gts d ?s = (None, d1, s1)" "in_step d1 f s1"
      "\<And>g k. field (m_ini_map s1) g k =
        (case field (m_ini_map ?s) g k of Some v \<Rightarrow> Some v | None \<Rightarrow> if g = ''gts'' then default_text sample_gts k else None)"
    by (rule check_step [OF samples_ok(1) groups_ok(1) 0]) (rule that)
  obtain d2 s2 where 2: "ini_file_check ''gtslog'' sample_gtslog d1 s1 = (None, d2, s2)" "in_step d2 f s2"
      "\<And>g k. field (m_ini_map s2) g k =
        (case field (m_ini_map s1) g k of Some v \<Rightarrow> Some v | None \<Rightarrow> if g = ''gtslog'' then default_text sample_gtslog k else None)"
    by (rule check_step [OF samples_ok(2) groups_ok(2) 1(2)]) (rule that)
  obtain d3 s3 where 3: "ini_file_check ''web'' sample_web d2 s2 = (None, d3, s3)" "in_step d3 f s3"
      "\<And>g k. field (m_ini_map s3) g k =
        (case field (m_ini_map s2) g k of Some v \<Rightarrow> Some v | None \<Rightarrow> if g = ''web'' then default_text sample_web k else None)"
    by (rule check_step [OF samples_ok(3) groups_ok(3) 2(2)]) (rule that)
  have s3: "s3 = \<lparr>m_file_name = f, m_ini_map = m_ini_map s3, m_delete_on_flush = False\<rparr>" using 3(2) by (cases s3) (simp add: in_step_def)
  have fields: "field (m_ini_map s3) g k = (case field m g k of Some v \<Rightarrow> Some v | None \<Rightarrow> start_default g k)" for g k
    unfolding 3(3) 2(3) 1(3) by (auto simp: start_default_def split: option.split)
  have "start f d s = (None, d3, s3)"
    by (simp add: start_def start_loads [OF assms(1)] and_then_def 1(1) 2(1) plugin_init_def 3(1))
  moreover have "start f d3 s' = (None, d3, s3)" for s'
    using start_complete_file [of d3 f "m_ini_map s3" s'] 3(2) s3 fields by (auto simp: in_step_def saved_map_def split: option.splits)
  ultimately show ?thesis using fields by blast
qed

theorem start_completes_witness:
  "\<exists>d' s'. start ''c'' \<lparr>contents = (\<lambda>p. None), writable = (\<lambda>p. True)\<rparr>
       \<lparr>m_file_name = [], m_ini_map = [], m_delete_on_flush = True\<rparr> = (None, d', s') \<and>
     session_limits s' = (2048, 65536, 4096) \<and> thread_count s' = 255"
proof -
  let ?d = "\<lparr>contents = (\<lambda>p. None), writable = (\<lambda>p. True)\<rparr>"
  let ?s = "\<lparr>m_file_name = [], m_ini_map = [], m_delete_on_flush = True\<rparr>"
  obtain d' s' where s: "start ''c'' ?d ?s = (None, d', s')"
      "\<forall>g k. field (m_ini_map s') g k = (case field [] g k of Some v \<Rightarrow> Some v | None \<Rightarrow> start_default g k)"
    using start_completes [of ?d "''c''" "[]" ?s] by (auto simp: ini_load_def)
  have f: "field (m_ini_map s') ''web'' k = default_text sample_web k" for k
    using s(2) by (simp add: field_def find_section_def start_default_def)
  have d: "default_text sample_web ''idle_time_tv'' = Some (encode_int 2048)"
    "default_text sample_web ''max_idle_time'' = Some (encode_int 65536)"
    "default_text sample_web ''max_session_count'' = Some (encode_int 4096)"
    "default_text sample_web ''thread_pool_tc'' = Some (encode_int 255)"
    by (simp_all add: default_text_def sample_web_def variant_text_def)
  have n: "decode_long (encode_int 2048) = Some 2048" "decode_long (encode_int 65536) = Some 65536"
    "decode_long (encode_int 4096) = Some 4096" "decode_int (encode_int 255) = Some 255"
    by (simp_all add: decode_long_def decode_int_def encode_int_def str_to_long_sdec)
  have "session_limits s' = (2048, 65536, 4096)" "thread_count s' = 255"
    by (simp_all add: session_limits_def thread_count_def settings_read_field f d n)
  with s(1) show ?thesis by blast
qed

end
