(* ===== verification/MimeTables.thy ===== *)
theory MimeTables
  imports Prelude
begin

text \<open>
  The tables of \<open>gts/mime_type.cpp\<close>: the media types by file suffix, in pieces, and the two lists of
  signatures.  The macros of the type prefixes are expanded.  A signature is its first byte, the number of bytes to
  compare, the bytes of the literal after it with the terminating NUL, and the media type.
\<close>

type_synonym signature = "nat \<times> string \<times> string"

definition suffixes_1 :: "(string \<times> string) list" where
  "suffixes_1 = [
     (''.1'', ''text/troff''),
     (''.3ds'', ''image/x-3ds''),
     (''.3fr'', ''image/x-raw-hasselblad''),
     (''.3g2'', ''video/3gpp2''),
     (''.3gp'', ''video/3gpp''),
     (''.3mf'', ''application/vnd.ms-package.3dmanufacturing-3dmodel+xml''),
     (''.4th'', ''text/x-forth''),
     (''.669'', ''audio/x-mod''),
     (''.6pl'', ''text/x-perl''),
     (''.7z'', ''application/x-7z-compressed''),
     (''.8svx'', ''audio/8svx''),
     (''.ML'', ''text/x-ocaml''),
     (''.MYD'', ''application/x-mysql-misam-data''),
     (''.MYI'', ''application/x-mysql-misam-compressed-index''),
     (''.R'', ''text/x-rsrc''),
     (''.TIF'', ''image/tiff''),
     (''.XXX'', ''application/octet-stream''),
     (''.Z'', ''application/x-compress''),
     (''.aa'', ''audio/x-pn-audibleaudio''),
     (''.ac3'', ''audio/ac3''),
     (''.acsm'', ''application/vnd.adobe.adept+xml''),
     (''.ada'', ''text/x-ada''),
     (''.adf'', ''multipart/appledouble''),
     (''.afa'', ''application/x-astrotite-afa''),
     (''.afm'', ''application/x-font-adobe-metric''),
     (''.ai'', ''application/illustrator''),
     (''.aif'', ''audio/x-aiff''),
     (''.aifc'', ''audio/x-aiff''),
     (''.aiff'', ''audio/x-aiff''),
     (''.air'', ''application/vnd.adobe.air-application-installer-package+zip;version='' @ [CHR 0x22] @ ''1.0'' @ [CHR 0x22]),
     (''.aj'', ''text/x-aspectj''),
     (''.amr'', ''audio/amr''),
     (''.anim'', ''text/x-yaml''),
     (''.anpa'', ''text/vnd.iptc.anpa''),
     (''.ans'', ''text/plain''),
     (''.apl'', ''text/apl''),
     (''.apng'', ''image/vnd.mozilla.apng''),
     (''.applescript'', ''text/x-applescript''),
     (''.apr'', ''application/vnd.lotus-approach;version='' @ [CHR 0x22] @ ''97'' @ [CHR 0x22]),
     (''.apt'', ''application/vnd.lotus-approach''),
     (''.arc'', ''application/x-internet-archive;version='' @ [CHR 0x22] @ ''1.0'' @ [CHR 0x22]),
     (''.arw'', ''image/x-raw-sony''),
     (''.as'', ''text/x-actionscript''),
     (''.asc'', ''text/plain''),
     (''.asciidoc'', ''text/x-asciidoc''),
     (''.asf'', ''application/vnd.ms-asf''),
     (''.asice'', ''application/vnd.etsi.asic-e+zip''),
     (''.asics'', ''application/vnd.etsi.asic-s+zip''),
     (''.asn'', ''text/x-ttcn-asn''),
     (''.asp'', ''application/x-aspx''),
     (''.aspx'', ''text/aspdotnet''),
     (''.asy'', ''text/x-spreadsheet''),
     (''.atom'', ''application/atom+xml''),
     (''.au'', ''audio/basic''),
     (''.avi'', ''video/msvideo''),
     (''.awb'', ''audio/amr-wb''),
     (''.awk'', ''text/x-awk''),
     (''.axc'', ''text/plain''),
     (''.axx'', ''application/x-axcrypt''),
     (''.b'', ''text/x-brainfuck''),
     (''.b6z'', ''application/x-b6z-compressed''),
     (''.bas'', ''text/x-basic''),
     (''.bay'', ''image/x-raw-casio''),
     (''.bik'', ''video/vnd.radgamettools.bink''),
     (''.bik2'', ''video/vnd.radgamettools.bink;version='' @ [CHR 0x22] @ ''2'' @ [CHR 0x22]),
     (''.bin'', ''application/x-macbinary''),
     (''.bmp'', ''image/bmp''),
     (''.bpg'', ''image/x-bpg''),
     (''.bpm'', ''application/bizagi-modeler''),
     (''.bsp'', ''model/vnd.valve.source.compiled-map''),
     (''.btf'', ''image/tiff''),
     (''.bw'', ''image/x-sgi-bw''),
     (''.bz2'', ''application/x-bzip2''),
     (''.c'', ''text/x-csrc''),
     (''.cab'', ''application/vnd.ms-cab-compressed''),
     (''.cabal'', ''text/x-haskell''),
     (''.cap'', ''application/vnd.tcpdump.pcap''),
     (''.catmaterial'', ''application/octet-stream;version='' @ [CHR 0x22] @ ''5'' @ [CHR 0x22]),
     (''.catpart'', ''application/octet-stream;version='' @ [CHR 0x22] @ ''5'' @ [CHR 0x22]),
     (''.catproduct'', ''application/octet-stream;version='' @ [CHR 0x22] @ ''5'' @ [CHR 0x22]),
     (''.cbl'', ''text/x-cobol''),
     (''.cbor'', ''application/cbor''),
     (''.cbz'', ''application/x-cbr''),
     (''.cca'', ''application/octet-stream''),
     (''.cda'', ''application/x-cdf''),
     (''.cdf'', ''application/x-netcdf''),
     (''.cdx'', ''chemical/x-cdx''),
     (''.cfg'', ''text/x-config''),
     (''.cfm'', ''text/x-coldfusion''),
     (''.cfs'', ''application/x-cfs-compressed''),
     (''.cgi'', ''text/x-cgi''),
     (''.cgm'', ''image/cgm''),
     (''.chm'', ''application/vnd.ms-htmlhelp''),
     (''.chrt'', ''application/x-kchart''),
     (''.chs'', ''text/x-haskell''),
     (''.cif'', ''chemical/x-cif''),
     (''.ck'', ''text/x-java''),
     (''.cl'', ''text/x-common-lisp''),
     (''.class'', ''application/x-java''),
     (''.clj'', ''text/x-clojure''),
     (''.cls'', ''text/x-vbasic''),
     (''.cmake'', ''text/x-cmake''),
     (''.cml'', ''chemical/x-cml''),
     (''.cob'', ''text/x-cobol''),
     (''.cod'', ''image/cis-cod''),
     (''.coffee'', ''application/vnd.coffeescript''),
     (''.cp'', ''text/x-pascal''),
     (''.cpio'', ''application/x-cpio''),
     (''.cpp'', ''text/x-c++src''),
     (''.cr'', ''text/x-crystal''),
     (''.crw'', ''image/x-canon-crw''),
     (''.crx'', ''application/x-chrome-package''),
     (''.cs'', ''text/x-csharp''),
     (''.cshtml'', ''text/html''),
     (''.cson'', ''text/x-coffeescript''),
     (''.csr'', ''application/pkcs10''),
     (''.css'', ''text/css''),
     (''.csv'', ''text/csv''),
     (''.csvs'', ''text/csv-schema''),
     (''.cu'', ''text/x-c++src''),
     (''.cur'', ''image/x-win-bitmap''),
     (''.cwl'', ''text/x-yaml''),
     (''.cy'', ''text/javascript''),
     (''.d'', ''text/x-d''),
     (''.dae'', ''text/xml'')]"

definition suffixes_2 :: "(string \<times> string) list" where
  "suffixes_2 = [
     (''.dart'', ''application/dart''),
     (''.dat'', ''application/dbase''),
     (''.db'', ''application/x-sqlite3''),
     (''.dbf'', ''application/x-dbf''),
     (''.dcm'', ''application/dicom''),
     (''.dcr'', ''application/x-director''),
     (''.dcx'', ''image/x-dcx''),
     (''.deb'', ''application/vnd.debian.binary-package''),
     (''.der'', ''application/x-x509-ca-cert''),
     (''.dex'', ''application/x-dex''),
     (''.dgc'', ''application/x-dgc-compressed''),
     (''.diff'', ''text/x-diff''),
     (''.dir'', ''application/x-director''),
     (''.dita'', ''application/dita+xml;format=topic''),
     (''.ditamap'', ''application/dita+xml;format=map''),
     (''.ditaval'', ''application/dita+xml;format=val''),
     (''.diz'', ''text/plain''),
     (''.djv'', ''image/vnd.djvu''),
     (''.djvu'', ''image/vnd.djvu''),
     (''.dll'', ''application/octet-stream''),
     (''.dls'', ''audio/dls''),
     (''.dmg'', ''application/x-apple-diskimage''),
     (''.dng'', ''image/x-raw-adobe''),
     (''.doc'', ''application/msword''),
     (''.dockerfile'', ''text/x-dockerfile''),
     (''.docm'', ''application/vnd.ms-word.document.macroenabled.12''),
     (''.docx'', ''application/vnd.openxmlformats-officedocument.wordprocessingml.document''),
     (''.dot'', ''application/msword;version='' @ [CHR 0x22] @ ''97-2003'' @ [CHR 0x22]),
     (''.dotm'', ''application/vnd.ms-word.template.macroenabled.12''),
     (''.dotx'', ''application/vnd.openxmlformats-officedocument.wordprocessingml.template''),
     (''.dpx'', ''image/x-dpx''),
     (''.drc'', ''video/x-dirac''),
     (''.druby'', ''text/x-ruby''),
     (''.dtd'', ''application/xml-dtd''),
     (''.dts'', ''audio/vnd.dts''),
     (''.dv'', ''video/dv''),
     (''.dvi'', ''application/x-dvi''),
     (''.dwf'', ''application/dwf;version='' @ [CHR 0x22] @ ''6.0'' @ [CHR 0x22]),
     (''.dwfx'', ''model/vnd.dwfx+xps''),
     (''.dwg'', ''image/vnd.dwg''),
     (''.dwl'', ''application/octet-stream''),
     (''.dx'', ''application/dec-dx.''),
     (''.dxb'', ''image/vnd.dxb''),
     (''.dxf'', ''image/vnd.dxf''),
     (''.dxr'', ''audio/prs.sid;version='' @ [CHR 0x22] @ ''1'' @ [CHR 0x22]),
     (''.dylan'', ''text/x-dylan''),
     (''.e'', ''text/x-eiffel''),
     (''.eb'', ''text/x-python''),
     (''.ebnf'', ''text/x-ebnf''),
     (''.ebuild'', ''text/x-sh''),
     (''.ecl'', ''text/x-ecl''),
     (''.eclass'', ''text/x-sh''),
     (''.ecr'', ''text/html''),
     (''.edc'', ''application/json''),
     (''.edn'', ''text/x-clojure''),
     (''.eex'', ''text/html''),
     (''.el'', ''text/x-emacs-lisp''),
     (''.elc'', ''application/x-elc''),
     (''.elm'', ''text/x-elm''),
     (''.em'', ''text/x-coffeescript''),
     (''.emf'', ''image/emf''),
     (''.eml'', ''message/rfc822''),
     (''.enr'', ''application/x-endnote-refer''),
     (''.ens'', ''application/x-endnote-style''),
     (''.enz'', ''application/x-endnote-connect''),
     (''.eot'', ''application/vnd.ms-fontobject''),
     (''.epj'', ''application/json''),
     (''.eps'', ''application/postscript''),
     (''.epub'', ''application/epub+zip''),
     (''.eq'', ''text/x-csharp''),
     (''.erb'', ''application/x-erb''),
     (''.erf'', ''image/x-raw-epson''),
     (''.erl'', ''text/x-erlang''),
     (''.es'', ''application/ecmascript''),
     (''.exe'', ''application/x-dosexec''),
     (''.exp'', ''text/x-expect''),
     (''.exr'', ''image/x-exr;version='' @ [CHR 0x22] @ ''2'' @ [CHR 0x22]),
     (''.f'', ''text/x-fortran''),
     (''.f4a'', ''video/mp4''),
     (''.f4m'', ''application/f4m''),
     (''.f90'', ''text/x-fortran''),
     (''.factor'', ''text/x-factor''),
     (''.fb2'', ''application/x-fictionbook+xml''),
     (''.fdf'', ''application/vnd.fdf''),
     (''.fff'', ''image/x-raw-imacon''),
     (''.fh'', ''image/x-freehand''),
     (''.fig'', ''application/x-matlab-data''),
     (''.fits'', ''image/fits''),
     (''.flac'', ''audio/flac''),
     (''.flif'', ''image/flif''),
     (''.flv'', ''video/x-flv''),
     (''.fm'', ''application/vnd.framemaker''),
     (''.fmz'', ''application/octet-stream''),
     (''.folio'', ''application/vnd.adobe.folio+zip''),
     (''.fp7'', ''application/x-filemaker''),
     (''.fpx'', ''image/vnd.fpx''),
     (''.fref'', ''text/plain''),
     (''.fs'', ''text/x-fsharp''),
     (''.fth'', ''text/x-forth''),
     (''.g3'', ''image/g3fax''),
     (''.gbr'', ''application/vnd.gerber''),
     (''.gca'', ''application/x-gca-compressed''),
     (''.geo'', ''application/vnd.geogebra.file;version='' @ [CHR 0x22] @ ''1.0'' @ [CHR 0x22]),
     (''.gf'', ''text/x-haskell''),
     (''.ggb'', ''application/vnd.geogebra.file''),
     (''.gif'', ''image/gif''),
     (''.gitconfig'', ''text/x-properties''),
     (''.gitignore'', ''text/x-sh''),
     (''.glf'', ''text/x-tcl''),
     (''.gml'', ''application/gml+xml''),
     (''.gn'', ''text/x-python''),
     (''.gnumeric'', ''application/x-gnumeric''),
     (''.go'', ''text/x-go''),
     (''.grb'', ''application/x-grib''),
     (''.groovy'', ''text/x-groovy''),
     (''.gsp'', ''application/x-jsp''),
     (''.gtar'', ''application/x-gtar''),
     (''.gz'', ''application/gzip''),
     (''.h'', ''text/x-chdr''),
     (''.haml'', ''text/x-haml''),
     (''.hcl'', ''text/x-ruby''),
     (''.hdf'', ''application/x-hdf''),
     (''.hdp'', ''image/vnd.ms-photo''),
     (''.hdr'', ''image/vnd.radiance''),
     (''.hh'', ''application/x-httpd-php'')]"

definition suffixes_3 :: "(string \<times> string) list" where
  "suffixes_3 = [
     (''.hpgl'', ''application/vnd.hp-hpgl''),
     (''.hpp'', ''text/x-c++hdr''),
     (''.hqx'', ''application/mac-binhex''),
     (''.hs'', ''text/x-haskell''),
     (''.htm'', ''text/html''),
     (''.html'', ''text/html''),
     (''.http'', ''message/http''),
     (''.hx'', ''text/x-haxe''),
     (''.ibooks'', ''application/x-ibooks+zip''),
     (''.ico'', ''image/vnd.microsoft.icon''),
     (''.ics'', ''text/calendar''),
     (''.idl'', ''text/x-idl''),
     (''.idml'', ''application/vnd.adobe.indesign-idml-package''),
     (''.iges'', ''model/iges;version='' @ [CHR 0x22] @ ''5.x'' @ [CHR 0x22]),
     (''.igs'', ''model/iges''),
     (''.iiq'', ''image/x-raw-phaseone''),
     (''.ind'', ''application/octet-stream;version='' @ [CHR 0x22] @ ''generic'' @ [CHR 0x22]),
     (''.indd'', ''application/x-adobe-indesign''),
     (''.inf'', ''application/inf''),
     (''.ini'', ''text/x-ini''),
     (''.inx'', ''application/x-adobe-indesign-interchange''),
     (''.ipa'', ''application/x-itunes-ipa''),
     (''.ipynb'', ''application/json''),
     (''.irclog'', ''text/mirc''),
     (''.iso'', ''application/x-iso9660-image''),
     (''.itk'', ''application/x-tcl''),
     (''.j2c'', ''image/x-jp2-codestream''),
     (''.jade'', ''text/x-pug''),
     (''.jar'', ''application/java-archive''),
     (''.java'', ''text/x-java''),
     (''.jinja'', ''text/x-django''),
     (''.jl'', ''text/x-julia''),
     (''.jls'', ''image/jls''),
     (''.jng'', ''image/x-jng''),
     (''.jnilib'', ''application/x-java-jnilib''),
     (''.jp2'', ''image/jpx''),
     (''.jpe'', ''image/jpeg''),
     (''.jpf'', ''image/jpx''),
     (''.jpg'', ''image/jpeg''),
     (''.jpm'', ''image/jpm''),
     (''.jq'', ''application/json''),
     (''.js'', ''application/javascript''),
     (''.json'', ''application/json''),
     (''.json-patch'', ''application/json-patch+json''),
     (''.json5'', ''application/json''),
     (''.jsonld'', ''application/ld+json''),
     (''.jsp'', ''application/x-jsp''),
     (''.jsx'', ''text/jsx''),
     (''.jxr'', ''image/jxr''),
     (''.k25'', ''image/x-raw-kodak''),
     (''.kicad_pcb'', ''text/x-common-lisp''),
     (''.kid'', ''text/xml''),
     (''.kil'', ''application/x-killustrator''),
     (''.kit'', ''text/html''),
     (''.kml'', ''application/vnd.google-earth.kml+xml''),
     (''.kmz'', ''application/vnd.google-earth.kmz''),
     (''.kpr'', ''application/x-kpresenter''),
     (''.kra'', ''application/x-krita''),
     (''.ksp'', ''application/x-kspread''),
     (''.kt'', ''text/x-kotlin''),
     (''.ktx'', ''image/ktx''),
     (''.kwd'', ''application/x-kword''),
     (''.l'', ''text/x-lex''),
     (''.latex'', ''application/x-latex''),
     (''.latte'', ''text/x-smarty''),
     (''.less'', ''text/x-less''),
     (''.lfe'', ''text/x-common-lisp''),
     (''.lha'', ''application/x-lzh-compressed''),
     (''.lhs'', ''text/x-literate-haskell''),
     (''.lisp'', ''text/x-common-lisp''),
     (''.log'', ''text/x-log''),
     (''.lookml'', ''text/x-yaml''),
     (''.ls'', ''text/x-livescript''),
     (''.lua'', ''text/x-lua''),
     (''.lvproj'', ''text/xml''),
     (''.lwp'', ''application/vnd.lotus-wordpro''),
     (''.lz'', ''application/x-lzip''),
     (''.lzma'', ''application/x-lzma''),
     (''.m'', ''text/x-objcsrc''),
     (''.m3'', ''text/x-modula''),
     (''.m3u'', ''audio/x-mpegurl''),
     (''.maff'', ''application/x-maff''),
     (''.mak'', ''text/x-cmake''),
     (''.marko'', ''text/html''),
     (''.mas'', ''application/vnd.lotus-freelance''),
     (''.mat'', ''application/matlab-mat''),
     (''.mathematica'', ''text/x-mathematica''),
     (''.matlab'', ''text/x-octave''),
     (''.maxpat'', ''application/json''),
     (''.mbox'', ''application/mbox''),
     (''.mbx'', ''application/mbox''),
     (''.mcw'', ''application/msword;version='' @ [CHR 0x22] @ ''5.0'' @ [CHR 0x22]),
     (''.md'', ''text/markdown''),
     (''.mdi'', ''image/vnd.ms-modi''),
     (''.mef'', ''image/x-raw-mamiya''),
     (''.metal'', ''text/x-c++src''),
     (''.mht'', ''multipart/multipart/related''),
     (''.mid'', ''audio/midi''),
     (''.mif'', ''application/x-mif''),
     (''.mix'', ''image/vnd.mix''),
     (''.mj2'', ''video/mj2''),
     (''.mkv'', ''video/x-matroska''),
     (''.ml'', ''text/x-ocaml''),
     (''.mlp'', ''audio/vnd.dolby.mlp''),
     (''.mm'', ''application/x-freemind''),
     (''.mmp'', ''application/vnd.mindjet.mindmanager''),
     (''.mmr'', ''image/vnd.fujixerox.edmics-mmr''),
     (''.mng'', ''video/x-mng''),
     (''.mo'', ''text/x-modelica''),
     (''.mobi'', ''application/x-mobipocket-ebook''),
     (''.mod'', ''application/octet-stream;version='' @ [CHR 0x22] @ ''4'' @ [CHR 0x22]),
     (''.mol'', ''chemical/x-mdl-molfile''),
     (''.mos'', ''image/x-raw-leaf''),
     (''.mov'', ''video/quicktime''),
     (''.mp1'', ''audio/mpeg''),
     (''.mp2'', ''audio/mpeg''),
     (''.mp3'', ''audio/mpeg''),
     (''.mp4'', ''video/mp4''),
     (''.mpeg'', ''video/mpeg''),
     (''.mpg'', ''video/mpeg''),
     (''.mpga'', ''audio/mpeg''),
     (''.mpp'', ''application/vnd.ms-project;version='' @ [CHR 0x22] @ ''2010'' @ [CHR 0x22]),
     (''.mpx'', ''application/x-project;version='' @ [CHR 0x22] @ ''4.0'' @ [CHR 0x22]),
     (''.mrc'', ''application/marc''),
     (''.mrw'', ''image/x-raw-minolta'')]"

definition suffixes_4 :: "(string \<times> string) list" where
  "suffixes_4 = [
     (''.msg'', ''application/vnd.ms-outlook''),
     (''.msi'', ''application/x-msi''),
     (''.mso'', ''application/x-mso''),
     (''.mtml'', ''text/html''),
     (''.muf'', ''text/x-forth''),
     (''.mumps'', ''text/x-mumps''),
     (''.mxf'', ''application/mxf''),
     (''.mxl'', ''application/vnd.recordare.musicxml''),
     (''.mxmf'', ''audio/mobile-xmf''),
     (''.n3'', ''text/n3''),
     (''.nap'', ''image/naplps''),
     (''.nb'', ''application/mathematica''),
     (''.nc'', ''application/x-netcdf''),
     (''.nef'', ''image/x-raw-nikon''),
     (''.nfo'', ''text/x-nfo''),
     (''.nginxconf'', ''text/x-nginx-conf''),
     (''.nif'', ''application/vnd.music-niff''),
     (''.nl'', ''text/x-common-lisp''),
     (''.nlogo'', ''text/x-common-lisp''),
     (''.ns2'', ''application/vnd.lotus-notes;version='' @ [CHR 0x22] @ ''2'' @ [CHR 0x22]),
     (''.ns3'', ''application/vnd.lotus-notes;version='' @ [CHR 0x22] @ ''3'' @ [CHR 0x22]),
     (''.ns4'', ''application/vnd.lotus-notes;version='' @ [CHR 0x22] @ ''4'' @ [CHR 0x22]),
     (''.nsf'', ''application/vnd.lotus-notes''),
     (''.nsi'', ''text/x-nsis''),
     (''.ntf'', ''application/vnd.nitf''),
     (''.nu'', ''text/x-scheme''),
     (''.numpy'', ''text/x-python''),
     (''.nut'', ''text/x-c++src''),
     (''.ocaml'', ''text/x-ocaml''),
     (''.odb'', ''application/vnd.oasis.opendocument.database''),
     (''.odc'', ''application/vnd.oasis.opendocument.chart''),
     (''.odf'', ''application/vnd.oasis.opendocument.formula''),
     (''.odft'', ''application/vnd.oasis.opendocument.formula-template''),
     (''.odg'', ''application/vnd.oasis.opendocument.graphics''),
     (''.odi'', ''application/vnd.oasis.opendocument.image''),
     (''.odm'', ''application/vnd.oasis.opendocument.text-master''),
     (''.odp'', ''application/vnd.oasis.opendocument.presentation''),
     (''.ods'', ''application/vnd.oasis.opendocument.spreadsheet''),
     (''.odt'', ''application/vnd.oasis.opendocument.text''),
     (''.ofx'', ''application/x-ofx;version='' @ [CHR 0x22] @ ''2.1.1'' @ [CHR 0x22]),
     (''.oga'', ''audio/ogg''),
     (''.ogg'', ''audio/ogg''),
     (''.ogm'', ''video/x-ogm''),
     (''.ogv'', ''video/ogg''),
     (''.ogx'', ''application/ogg''),
     (''.one'', ''application/msonenote''),
     (''.opf'', ''application/x-dtbook+xml''),
     (''.opus'', ''audio/opus''),
     (''.ora'', ''image/openraster''),
     (''.orf'', ''image/x-raw-olympus''),
     (''.otc'', ''application/vnd.oasis.opendocument.chart-template''),
     (''.otf'', ''application/x-font-otf''),
     (''.otg'', ''application/vnd.oasis.opendocument.graphics-template''),
     (''.oth'', ''application/vnd.oasis.opendocument.text-web''),
     (''.oti'', ''application/vnd.oasis.opendocument.image-template''),
     (''.otm'', ''application/vnd.oasis.opendocument.text-master''),
     (''.otp'', ''application/vnd.oasis.opendocument.presentation-template''),
     (''.ots'', ''application/vnd.oasis.opendocument.spreadsheet-template''),
     (''.ott'', ''application/vnd.oasis.opendocument.text-template''),
     (''.ova'', ''application/x-ova''),
     (''.oxps'', ''application/oxps''),
     (''.oz'', ''text/x-oz''),
     (''.p'', ''text/x-pascal''),
     (''.p65'', ''application/vnd.pagemaker''),
     (''.pab'', ''application/vnd.ms-outlook''),
     (''.pack'', ''application/package''),
     (''.pam'', ''image/x-portable-arbitrarymap''),
     (''.pas'', ''text/x-pascal''),
     (''.pbm'', ''image/x-portable-bitmap''),
     (''.pcap'', ''application/vnd.tcpdump.pcap''),
     (''.pcapng'', ''application/vnd.tcpdump.pcap''),
     (''.pcl'', ''application/vnd.hp-pcl''),
     (''.pct'', ''image/x-pict;version='' @ [CHR 0x22] @ ''2.0'' @ [CHR 0x22]),
     (''.pcx'', ''image/vnd.zbrush.pcx''),
     (''.pdb'', ''application/vnd.palm''),
     (''.pdf'', ''application/pdf''),
     (''.pfm'', ''application/x-font-printer-metric''),
     (''.pfr'', ''application/font-tdpfr''),
     (''.pgm'', ''image/x-portable-graymap''),
     (''.pgn'', ''application/x-chess-pgn''),
     (''.pgsql'', ''text/x-sql''),
     (''.php'', ''text/x-php''),
     (''.phtml'', ''application/x-httpd-php''),
     (''.pic'', ''image/x-pict''),
     (''.pict'', ''image/x-pict''),
     (''.pkpass'', ''application/vnd.apple.pkpass''),
     (''.pl'', ''text/x-perl''),
     (''.pls'', ''text/x-plsql''),
     (''.png'', ''image/png''),
     (''.pnm'', ''image/x-portable-anymap''),
     (''.pod'', ''text/x-perl''),
     (''.por'', ''application/x-spss-por''),
     (''.potm'', ''application/vnd.ms-powerpoint.template.macroenabled.12;version='' @ [CHR 0x22] @ ''2007'' @ [CHR 0x22]),
     (''.potx'', ''application/vnd.openxmlformats-officedocument.presentationml.template''),
     (''.pp'', ''text/x-puppet''),
     (''.ppam'', ''application/vnd.ms-powerpoint.addin.macroenabled.12''),
     (''.ppm'', ''image/x-portable-pixmap''),
     (''.pps'', ''application/vnd.ms-powerpoint;version='' @ [CHR 0x22] @ ''97-2003'' @ [CHR 0x22]),
     (''.ppsm'', ''application/vnd.ms-powerpoint.slideshow.macroenabled.12''),
     (''.ppsx'', ''application/vnd.openxmlformats-officedocument.presentationml.slideshow''),
     (''.ppt'', ''application/vnd.ms-powerpoint''),
     (''.pptm'', ''application/vnd.ms-powerpoint.presentation.macroenabled.12''),
     (''.pptx'', ''application/vnd.openxmlformats-officedocument.presentationml.presentation''),
     (''.prc'', ''application/vnd.palm''),
     (''.pro'', ''text/x-prolog''),
     (''.project'', ''application/octet-stream;version='' @ [CHR 0x22] @ ''4'' @ [CHR 0x22]),
     (''.properties'', ''text/properties''),
     (''.proto'', ''text/x-protobuf''),
     (''.ps'', ''application/postscript''),
     (''.ps1'', ''application/x-powershell''),
     (''.psb'', ''image/vnd.adobe.photoshop''),
     (''.psd'', ''image/vnd.adobe.photoshop''),
     (''.psid'', ''audio/prs.sid;version='' @ [CHR 0x22] @ ''2'' @ [CHR 0x22]),
     (''.pst'', ''application/vnd.ms-outlook-pst''),
     (''.ptx'', ''image/x-raw-pentax''),
     (''.purs'', ''text/x-haskell''),
     (''.pxn'', ''image/x-raw-logitech''),
     (''.py'', ''text/x-python''),
     (''.pyx'', ''text/x-cython''),
     (''.qcd'', ''application/vnd.quark.quarkxpress''),
     (''.qcp'', ''audio/qcelp''),
     (''.qif'', ''application/qif''),
     (''.qxp'', ''application/vnd.quark.quarkxpress''),
     (''.qxp report'', ''application/vnd.quark.quarkxpress''),
     (''.r'', ''text/x-rsrc'')]"

definition suffixes_5 :: "(string \<times> string) list" where
  "suffixes_5 = [
     (''.r3d'', ''image/x-raw-red''),
     (''.ra'', ''audio/vnd.rn-realaudio''),
     (''.raf'', ''image/x-raw-fuji''),
     (''.ram'', ''audio/vnd.rn-realaudio''),
     (''.raml'', ''text/x-yaml''),
     (''.rar'', ''application/vnd.rar''),
     (''.rar'', ''application/vnd.rar''),
     (''.ras'', ''image/x-sun-raster''),
     (''.raw'', ''image/x-raw-panasonic''),
     (''.rb'', ''text/x-ruby''),
     (''.rdf'', ''application/rdf+xml''),
     (''.re'', ''text/x-rustsrc''),
     (''.reg'', ''text/x-properties''),
     (''.rest'', ''text/x-rst''),
     (''.rexx'', ''text/x-rexx''),
     (''.rf64'', ''audio/x-wav;version='' @ [CHR 0x22] @ ''0waveformatextensibleencoding'' @ [CHR 0x22]),
     (''.rfa'', ''application/octet-stream''),
     (''.rft'', ''application/octet-stream''),
     (''.rg'', ''text/x-clojure''),
     (''.rgb'', ''image/x-rgb''),
     (''.rhtml'', ''application/x-erb''),
     (''.rlc'', ''image/vnd.fujixerox.edmics-rlc''),
     (''.rm'', ''application/vnd.rn-realmedia''),
     (''.rmd'', ''text/x-gfm''),
     (''.rmi'', ''audio/mid''),
     (''.rmp'', ''audio/x-pn-realaudio-plugin''),
     (''.roff'', ''text/troff''),
     (''.rpm'', ''application/x-rpm''),
     (''.rs'', ''text/x-rustsrc''),
     (''.rss'', ''application/rss+xml''),
     (''.rst'', ''text/x-rst''),
     (''.rte'', ''application/octet-stream''),
     (''.rtf'', ''application/rtf''),
     (''.rv'', ''video/vnd.rn-realvideo''),
     (''.rvg'', ''application/octet-stream''),
     (''.rvt'', ''application/octet-stream''),
     (''.rws'', ''application/octet-stream''),
     (''.rwz'', ''image/x-raw-rawzor''),
     (''.s'', ''text/x-asm''),
     (''.s7m'', ''application/x-sas-dmdb''),
     (''.sa7'', ''application/x-sas-access''),
     (''.sage'', ''text/x-python''),
     (''.sam'', ''application/vnd.lotus-wordpro''),
     (''.sas'', ''application/x-sas''),
     (''.sas7bbak'', ''application/x-sas-backup''),
     (''.sass'', ''text/x-sass''),
     (''.sav'', ''application/x-spss-sav''),
     (''.sc7'', ''application/x-sas-catalog''),
     (''.scala'', ''text/x-scala''),
     (''.sch'', ''text/xml''),
     (''.scm'', ''text/x-scheme''),
     (''.scores'', ''text/plain''),
     (''.scss'', ''text/x-scss''),
     (''.sd7'', ''application/x-sas-data''),
     (''.sda'', ''application/vnd.stardivision.draw''),
     (''.sdc'', ''application/vnd.stardivision.calc''),
     (''.sdn'', ''text/plain''),
     (''.sdw'', ''application/vnd.stardivision.writer''),
     (''.sed'', ''text/x-sed''),
     (''.sf7'', ''application/x-sas-fdb''),
     (''.sfd'', ''application/vnd.font-fontforge-sfd''),
     (''.sgm'', ''text/sgml''),
     (''.sgml'', ''text/sgml''),
     (''.sh'', ''application/x-sh''),
     (''.sh-session'', ''text/x-sh''),
     (''.shar'', ''application/x-shar''),
     (''.shtml'', ''text/x-server-parsed-html''),
     (''.si7'', ''application/x-sas-data-index''),
     (''.sid'', ''audio/prs.sid''),
     (''.sit'', ''application/x-stuffit''),
     (''.sitx'', ''application/x-stuffitx''),
     (''.skb'', ''application/octet-stream''),
     (''.skp'', ''application/vnd.koan''),
     (''.sla'', ''application/vnd.scribus''),
     (''.sld'', ''application/sld''),
     (''.sldm'', ''application/vnd.ms-powerpoint.slide.macroenabled.12;version='' @ [CHR 0x22] @ ''2007'' @ [CHR 0x22]),
     (''.sldprt'', ''application/sldworks''),
     (''.slim'', ''text/x-slim''),
     (''.sls'', ''text/x-yaml''),
     (''.sm7'', ''application/x-sas-mddb''),
     (''.smi'', ''application/smil+xml''),
     (''.smk'', ''video/vnd.radgamettools.smacker''),
     (''.soy'', ''text/x-soy''),
     (''.sp7'', ''application/x-sas-putility''),
     (''.sparql'', ''application/sparql-query''),
     (''.spec'', ''text/x-rpm-spec''),
     (''.spl'', ''application/x-futuresplash''),
     (''.spx'', ''audio/speex''),
     (''.sql'', ''text/x-sql''),
     (''.sr7'', ''application/x-sas-itemstor''),
     (''.srl'', ''application/sereal''),
     (''.srt'', ''text/x-common-lisp''),
     (''.ss7'', ''application/x-sas-program-data''),
     (''.ssml'', ''application/ssml+xml''),
     (''.st'', ''text/x-stsrc''),
     (''.st7'', ''application/x-sas-audit''),
     (''.stw'', ''application/vnd.sun.xml.writer.template''),
     (''.stx'', ''application/x-sas-transport''),
     (''.su7'', ''application/x-sas-utility''),
     (''.sublime-build'', ''text/javascript''),
     (''.sv'', ''text/x-systemverilog''),
     (''.sv7'', ''application/x-sas-view''),
     (''.svf'', ''image/vnd.svf''),
     (''.svg'', ''image/svg+xml''),
     (''.svgz'', ''image/svg+xml''),
     (''.swf'', ''application/vnd.adobe.flash-movie''),
     (''.swift'', ''text/x-swift''),
     (''.sxc'', ''application/vnd.sun.xml.calc;version='' @ [CHR 0x22] @ ''1.0'' @ [CHR 0x22]),
     (''.sxd'', ''application/vnd.sun.xml.draw''),
     (''.sxi'', ''application/vnd.sun.xml.impress''),
     (''.sxw'', ''application/vnd.sun.xml.writer''),
     (''.sz'', ''application/x-snappy-framed''),
     (''.t'', ''application/x-tads''),
     (''.tap'', ''image/vnd.tencent.tap''),
     (''.tar'', ''application/x-tar''),
     (''.tcl'', ''text/x-tcl''),
     (''.tcsh'', ''text/x-sh''),
     (''.tex'', ''text/x-tex''),
     (''.textile'', ''text/x-textile''),
     (''.tfw'', ''text/plain''),
     (''.tfx'', ''image/tiff''),
     (''.thmx'', ''application/vnd.ms-officetheme''),
     (''.tif'', ''image/tiff''),
     (''.tif '', ''image/tiff''),
     (''.tiff'', ''image/tiff'')]"

definition suffixes_6 :: "(string \<times> string) list" where
  "suffixes_6 = [
     (''.toml'', ''text/x-toml''),
     (''.torrent'', ''application/x-bittorrent''),
     (''.tpl'', ''text/x-smarty''),
     (''.ts'', ''application/typescript''),
     (''.tsv'', ''text/tab-separated-values''),
     (''.tta'', ''audio/tta;version='' @ [CHR 0x22] @ ''1'' @ [CHR 0x22]),
     (''.ttf'', ''application/x-font-ttf''),
     (''.ttl'', ''text/turtle''),
     (''.twig'', ''text/x-twig''),
     (''.txt'', ''text/plain''),
     (''.u3d'', ''model/u3d''),
     (''.uc'', ''text/x-java''),
     (''.ulx'', ''application/x-glulx''),
     (''.uno'', ''text/x-csharp''),
     (''.upc'', ''text/x-csrc''),
     (''.url'', ''application/x-url''),
     (''.v'', ''text/x-verilog''),
     (''.vb'', ''text/x-vb''),
     (''.vbs'', ''text/x-vbscript''),
     (''.vcd'', ''application/x-cdlink''),
     (''.vcf'', ''text/vcard''),
     (''.vcs'', ''text/x-vcalendar''),
     (''.vdx'', ''application/vnd.visio;version='' @ [CHR 0x22] @ ''2003-2010'' @ [CHR 0x22]),
     (''.vhd'', ''text/x-vhdl''),
     (''.vhdl'', ''text/x-vhdl''),
     (''.viv'', ''video/vnd-vivo''),
     (''.vmdk'', ''application/x-vmdk''),
     (''.vmt'', ''application/vnd.valve.source.material''),
     (''.volt'', ''text/x-d''),
     (''.vot'', ''application/x-votable+xml''),
     (''.vpb'', ''image/vpb''),
     (''.vsd'', ''application/vnd.visio''),
     (''.vsdm'', ''application/vnd.ms-visio.drawing.macroenabled.12''),
     (''.vsdx'', ''application/vnd.visio''),
     (''.vssm'', ''application/vnd.ms-visio.stencil.macroenabled.12''),
     (''.vssx'', ''application/vnd.ms-visio.stencil''),
     (''.vstm'', ''application/vnd.ms-visio.template.macroenabled.12''),
     (''.vstx'', ''application/vnd.ms-visio.template''),
     (''.vtf'', ''image/vnd.valve.source.texture''),
     (''.vtt'', ''text/vtt''),
     (''.vwx'', ''application/vnd.vectorworks;version='' @ [CHR 0x22] @ ''2015'' @ [CHR 0x22]),
     (''.w50'', ''application/vnd.wordperfect;version='' @ [CHR 0x22] @ ''5.0'' @ [CHR 0x22]),
     (''.w51'', ''application/vnd.wordperfect;version='' @ [CHR 0x22] @ ''5.1'' @ [CHR 0x22]),
     (''.w52'', ''application/vnd.wordperfect;version='' @ [CHR 0x22] @ ''5.2'' @ [CHR 0x22]),
     (''.warc'', ''application/warc''),
     (''.wast'', ''text/x-common-lisp''),
     (''.wav'', ''audio/x-wav''),
     (''.wbmp'', ''image/vnd.wap.wbmp''),
     (''.webapp'', ''application/x-web-app-manifest+json''),
     (''.webidl'', ''text/x-webidl''),
     (''.webm'', ''video/webm''),
     (''.webp'', ''image/webp''),
     (''.wisp'', ''text/x-clojure''),
     (''.wk1'', ''application/vnd.lotus-1-2-3;version='' @ [CHR 0x22] @ ''2.0'' @ [CHR 0x22]),
     (''.wk3'', ''application/vnd.lotus-1-2-3;version='' @ [CHR 0x22] @ ''3.0'' @ [CHR 0x22]),
     (''.wk4'', ''application/vnd.lotus-1-2-3;version='' @ [CHR 0x22] @ ''4-5'' @ [CHR 0x22]),
     (''.wks'', ''application/vnd.lotus-1-2-3''),
     (''.wma'', ''audio/x-ms-wma''),
     (''.wmf'', ''image/wmf''),
     (''.wmlc'', ''application/vnd.wap.wmlc''),
     (''.wmls'', ''text/vnd.wap.wmlscript''),
     (''.wmlsc'', ''application/vnd.wap.wmlscriptc''),
     (''.wmv'', ''video/x-ms-wmv''),
     (''.woff'', ''application/font-woff''),
     (''.wp4'', ''application/vnd.wordperfect;version='' @ [CHR 0x22] @ ''4.0/4.1/4.2'' @ [CHR 0x22]),
     (''.wpd'', ''application/vnd.wordperfect''),
     (''.wpl'', ''application/vnd.ms-wpl''),
     (''.wrl'', ''model/vrml''),
     (''.wsz'', ''interfacex-winamp-skin''),
     (''.x3d'', ''model/x3d+xml''),
     (''.x3f'', ''image/x-raw-sigma''),
     (''.xap'', ''application/x-silverlight-app''),
     (''.xar'', ''application/vnd.xara''),
     (''.xbm'', ''image/x-xbitmap''),
     (''.xc'', ''text/x-csrc''),
     (''.xcf'', ''image/xcf''),
     (''.xdm'', ''image/x-xwindowdump;version='' @ [CHR 0x22] @ ''x10'' @ [CHR 0x22]),
     (''.xfdf'', ''application/vnd.adobe.xfdf''),
     (''.xhtml'', ''application/xhtml+xml''),
     (''.xif'', ''image/vnd.xiff''),
     (''.xla'', ''application/vnd.ms-excel;version='' @ [CHR 0x22] @ ''4.0'' @ [CHR 0x22]),
     (''.xlam'', ''application/vnd.ms-excel.addin.macroenabled.12''),
     (''.xlc'', ''application/vnd.ms-excel;version='' @ [CHR 0x22] @ ''3.0'' @ [CHR 0x22]),
     (''.xlm'', ''application/vnd.ms-excel;version='' @ [CHR 0x22] @ ''3.0'' @ [CHR 0x22]),
     (''.xls'', ''application/vnd.ms-excel''),
     (''.xlsb'', ''application/vnd.ms-excel.sheet.binary.macroenabled.12''),
     (''.xlsm'', ''application/vnd.ms-excel.sheet.macroenabled.12''),
     (''.xlsx'', ''application/vnd.openxmlformats-officedocument.spreadsheetml.sheet''),
     (''.xltm'', ''application/vnd.ms-excel.template.macroenabled.12''),
     (''.xltx'', ''application/vnd.openxmlformats-officedocument.spreadsheetml.template''),
     (''.xlw'', ''application/vnd.ms-excel;version='' @ [CHR 0x22] @ ''4w'' @ [CHR 0x22]),
     (''.xm'', ''audio/xm''),
     (''.xmf'', ''audio/mobile-xmf''),
     (''.xmind'', ''application/x-xmind''),
     (''.xml'', ''application/xml''),
     (''.xmt'', ''application/mpeg4-iod-xmt''),
     (''.xpi'', ''application/x-xpinstall''),
     (''.xpl'', ''text/xml''),
     (''.xpm'', ''image/x-xpixmap;version='' @ [CHR 0x22] @ ''x10'' @ [CHR 0x22]),
     (''.xps'', ''application/oxps''),
     (''.xpt'', ''application/x-sas-xport''),
     (''.xq'', ''application/xquery''),
     (''.xquery'', ''application/xquery''),
     (''.xs'', ''text/x-csrc''),
     (''.xsd'', ''application/xml''),
     (''.xsl'', ''application/xml''),
     (''.xslfo'', ''application/xslfo+xml''),
     (''.xslt'', ''application/xslt+xml''),
     (''.xsp-config'', ''text/xml''),
     (''.xspf'', ''application/xspf+xml''),
     (''.xwd'', ''image/x-xwindowdump''),
     (''.xz'', ''application/x-xz''),
     (''.y'', ''text/x-yacc''),
     (''.yaml'', ''text/x-yaml''),
     (''.yml'', ''text/x-yaml''),
     (''.zip'', ''application/zip'')]"

definition g_suffix_hash :: "(string \<times> string) list" where
  "g_suffix_hash = suffixes_1 @ suffixes_2 @ suffixes_3 @ suffixes_4 @ suffixes_5 @ suffixes_6"

definition g_signatures_list :: "signature list" where
  "g_signatures_list = [
     (5, [CHR 0x00, CHR 0x01, CHR 0x00, CHR 0x00, CHR 0x00, CHR 0x00], ''application/x-font-ttf''),
     (12, [CHR 0x04] @ ''%!PS-Adobe-'' @ [CHR 0x00], ''application/postscript''),
     (13, [CHR 0x1B] @ ''%-12345X%!PS'' @ [CHR 0x00], ''application/postscript''),
     (2, [CHR 0x1F, CHR 0x8B, CHR 0x00], ''application/gzip''),
     (2, [CHR 0x1F, CHR 0x9D, CHR 0x00], ''application/x-compress''),
     (14, ''!<arch>'' @ [CHR 0x0A] @ ''debian'' @ [CHR 0x00], ''application/x-debian-package''),
     (8, ''#! rnews'' @ [CHR 0x00], ''message/rfc822''),
     (10, ''#!/bin/ash'' @ [CHR 0x00], ''application/x-shellscript''),
     (11, ''#!/bin/bash'' @ [CHR 0x00], ''application/x-shellscript''),
     (11, ''#!/bin/perl'' @ [CHR 0x00], ''text/x-perl''),
     (9, ''#!/bin/sh'' @ [CHR 0x00], ''application/x-shellscript''),
     (18, ''#!/usr/bin/env lua'' @ [CHR 0x00], ''text/x-lua''),
     (15, ''#!/usr/bin/perl'' @ [CHR 0x00], ''text/x-perl''),
     (21, ''#!/usr/bin/env python'' @ [CHR 0x00], ''text/x-python''),
     (19, ''#!/usr/bin/env ruby'' @ [CHR 0x00], ''text/x-ruby''),
     (18, ''#!/usr/bin/env tcl'' @ [CHR 0x00], ''text/x-tcl''),
     (19, ''#!/usr/bin/env wish'' @ [CHR 0x00], ''text/x-tcl''),
     (14, ''#!/usr/bin/lua'' @ [CHR 0x00], ''text/x-lua''),
     (17, ''#!/usr/bin/python'' @ [CHR 0x00], ''text/x-python''),
     (15, ''#!/usr/bin/ruby'' @ [CHR 0x00], ''text/x-ruby''),
     (14, ''#!/usr/bin/tcl'' @ [CHR 0x00], ''text/x-tcl''),
     (15, ''#!/usr/bin/wish'' @ [CHR 0x00], ''text/x-tcl''),
     (20, ''#!/usr/local/bin/lua'' @ [CHR 0x00], ''text/x-lua''),
     (21, ''#!/usr/local/bin/perl'' @ [CHR 0x00], ''text/x-perl''),
     (23, ''#!/usr/local/bin/python'' @ [CHR 0x00], ''text/x-python''),
     (21, ''#!/usr/local/bin/ruby'' @ [CHR 0x00], ''text/x-ruby''),
     (20, ''#!/usr/local/bin/tcl'' @ [CHR 0x00], ''text/x-tcl''),
     (21, ''#!/usr/local/bin/wish'' @ [CHR 0x00], ''text/x-tcl''),
     (17, ''# KDE Config File'' @ [CHR 0x00], ''application/x-kdelnk''),
     (20, ''# PaCkAgE DaTaStReAm'' @ [CHR 0x00], ''application/x-svr4-package''),
     (6, ''# xmcd'' @ [CHR 0x00], ''text/x-xmcd''),
     (11, ''#?RADIANCE'' @ [CHR 0x0A, CHR 0x00], ''image/vnd.radiance''),
     (11, ''%!PS-Adobe-'' @ [CHR 0x00], ''application/postscript''),
     (5, ''%PDF-'' @ [CHR 0x00], ''application/pdf''),
     (5, ''*mbx*'' @ [CHR 0x00], ''application/mbox''),
     (28, ''-----BEGIN PGP MESSAGE-'' @ [CHR 0x00, CHR 0x1E] @ ''---'' @ [CHR 0x00], ''application/pgp''),
     (30, ''-----BEGIN PGP SIGNATURE-'' @ [CHR 0x00, CHR 0x03] @ ''.'' @ [CHR 0x22, CHR 0x00], ''application/pgp-signature''),
     (3, ''.'' @ [CHR 0x22, CHR 0x00], ''text/troff''),
     (4, ''.sd'' @ [CHR 0x00, CHR 0x00], ''audio/x-dec-basic''),
     (4, ''.snd'' @ [CHR 0x00], ''audio/basic''),
     (9, ''/* XPM */'' @ [CHR 0x00], ''image/x-xpmi''),
     (5, ''07070'' @ [CHR 0x00], ''application/x-cpio''),
     (4, ''1'' @ [CHR 0xBE, CHR 0x00, CHR 0x00, CHR 0x00], ''application/msword''),
     (6, ''7z'' @ [CHR 0xBC, CHR 0xAF, CHR 0x27, CHR 0x1C, CHR 0x00], ''application/x-7z-compressed''),
     (26, ''8BPS Adobe Photoshop Image'' @ [CHR 0x00], ''image/vnd.adobe.photoshop''),
     (4, '';ELC'' @ [CHR 0x00], ''application/x-elc''),
     (14, ''<!DOCTYPE HTML'' @ [CHR 0x00], ''text/html''),
     (14, ''<?xml version='' @ [CHR 0x00], ''application/xml''),
     (6, ''<Book '' @ [CHR 0x00], ''application/x-mif''),
     (9, ''<BookFile'' @ [CHR 0x00], ''application/x-mif''),
     (4, ''<MML'' @ [CHR 0x00], ''application/x-mif''),
     (8, ''<MIFFile'' @ [CHR 0x00], ''application/x-mif''),
     (16, ''<MakerDictionary'' @ [CHR 0x00], ''application/x-mif''),
     (6, ''<Maker'' @ [CHR 0x00], ''application/x-mif''),
     (12, ''<SCRIBUSUTF8'' @ [CHR 0x00], ''application/x-scribus''),
     (12, ''<map version'' @ [CHR 0x00], ''application/x-freemind''),
     (10, ''@ echo off'' @ [CHR 0x00], ''text/x-msdos-batch''),
     (9, ''@echo off'' @ [CHR 0x00], ''text/x-msdos-batch''),
     (4, ''@rem'' @ [CHR 0x00], ''text/x-msdos-batch''),
     (4, ''@set'' @ [CHR 0x00], ''text/x-msdos-batch''),
     (4, ''ADIF'' @ [CHR 0x00], ''audio/x-hx-aac-adif''),
     (8, ''AT&TFORM'' @ [CHR 0x00], ''image/vnd.djvu''),
     (7, ''Article'' @ [CHR 0x00], ''message/news''),
     (15, ''BEGIN:VCALENDAR'' @ [CHR 0x00], ''text/calendar''),
     (11, ''BEGIN:VCARD'' @ [CHR 0x00], ''text/x-vcard''),
     (4, ''BM'' @ [CHR 0x00, CHR 0x03, CHR 0x00], ''image/x-ms-bmp''),
     (3, ''BZh'' @ [CHR 0x00], ''application/x-bzip2''),
     (4, ''CPC'' @ [CHR 0xB2, CHR 0x00], ''image/x-cpi''),
     (3, ''CWS'' @ [CHR 0x00], ''application/x-shockwave-flash''),
     (4, ''DICM'' @ [CHR 0x00], ''application/dicom''),
     (4, ''EIM '' @ [CHR 0x00], ''image/x-eim''),
     (6, ''FGF95a'' @ [CHR 0x00], ''image/x-unknown''),
     (3, ''FLV'' @ [CHR 0x00], ''video/x-flv''),
     (4, ''FOVb'' @ [CHR 0x00], ''image/x-x3f''),
     (3, ''FWS'' @ [CHR 0x00], ''application/x-shockwave-flash''),
     (10, ''Forward to'' @ [CHR 0x00], ''message/rfc822''),
     (5, ''From:'' @ [CHR 0x00], ''message/rfc822''),
     (4, ''GIF8'' @ [CHR 0x00], ''image/gif''),
     (6, ''GIF94z'' @ [CHR 0x00], ''image/x-unknown''),
     (10, ''HEADER    '' @ [CHR 0x00], ''chemical/x-pdb''),
     (17, ''HWP Document File'' @ [CHR 0x00], ''application/x-hwp''),
     (14, ''II'' @ [CHR 0x1A, CHR 0x00, CHR 0x00, CHR 0x00] @ ''HEAPCCDR'' @ [CHR 0x00], ''image/x-canon-crw''),
     (4, ''II*'' @ [CHR 0x00, CHR 0x00], ''image/tiff''),
     (10, ''II*'' @ [CHR 0x00, CHR 0x10, CHR 0x00, CHR 0x00, CHR 0x0C] @ ''R'' @ [CHR 0x00], ''image/x-canon-cr2''),
     (4, ''IIN1'' @ [CHR 0x00], ''image/x-niff''),
     (4, ''IIRO'' @ [CHR 0x00], ''image/x-olympus-orf''),
     (4, ''IIRS'' @ [CHR 0x00], ''image/x-olympus-orf''),
     (4, ''LRZI'' @ [CHR 0x00], ''application/x-lrzip''),
     (4, ''LZIP'' @ [CHR 0x00], ''application/x-lzip''),
     (14, ''MAS_UTrack_V00'' @ [CHR 0x00], ''audio/x-mod''),
     (4, ''MM'' @ [CHR 0x00] @ ''*'' @ [CHR 0x00], ''image/tiff''),
     (4, ''MMOR'' @ [CHR 0x00], ''image/x-olympus-orf''),
     (4, ''MOVI'' @ [CHR 0x00], ''video/x-sgi-movie''),
     (4, ''MThd'' @ [CHR 0x00], ''audio/midi''),
     (2, ''MZ'' @ [CHR 0x00], ''application/x-dosexec''),
     (9, ''N#! rnews'' @ [CHR 0x00], ''message/rfc822''),
     (4, ''OTTO'' @ [CHR 0x00], ''application/vnd.ms-opentype''),
     (4, ''OggS'' @ [CHR 0x00], ''application/ogg''),
     (3, ''P4'' @ [CHR 0x00, CHR 0x00], ''image/x-portable-bitmap''),
     (3, ''P5'' @ [CHR 0x00, CHR 0x00], ''image/x-portable-greymap''),
     (3, ''P6'' @ [CHR 0x00, CHR 0x00], ''image/x-portable-pixmap''),
     (3, ''P7'' @ [CHR 0x00, CHR 0x00], ''image/x-portable-pixmap''),
     (12, ''P7'' @ [CHR 0x0A] @ ''#MTPAINT#'' @ [CHR 0x00], ''image/x-portable-multimap''),
     (3, ''PBF'' @ [CHR 0x00], ''image/x-unknown''),
     (4, ''PDN3'' @ [CHR 0x00], ''image/x-paintnet''),
     (5, ''PFS1'' @ [CHR 0x0A, CHR 0x00], ''image/x-pfs''),
     (4, ''PK'' @ [CHR 0x03, CHR 0x04, CHR 0x00], ''application/zip''),
     (8, ''PK'' @ [CHR 0x07, CHR 0x08] @ ''PK'' @ [CHR 0x03, CHR 0x04, CHR 0x00], ''application/zip''),
     (8, ''PK00PK'' @ [CHR 0x03, CHR 0x04, CHR 0x00], ''application/zip''),
     (5, ''PO^Q'' @ [CHR 0x60, CHR 0x00], ''application/msword''),
     (5, ''Path:'' @ [CHR 0x00], ''message/news''),
     (7, ''Pipe to'' @ [CHR 0x00], ''message/rfc822''),
     (16, ''RF64'' @ [CHR 0xFF, CHR 0xFF, CHR 0xFF, CHR 0xFF] @ ''WAVEds64'' @ [CHR 0x00], ''audio/x-wav''),
     (4, ''Rar!'' @ [CHR 0x00], ''application/x-rar''),
     (9, ''Received:'' @ [CHR 0x00], ''message/rfc822''),
     (14, ''Relay-Version:'' @ [CHR 0x00], ''message/rfc822''),
     (12, ''Return-Path:'' @ [CHR 0x00], ''message/rfc822''),
     (4, ''SIT!'' @ [CHR 0x00], ''application/x-stuffit''),
     (13, ''SplineFontDB:'' @ [CHR 0x00], ''application/vnd.font-fontforge-sfd''),
     (8, ''StuffIt'' @ [CHR 0x00, CHR 0x00], ''application/x-stuffit''),
     (4, ''WARC'' @ [CHR 0x00], ''application/warc''),
     (4, ''Xcur'' @ [CHR 0x00], ''image/x-xcursor''),
     (5, ''Xref:'' @ [CHR 0x00], ''message/news''),
     (19, ''[KDE Desktop Entry]'' @ [CHR 0x00], ''application/x-kdelnk''),
     (11, ''d8:announce'' @ [CHR 0x00], ''application/x-bittorrent''),
     (4, ''drpm'' @ [CHR 0x00], ''application/x-rpm''),
     (4, ''fLaC'' @ [CHR 0x00], ''audio/x-flac''),
     (11, ''filedesc://'' @ [CHR 0x00], ''application/x-ia-arc''),
     (16, ''riff.'' @ [CHR 0x91, CHR 0xCF, CHR 0x11, CHR 0xA5, CHR 0xD6] @ ''('' @ [CHR 0xDB, CHR 0x04, CHR 0xC1, CHR 0x00, CHR 0x00, CHR 0x00], ''audio/x-w64''),
     (5, [CHR 0x0D] @ ''tf'' @ [CHR 0x00, CHR 0x00], ''text/rtf''),
     (9, [CHR 0x89] @ ''LZO'' @ [CHR 0x00, CHR 0x0D, CHR 0x0A, CHR 0x1A, CHR 0x0A, CHR 0x00], ''application/x-lzop''),
     (8, [CHR 0x89] @ ''PNG'' @ [CHR 0x0D, CHR 0x0A, CHR 0x1A, CHR 0x0A, CHR 0x00], ''image/png''),
     (4, [CHR 0x8A] @ ''JNG'' @ [CHR 0x00], ''video/x-jng''),
     (4, [CHR 0x8A] @ ''MNG'' @ [CHR 0x00], ''video/x-mng''),
     (8, [CHR 0x89] @ ''HDF'' @ [CHR 0x0D, CHR 0x0A, CHR 0x1A, CHR 0x0A, CHR 0x00], ''application/x-hdf''),
     (4, [CHR 0xCE, CHR 0xCE, CHR 0xCE, CHR 0xCE, CHR 0x00], ''application/x-java-jce-keystore''),
     (6, [CHR 0xFD] @ ''7zXZ'' @ [CHR 0x00, CHR 0x00], ''application/x-xz''),
     (4, [CHR 0xFE] @ ''7'' @ [CHR 0x00] @ ''#'' @ [CHR 0x00], ''application/msword''),
     (2, [CHR 0xFF, CHR 0xD8, CHR 0x00], ''image/jpeg''),
     (4, [CHR 0xFF, CHR 0xD8, CHR 0xFF, CHR 0xE0, CHR 0x00], ''image/jpeg''),
     (4, [CHR 0xFF, CHR 0xD8, CHR 0xFF, CHR 0xEE, CHR 0x00], ''image/jpeg'')]"

definition g_signatures_list4 :: "signature list" where
  "g_signatures_list4 = [
     (13, [CHR 0x0A] @ ''Version:Vivo'' @ [CHR 0x00], ''video/vivo''),
     (7, ''#VRML V'' @ [CHR 0x00], ''model/vrml''),
     (28, ''-BEGIN PGP PUBLIC KEY BLOCK-'' @ [CHR 0x00], ''application/pgp-keys''),
     (4, ''XPR3'' @ [CHR 0x00], ''application/x-quark-xpress-3''),
     (4, ''XPRa'' @ [CHR 0x00], ''application/x-quark-xpress-3''),
     (4, ''free'' @ [CHR 0x00], ''video/quicktime''),
     (7, ''ftyp3g2'' @ [CHR 0x00], ''video/3gpp2''),
     (7, ''ftyp3ge'' @ [CHR 0x00], ''video/3gpp''),
     (7, ''ftyp3gg'' @ [CHR 0x00], ''video/3gpp''),
     (7, ''ftyp3gp'' @ [CHR 0x00], ''video/3gpp''),
     (7, ''ftyp3gs'' @ [CHR 0x00], ''video/3gpp''),
     (7, ''ftypM4A'' @ [CHR 0x00], ''audio/mp4''),
     (7, ''ftypM4B'' @ [CHR 0x00], ''video/quicktime''),
     (7, ''ftypM4P'' @ [CHR 0x00], ''video/quicktime''),
     (7, ''ftypM4V'' @ [CHR 0x00], ''video/mp4''),
     (8, ''ftypavc1'' @ [CHR 0x00], ''video/3gpp''),
     (8, ''ftypiso2'' @ [CHR 0x00], ''video/mp4''),
     (8, ''ftypisom'' @ [CHR 0x00], ''video/mp4''),
     (7, ''ftypjp2'' @ [CHR 0x00], ''image/jp2''),
     (8, ''ftypmmp4'' @ [CHR 0x00], ''video/mp4''),
     (8, ''ftypmp41'' @ [CHR 0x00], ''video/mp4''),
     (8, ''ftypmp42'' @ [CHR 0x00], ''video/mp4''),
     (8, ''ftypmp7b'' @ [CHR 0x00], ''video/mp4''),
     (8, ''ftypmp7t'' @ [CHR 0x00], ''video/mp4''),
     (6, ''ftypqt'' @ [CHR 0x00], ''video/quicktime''),
     (4, ''idat'' @ [CHR 0x00], ''video/quicktime''),
     (4, ''idsc'' @ [CHR 0x00], ''video/quicktime''),
     (2, ''jP'' @ [CHR 0x00], ''image/jp2''),
     (4, ''mdat'' @ [CHR 0x00], ''video/quicktime''),
     (4, ''pckg'' @ [CHR 0x00], ''application/x-quicktime-player''),
     (4, ''skip'' @ [CHR 0x00], ''video/quicktime''),
     (4, ''wide'' @ [CHR 0x00], ''video/quicktime'')]"

end
