(* ===== verification/Mime.thy ===== *)
theory Mime
  imports MimeTables HttpMap
begin

text \<open>
  \<open>gts/mime_type.cpp\<close>: the media type of a file by its suffix or by its first bytes, whether a file is text, and the encoding
  of a text file by its byte order mark.  A file is its contents, or \<open>None\<close> when it cannot be opened; \<open>ifstream\<close> and
  \<open>FILE\<close> keep the position and the state bits of the standard library.
\<close>

section \<open>Input streams\<close>

record ifs =
  f_data :: string
  f_pos :: nat
  f_eof :: bool
  f_fail :: bool
  f_gcount :: nat

definition ifs_open :: "string \<Rightarrow> ifs" where
  "ifs_open s = \<lparr>f_data = s, f_pos = 0, f_eof = False, f_fail = False, f_gcount = 0\<rparr>"

text \<open>\<open>read\<close>: a stream that is not good gives nothing; a short read sets both bits.\<close>

definition ifs_read :: "ifs \<Rightarrow> nat \<Rightarrow> ifs \<times> string" where
  "ifs_read f n =
     (if f_eof f \<or> f_fail f then (f\<lparr>f_fail := True, f_gcount := 0\<rparr>, [])
      else let got = take n (drop (f_pos f) (f_data f)); short = (length got < n)
           in (f\<lparr>f_pos := f_pos f + length got, f_eof := short, f_fail := short, f_gcount := length got\<rparr>, got))"

text \<open>\<open>seekg\<close> clears the end-of-file bit, and moves only when the stream has not failed.\<close>

definition ifs_seekg :: "ifs \<Rightarrow> nat \<Rightarrow> ifs" where
  "ifs_seekg f p = (if f_fail f then f\<lparr>f_eof := False\<rparr> else f\<lparr>f_eof := False, f_pos := p\<rparr>)"

section \<open>Searching the signatures\<close>

text \<open>
  The array has the signature of entry \<open>j\<close> at index \<open>2 * j\<close> and its type after it; \<open>len\<close> is the index of the last
  signature.  \<open>top = i - 2\<close> wraps around at 0.
\<close>

definition list_len :: "signature list \<Rightarrow> nat" where
  "list_len mimes = 2 * length mimes - 2"

definition signature_cmp :: "string \<Rightarrow> signature \<Rightarrow> int" where
  "signature_cmp buf e = (case e of (n, bytes, t) \<Rightarrow> memcmp buf bytes n)"

definition middle :: "nat \<Rightarrow> nat \<Rightarrow> nat" where
  "middle lo hi = 2 * (((lo + hi) mod 2 ^ 64) div 2 div 2)"

partial_function (option) search_loop :: "signature list \<Rightarrow> nat \<Rightarrow> string \<Rightarrow> nat \<Rightarrow> nat \<Rightarrow> string option" where
  "search_loop mimes len buf lo hi =
     (let i = middle lo hi in
      if lo \<le> hi \<and> i \<le> len then
        (let e = mimes ! (i div 2); cmp = signature_cmp buf e in
         if cmp = 0 then Some (snd (snd e))
         else if 0 < cmp then search_loop mimes len buf (i + 2) hi
         else search_loop mimes len buf lo (if i < 2 then 2 ^ 64 - 2 + i else i - 2))
      else Some ''unknown'')"

definition s_mime_search :: "signature list \<Rightarrow> nat \<Rightarrow> string \<Rightarrow> string option" where
  "s_mime_search mimes len buf = search_loop mimes len buf 0 len"

section \<open>Text files\<close>

text \<open>The first bytes of a stream decide; the buffer is larger than the 128 bytes that are looked at.\<close>

definition text_byte :: "char \<Rightarrow> bool" where
  "text_byte c = (\<not> (uchar c < 32 \<and> uchar c \<noteq> 9 \<and> uchar c \<noteq> 10 \<and> uchar c \<noteq> 13))"

definition s_is_text_file :: "ifs \<Rightarrow> ifs \<times> bool" where
  "s_is_text_file f =
     (let (f', data) = ifs_read f 0x4000
      in (f', if str_starts_with data [CHR 0xFE, CHR 0xFF] \<or> str_starts_with data [CHR 0xFF, CHR 0xFE] then True
              else list_all text_byte (take (if 128 < f_gcount f' then 128 else f_gcount f') data)))"

definition mime_from_magic :: "string option \<Rightarrow> string option" where
  "mime_from_magic content =
     (case content of
        None \<Rightarrow> Some ''unknown''
      | Some s \<Rightarrow>
          (let (f1, got) = ifs_read (ifs_open s) 256;
               buf = got @ replicate (256 - length got) (CHR 0x00);
               size = f_gcount f1
           in if size < 256 \<and> snd (s_is_text_file (ifs_seekg f1 0)) then Some ''text/plain''
              else (case s_mime_search g_signatures_list (list_len g_signatures_list) buf of
                      None \<Rightarrow> None
                    | Some mime_type \<Rightarrow>
                        if mime_type = [] then s_mime_search g_signatures_list4 (list_len g_signatures_list4) (drop 4 buf)
                        else Some mime_type)))"

text \<open>A list of initialisers keeps the first entry of a key.\<close>

definition suffix_type :: "string \<Rightarrow> string option" where
  "suffix_type s = map_of g_suffix_hash s"

definition get_mime_type :: "string \<Rightarrow> string option \<Rightarrow> bool \<Rightarrow> string option" where
  "get_mime_type name content magic_first =
     (if magic_first then
        (case mime_from_magic content of
           None \<Rightarrow> None
         | Some type \<Rightarrow>
             if type \<noteq> ''unknown'' then Some type
             else (case str_rfind (CHR ''.'') (Algorithm.file_name name) of
                     None \<Rightarrow> Some type
                   | Some pos \<Rightarrow>
                       (case suffix_type (str_to_lower (drop pos (Algorithm.file_name name))) of
                          None \<Rightarrow> Some type
                        | Some t \<Rightarrow> Some t)))
      else
        (case str_rfind (CHR ''.'') (Algorithm.file_name name) of
           None \<Rightarrow> mime_from_magic content
         | Some pos \<Rightarrow>
             (case suffix_type (str_to_lower (drop pos (Algorithm.file_name name))) of
                None \<Rightarrow> mime_from_magic content
              | Some t \<Rightarrow> Some t)))"

definition is_text_file :: "string option \<Rightarrow> bool" where
  "is_text_file content =
     (case content of
        Some s \<Rightarrow> (case s_is_text_file (ifs_open s) of (f, text) \<Rightarrow> True)
      | None \<Rightarrow> False)"

definition is_binary_file :: "string option \<Rightarrow> bool" where
  "is_binary_file content = is_text_file content"

section \<open>The encoding of a text file\<close>

text \<open>\<open>fgetc\<close> at the end of the data sets the end-of-file indicator and gives \<open>EOF\<close>, which as an \<open>unsigned char\<close> is 0xFF.\<close>

definition fgetc :: "string \<times> bool \<Rightarrow> char \<times> string \<times> bool" where
  "fgetc f = (case f of ([], _) \<Rightarrow> (CHR 0xFF, [], True) | (c # cs, e) \<Rightarrow> (c, cs, e))"

definition next_byte :: "string \<times> bool \<Rightarrow> char \<times> string \<times> bool" where
  "next_byte f = (if \<not> snd f then fgetc f else (CHR ''A'', f))"

definition get_text_file_encoding :: "string option \<Rightarrow> string" where
  "get_text_file_encoding content =
     (case content of
        None \<Rightarrow> ''unknown''
      | Some s \<Rightarrow>
          (let (b1, f1) = fgetc (s, False); (b2, f2) = next_byte f1; (b3, f3) = next_byte f2; (b4, f4) = next_byte f3
           in if b1 = CHR 0xEF \<and> b2 = CHR 0xBB \<and> b3 = CHR 0xBF then ''UTF-8''
              else if b1 = CHR 0xFF \<and> b2 = CHR 0xFE then ''UTF-16LE''
              else if b1 = CHR 0xFE \<and> b2 = CHR 0xFF then ''UTF-16BE''
              else if b1 = CHR 0xFF \<and> b2 = CHR 0xFE \<and> b3 = CHR 0x00 \<and> b4 = CHR 0x00 then ''UTF-32LE''
              else if b1 = CHR 0x00 \<and> b2 = CHR 0x00 \<and> b3 = CHR 0xFE \<and> b4 = CHR 0xFF then ''UTF-32BE''
              else ''unknown''))"

section \<open>The search\<close>

definition signs_sorted :: "signature list \<Rightarrow> string \<Rightarrow> bool" where
  "signs_sorted mimes buf = sorted_wrt (\<lambda>a b. sgn (signature_cmp buf b) \<le> sgn (signature_cmp buf a)) mimes"

lemma signs_sorted_nth:
  assumes "signs_sorted mimes buf" and "j \<le> k" and "k < length mimes"
  shows "sgn (signature_cmp buf (mimes ! k)) \<le> sgn (signature_cmp buf (mimes ! j))"
  using assms by (cases "j = k") (auto simp: signs_sorted_def sorted_wrt_iff_nth_less)

lemma middle_even: "a + b < 2 ^ 62 \<Longrightarrow> middle (2 * a) (2 * b) = 2 * ((a + b) div 2)"
  by (simp add: middle_def)

definition search_result :: "signature list \<Rightarrow> string \<Rightarrow> nat \<Rightarrow> nat \<Rightarrow> string option \<Rightarrow> bool" where
  "search_result mimes buf a b r =
     (\<exists>t. r = Some t \<and>
        ((\<exists>e \<in> set mimes. signature_cmp buf e = 0 \<and> t = snd (snd e)) \<or>
         t = ''unknown'' \<and> (signs_sorted mimes buf \<longrightarrow> (\<forall>j. a \<le> j \<and> j < b \<longrightarrow> signature_cmp buf (mimes ! j) \<noteq> 0))))"

lemma search_stop: "hi < lo \<Longrightarrow> search_loop mimes len buf lo hi = Some ''unknown''"
  by (subst search_loop.simps) (simp add: Let_def)

lemma double_less: "b \<le> k \<Longrightarrow> 0 < b \<Longrightarrow> 2 * b - 2 < 2 * (k :: nat)"
  by arith

text \<open>The loop on the entries from \<open>a\<close> up to, not including, \<open>b\<close>.\<close>

lemma search_loop_result:
  assumes "length mimes \<le> 2 ^ 60" and "b \<le> length mimes" and "a < b"
  shows "search_result mimes buf a b (search_loop mimes (list_len mimes) buf (2 * a) (2 * b - 2))"
  using assms(2,3)
proof (induction "b - a" arbitrary: a b rule: less_induct)
  case less
  let ?m = "(a + (b - 1)) div 2" and ?L = "search_loop mimes (list_len mimes) buf"
  have m: "a \<le> ?m" "?m < b" using less.prems by auto
  have i: "middle (2 * a) (2 * b - 2) = 2 * ?m"
    using middle_even [of a "b - 1"] assms(1) less.prems by (simp add: diff_mult_distrib2)
  have le: "2 * a \<le> 2 * b - 2" "2 * ?m \<le> list_len mimes" using m less.prems by (auto simp: list_len_def)
  let ?c = "signature_cmp buf (mimes ! ?m)"
  have step: "?L (2 * a) (2 * b - 2) =
      (if ?c = 0 then Some (snd (snd (mimes ! ?m)))
       else if 0 < ?c then ?L (2 * (?m + 1)) (2 * b - 2)
       else ?L (2 * a) (if ?m = 0 then 2 ^ 64 - 2 else 2 * ?m - 2))"
    using le by (subst search_loop.simps) (simp add: i Let_def)
  consider "?c = 0" | "0 < ?c" | "?c < 0" by linarith
  then show ?case
  proof cases
    case 1
    moreover have "mimes ! ?m \<in> set mimes" using m less.prems by (intro nth_mem) simp
    ultimately show ?thesis by (auto simp: step search_result_def)
  next
    case 2
    have low: "signature_cmp buf (mimes ! j) \<noteq> 0" if "signs_sorted mimes buf" "j \<le> ?m" for j
      using signs_sorted_nth [OF that] m less.prems 2 by (auto simp: sgn_if split: if_splits)
    show ?thesis
    proof (cases "?m + 1 < b")
      case True
      have "search_result mimes buf (?m + 1) b (?L (2 * (?m + 1)) (2 * b - 2))"
        using less.hyps [of b "?m + 1"] True m less.prems by linarith
      then show ?thesis using 2 low unfolding step search_result_def
        by (auto simp: not_le Suc_le_eq) (metis not_le)
    next
      case False
      then have "b \<le> ?m + 1" by (simp only: not_less)
      then have "?L (2 * (?m + 1)) (2 * b - 2) = Some ''unknown''"
        by (intro search_stop double_less) (use less.prems in simp_all)
      then show ?thesis using 2 low False m unfolding step search_result_def by auto
    qed
  next
    case 3
    have high: "signature_cmp buf (mimes ! j) \<noteq> 0" if "signs_sorted mimes buf" "?m \<le> j" "j < b" for j
      using signs_sorted_nth [OF that(1,2)] that(3) less.prems 3 by (auto simp: sgn_if split: if_splits)
    show ?thesis
    proof (cases "?m = 0")
      case True
      then have "a = 0" using m by simp
      have n: "\<not> 9223372036854775806 \<le> 2 * length mimes - 2" using assms(1) by simp
      with \<open>a = 0\<close> have "?L (2 * a) (2 ^ 64 - 2) = Some ''unknown''"
        using n by (subst search_loop.simps) (simp add: middle_def list_len_def)
      then show ?thesis using 3 high True unfolding step search_result_def by auto
    next
      case False
      show ?thesis
      proof (cases "a < ?m")
        case True
        have "search_result mimes buf a ?m (?L (2 * a) (2 * ?m - 2))"
          using less.hyps [of ?m a] True m less.prems by linarith
        then show ?thesis using 3 high False unfolding step search_result_def
          by auto (metis not_le)
      next
        case out: False
        then have "?L (2 * a) (2 * ?m - 2) = Some ''unknown''" using False m 
          by (intro search_stop double_less) simp_all
        then show ?thesis using 3 high False out m unfolding step search_result_def by auto
      qed
    qed
  qed
qed

lemma s_mime_search_result:
  assumes "mimes \<noteq> []" and "length mimes \<le> 2 ^ 60"
  shows "search_result mimes buf 0 (length mimes) (s_mime_search mimes (list_len mimes) buf)"
  using search_loop_result [OF assms(2), of "length mimes" 0] assms(1)
  by (simp add: s_mime_search_def list_len_def)

lemma signatures_length: "g_signatures_list \<noteq> []" "length g_signatures_list \<le> 2 ^ 60"
  by (simp_all add: g_signatures_list_def)

section \<open>Short files\<close>

lemma short_read:
  assumes "length s < n"
  shows "ifs_read (ifs_open s) n = (\<lparr>f_data = s, f_pos = length s, f_eof = True, f_fail = True, f_gcount = length s\<rparr>, s)"
  using assms by (simp add: ifs_read_def ifs_open_def)

lemma text_after_failed_seek: "snd (s_is_text_file (ifs_seekg f p))" if "f_fail f"
  using that by (simp add: s_is_text_file_def ifs_seekg_def ifs_read_def)

lemma mime_from_magic_short: "length s < 256 \<Longrightarrow> mime_from_magic (Some s) = Some ''text/plain''"
  by (simp add: mime_from_magic_def short_read text_after_failed_seek)

lemma mime_from_magic_long:
  assumes "256 \<le> length s"
  shows "mime_from_magic (Some s) = s_mime_search g_signatures_list (list_len g_signatures_list) (take 256 s)"
proof -
  obtain t where t: "s_mime_search g_signatures_list (list_len g_signatures_list) (take 256 s) = Some t"
      "t = ''unknown'' \<or> (\<exists>e \<in> set g_signatures_list. t = snd (snd e))"
    using s_mime_search_result [OF signatures_length, of "take 256 s"] unfolding search_result_def by blast
  have "list_all (\<lambda>e. snd (snd e) \<noteq> []) g_signatures_list" unfolding g_signatures_list_def by simp
  then have "t \<noteq> []" using t(2) by (auto simp: list_all_iff)
  then show ?thesis using assms t(1) by (simp add: mime_from_magic_def ifs_read_def ifs_open_def Let_def)
qed

section \<open>Types\<close>

definition known_types :: "string set" where
  "known_types = {''unknown'', ''text/plain''} \<union> snd ` set g_suffix_hash \<union> (\<lambda>e. snd (snd e)) ` set g_signatures_list"

lemma magic_known: "\<exists>t. mime_from_magic c = Some t \<and> t \<in> known_types"
proof (cases c)
  case None
  then show ?thesis by (simp add: mime_from_magic_def known_types_def)
next
  case (Some s)
  show ?thesis
  proof (cases "length s < 256")
    case True
    then show ?thesis by (simp add: Some mime_from_magic_short known_types_def)
  next
    case False
    then show ?thesis
      using s_mime_search_result [OF signatures_length, of "take 256 s"]
      by (auto simp: Some mime_from_magic_long search_result_def known_types_def)
  qed
qed

lemma suffix_known: "suffix_type s = Some t \<Longrightarrow> t \<in> known_types"
  by (force simp: suffix_type_def known_types_def dest: map_of_SomeD)

definition has_slash :: "string \<Rightarrow> bool" where
  "has_slash t = list_ex (\<lambda>c. c = CHR ''/'') t"

definition type_ok :: "string \<Rightarrow> bool" where
  "type_ok t = (has_slash t \<or> t = ''unknown'' \<or> t = ''interfacex-winamp-skin'')"

lemma suffixes_ok:
  "list_all (\<lambda>(k, t). type_ok t) suffixes_1" "list_all (\<lambda>(k, t). type_ok t) suffixes_2"
  "list_all (\<lambda>(k, t). type_ok t) suffixes_3" "list_all (\<lambda>(k, t). type_ok t) suffixes_4"
  "list_all (\<lambda>(k, t). type_ok t) suffixes_5" "list_all (\<lambda>(k, t). type_ok t) suffixes_6"
  unfolding suffixes_1_def suffixes_2_def suffixes_3_def suffixes_4_def suffixes_5_def suffixes_6_def
  by (simp_all add: type_ok_def has_slash_def)

lemma signatures_ok: "list_all (\<lambda>e. type_ok (snd (snd e))) g_signatures_list"
  unfolding g_signatures_list_def by (simp add: type_ok_def has_slash_def)

lemma known_type_ok: "t \<in> known_types \<Longrightarrow> type_ok t"
  using suffixes_ok signatures_ok
  by (auto simp: known_types_def g_suffix_hash_def list_all_iff, auto simp: type_ok_def has_slash_def)

text \<open>Single steps of the search, to follow it on given bytes.\<close>

lemma memcmp_step:
  "memcmp (x # xs) (y # ys) (numeral n) =
     (if x = y then memcmp xs ys (pred_numeral n) else if uchar x < uchar y then -1 else 1)"
  "memcmp (x # xs) (y # ys) (Suc k) = (if x = y then memcmp xs ys k else if uchar x < uchar y then -1 else 1)"
  by (simp_all add: numeral_eq_Suc less_char_def)

lemma search_up:
  assumes "lo \<le> hi" and "middle lo hi = 2 * j" and "2 * j \<le> len" and "0 < signature_cmp buf (mimes ! j)" and "lo' = 2 * j + 2"
  shows "search_loop mimes len buf lo hi = search_loop mimes len buf lo' hi"
  using assms by (subst search_loop.simps) (simp add: Let_def)

lemma search_down:
  assumes "lo \<le> hi" and "middle lo hi = 2 * j" and "2 * j \<le> len" and "signature_cmp buf (mimes ! j) < 0" and "hi' = 2 * j - 2" and "0 < j"
  shows "search_loop mimes len buf lo hi = search_loop mimes len buf lo hi'"
  using assms by (subst search_loop.simps) (simp add: Let_def)

lemma probes:
  "g_signatures_list ! 70 = (4, ''EIM '' @ [CHR 0x00], ''image/x-eim'')"
  "g_signatures_list ! 105 = (5, ''PFS1'' @ [CHR 0x0A, CHR 0x00], ''image/x-pfs'')"
  "g_signatures_list ! 123 = (19, ''[KDE Desktop Entry]'' @ [CHR 0x00], ''application/x-kdelnk'')"
  "g_signatures_list ! 127 = (11, ''filedesc://'' @ [CHR 0x00], ''application/x-ia-arc'')"
  "g_signatures_list ! 129 = (5, [CHR 0x0D] @ ''tf'' @ [CHR 0x00, CHR 0x00], ''text/rtf'')"
  "g_signatures_list ! 130 = (9, [CHR 0x89] @ ''LZO'' @ [CHR 0x00, CHR 0x0D, CHR 0x0A, CHR 0x1A, CHR 0x0A, CHR 0x00], ''application/x-lzop'')"
  "g_signatures_list ! 132 = (4, [CHR 0x8A] @ ''JNG'' @ [CHR 0x00], ''video/x-jng'')"
  "g_signatures_list ! 134 = (8, [CHR 0x89] @ ''HDF'' @ [CHR 0x0D, CHR 0x0A, CHR 0x1A, CHR 0x0A, CHR 0x00], ''application/x-hdf'')"
  by code_simp+

definition hdf_bytes :: string where
  "hdf_bytes = CHR 0x89 # ''HDF'' @ [CHR 0x0D, CHR 0x0A, CHR 0x1A, CHR 0x0A]"

lemma signatures_count: "length g_signatures_list = 141"
  by (simp add: g_signatures_list_def)

lemma hdf_listed:
  "\<exists>e \<in> set g_signatures_list. snd (snd e) = ''application/x-hdf'' \<and> signature_cmp (hdf_bytes @ z) e = 0"
proof (rule bexI)
  show "g_signatures_list ! 134 \<in> set g_signatures_list" by (rule nth_mem) (simp add: signatures_count)
  show "snd (snd (g_signatures_list ! 134)) = ''application/x-hdf'' \<and> signature_cmp (hdf_bytes @ z) (g_signatures_list ! 134) = 0"
    by (simp add: probes hdf_bytes_def signature_cmp_def memcmp_step)
qed

lemma hdf_not_found: "s_mime_search g_signatures_list (list_len g_signatures_list) (hdf_bytes @ z) = Some ''unknown''"
proof -
  let ?b = "hdf_bytes @ z" and ?g = "g_signatures_list"
  have l: "list_len ?g = 280" by (simp add: list_len_def signatures_count)
  have p: "0 < signature_cmp ?b (?g ! 70)" "0 < signature_cmp ?b (?g ! 105)" "0 < signature_cmp ?b (?g ! 123)"
    "signature_cmp ?b (?g ! 132) < 0" "0 < signature_cmp ?b (?g ! 127)" "0 < signature_cmp ?b (?g ! 129)"
    "signature_cmp ?b (?g ! 130) < 0"
    by (simp_all add: probes signature_cmp_def memcmp_step hdf_bytes_def)
  have "search_loop ?g 280 ?b 0 280 = search_loop ?g 280 ?b 142 280" by (rule search_up [where j = 70]) (simp_all add: middle_def p)
  also have "\<dots> = search_loop ?g 280 ?b 212 280" by (rule search_up [where j = 105]) (simp_all add: middle_def p)
  also have "\<dots> = search_loop ?g 280 ?b 248 280" by (rule search_up [where j = 123]) (simp_all add: middle_def p)
  also have "\<dots> = search_loop ?g 280 ?b 248 262" by (rule search_down [where j = 132]) (simp_all add: middle_def p)
  also have "\<dots> = search_loop ?g 280 ?b 256 262" by (rule search_up [where j = 127]) (simp_all add: middle_def p)
  also have "\<dots> = search_loop ?g 280 ?b 260 262" by (rule search_up [where j = 129]) (simp_all add: middle_def p)
  also have "\<dots> = search_loop ?g 280 ?b 260 258" by (rule search_down [where j = 130]) (simp_all add: middle_def p)
  also have "\<dots> = Some ''unknown''" by (rule search_stop) simp
  finally show ?thesis by (simp only: s_mime_search_def l)
qed

section \<open>Properties\<close>

text \<open>C24: The search in the signatures returns for every list and every buffer; what it returns is the type of a
  signature the buffer starts with, or \<open>unknown\<close>; and when the list is ordered with respect to the buffer
  it does find a signature if there is one.\<close>

theorem signature_search:
  assumes "mimes \<noteq> []" and "length mimes \<le> 2 ^ 60"
  shows "\<exists>t. s_mime_search mimes (list_len mimes) buf = Some t \<and>
    ((\<exists>e \<in> set mimes. signature_cmp buf e = 0 \<and> t = snd (snd e)) \<or>
     t = ''unknown'' \<and> (signs_sorted mimes buf \<longrightarrow> (\<forall>e \<in> set mimes. signature_cmp buf e \<noteq> 0)))"
  using s_mime_search_result [OF assms, of buf] unfolding search_result_def
  by (metis in_set_conv_nth zero_le)

theorem signature_search_witness:
  "\<exists>t. s_mime_search g_signatures_list (list_len g_signatures_list) ''%PDF-1.7'' = Some t \<and>
     ((\<exists>e \<in> set g_signatures_list. signature_cmp ''%PDF-1.7'' e = 0 \<and> t = snd (snd e)) \<or>
      t = ''unknown'' \<and> (signs_sorted g_signatures_list ''%PDF-1.7'' \<longrightarrow>
        (\<forall>e \<in> set g_signatures_list. signature_cmp ''%PDF-1.7'' e \<noteq> 0)))"
  by (rule signature_search) (rule signatures_length)+

text \<open>A file shorter than the 256 bytes of the buffer is always plain text when its contents are asked first: the
  short read leaves the stream failed, \<open>seekg\<close> does not reset that, so the second read gives nothing and
  nothing is text.\<close>

theorem short_files_are_text:
  assumes "length s < 256"
  shows "get_mime_type name (Some s) True = Some ''text/plain''"
  by (simp add: get_mime_type_def mime_from_magic_short [OF assms])

theorem short_files_are_text_witness:
  "get_mime_type ''a.png'' (Some (CHR 0x89 # ''PNG'' @ [CHR 0x0D, CHR 0x0A, CHR 0x1A, CHR 0x0A])) True = Some ''text/plain''"
  by (rule short_files_are_text) simp

text \<open>The signatures are not in the order that the search needs: a file that starts with the signature of HDF, which is
  in the list, is not recognised.\<close>

theorem signature_missed:
  "(\<exists>e \<in> set g_signatures_list. snd (snd e) = ''application/x-hdf'' \<and> signature_cmp (hdf_bytes @ z) e = 0) \<and>
   mime_from_magic (Some (hdf_bytes @ replicate 248 c @ r)) = Some ''unknown''"
proof -
  have h: "length hdf_bytes = 8" by (simp add: hdf_bytes_def)
  then have "256 \<le> length (hdf_bytes @ replicate 248 c @ r)" "take 256 (hdf_bytes @ replicate 248 c @ r) = hdf_bytes @ replicate 248 c"
    by simp_all
  then show ?thesis using hdf_listed [of z] mime_from_magic_long hdf_not_found by simp
qed

text \<open>The media type of a file is always one of the types of the tables, \<open>text/plain\<close> or \<open>unknown\<close>, whatever the
  name and the contents; each has the form type/subtype, except \<open>unknown\<close> and the type of \<open>.wsz\<close>, whose
  prefix lacks the slash.\<close>

theorem mime_types_known:
  "\<exists>t. get_mime_type name content magic_first = Some t \<and> t \<in> known_types \<and> type_ok t"
proof -
  obtain m where m: "mime_from_magic content = Some m" "m \<in> known_types" using magic_known by blast
  have "\<exists>t. get_mime_type name content magic_first = Some t \<and> t \<in> known_types"
    using m suffix_known by (auto simp: get_mime_type_def split: option.split)
  then show ?thesis using known_type_ok by blast
qed

end
