(* ===== verification/Uuid.thy ===== *)
theory Uuid
  imports ByteOrder Algorithm
begin

text \<open>
  \<open>gts/uuid.h\<close> and \<open>gts/uuid.cpp\<close>.

  The union is its sixteen bytes in memory; its members are readings of them, which for \<open>d0\<close>, \<open>d1\<close> and \<open>d2\<close>
  depend on the byte order \<open>e\<close> of the host.  \<open>sscanf\<close> with the conversions \<open>%08x\<close>, \<open>%04x\<close> and \<open>%02x\<close>
  is written out; the two random numbers of \<open>generate\<close> are arguments.
\<close>

datatype uuid = Uuid "u8 list"

fun uuid_bytes :: "uuid \<Rightarrow> u8 list" where
  "uuid_bytes (Uuid bs) = bs"

definition uuid_ok :: "uuid \<Rightarrow> bool" where
  "uuid_ok u = (length (uuid_bytes u) = 16)"

definition uuid_nil :: uuid where
  "uuid_nil = Uuid (replicate 16 0)"

definition uuid_d0 :: "endian \<Rightarrow> uuid \<Rightarrow> nat" where
  "uuid_d0 e u = of_bytes e (take 4 (uuid_bytes u))"

definition uuid_d1 :: "endian \<Rightarrow> uuid \<Rightarrow> nat" where
  "uuid_d1 e u = of_bytes e (take 2 (drop 4 (uuid_bytes u)))"

definition uuid_d2 :: "endian \<Rightarrow> uuid \<Rightarrow> nat" where
  "uuid_d2 e u = of_bytes e (take 2 (drop 6 (uuid_bytes u)))"

definition uuid_d3 :: "uuid \<Rightarrow> nat \<Rightarrow> nat" where
  "uuid_d3 u i = unat (uuid_bytes u ! (8 + i))"

section \<open>Printing\<close>

text \<open>\<open>%0wX\<close>.\<close>

definition hex_pad :: "nat \<Rightarrow> nat \<Rightarrow> string" where
  "hex_pad w n = replicate (w - length (hex_upper n)) (CHR ''0'') @ hex_upper n"

definition uuid_text :: "endian \<Rightarrow> uuid \<Rightarrow> string" where
  "uuid_text e u =
     hex_pad 8 (uuid_d0 e u) @ ''-'' @ hex_pad 4 (uuid_d1 e u) @ ''-'' @ hex_pad 4 (uuid_d2 e u) @ ''-'' @
     hex_pad 2 (uuid_d3 u 0) @ hex_pad 2 (uuid_d3 u 1) @ ''-'' @ hex_pad 2 (uuid_d3 u 2) @ hex_pad 2 (uuid_d3 u 3) @
     hex_pad 2 (uuid_d3 u 4) @ hex_pad 2 (uuid_d3 u 5) @ hex_pad 2 (uuid_d3 u 6) @ hex_pad 2 (uuid_d3 u 7)"

definition uuid_to_string :: "endian \<Rightarrow> uuid \<Rightarrow> bool \<Rightarrow> string" where
  "uuid_to_string e u parcel = (if parcel then ''{'' @ uuid_text e u @ ''}'' else uuid_text e u)"

section \<open>Reading\<close>

definition is_hex :: "char \<Rightarrow> bool" where
  "is_hex c = (case digit_val c of None \<Rightarrow> False | Some d \<Rightarrow> d < 16)"

text \<open>One conversion \<open>%0wx\<close>: the value and the rest of the text, or \<open>None\<close> when it does not match.\<close>

definition scan_hex :: "nat \<Rightarrow> string \<Rightarrow> (int \<times> string) option" where
  "scan_hex w s0 =
     (let s1 = dropWhile isspace s0;
          sign = (0 < w \<and> s1 \<noteq> [] \<and> (hd s1 = CHR ''-'' \<or> hd s1 = CHR ''+''));
          s2 = (if sign then tl s1 else s1);
          w2 = (if sign then w - 1 else w);
          base = (2 \<le> w2 \<and> (take 2 s2 = ''0x'' \<or> take 2 s2 = ''0X''));
          s3 = (if base then drop 2 s2 else s2);
          w3 = (if base then w2 - 2 else w2);
          ds = takeWhile is_hex (take w3 s3);
          v = int (digits_value 16 0 ds)
      in if ds = [] then None else Some ((if sign \<and> hd s1 = CHR ''-'' then - v else v), drop (length ds) s3))"

datatype scan_item = Lit char | Hex nat

text \<open>The values read before the first failure.\<close>

fun scan :: "scan_item list \<Rightarrow> string \<Rightarrow> int list" where
  "scan [] s = []"
| "scan (Lit c # is) s = (case s of [] \<Rightarrow> [] | x # xs \<Rightarrow> if x = c then scan is xs else [])"
| "scan (Hex w # is) s = (case scan_hex w s of None \<Rightarrow> [] | Some (v, r) \<Rightarrow> v # scan is r)"

definition uuid_format :: "scan_item list" where
  "uuid_format =
     [Hex 8, Lit (CHR ''-''), Hex 4, Lit (CHR ''-''), Hex 4, Lit (CHR ''-''), Hex 2, Hex 2, Lit (CHR ''-''),
      Hex 2, Hex 2, Hex 2, Hex 2, Hex 2, Hex 2]"

definition parcel_format :: "scan_item list" where
  "parcel_format = Lit (CHR ''{'') # uuid_format @ [Lit (CHR ''}'')]"

text \<open>The values are stored into the members one after the other.\<close>

fun store :: "endian \<Rightarrow> nat list \<Rightarrow> int list \<Rightarrow> u8 list \<Rightarrow> u8 list" where
  "store e (w # ws) (v # vs) bs = bytes_of e w (nat (v mod 256 ^ w)) @ store e ws vs (drop w bs)"
| "store e ws vs bs = bs"

definition member_sizes :: "nat list" where
  "member_sizes = [4, 2, 2, 1, 1, 1, 1, 1, 1, 1, 1]"

definition uuid_assign :: "endian \<Rightarrow> uuid \<Rightarrow> string \<Rightarrow> uuid" where
  "uuid_assign e u s =
     (if length s = 38 then Uuid (store e member_sizes (scan uuid_format s) (uuid_bytes u))
      else if length s = 40 then Uuid (store e member_sizes (scan parcel_format s) (uuid_bytes u))
      else u)"

definition uuid_of_string :: "endian \<Rightarrow> string \<Rightarrow> uuid" where
  "uuid_of_string e s = uuid_assign e uuid_nil s"

section \<open>Generating and comparing\<close>

definition uuid_generate :: "endian \<Rightarrow> u64 \<Rightarrow> u64 \<Rightarrow> uuid" where
  "uuid_generate e a b =
     (let bs = bytes_of e 8 (unat a) @ bytes_of e 8 (unat b);
          bs1 = bs[8 := (bs ! 8 AND 0x3F) OR 0x80]
      in Uuid (bs1[7 := (bs1 ! 7 AND 0x0F) OR 0x40]))"

definition uuid_eq :: "uuid \<Rightarrow> uuid \<Rightarrow> bool" where
  "uuid_eq u v = (memcmp (uuid_bytes v) (uuid_bytes u) 16 = 0)"

definition uuid_ne :: "uuid \<Rightarrow> uuid \<Rightarrow> bool" where
  "uuid_ne u v = (\<not> uuid_eq u v)"

definition uuid_lt :: "uuid \<Rightarrow> uuid \<Rightarrow> bool" where
  "uuid_lt u v = (memcmp (uuid_bytes u) (uuid_bytes v) 16 < 0)"

definition uuid_gt :: "uuid \<Rightarrow> uuid \<Rightarrow> bool" where
  "uuid_gt u v = (0 < memcmp (uuid_bytes u) (uuid_bytes v) 16)"

text \<open>The order of the values, which the library's classes know.\<close>

instantiation uuid :: linorder
begin

definition less_uuid :: "uuid \<Rightarrow> uuid \<Rightarrow> bool" where
  "less_uuid u v = (uuid_bytes u < uuid_bytes v)"

definition less_eq_uuid :: "uuid \<Rightarrow> uuid \<Rightarrow> bool" where
  "less_eq_uuid u v = (uuid_bytes u \<le> uuid_bytes v)"

instance
proof
  fix x y :: uuid
  show "x \<le> y \<Longrightarrow> y \<le> x \<Longrightarrow> x = y" by (cases x; cases y) (simp add: less_eq_uuid_def)
qed (auto simp: less_uuid_def less_eq_uuid_def)

end

lemma memcmp_order:
  "length a = n \<Longrightarrow> length b = n \<Longrightarrow> (memcmp a b n = 0) = (a = b) \<and> (memcmp a b n < 0) = (a < b) \<and> (0 < memcmp a b n) = (b < a)"
proof (induction a b n rule: memcmp.induct)
  case (2 a b n)
  then obtain x xs y ys where "a = x # xs" "b = y # ys" by (metis length_Suc_conv)
  with 2 show ?case by (auto simp: not_less_iff_gr_or_eq)
qed simp

text \<open>The operators compare the sixteen bytes as one big-endian number: they are the equality and the
  linear order of the library's class on the values.\<close>

theorem uuid_compare:
  assumes "uuid_ok u" and "uuid_ok v"
  shows "uuid_eq u v = (u = v) \<and> uuid_ne u v = (u \<noteq> v) \<and> uuid_lt u v = (u < v) \<and> uuid_gt u v = (v < u)"
proof -
  have "(uuid_bytes u = uuid_bytes v) = (u = v)" by (cases u; cases v) simp
  with memcmp_order [of "uuid_bytes u" 16 "uuid_bytes v"] memcmp_order [of "uuid_bytes v" 16 "uuid_bytes u"] assms show ?thesis
    by (auto simp: uuid_ok_def uuid_eq_def uuid_ne_def uuid_lt_def uuid_gt_def less_uuid_def)
qed

theorem uuid_compare_witness:
  "uuid_eq uuid_nil (Uuid (1 # replicate 15 0)) = (uuid_nil = Uuid (1 # replicate 15 0)) \<and>
   uuid_ne uuid_nil (Uuid (1 # replicate 15 0)) = (uuid_nil \<noteq> Uuid (1 # replicate 15 0)) \<and>
   uuid_lt uuid_nil (Uuid (1 # replicate 15 0)) = (uuid_nil < Uuid (1 # replicate 15 0)) \<and>
   uuid_gt uuid_nil (Uuid (1 # replicate 15 0)) = (Uuid (1 # replicate 15 0) < uuid_nil)"
  by (rule uuid_compare) (simp_all add: uuid_ok_def uuid_nil_def)

section \<open>Printing and reading back\<close>

lemma is_hex_digit: "d < 16 \<Longrightarrow> is_hex (digit_char d)"
  by (simp add: is_hex_def digit_val_digit_char)

lemma hex_pad_length: "n < 16 ^ w \<Longrightarrow> 0 < w \<Longrightarrow> length (hex_pad w n) = w"
  using hex_upper_length [of n w] by (simp add: hex_pad_def)

lemma hex_pad_chars: "c \<in> set (hex_pad w n) \<Longrightarrow> \<exists>d < 16. c = digit_char d"
proof -
  assume c: "c \<in> set (hex_pad w n)"
  have "CHR ''0'' = digit_char 0" by code_simp
  then have "c \<in> set (hex_upper n) \<or> c = digit_char 0" using c by (auto simp: hex_pad_def)
  then show ?thesis using hex_upper_chars [of c n] by (metis zero_less_numeral)
qed

lemma hex_pad_value: "digits_value 16 0 (hex_pad w n) = n"
proof -
  have z: "digits_value 16 0 (replicate k (CHR ''0'')) = 0" for k
    by (induction k) (simp_all add: digit_val_def)
  have "\<forall>c \<in> set (replicate k (CHR ''0'')). \<exists>d < 16. digit_val c = Some d" for k by (simp add: digit_val_def)
  then have "digits_value 16 0 (hex_pad w n) = digits_value 16 0 (hex_upper n)"
    unfolding hex_pad_def by (subst digits_value_append) (auto simp: z)
  then show ?thesis by (simp add: hex_upper_def digits_value_radix)
qed

text \<open>A printed member is read back, whatever follows it.\<close>

lemma scan_hex_pad:
  assumes "n < 16 ^ w" and "2 \<le> w"
  shows "scan_hex w (hex_pad w n @ r) = Some (int n, r)"
proof -
  let ?p = "hex_pad w n"
  have len: "length ?p = w" using assms by (intro hex_pad_length) auto
  have dig: "\<exists>d < 16. c = digit_char d" if "c \<in> set ?p" for c using hex_pad_chars [OF that] .
  obtain a b t where p: "?p = a # b # t" using len assms(2) by (cases ?p; cases "tl ?p") auto
  obtain d where d: "d < 16" "a = digit_char d" using dig p by auto
  then have a: "\<not> isspace a" "a \<noteq> CHR ''-''" "a \<noteq> CHR ''+''" using digit_char_not_special [of d] by auto
  obtain d' where d': "d' < 16" "b = digit_char d'" using dig p by auto
  have b: "b \<noteq> CHR ''x''" "b \<noteq> CHR ''X''"
    using d' digit_char_uchar [OF d'(1)] by (auto split: if_splits)
  have h: "list_all is_hex ?p" using dig is_hex_digit by (auto simp: list_all_iff)
  have tw: "takeWhile is_hex (take w (?p @ r)) = ?p" "takeWhile is_hex ?p = ?p"
    using h len by (simp_all add: list_all_iff takeWhile_eq_all_conv)
  have "dropWhile isspace (?p @ r) = ?p @ r" "hd (?p @ r) = a" "take 2 (?p @ r) = [a, b]" "?p \<noteq> []" using p a by simp_all
  then show ?thesis
    using a b len by (simp add: scan_hex_def Let_def hex_pad_value tw del: take_append)
qed

lemma uuid_split:
  assumes "uuid_ok u"
  obtains a b c d where "uuid_bytes u = a @ b @ c @ d" "length a = 4" "length b = 2" "length c = 2" "length d = 8"
proof -
  have "uuid_bytes u = take 4 (uuid_bytes u) @ take 2 (drop 4 (uuid_bytes u)) @ take 2 (drop 6 (uuid_bytes u)) @ drop 8 (uuid_bytes u)"
    using append_take_drop_id [of 4 "uuid_bytes u"] append_take_drop_id [of 2 "drop 4 (uuid_bytes u)"]
      append_take_drop_id [of 2 "drop 6 (uuid_bytes u)"] by simp
  with that [of "take 4 (uuid_bytes u)" "take 2 (drop 4 (uuid_bytes u))" "take 2 (drop 6 (uuid_bytes u))" "drop 8 (uuid_bytes u)"]
    assms show ?thesis by (simp add: uuid_ok_def)
qed

lemma of_bytes_less: "of_bytes e bs < 256 ^ length bs"
  using bytes_of_of_bytes [of bs "length bs" e] of_bytes_bytes_of [of e "length bs" "of_bytes e bs"]
  by (metis mod_less_divisor zero_less_numeral zero_less_power)

lemma uuid_member_bounds:
  "uuid_ok u \<Longrightarrow> uuid_d0 e u < 16 ^ 8" "uuid_ok u \<Longrightarrow> uuid_d1 e u < 16 ^ 4"
  "uuid_ok u \<Longrightarrow> uuid_d2 e u < 16 ^ 4" "uuid_ok u \<Longrightarrow> uuid_d3 u i < 16 ^ 2"
  using of_bytes_less [of e "take 4 (uuid_bytes u)"] of_bytes_less [of e "take 2 (drop 4 (uuid_bytes u))"]
    of_bytes_less [of e "take 2 (drop 6 (uuid_bytes u))"] unat_u8_less [of "uuid_bytes u ! (8 + i)"]
  by (simp_all add: uuid_ok_def uuid_d0_def uuid_d1_def uuid_d2_def uuid_d3_def)

lemma uuid_pads:
  assumes "uuid_ok u"
  shows "length (hex_pad 8 (uuid_d0 e u)) = 8" "length (hex_pad 4 (uuid_d1 e u)) = 4" "length (hex_pad 4 (uuid_d2 e u)) = 4"
    "length (hex_pad 2 (uuid_d3 u i)) = 2"
  by (rule hex_pad_length, rule uuid_member_bounds [OF assms], simp)+

lemma uuid_scans:
  assumes "uuid_ok u"
  shows "scan_hex 8 (hex_pad 8 (uuid_d0 e u) @ r) = Some (int (uuid_d0 e u), r)"
    "scan_hex 4 (hex_pad 4 (uuid_d1 e u) @ r) = Some (int (uuid_d1 e u), r)"
    "scan_hex 4 (hex_pad 4 (uuid_d2 e u) @ r) = Some (int (uuid_d2 e u), r)"
    "scan_hex 2 (hex_pad 2 (uuid_d3 u i) @ r) = Some (int (uuid_d3 u i), r)"
  by (rule scan_hex_pad, rule uuid_member_bounds [OF assms], simp)+

lemma uuid_text_length: "uuid_ok u \<Longrightarrow> length (uuid_text e u) = 36"
  by (simp add: uuid_text_def uuid_pads)

lemma scan_uuid_text:
  assumes "uuid_ok u"
  shows "scan (uuid_format @ fs) (uuid_text e u @ r) =
    map int [uuid_d0 e u, uuid_d1 e u, uuid_d2 e u, uuid_d3 u 0, uuid_d3 u 1, uuid_d3 u 2, uuid_d3 u 3, uuid_d3 u 4,
      uuid_d3 u 5, uuid_d3 u 6, uuid_d3 u 7] @ scan fs r"
  using assms by (simp add: uuid_format_def uuid_text_def uuid_scans)

lemma store_uuid:
  assumes "uuid_ok u" and "length bs = 16"
  shows "store e member_sizes (map int [uuid_d0 e u, uuid_d1 e u, uuid_d2 e u, uuid_d3 u 0, uuid_d3 u 1, uuid_d3 u 2,
      uuid_d3 u 3, uuid_d3 u 4, uuid_d3 u 5, uuid_d3 u 6, uuid_d3 u 7]) bs = uuid_bytes u"
proof -
  obtain a b c d where s: "uuid_bytes u = a @ b @ c @ d" "length a = 4" "length b = 2" "length c = 2" "length d = 8"
    using uuid_split [OF assms(1)] .
  have one: "bytes_of e (Suc 0) (nat (uint x mod 256)) = [x]" for x :: u8
  proof -
    have "nat (uint x mod 256) = unat x" using unat_u8_less [of x] by (simp add: nat_mod_distrib)
    then show ?thesis by (cases e) (simp_all add: bytes_of_def le_bytes_def)
  qed
  obtain d0 d1 d2 d3 d4 d5 d6 d7 where d: "d = [d0, d1, d2, d3, d4, d5, d6, d7]"
    using s(5) by (auto simp: length_Suc_conv numeral_eq_Suc)
  have m: "of_bytes e a mod 4294967296 = of_bytes e a" "of_bytes e b mod 65536 = of_bytes e b" "of_bytes e c mod 65536 = of_bytes e c"
    using of_bytes_less [of e a] of_bytes_less [of e b] of_bytes_less [of e c] s by simp_all
  have r: "bytes_of e 4 (of_bytes e a) = a" "bytes_of e 2 (of_bytes e b) = b" "bytes_of e 2 (of_bytes e c) = c"
    using bytes_of_of_bytes [of a 4 e] bytes_of_of_bytes [of b 2 e] bytes_of_of_bytes [of c 2 e] s by simp_all
  have w: "bytes_of e n (nat (int x mod 256 ^ n)) = bytes_of e n (x mod 256 ^ n)" for n x
    by (simp add: nat_mod_distrib nat_power_eq)
  have f: "uuid_d0 e u = of_bytes e a" "uuid_d1 e u = of_bytes e b" "uuid_d2 e u = of_bytes e c"
    using s by (simp_all add: uuid_d0_def uuid_d1_def uuid_d2_def)
  have u3: "uuid_d3 u i = unat (d ! i)" if "i < 8" for i
    using s that by (simp add: uuid_d3_def nth_append)
  have u: "unat x mod 256 = unat x" for x :: u8 using unat_u8_less [of x] by simp
  show ?thesis
    using s(1-4) assms(2) w [of 4] w [of 2] w [of 1]
    by (simp add: member_sizes_def f u3 d m one r u)
qed

text \<open>Printed identifiers are not read back.  What \<open>to_string\<close> gives has 36 characters, 38 with the
  braces, but the reader expects 38 and 40: it takes the first for no identifier and fails on the
  brace of the second, so reading back gives the nil value.  With two more characters behind the
  text either form is read back exactly.\<close>

theorem uuid_read_back:
  assumes "uuid_ok u" and "length pad = 2"
  shows "uuid_of_string e (uuid_to_string e u parcel) = uuid_nil \<and>
    uuid_of_string e (uuid_to_string e u parcel @ pad) = u"
proof -
  have len: "length (uuid_text e u) = 36" using uuid_text_length [OF assms(1)] .
  have nil: "length (uuid_bytes uuid_nil) = 16" by (simp add: uuid_nil_def)
  have brace: "scan uuid_format (''{'' @ uuid_text e u @ ''}'') = []"
    by (simp add: uuid_format_def scan_hex_def isspace_def is_hex_def digit_val_def Let_def)
  have none: "store e member_sizes [] bs = bs" for bs by (simp add: member_sizes_def)
  have "uuid_of_string e (uuid_to_string e u parcel) = uuid_nil"
    using len brace by (simp add: uuid_of_string_def uuid_assign_def uuid_to_string_def none) (simp add: uuid_nil_def)
  moreover have "Uuid (uuid_bytes u) = u" by (cases u) simp
  moreover have "scan parcel_format (''{'' @ uuid_text e u @ ''}'' @ pad) = scan uuid_format (uuid_text e u @ r)" for r
    using scan_uuid_text [OF assms(1), of "[Lit (CHR ''}'')]" e "''}'' @ pad"] scan_uuid_text [OF assms(1), of "[]" e r]
    by (simp add: parcel_format_def)
  moreover have "Uuid (store e member_sizes (scan uuid_format (uuid_text e u @ r)) (uuid_bytes uuid_nil)) = u" for r
    using scan_uuid_text [OF assms(1), of "[]" e r] store_uuid [OF assms(1) nil] \<open>Uuid (uuid_bytes u) = u\<close> by simp
  ultimately show ?thesis
    using len assms(2) by (simp add: uuid_of_string_def uuid_assign_def uuid_to_string_def)
qed

theorem uuid_read_back_witness:
  "uuid_of_string Little (uuid_to_string Little (Uuid (1 # replicate 15 255)) True) = uuid_nil \<and>
   uuid_of_string Little (uuid_to_string Little (Uuid (1 # replicate 15 255)) True @ ''--'') = Uuid (1 # replicate 15 255)"
  by (rule uuid_read_back) (simp_all add: uuid_ok_def)

end
