(* ===== verification/AppInfo.thy ===== *)
theory AppInfo
  imports Algorithm
begin

text \<open>
  The names and paths of the running program: \<open>gts/application.cpp\<close>,
  \<open>gts/private/application_unix.cpp\<close> and \<open>gts/private/app_info.cpp\<close>.

  What the system calls deliver is an argument: the text of the link \<open>/proc/self/exe\<close>, the working
  directory, the variable \<open>HOME\<close> and the array \<open>environ\<close>.  The instance name is a global variable of
  the program and is passed along.
\<close>

definition set_instance_name :: "string \<Rightarrow> string" where
  "set_instance_name name =
     (let n = str_trimmed name in
      if n = [] then ''gts''
      else if list_ex (\<lambda>c. c = CHR ''/'' \<or> c = CHR 0x5C) n then ''gts'' else n)"

text \<open>\<open>readlink\<close> fills a buffer of 1024 zeros and writes no zero of its own: from a link of 1024 bytes
  on, the text is read past the end of the buffer (\<open>None\<close>).  A failed call leaves it empty.\<close>

definition exe_file_path :: "string option \<Rightarrow> string option" where
  "exe_file_path link =
     (case link of
        None \<Rightarrow> Some []
      | Some l \<Rightarrow> if length l < 1024 then Some l else None)"

definition dir_path :: "string \<Rightarrow> string" where
  "dir_path exe =
     (case str_rfind (CHR ''/'') exe of
        None \<Rightarrow> ''./''
      | Some i \<Rightarrow> if i = length exe - 1 then ''./'' else take (i + 1) exe)"

definition is_absolute_path :: "string \<Rightarrow> bool" where
  "is_absolute_path p = (str_starts_with p ''/'' \<or> str_starts_with p ''~/'')"

text \<open>\<open>None\<close>: \<open>HOME\<close> is needed and not set, and the program ends with a fatal message.\<close>

definition absolute_path :: "string \<Rightarrow> string option \<Rightarrow> string \<Rightarrow> string option" where
  "absolute_path exe home p =
     (if str_starts_with p ''/'' then Some p
      else if str_starts_with p ''~/'' then
        (case home of
           None \<Rightarrow> None
         | Some h \<Rightarrow> Some ((if str_ends_with h ''/'' then h else h @ ''/'') @ drop 2 p))
      else Some (dir_path exe @ p))"

text \<open>\<open>getcwd\<close> fails when the path does not fit into the buffer.\<close>

definition current_directory :: "string option \<Rightarrow> string" where
  "current_directory cwd =
     (let s = (case cwd of Some d \<Rightarrow> if length d < 1024 then d else [] | None \<Rightarrow> []) in
      if str_ends_with s ''/'' then s else s @ ''/'')"

text \<open>\<open>emplace\<close> keeps the entry that is there.\<close>

definition emplace :: "string \<Rightarrow> string \<Rightarrow> (string \<Rightarrow> string option) \<Rightarrow> (string \<Rightarrow> string option)" where
  "emplace k v m = (if m k = None then m(k \<mapsto> v) else m)"

fun getenvs_loop :: "string list \<Rightarrow> (string \<Rightarrow> string option) \<Rightarrow> (string \<Rightarrow> string option)" where
  "getenvs_loop [] m = m"
| "getenvs_loop (e # es) m =
     getenvs_loop es
       (case str_find ''='' e of
          None \<Rightarrow> emplace e [] m
        | Some i \<Rightarrow> emplace (take i e) (drop (i + 1) e) m)"

definition getenvs :: "string list \<Rightarrow> (string \<Rightarrow> string option)" where
  "getenvs environ = getenvs_loop environ (\<lambda>k. None)"

definition tmp_dir_path :: "string \<Rightarrow> string" where
  "tmp_dir_path inst = ''/tmp/gts3/'' @ inst @ ''/''"

definition lock_file_name :: "string \<Rightarrow> string" where
  "lock_file_name inst = tmp_dir_path inst @ ''pid.lock''"

section \<open>Instance names\<close>

lemma set_instance_name_no_slash: "CHR ''/'' \<notin> set (set_instance_name n)"
  by (auto simp: set_instance_name_def Let_def list_ex_iff)

lemma set_instance_name_not_Nil: "set_instance_name n \<noteq> []"
  by (simp add: set_instance_name_def Let_def)

lemma set_instance_name_idem: "set_instance_name (set_instance_name n) = set_instance_name n"
proof -
  have "str_trimmed (str_trimmed n) = str_trimmed n" by (simp add: str_trimmed_ref trim_ref_idem)
  moreover have "str_trimmed ''gts'' = ''gts''" by code_simp
  ultimately show ?thesis by (simp add: set_instance_name_def Let_def)
qed

text \<open>Each accepted name has a lock file of its own.\<close>

lemma lock_file_name_inj: "lock_file_name a = lock_file_name b \<longleftrightarrow> a = b"
  by (simp add: lock_file_name_def tmp_dir_path_def)

section \<open>Paths\<close>

lemma dir_path_prefix: "exe = CHR ''/'' # e \<Longrightarrow> exe \<noteq> ''/'' \<Longrightarrow> last exe \<noteq> CHR ''/'' \<Longrightarrow> prefix ''/'' (dir_path exe)"
proof -
  assume e: "exe = CHR ''/'' # e" "exe \<noteq> ''/''" "last exe \<noteq> CHR ''/''"
  obtain i where i: "str_rfind (CHR ''/'') exe = Some i" using e(1)
    by (cases "str_rfind (CHR ''/'') exe") (simp_all del: str_rfind.simps)
  from str_rfind_Some [OF i] have "exe ! i = CHR ''/''" "i < length exe" by auto
  with e(3) have "i \<noteq> length exe - 1" using e(1) by (metis last_conv_nth list.distinct(1))
  with e(1) i show ?thesis by (simp add: dir_path_def)
qed

lemma absolute_path_absolute:
  assumes "absolute_path exe home p = Some q" and "prefix ''/'' exe" "last exe \<noteq> CHR ''/''"
    and "home = None \<or> (\<exists>h. home = Some h \<and> prefix ''/'' h)"
  shows "prefix ''/'' q"
proof -
  have "prefix ''/'' (dir_path exe)"
    using assms(2,3) by (cases exe) (auto intro: dir_path_prefix)
  then show ?thesis using assms(1,4)
    by (auto simp: absolute_path_def str_starts_with_prefix split: if_splits option.splits
        intro: prefix_prefix)
qed

lemma absolute_path_idem:
  "absolute_path exe home p = Some q \<Longrightarrow> prefix ''/'' q \<Longrightarrow> absolute_path exe home q = Some q"
  by (simp add: absolute_path_def str_starts_with_prefix)

section \<open>The environment\<close>

lemma emplace_keeps [simp]: "m k = Some v \<Longrightarrow> emplace a b m k = Some v"
  by (auto simp: emplace_def)

lemma emplace_other [simp]: "a \<noteq> k \<Longrightarrow> emplace a b m k = m k"
  by (simp add: emplace_def)

lemma getenvs_loop_keeps: "m k = Some v \<Longrightarrow> getenvs_loop es m k = Some v"
  by (induction es arbitrary: m) (simp_all split: option.splits)

lemma getenvs_loop_skip:
  assumes "\<forall>e \<in> set es. \<not> prefix (k @ ''='') e \<and> e \<noteq> k" "m k = None"
  shows "\<exists>m'. getenvs_loop (es @ r) m = getenvs_loop r m' \<and> m' k = None"
  using assms
proof (induction es arbitrary: m)
  case (Cons e es)
  have "take i e \<noteq> k" if "str_find ''='' e = Some i" for i
  proof
    assume "take i e = k"
    moreover have "prefix ''='' (drop i e)" by (rule str_find_Some_prefix [OF that])
    ultimately have "prefix (k @ ''='') e" by (metis append_take_drop_id same_prefix_prefix)
    with Cons.prems(1) show False by simp
  qed
  moreover have "e \<noteq> k" using Cons.prems(1) by simp
  ultimately have "(case str_find ''='' e of None \<Rightarrow> emplace e [] m
      | Some i \<Rightarrow> emplace (take i e) (drop (i + 1) e) m) k = None"
    using Cons.prems(2) by (simp split: option.split)
  then show ?case using Cons.IH Cons.prems(1) by simp
qed auto

text \<open>A variable has the value of its first entry in \<open>environ\<close>.\<close>

lemma getenvs_entry:
  assumes "CHR ''='' \<notin> set k" "\<forall>e \<in> set es. \<not> prefix (k @ ''='') e \<and> e \<noteq> k"
  shows "getenvs (es @ (k @ ''='' @ v) # es') k = Some v"
proof -
  obtain m' where m': "getenvs_loop (es @ (k @ ''='' @ v) # es') (\<lambda>k. None) =
      getenvs_loop ((k @ ''='' @ v) # es') m'" "m' k = None"
    using getenvs_loop_skip [OF assms(2), of "\<lambda>k. None" "(k @ ''='' @ v) # es'"] by blast
  have "str_find ''='' (k @ ''='' @ v) = Some (length k)"
    using assms(1) by (subst str_find_char) (auto simp: takeWhile_append)
  with m' show ?thesis by (simp add: getenvs_def emplace_def getenvs_loop_keeps)
qed

end
