(* ===== verification/SaveFile.thy ===== *)
theory SaveFile
  imports HttpRequest AppInfo
begin

text \<open>
  Writing the body of a request to a file, \<open>save_file\<close> and \<open>save_file_part\<close> of \<open>gts/http/request.cpp\<close>,
  and what becomes of a chunked body that arrives in pieces.

  The disk is the contents of its files; which paths are directories, the errors of opening a file for
  writing, the path of the program and \<open>HOME\<close> are fields of \<open>save_env\<close>.  A file that is open takes all that
  is written, and a gap before the place of writing is filled with zeros.  The error code of the caller
  is taken to be clear before the call.  Positions are numbers below \<open>2 ^ 63\<close>.
\<close>

section \<open>Files\<close>

type_synonym disk = "string \<Rightarrow> string option"

record save_env =
  se_exe :: string
  se_home :: "string option"
  se_is_dir :: "string \<Rightarrow> bool"
  se_open_error :: "string \<Rightarrow> int option"

datatype save_error = No_error | Invalid_argument | No_such_file | Open_error int | Read_error

definition fs_exists :: "save_env \<Rightarrow> disk \<Rightarrow> string \<Rightarrow> bool" where
  "fs_exists env disk p = (disk p \<noteq> None \<or> se_is_dir env p)"

definition write_at :: "string \<Rightarrow> nat \<Rightarrow> string \<Rightarrow> string" where
  "write_at c pos s =
     (if s = [] then c
      else take pos (c @ replicate (pos - length c) (CHR 0x00)) @ s @ drop (pos + length s) c)"

section \<open>The two loops\<close>

text \<open>\<open>None\<close> is a fatal error or a call that does not return; \<open>pos\<close> is the position of the stream, \<open>c\<close> what
  the file holds.\<close>

partial_function (option) save_loop ::
  "request \<Rightarrow> string \<Rightarrow> nat \<Rightarrow> nat \<Rightarrow> string \<Rightarrow> nat \<Rightarrow> (request \<times> string \<times> nat \<times> bool) option" where
  "save_loop r buf room pos c n =
     (if \<not> can_read_body r then Some (r, c, n, False)
      else case read_body r buf room of
             None \<Rightarrow> None
           | Some (r', buf', res, err) \<Rightarrow>
               if err then Some (r', c, n, True)
               else if res = 0 then Some (r', c, n, False)
               else save_loop r' buf' room (pos + res) (write_at c pos (take res buf')) (n + res))"

partial_function (option) part_loop ::
  "request \<Rightarrow> string \<Rightarrow> nat \<Rightarrow> nat \<Rightarrow> string \<Rightarrow> nat \<Rightarrow> nat \<Rightarrow> (request \<times> string \<times> nat \<times> bool) option" where
  "part_loop r buf room pos c n left =
     (if \<not> can_read_body r then Some (r, c, n, False)
      else case read_body r buf room of
             None \<Rightarrow> None
           | Some (r', buf', res, err) \<Rightarrow>
               if err then Some (r', c, n, True)
               else if res = 0 then Some (r', c, n, False)
               else if left < res then Some (r', write_at c pos (take left buf'), n, False)
               else part_loop r' buf' room (pos + res) (write_at c pos (take res buf')) (n + res) (left - res))"

text \<open>What both do before: the name, the directory of the program, the existence of the file, and opening it, which
  empties it.  \<open>body\<close> is the loop, from the position \<open>begin\<close> on.\<close>

definition open_and_save ::
  "save_env \<Rightarrow> disk \<Rightarrow> request \<Rightarrow> string \<Rightarrow> nat \<Rightarrow>
   (request \<Rightarrow> string \<Rightarrow> nat \<Rightarrow> nat \<Rightarrow> string \<Rightarrow> nat \<Rightarrow> (request \<times> string \<times> nat \<times> bool) option) \<Rightarrow>
   (request \<times> disk \<times> nat \<times> save_error) option" where
  "open_and_save env disk r name pos body =
     (if name = [] then Some (r, disk, 0, Invalid_argument)
      else case absolute_path (se_exe env) (se_home env) name of
        None \<Rightarrow> None
      | Some p \<Rightarrow>
          if 0 < pos \<and> \<not> fs_exists env disk p then Some (r, disk, 0, No_such_file)
          else (case se_open_error env p of
             Some e \<Rightarrow> Some (r, disk, 0, Open_error e)
           | None \<Rightarrow>
               (case tcp_ip_buffer_size r of
                  None \<Rightarrow> None
                | Some room \<Rightarrow>
                    (case body r (replicate room (CHR 0x00)) room pos [] 0 of
                       None \<Rightarrow> None
                     | Some (r', c, n, err) \<Rightarrow>
                         Some (r', disk(p \<mapsto> c), n, if err then Read_error else No_error)))))"

definition save_file :: "save_env \<Rightarrow> disk \<Rightarrow> request \<Rightarrow> string \<Rightarrow> nat \<Rightarrow> (request \<times> disk \<times> nat \<times> save_error) option" where
  "save_file env disk r name pos = open_and_save env disk r name pos save_loop"

definition save_file_part ::
  "save_env \<Rightarrow> disk \<Rightarrow> request \<Rightarrow> string \<Rightarrow> nat \<Rightarrow> nat \<Rightarrow> (request \<times> disk \<times> nat \<times> save_error) option" where
  "save_file_part env disk r name total_size pos =
     open_and_save env disk r name pos (\<lambda>r buf room pos c n. part_loop r buf room pos c n total_size)"

section \<open>Bodies of a known length\<close>

lemma write_at_Nil [simp]: "write_at c pos [] = c"
  by (simp add: write_at_def)

lemma write_at_append: "write_at (write_at c pos a) (pos + length a) b = write_at c pos (a @ b)"
  by (auto simp: write_at_def min_def ac_simps)

lemma write_at_empty: "write_at [] pos a = (if a = [] then [] else replicate pos (CHR 0x00) @ a)"
  by (simp add: write_at_def)

text \<open>One round of the loops on a request in length mode.\<close>

lemma read_round:
  assumes "length_ok n r" "is_valid r" "0 < room" "0 < n"
  obtains r' buf' k err where "can_read_body r" "read_body r buf room = Some (r', buf', k, err)"
    "k \<le> n" "length_ok (n - k) r'" "is_valid r'" "pending r = take k buf' @ pending r'"
    "length (take k buf') = k" "err \<longrightarrow> k = 0" "\<not> err \<longrightarrow> 0 < k"
    "clean_request r \<longrightarrow> clean_request r' \<and> (err \<longrightarrow> pending r' = [])"
proof -
  obtain r' buf' k err where st: "read_body_length_mode r buf room = Some (r', buf', k, err)"
    "k \<le> n" "length_ok (n - k) r'" "same_head r r'" "pending r = take k buf' @ pending r'"
    "length (take k buf') = k" "err \<longrightarrow> k = 0" "\<not> err \<longrightarrow> 0 < k"
    using read_length_step [OF assms(1,4), of buf room] assms(3) by blast
  moreover have "can_read_body r" "read_body r buf room = Some (r', buf', k, err)"
    using assms st(1) by (auto simp: read_body_def read_body_mode_def length_ok_def can_read_body_def)
  moreover have "is_valid r'" using st(4) assms(2) by (simp add: same_head_def)
  moreover have "clean_request r \<longrightarrow> clean_request r' \<and> (err \<longrightarrow> pending r' = [])"
    using read_length_clean [OF assms(1) st(1)] by blast
  ultimately show ?thesis using that by blast
qed

lemma save_length:
  "length_ok n r \<Longrightarrow> is_valid r \<Longrightarrow> 0 < room \<Longrightarrow>
   \<exists>r' out err. save_loop r buf room pos c k = Some (r', write_at c pos out, k + length out, err) \<and>
     pending r = out @ pending r' \<and> (err \<or> length out = n \<and> m_rb_status r' = RB_finished) \<and>
     (clean_request r \<and> n \<le> length (pending r) \<longrightarrow> \<not> err)"
proof (induction n arbitrary: r buf pos c k rule: less_induct)
  case (less n)
  show ?case
  proof (cases "n = 0")
    case True
    with less.prems show ?thesis
      by (intro exI [of _ r] exI [of _ "[]"] exI [of _ False])
        (simp add: save_loop.simps [of r] can_read_body_def length_ok_def)
  next
    case False
    then have n: "0 < n" by simp
    obtain r' buf' j err where st: "can_read_body r" "read_body r buf room = Some (r', buf', j, err)"
      "j \<le> n" "length_ok (n - j) r'" "is_valid r'" "pending r = take j buf' @ pending r'"
      "length (take j buf') = j" "err \<longrightarrow> j = 0" "\<not> err \<longrightarrow> 0 < j"
      "clean_request r \<longrightarrow> clean_request r' \<and> (err \<longrightarrow> pending r' = [])"
      by (rule read_round [OF less.prems n, of buf])
    show ?thesis
    proof (cases err)
      case True
      with st n show ?thesis
        by (intro exI [of _ r'] exI [of _ "[]"] exI [of _ True]) (auto simp: save_loop.simps [of r])
    next
      case False
      with st(9) have j: "0 < j" by simp
      with n have "n - j < n" by simp
      from less.IH [OF this st(4,5) less.prems(3), of buf' "pos + j" "write_at c pos (take j buf')" "k + j"]
      obtain r2 out err' where ih:
        "save_loop r' buf' room (pos + j) (write_at c pos (take j buf')) (k + j) =
           Some (r2, write_at (write_at c pos (take j buf')) (pos + j) out, k + j + length out, err')"
        "pending r' = out @ pending r2" "err' \<or> length out = n - j \<and> m_rb_status r2 = RB_finished"
        "clean_request r' \<and> n - j \<le> length (pending r') \<longrightarrow> \<not> err'" by blast
      have "save_loop r buf room pos c k =
          Some (r2, write_at c pos (take j buf' @ out), k + length (take j buf' @ out), err')"
        using st(1,2,7) False j ih(1) write_at_append [of c pos "take j buf'" out]
        by (subst save_loop.simps) simp
      moreover have "pending r = (take j buf' @ out) @ pending r2" using st(6) ih(2) by simp
      moreover have "err' \<or> length (take j buf' @ out) = n \<and> m_rb_status r2 = RB_finished"
        using ih(3) st(3,7) by auto
      moreover have "clean_request r \<and> n \<le> length (pending r) \<longrightarrow> \<not> err'"
        using ih(4) st(6,7,10) by auto
      ultimately show ?thesis by blast
    qed
  qed
qed

text \<open>C7: Saving a body of known length.  When the socket delivers the body that \<open>Content-Length\<close> announces and the
  file can be opened, \<open>save_file\<close> returns the length of the body without an error and leaves the request
  finished; the file then holds the body from the position \<open>begin\<close> on and nothing else: what it held before that
  position is gone, replaced by zeros, although \<open>begin\<close> is there to continue a file.\<close>

lemma save_file_body:
  assumes "header_find (m_headers r0) hdr_content_length = Some v"
    and "r = (finish r0 body)\<lparr>m_socket := Some sk\<rparr>" and "is_valid r" "0 < sk_buffer_size sk" "clean sk"
    and "text = take (unat (get_u64 v)) body @ sk_stream sk" and "unat (get_u64 v) \<le> length text"
    and "name \<noteq> []" "absolute_path (se_exe env) (se_home env) name = Some p" "se_open_error env p = None"
    and "pos = 0 \<or> fs_exists env disk p"
  shows "\<exists>r'. save_file env disk r name pos =
      Some (r', disk(p \<mapsto> if unat (get_u64 v) = 0 then [] else replicate pos (CHR 0x00) @ take (unat (get_u64 v)) text),
        unat (get_u64 v), No_error) \<and> m_rb_status r' = RB_finished"
proof -
  let ?n = "unat (get_u64 v)" and ?buf = "replicate (sk_buffer_size sk) (CHR 0x00)"
  have ok: "length_ok ?n r" and t: "pending r = text"
    using finish_length [OF assms(1)] by (simp_all add: length_ok_def pending_def assms(2,6))
  have s: "tcp_ip_buffer_size r = Some (sk_buffer_size sk)" "clean_request r"
    using assms(5) by (simp_all add: tcp_ip_buffer_size_def clean_request_def assms(2))
  obtain r' out err where l: "save_loop r ?buf (sk_buffer_size sk) pos [] 0 = Some (r', write_at [] pos out, 0 + length out, err)"
    "text = out @ pending r'" "err \<or> length out = ?n \<and> m_rb_status r' = RB_finished"
    "clean_request r \<and> ?n \<le> length text \<longrightarrow> \<not> err"
    using save_length [OF ok assms(3,4), of ?buf pos "[]" 0] unfolding t by blast
  from l(4) s(2) assms(7) have "\<not> err" by simp
  with l(1-3) have o: "save_loop r ?buf (sk_buffer_size sk) pos [] 0 = Some (r', write_at [] pos out, 0 + length out, False)"
    "text = out @ pending r'" "length out = ?n" "m_rb_status r' = RB_finished" by simp_all
  from o(2,3) have "take ?n text = out" by simp
  then have c: "write_at [] pos out = (if ?n = 0 then [] else replicate pos (CHR 0x00) @ take ?n text)"
    using o(3) by (cases out) (simp_all add: write_at_empty)
  have "\<not> (0 < pos \<and> \<not> fs_exists env disk p)" using assms(11) by auto
  with o(1,3,4) c show ?thesis
    by (intro exI [of _ r']) (simp add: save_file_def open_and_save_def assms(8-10) s(1))
qed

definition upload_env :: save_env where
  "upload_env = \<lparr>se_exe = ''/opt/gts'', se_home = None, se_is_dir = (\<lambda>p. False), se_open_error = (\<lambda>p. None)\<rparr>"

definition upload_disk :: disk where
  "upload_disk = [''/tmp/f'' \<mapsto> ''123456'']"

definition upload_request :: request where
  "upload_request =
     request_new\<lparr>m_version := ''1.1'', m_path := ''/'', m_method := POST, m_headers := [(''Content-Length'', ''5'')]\<rparr>"

lemma upload_facts:
  "header_find (m_headers upload_request) hdr_content_length = Some ''5''" "unat (get_u64 ''5'') = 5"
  "is_valid ((finish upload_request ''ab'')\<lparr>m_socket := Some (tcp_new 4 [(''cde'', False)])\<rparr>)"
  "clean (tcp_new 4 [(''cde'', False)])" "sk_stream (tcp_new 4 [(''cde'', False)]) = ''cde''"
  "sk_buffer_size (tcp_new 4 [(''cde'', False)]) = 4"
proof -
  show "header_find (m_headers upload_request) hdr_content_length = Some ''5''" by code_simp
  have "dec 5 = ''5''" by code_simp
  then show "unat (get_u64 ''5'') = 5" using strtoul_dec [of 5] by (simp add: get_u64_def stoui64_def)
qed (simp_all add: is_valid_def upload_request_def request_new_def tcp_new_def clean_def sk_stream_def)

lemma save_file_body_witness:
  "\<exists>r'. save_file upload_env upload_disk
      ((finish upload_request ''ab'')\<lparr>m_socket := Some (tcp_new 4 [(''cde'', False)])\<rparr>) ''/tmp/f'' 2 =
    Some (r', upload_disk(''/tmp/f'' \<mapsto> [CHR 0x00, CHR 0x00] @ ''abcde''), 5, No_error)"
proof -
  have "absolute_path (se_exe upload_env) (se_home upload_env) ''/tmp/f'' = Some ''/tmp/f''"
    "se_open_error upload_env ''/tmp/f'' = None" "fs_exists upload_env upload_disk ''/tmp/f''"
    by (simp_all add: absolute_path_def str_starts_with_prefix upload_env_def fs_exists_def upload_disk_def)
  from save_file_body [OF upload_facts(1) refl upload_facts(3) _ upload_facts(4) refl _ _ this(1,2),
      where pos = 2 and disk = upload_disk] this(3)
  obtain r' where "save_file upload_env upload_disk
      ((finish upload_request ''ab'')\<lparr>m_socket := Some (tcp_new 4 [(''cde'', False)])\<rparr>) ''/tmp/f'' 2 =
    Some (r', upload_disk(''/tmp/f'' \<mapsto> replicate 2 (CHR 0x00) @ take 5 (take 5 ''ab'' @ ''cde'')), 5, No_error)"
    by (auto simp: upload_facts)
  moreover have "replicate 2 (CHR 0x00) @ take 5 (take 5 ''ab'' @ ''cde'') = [CHR 0x00, CHR 0x00] @ ''abcde''"
    by code_simp
  ultimately show ?thesis by auto
qed

section \<open>Bodies in parts\<close>

lemma part_length:
  "length_ok n r \<Longrightarrow> is_valid r \<Longrightarrow> 0 < room \<Longrightarrow> clean_request r \<Longrightarrow> n \<le> length (pending r) \<Longrightarrow> left < n \<Longrightarrow>
   \<exists>r' k' m. part_loop r buf room pos c k left = Some (r', write_at c pos (take left (pending r)), k', False) \<and>
     k' \<le> k + left \<and> left < m \<and> m \<le> n \<and> pending r' = drop m (pending r)"
proof (induction n arbitrary: r buf pos c k left rule: less_induct)
  case (less n)
  then have n: "0 < n" by simp
  obtain r' buf' j err where st: "can_read_body r" "read_body r buf room = Some (r', buf', j, err)"
    "j \<le> n" "length_ok (n - j) r'" "is_valid r'" "pending r = take j buf' @ pending r'"
    "length (take j buf') = j" "err \<longrightarrow> j = 0" "\<not> err \<longrightarrow> 0 < j"
    "clean_request r \<longrightarrow> clean_request r' \<and> (err \<longrightarrow> pending r' = [])"
    by (rule read_round [OF less.prems(1-3) n, of buf])
  have ne: "\<not> err" using st less.prems(4,5) n by auto
  with st(9) have j: "0 < j" by simp
  have d: "pending r' = drop j (pending r)" "take j buf' = take j (pending r)" using st(6,7) by simp_all
  show ?case
  proof (cases "left < j")
    case True
    have "take left buf' = take left (take j buf')" using True by (simp add: min_absorb1)
    then have "take left buf' = take left (pending r)" using True d(2) by (simp add: min_absorb1)
    with st(1-3) ne j True d show ?thesis
      by (intro exI [of _ r'] exI [of _ k] exI [of _ j]) (simp add: part_loop.simps [of r])
  next
    case False
    from j n have "n - j < n" by simp
    moreover have "n - j \<le> length (pending r')" using less.prems(5) d(1) by simp
    ultimately obtain r2 k' m where ih:
      "part_loop r' buf' room (pos + j) (write_at c pos (take j buf')) (k + j) (left - j) =
         Some (r2, write_at (write_at c pos (take j buf')) (pos + j) (take (left - j) (pending r')), k', False)"
      "k' \<le> k + j + (left - j)" "left - j < m" "m \<le> n - j" "pending r2 = drop m (pending r')"
      using less.IH [of "n - j" r' "left - j" buf' "pos + j" "write_at c pos (take j buf')" "k + j"]
        st(4,5,10) less.prems(3,4,6) False by force
    have w: "write_at (write_at c pos (take j buf')) (pos + j) (take (left - j) (pending r')) =
        write_at c pos (take left (pending r))"
      using write_at_append [of c pos "take j buf'" "take (left - j) (pending r')"] st(7) d False
      by (simp add: take_add [symmetric])
    have "part_loop r buf room pos c k left = Some (r2, write_at c pos (take left (pending r)), k', False)"
      using st(1,2) ne j False ih(1) w by (subst part_loop.simps) simp
    with ih(2-5) st(3) False d(1) show ?thesis
      by (intro exI [of _ r2] exI [of _ k'] exI [of _ "j + m"]) (auto simp: add.commute)
  qed
qed

text \<open>A part of a body costs the next part bytes.  When a part shorter than the body is saved, the file holds
  exactly its first \<open>total_size\<close> bytes, but more of the body than these has been taken from the request, at least
  one byte, which is in no file; and the count that is returned is at most the size of the part.\<close>

lemma save_part_loses:
  assumes "header_find (m_headers r0) hdr_content_length = Some v"
    and "r = (finish r0 body)\<lparr>m_socket := Some sk\<rparr>" and "is_valid r" "0 < sk_buffer_size sk" "clean sk"
    and "text = take (unat (get_u64 v)) body @ sk_stream sk" and "unat (get_u64 v) \<le> length text"
    and "name \<noteq> []" "absolute_path (se_exe env) (se_home env) name = Some p" "se_open_error env p = None"
    and "0 < sz" "sz < unat (get_u64 v)"
  shows "\<exists>r' k m. save_file_part env disk r name sz 0 = Some (r', disk(p \<mapsto> take sz text), k, No_error) \<and>
     k \<le> sz \<and> sz < m \<and> pending r' = drop m text"
proof -
  let ?n = "unat (get_u64 v)" and ?buf = "replicate (sk_buffer_size sk) (CHR 0x00)"
  have ok: "length_ok ?n r" and t: "pending r = text"
    using finish_length [OF assms(1)] by (simp_all add: length_ok_def pending_def assms(2,6))
  have s: "tcp_ip_buffer_size r = Some (sk_buffer_size sk)" "clean_request r"
    using assms(5) by (simp_all add: tcp_ip_buffer_size_def clean_request_def assms(2))
  obtain r' k m where o: "part_loop r ?buf (sk_buffer_size sk) 0 [] 0 sz = Some (r', write_at [] 0 (take sz text), k, False)"
    "k \<le> sz" "sz < m" "pending r' = drop m text"
    using part_length [OF ok assms(3,4) s(2) _ assms(12), of ?buf 0 "[]" 0] assms(7) unfolding t by auto
  moreover have "write_at [] 0 (take sz text) = take sz text" by (simp add: write_at_empty)
  ultimately show ?thesis using assms(8-10) s(1) by (auto simp: save_file_part_def open_and_save_def)
qed

lemma save_part_loses_witness:
  "\<exists>r' k m. save_file_part upload_env upload_disk
      ((finish upload_request ''ab'')\<lparr>m_socket := Some (tcp_new 4 [(''cde'', False)])\<rparr>) ''/tmp/f'' 3 0 =
    Some (r', upload_disk(''/tmp/f'' \<mapsto> ''abc''), k, No_error) \<and> pending r' = drop m ''abcde'' \<and> 3 < m"
proof -
  have "absolute_path (se_exe upload_env) (se_home upload_env) ''/tmp/f'' = Some ''/tmp/f''"
    "se_open_error upload_env ''/tmp/f'' = None"
    by (simp_all add: absolute_path_def str_starts_with_prefix upload_env_def)
  from save_part_loses [OF upload_facts(1) refl upload_facts(3) _ upload_facts(4) refl _ _ this, where sz = 3 and disk = upload_disk]
  show ?thesis by (force simp: upload_facts)
qed

section \<open>Chunked bodies that end inside a line\<close>

text \<open>Lines are taken from a buffer of the request, which is filled from the socket only when it is empty; in
  these states it holds the beginning of a line.\<close>

definition waiting_status :: "rb_status \<Rightarrow> bool" where
  "waiting_status s = (s = RB_wait_size \<or> s = RB_wait_content \<or> s = RB_wait_headers)"

definition stalled :: "request \<Rightarrow> bool" where
  "stalled r =
     (is_valid r \<and> waiting_status (m_rb_status r) \<and>
      (\<exists>abuf. m_rb_context r = Ctx_string abuf \<and> abuf \<noteq> [] \<and> str_find CRLF abuf = None \<and> length abuf < 1024))"

definition same_request :: "request \<Rightarrow> request \<Rightarrow> bool" where
  "same_request r r' =
     (m_socket r' = m_socket r \<and> m_version r' = m_version r \<and> m_path r' = m_path r \<and> m_method r' = m_method r)"

lemma same_request_refl [simp]: "same_request r r"
  by (simp add: same_request_def)

lemma same_request_trans: "same_request r r' \<Longrightarrow> same_request r' r'' \<Longrightarrow> same_request r r''"
  by (simp add: same_request_def)

lemma same_request_valid: "same_request r r' \<Longrightarrow> m_method r \<noteq> GET \<Longrightarrow> is_valid r' = is_valid r"
  by (simp add: same_request_def is_valid_def split: option.split)

lemma valid_fields [simp]:
  "is_valid (r\<lparr>m_body := b\<rparr>) = is_valid r"
  "is_valid (r\<lparr>m_rb_context := x\<rparr>) = is_valid r"
  "is_valid (r\<lparr>m_rb_context := x, m_body := b\<rparr>) = is_valid r"
  by (simp_all add: is_valid_def split: option.split)

lemma chunk_line_keeps:
  "chunk_line r sz l p = (r', sz', ctl) \<Longrightarrow> waiting_status (m_rb_status r) \<Longrightarrow>
   same_request r r' \<and> (ctl = Chunk_next \<longrightarrow> waiting_status (m_rb_status r')) \<and>
   (ctl = Chunk_break \<longrightarrow> m_rb_status r' = RB_chunked_end)"
  by (auto simp: chunk_line_def waiting_status_def same_request_def Let_def split: rb_status.splits option.splits if_splits prod.splits)

lemma chunk_loop_keeps:
  "chunk_loop r abuf sz = (r', rest, False) \<Longrightarrow> waiting_status (m_rb_status r) \<Longrightarrow>
   same_request r r' \<and>
   (m_rb_status r' = RB_chunked_end \<or>
    waiting_status (m_rb_status r') \<and> (rest = [] \<or> str_find CRLF rest = None \<and> length rest < 1024))"
proof (induction r abuf sz rule: chunk_loop.induct)
  case (1 r abuf sz)
  show ?case
  proof (cases "abuf = [] \<or> str_find CRLF abuf = None")
    case True
    with "1.prems" show ?thesis by (auto simp: chunk_loop.simps [of r abuf] split: if_splits)
  next
    case False
    then obtain pos where f: "abuf \<noteq> []" "str_find CRLF abuf = Some pos" by auto
    obtain r1 sz1 ctl where l: "chunk_line r sz (substr abuf 0 (pos + 2)) pos = (r1, sz1, ctl)"
      by (metis prod_cases3)
    note k = chunk_line_keeps [OF l "1.prems"(2)]
    show ?thesis
    proof (cases ctl)
      case Chunk_next
      with "1.prems"(1) f l have "chunk_loop r1 (drop (pos + 2) abuf) sz1 = (r', rest, False)"
        by (simp add: chunk_loop.simps [of r abuf])
      with "1.IH" [OF f l [symmetric] refl] Chunk_next k show ?thesis
        by (blast intro: same_request_trans)
    qed (use "1.prems"(1) f l k in \<open>auto simp: chunk_loop.simps [of r abuf]\<close>)
  qed
qed

lemma stalled_round:
  assumes "stalled r" "0 < room"
  shows "can_read_body r \<and> (\<exists>r' buf' k. read_body r buf room = Some (r', buf', k, False) \<and> stalled r' \<and>
    (m_body r = [] \<longrightarrow> r' = r \<and> k = 0))"
proof -
  obtain abuf where a: "is_valid r" "waiting_status (m_rb_status r)" "m_rb_context r = Ctx_string abuf" "abuf \<noteq> []"
    "str_find CRLF abuf = None" "length abuf < 1024"
    using assms(1) by (auto simp: stalled_def)
  have "chunk_loop q abuf 0 = (q, abuf, False)" for q using a(4-6) by (simp add: chunk_loop.simps [of q])
  with a assms(2) show ?thesis
    by (auto simp: can_read_body_def waiting_status_def read_body_def read_body_mode_def read_body_chunked_mode_def
        Let_def chunk_fill_def chunk_copy_out_def stalled_def)
qed

lemma stalled_never_returns:
  assumes "read_all_loop r buf room result = Some y"
  shows "\<not> (stalled r \<and> 0 < room)"
  using assms
proof (rule read_all_loop.raw_induct [where P = "\<lambda>r buf room result y. \<not> (stalled r \<and> 0 < room)", rotated])
  fix f :: "request \<Rightarrow> string \<Rightarrow> nat \<Rightarrow> string \<Rightarrow> (request \<times> string \<times> bool) option" and r buf room result y
  assume IH: "\<And>r buf room result y. f r buf room result = Some y \<Longrightarrow> \<not> (stalled r \<and> 0 < room)"
    and e: "(if \<not> can_read_body r then Some (r, result, False)
      else case read_body r buf room of
             None \<Rightarrow> None
           | Some (r', buf', res, err) \<Rightarrow>
               if err then Some (r', result, True)
               else if res = 0 then f r' buf' room result
               else f r' buf' room (result @ take res buf')) = Some y"
  show "\<not> (stalled r \<and> 0 < room)"
  proof
    assume s: "stalled r \<and> 0 < room"
    with stalled_round [of r room buf] obtain r' buf' k where rd: "can_read_body r"
      "read_body r buf room = Some (r', buf', k, False)" "stalled r'" by blast
    with e obtain q where "f r' buf' room q = Some y" by (cases "k = 0") auto
    from IH [OF this] rd(3) s show False by simp
  qed
qed

text \<open>C6: A chunked body that arrives with an unfinished line is never read to its end.  When the bytes that came
  with the head of a request end inside a line of the chunked body, \<open>read_all_body\<close> does not return,
  whatever the socket has still to deliver: the buffer of lines is not empty, so nothing more is received, and the
  loop goes round with nothing read and no error.\<close>

lemma unfinished_line_hangs:
  assumes "header_find (m_headers r0) hdr_content_length = None" "m_version r0 = ''1.1''"
    and "header_find (m_headers r0) hdr_transfer_encoding = Some ''chunked''" "m_method r0 \<noteq> GET"
    and "r = (finish r0 part)\<lparr>m_socket := Some sk\<rparr>" and "is_valid r" "0 < sk_buffer_size sk"
    and "part \<noteq> []" "chunk_loop r part 0 = (r', rest, False)" "rest \<noteq> []" "m_rb_status r' \<noteq> RB_chunked_end"
  shows "read_all_body r = None"
proof -
  have c: "m_body r = []" "m_rb_context r = Ctx_string part" "m_rb_status r = RB_wait_size"
    using finish_chunked [OF assms(1-3), of part] by (simp_all add: assms(5))
  have m: "m_method r \<noteq> GET" "m_socket r = Some sk" using assms(4) by (simp_all add: assms(5))
  define r1 where "r1 = r'\<lparr>m_rb_context := Ctx_string rest\<rparr>"
  have k: "same_request r r'" "waiting_status (m_rb_status r')" "str_find CRLF rest = None" "length rest < 1024"
    using chunk_loop_keeps [OF assms(9)] c(3) assms(10,11) by (auto simp: waiting_status_def)
  then have "is_valid r'" using same_request_valid [OF _ m(1)] assms(6) by blast
  then have st: "stalled (r'\<lparr>m_rb_context := Ctx_string rest, m_body := b\<rparr>)" for b
    using k assms(10) by (simp add: stalled_def)
  let ?room = "sk_buffer_size sk" and ?buf = "replicate 65536 (CHR 0x00)"
  have "r\<lparr>m_body := []\<rparr> = r" using c(1) by simp
  with assms(9) have b: "chunk_loop (r\<lparr>m_body := []\<rparr>) part 0 = (r', rest, False)" by simp
  have nend: "m_rb_status r' \<noteq> RB_chunked_end" by (rule assms(11))
  have rd: "can_read_body r" "\<exists>bd buf' j. read_body r ?buf ?room =
      Some (r'\<lparr>m_rb_context := Ctx_string rest, m_body := bd\<rparr>, buf', j, False)"
    using c assms(6,7,8) nend
    by (auto simp: b can_read_body_def read_body_def read_body_mode_def read_body_chunked_mode_def Let_def chunk_fill_def
        chunk_copy_out_def)
  then obtain bd buf' j where j: "read_body r ?buf ?room =
      Some (r'\<lparr>m_rb_context := Ctx_string rest, m_body := bd\<rparr>, buf', j, False)" by blast
  let ?r1 = "r'\<lparr>m_rb_context := Ctx_string rest, m_body := bd\<rparr>"
  have "read_all_loop ?r1 buf' ?room q = None" for q
    using stalled_never_returns [of ?r1 buf' ?room q] st assms(7) by (cases "read_all_loop ?r1 buf' ?room q") auto
  then have "read_all_loop r ?buf ?room [] = None"
    using rd(1) j by (subst read_all_loop.simps) simp
  then show ?thesis by (simp add: read_all_body_def tcp_ip_buffer_size_def m(2))
qed

definition stalled_request :: request where
  "stalled_request =
     request_new\<lparr>m_version := ''1.1'', m_path := ''/'', m_method := POST,
       m_headers := [(''Transfer-Encoding'', ''chunked'')]\<rparr>"

lemma unfinished_line_hangs_witness:
  "read_all_body ((finish stalled_request ''5'')\<lparr>m_socket := Some (tcp_new 64 [(CRLF @ ''hello'' @ CRLF, False)])\<rparr>) = None"
proof -
  let ?r = "(finish stalled_request ''5'')\<lparr>m_socket := Some (tcp_new 64 [(CRLF @ ''hello'' @ CRLF, False)])\<rparr>"
  have h: "header_find (m_headers stalled_request) hdr_content_length = None" "m_version stalled_request = ''1.1''"
    "header_find (m_headers stalled_request) hdr_transfer_encoding = Some ''chunked''" "m_method stalled_request \<noteq> GET"
    by code_simp+
  have v: "is_valid ?r" by (simp add: is_valid_def stalled_request_def request_new_def tcp_new_def)
  have f: "\<not> prefix CRLF ''5''" by (simp add: CRLF_def CR_def)
  have "chunk_loop q ''5'' 0 = (q, ''5'', False)" for q by (subst chunk_loop.simps) (simp add: f)
  moreover have "m_rb_status ?r \<noteq> RB_chunked_end" using finish_chunked [OF h(1-3), of "''5''"] by simp
  moreover have "0 < sk_buffer_size (tcp_new 64 [(CRLF @ ''hello'' @ CRLF, False)])" by (simp add: tcp_new_def)
  ultimately show ?thesis using unfinished_line_hangs [OF h refl v, of ?r "''5''"] by simp
qed

text \<open>\<open>save_file\<close> ends its loop there: the file is short, and no error is reported.\<close>

lemma stalled_save_ends:
  "stalled r \<Longrightarrow> m_body r = [] \<Longrightarrow> 0 < room \<Longrightarrow> save_loop r buf room pos c n = Some (r, c, n, False)"
  using stalled_round [of r room buf] by (subst save_loop.simps) fastforce

end
