(* ===== verification/LogQueue.thy ===== *)
theory LogQueue
  imports Prelude
begin

text \<open>
  The thread behind the asynchronous logger, class \<open>task_thread\<close> of \<open>gts/log.cpp\<close>, with its
  callers interleaved.

  One step of a thread is one access of an atomic flag, one call on the mutex or the condition
  variable, or one operation on the list under the mutex.  The messages are of any type; a message
  handed to \<open>_output\<close> is appended to \<open>q_written\<close>, with the flag \<open>async\<close> it is called with, and
  \<open>q_produced\<close> records the messages in the order in which \<open>produce\<close> appended them.
  \<open>condition_variable::wait\<close> releases the mutex and starts to wait in one step;
  \<open>notify_one\<close> wakes the waiting thread, and does nothing when no thread waits.  C++ allows a
  wait to end without a notification, and does not promise it: that step is kept apart.
  Unlocking a mutex that the thread does not own is undefined behaviour; \<open>q_fault\<close> records it, and
  the mutex is taken to be free afterwards, as it is with the mutexes of the platforms.
\<close>

datatype who = Worker | Client nat

datatype 'a wpc =
    W_top
  | W_lock
  | W_test
  | W_flag
  | W_sleep
  | W_blocked
  | W_woken
  | W_check
  | W_take
  | W_unlock 'a
  | W_output 'a
  | W_stop_lock
  | W_swap bool
  | W_release bool "'a list"
  | W_drain bool "'a list"
  | W_unlock_again
  | W_done

datatype 'a cpc = C_out | C_lock 'a | C_push 'a | C_unlock | C_notify

datatype dpc = D_none | D_notify | D_join | D_joined

record 'a task_thread =
  m_message_queue :: "'a list"
  m_mutex :: "who option"
  m_stop_flag :: bool
  m_wait_flag :: bool
  q_worker :: "'a wpc"
  q_clients :: "nat \<Rightarrow> 'a cpc"
  q_stopper :: dpc
  q_written :: "('a \<times> bool) list"
  q_produced :: "'a list"
  q_fault :: bool

text \<open>The constructor, when the thread has started.\<close>

definition task_thread_new :: "'a task_thread" where
  "task_thread_new = \<lparr>m_message_queue = [], m_mutex = None, m_stop_flag = False, m_wait_flag = False,
     q_worker = W_top, q_clients = (\<lambda>t. C_out), q_stopper = D_none, q_written = [], q_produced = [],
     q_fault = False\<rparr>"

section \<open>The thread\<close>

definition lock_mutex :: "who \<Rightarrow> 'a task_thread \<Rightarrow> 'a task_thread option" where
  "lock_mutex p s = (if m_mutex s = None then Some (s\<lparr>m_mutex := Some p\<rparr>) else None)"

definition unlock_mutex :: "who \<Rightarrow> 'a task_thread \<Rightarrow> 'a task_thread" where
  "unlock_mutex p s = s\<lparr>m_mutex := None, q_fault := (q_fault s \<or> m_mutex s \<noteq> Some p)\<rparr>"

text \<open>\<open>shutdown\<close>; \<open>again\<close> tells whether the caller holds a \<open>unique_lock\<close> whose destructor
  follows.\<close>

definition shutdown_step :: "'a task_thread \<Rightarrow> 'a task_thread option" where
  "shutdown_step s =
     (case q_worker s of
        W_swap again \<Rightarrow>
          Some (s\<lparr>m_message_queue := [], q_worker := W_release again (m_message_queue s)\<rparr>)
      | W_release again l \<Rightarrow> Some ((unlock_mutex Worker s)\<lparr>q_worker := W_drain again l\<rparr>)
      | W_drain again (x # l) \<Rightarrow>
          Some (s\<lparr>q_written := q_written s @ [(x, False)], q_worker := W_drain again l\<rparr>)
      | W_drain again [] \<Rightarrow> Some (s\<lparr>q_worker := (if again then W_unlock_again else W_done)\<rparr>)
      | _ \<Rightarrow> None)"

text \<open>The function that the thread runs; \<open>None\<close>: it waits, or it has returned.\<close>

definition worker_step :: "'a task_thread \<Rightarrow> 'a task_thread option" where
  "worker_step s =
     (case q_worker s of
        W_top \<Rightarrow> Some (s\<lparr>q_worker := (if m_stop_flag s then W_stop_lock else W_lock)\<rparr>)
      | W_lock \<Rightarrow> map_option (\<lambda>s. s\<lparr>q_worker := W_test\<rparr>) (lock_mutex Worker s)
      | W_test \<Rightarrow> Some (s\<lparr>q_worker := (if m_message_queue s = [] then W_flag else W_take)\<rparr>)
      | W_flag \<Rightarrow> Some (s\<lparr>m_wait_flag := False, q_worker := W_sleep\<rparr>)
      | W_sleep \<Rightarrow> Some ((unlock_mutex Worker s)\<lparr>q_worker := W_blocked\<rparr>)
      | W_blocked \<Rightarrow> None
      | W_woken \<Rightarrow> map_option (\<lambda>s. s\<lparr>q_worker := W_check\<rparr>) (lock_mutex Worker s)
      | W_check \<Rightarrow>
          Some (if m_stop_flag s then s\<lparr>q_worker := W_swap True\<rparr>
                else s\<lparr>m_wait_flag := True, q_worker := W_test\<rparr>)
      | W_take \<Rightarrow>
          (case m_message_queue s of
             [] \<Rightarrow> None
           | x # l \<Rightarrow> Some (s\<lparr>m_message_queue := l, q_worker := W_unlock x\<rparr>))
      | W_unlock x \<Rightarrow> Some ((unlock_mutex Worker s)\<lparr>q_worker := W_output x\<rparr>)
      | W_output x \<Rightarrow> Some (s\<lparr>q_written := q_written s @ [(x, True)], q_worker := W_top\<rparr>)
      | W_stop_lock \<Rightarrow> map_option (\<lambda>s. s\<lparr>q_worker := W_swap False\<rparr>) (lock_mutex Worker s)
      | W_unlock_again \<Rightarrow> Some ((unlock_mutex Worker s)\<lparr>q_worker := W_done\<rparr>)
      | W_done \<Rightarrow> None
      | _ \<Rightarrow> shutdown_step s)"

text \<open>\<open>m_condition.notify_one()\<close>.\<close>

definition notify_one :: "'a task_thread \<Rightarrow> 'a task_thread" where
  "notify_one s = (if q_worker s = W_blocked then s\<lparr>q_worker := W_woken\<rparr> else s)"

text \<open>A client calls \<open>produce\<close> with \<open>x\<close> and goes through it.\<close>

definition at_client :: "nat \<Rightarrow> 'a cpc \<Rightarrow> 'a task_thread \<Rightarrow> 'a task_thread" where
  "at_client t p s = s\<lparr>q_clients := (q_clients s)(t := p)\<rparr>"

definition produce_step :: "nat \<Rightarrow> 'a task_thread \<Rightarrow> 'a task_thread option" where
  "produce_step t s =
     (case q_clients s t of
        C_out \<Rightarrow> None
      | C_lock x \<Rightarrow> map_option (at_client t (C_push x)) (lock_mutex (Client t) s)
      | C_push x \<Rightarrow>
          Some (at_client t C_unlock
            (s\<lparr>m_message_queue := m_message_queue s @ [x], q_produced := q_produced s @ [x]\<rparr>))
      | C_unlock \<Rightarrow> Some (at_client t C_notify (unlock_mutex (Client t) s))
      | C_notify \<Rightarrow> Some (at_client t C_out (notify_one s)))"

text \<open>The destructor.\<close>

definition stop_step :: "'a task_thread \<Rightarrow> 'a task_thread option" where
  "stop_step s =
     (case q_stopper s of
        D_none \<Rightarrow> Some (s\<lparr>m_stop_flag := True, q_stopper := D_notify\<rparr>)
      | D_notify \<Rightarrow> Some ((notify_one s)\<lparr>q_stopper := D_join\<rparr>)
      | D_join \<Rightarrow> if q_worker s = W_done then Some (s\<lparr>q_stopper := D_joined\<rparr>) else None
      | D_joined \<Rightarrow> None)"

text \<open>The condition on which \<open>wait\<close> returns \<open>true\<close> before its time is over.\<close>

definition wait_over :: "'a task_thread \<Rightarrow> bool" where
  "wait_over s = (\<not> m_wait_flag s)"

section \<open>Interleavings\<close>

datatype 'a log_act = A_worker | A_call nat 'a | A_client nat | A_stop | A_spurious

fun log_next :: "'a task_thread \<Rightarrow> 'a log_act \<Rightarrow> 'a task_thread option" where
  "log_next s A_worker = worker_step s"
| "log_next s (A_call t x) = (if q_clients s t = C_out then Some (at_client t (C_lock x) s) else None)"
| "log_next s (A_client t) = produce_step t s"
| "log_next s A_stop = stop_step s"
| "log_next s A_spurious = (if q_worker s = W_blocked then Some (s\<lparr>q_worker := W_woken\<rparr>) else None)"

inductive log_reach :: "'a task_thread \<Rightarrow> bool" where
  log_start: "log_reach task_thread_new"
| log_more: "log_reach s \<Longrightarrow> log_next s a = Some s' \<Longrightarrow> log_reach s'"

fun log_exec :: "'a log_act list \<Rightarrow> 'a task_thread \<Rightarrow> 'a task_thread option" where
  "log_exec [] s = Some s"
| "log_exec (a # as) s = (case log_next s a of None \<Rightarrow> None | Some s' \<Rightarrow> log_exec as s')"

lemma log_exec_reach: "log_exec as s = Some s' \<Longrightarrow> log_reach s \<Longrightarrow> log_reach s'"
  by (induction as arbitrary: s) (auto split: option.splits intro: log_more)

lemmas log_mutex_defs = lock_mutex_def unlock_mutex_def notify_one_def at_client_def
lemmas log_step_defs = worker_step_def shutdown_step_def produce_step_def stop_step_def log_mutex_defs

text \<open>An invariant holds in every reachable state when each kind of step keeps it.\<close>

lemma log_invariant:
  assumes "log_reach s" and "P task_thread_new"
    and "\<And>s s'. P s \<Longrightarrow> worker_step s = Some s' \<Longrightarrow> P s'"
    and "\<And>s t x. P s \<Longrightarrow> q_clients s t = C_out \<Longrightarrow> P (at_client t (C_lock x) s)"
    and "\<And>s t s'. P s \<Longrightarrow> produce_step t s = Some s' \<Longrightarrow> P s'"
    and "\<And>s s'. P s \<Longrightarrow> stop_step s = Some s' \<Longrightarrow> P s'"
    and "\<And>s. P s \<Longrightarrow> q_worker s = W_blocked \<Longrightarrow> P (s\<lparr>q_worker := W_woken\<rparr>)"
  shows "P s"
  using assms(1)
proof induction
  case (log_more s a s')
  show ?case
  proof (cases a)
    case A_worker
    with log_more(2) show ?thesis by (intro assms(3) [OF log_more(3)]) simp
  next
    case (A_call t x)
    with log_more(2) have "q_clients s t = C_out" "s' = at_client t (C_lock x) s"
      by (simp_all split: if_splits)
    then show ?thesis using assms(4) log_more(3) by simp
  next
    case (A_client t)
    with log_more(2) show ?thesis by (intro assms(5) [OF log_more(3)]) simp
  next
    case A_stop
    with log_more(2) show ?thesis by (intro assms(6) [OF log_more(3)]) simp
  next
    case A_spurious
    with log_more(2) have "q_worker s = W_blocked" "s' = s\<lparr>q_worker := W_woken\<rparr>"
      by (simp_all split: if_splits)
    then show ?thesis using assms(7) log_more(3) by simp
  qed
qed (rule assms(2))

section \<open>First in, first out\<close>

text \<open>The messages that the thread has taken and not yet written.\<close>

fun in_work :: "'a wpc \<Rightarrow> 'a list" where
  "in_work (W_unlock x) = [x]"
| "in_work (W_output x) = [x]"
| "in_work (W_release again l) = l"
| "in_work (W_drain again l) = l"
| "in_work _ = []"

definition in_order :: "'a task_thread \<Rightarrow> bool" where
  "in_order s = (map fst (q_written s) @ in_work (q_worker s) @ m_message_queue s = q_produced s)"

lemma in_order_new: "in_order task_thread_new"
  by (simp add: in_order_def task_thread_new_def)

lemma in_order_worker: "in_order s \<Longrightarrow> worker_step s = Some s' \<Longrightarrow> in_order s'"
  by (cases "q_worker s")
    (auto simp: in_order_def log_step_defs split: if_splits list.splits)

lemma in_order_produce: "in_order s \<Longrightarrow> produce_step t s = Some s' \<Longrightarrow> in_order s'"
  by (cases "q_clients s t") (auto simp: in_order_def log_step_defs split: if_splits)

lemma in_order_stop: "in_order s \<Longrightarrow> stop_step s = Some s' \<Longrightarrow> in_order s'"
  by (cases "q_stopper s") (auto simp: in_order_def log_step_defs split: if_splits)

lemma reach_in_order: "log_reach s \<Longrightarrow> in_order s"
proof (erule log_invariant [where P = in_order, OF _ in_order_new])
  show "in_order (at_client t (C_lock x) s)" if "in_order s" for s :: "'a task_thread" and t x
    using that by (simp add: in_order_def at_client_def)
  show "in_order (s\<lparr>q_worker := W_woken\<rparr>)" if "in_order s" "q_worker s = W_blocked" for s :: "'a task_thread"
    using that by (simp add: in_order_def)
qed (auto intro: in_order_worker in_order_produce in_order_stop)

text \<open>A run with one caller: two messages, the first written and the second in the list.\<close>

definition log_run_busy :: "string log_act list" where
  "log_run_busy =
     [A_call 0 ''a'', A_client 0, A_client 0, A_client 0, A_client 0,
      A_worker, A_worker, A_worker, A_worker, A_worker,
      A_call 0 ''b'', A_client 0, A_client 0, A_client 0, A_client 0, A_worker]"

lemmas log_run_simps = task_thread_new_def worker_step_def shutdown_step_def produce_step_def stop_step_def
  lock_mutex_def unlock_mutex_def notify_one_def at_client_def

lemma log_run_busy_ends:
  "\<exists>s. log_exec log_run_busy task_thread_new = Some s \<and> log_reach s \<and> q_written s = [(''a'', True)] \<and>
     m_message_queue s = [''b''] \<and> q_worker s = W_top \<and> m_mutex s = None \<and> \<not> q_fault s"
proof -
  obtain s where s: "log_exec log_run_busy task_thread_new = Some s" "q_written s = [(''a'', True)]"
    "m_message_queue s = [''b'']" "q_worker s = W_top" "m_mutex s = None" "\<not> q_fault s"
    by (simp add: log_run_busy_def log_run_simps)
  with log_exec_reach [OF s(1) log_start] show ?thesis by blast
qed



section \<open>One thread at a time in the list\<close>

fun worker_holds :: "'a wpc \<Rightarrow> bool" where
  "worker_holds W_test = True"
| "worker_holds W_flag = True"
| "worker_holds W_sleep = True"
| "worker_holds W_check = True"
| "worker_holds W_take = True"
| "worker_holds (W_unlock x) = True"
| "worker_holds (W_swap a) = True"
| "worker_holds (W_release a l) = True"
| "worker_holds _ = False"

fun client_holds :: "'a cpc \<Rightarrow> bool" where
  "client_holds (C_push x) = True"
| "client_holds C_unlock = True"
| "client_holds _ = False"

definition exclusive :: "'a task_thread \<Rightarrow> bool" where
  "exclusive s =
     (if q_fault s then q_worker s = W_done
      else worker_holds (q_worker s) = (m_mutex s = Some Worker) \<and>
        (\<forall>t. client_holds (q_clients s t) = (m_mutex s = Some (Client t))))"

lemma exclusive_worker: "exclusive s \<Longrightarrow> worker_step s = Some s' \<Longrightarrow> exclusive s'"
  by (cases "q_worker s")
    (auto simp: exclusive_def log_step_defs split: if_splits list.splits option.splits)

lemma exclusive_client:
  "exclusive s \<Longrightarrow> \<not> q_fault s \<Longrightarrow> client_holds (q_clients s t) = (m_mutex s = Some (Client t))"
  by (simp add: exclusive_def)

lemma exclusive_at_client:
  "exclusive s \<Longrightarrow> client_holds p = client_holds (q_clients s t) \<Longrightarrow> exclusive (at_client t p s)"
  by (simp add: exclusive_def at_client_def)

lemma exclusive_list [simp]:
  "exclusive (s\<lparr>m_message_queue := l, q_produced := l'\<rparr>) = exclusive s"
  "exclusive (s\<lparr>m_stop_flag := b, q_stopper := d\<rparr>) = exclusive s"
  "exclusive (s\<lparr>q_stopper := d\<rparr>) = exclusive s"
  by (simp_all add: exclusive_def)

lemma exclusive_lock:
  "exclusive s \<Longrightarrow> q_clients s t = C_lock x \<Longrightarrow> lock_mutex (Client t) s = Some s' \<Longrightarrow>
   exclusive (at_client t (C_push x) s')"
  by (cases "q_fault s") (simp_all add: exclusive_def lock_mutex_def at_client_def split: if_splits, auto)

lemma exclusive_unlock:
  assumes "exclusive s" "q_clients s t = C_unlock"
  shows "exclusive (at_client t C_notify (unlock_mutex (Client t) s))"
proof (cases "q_fault s")
  case False
  with exclusive_client [OF assms(1), of t] assms(2) have "m_mutex s = Some (Client t)" by simp
  with assms False show ?thesis by (simp add: exclusive_def unlock_mutex_def at_client_def)
qed (use assms in \<open>simp add: exclusive_def unlock_mutex_def at_client_def\<close>)

lemma exclusive_notify: "exclusive s \<Longrightarrow> exclusive (notify_one s)"
  by (cases "q_fault s"; cases "q_worker s") (simp_all add: exclusive_def notify_one_def)

lemma notify_clients [simp]: "q_clients (notify_one s) = q_clients s"
  by (simp add: notify_one_def)

lemma exclusive_pushed:
  "exclusive s \<Longrightarrow> q_clients s t = C_push x \<Longrightarrow>
   exclusive (at_client t C_unlock (s\<lparr>m_message_queue := l, q_produced := l'\<rparr>))"
  by (rule exclusive_at_client) simp_all

lemma exclusive_notified:
  "exclusive s \<Longrightarrow> q_clients s t = C_notify \<Longrightarrow> exclusive (at_client t C_out (notify_one s))"
  by (rule exclusive_at_client) (simp_all add: exclusive_notify)

lemma exclusive_produce: "exclusive s \<Longrightarrow> produce_step t s = Some s' \<Longrightarrow> exclusive s'"
  by (cases "q_clients s t")
    (auto simp: produce_step_def intro: exclusive_lock exclusive_unlock exclusive_pushed exclusive_notified)

lemma exclusive_stop: "exclusive s \<Longrightarrow> stop_step s = Some s' \<Longrightarrow> exclusive s'"
  by (cases "q_stopper s") (auto simp: exclusive_def log_step_defs split: if_splits)


lemma reach_exclusive: "log_reach s \<Longrightarrow> exclusive s"
proof (erule log_invariant [where P = exclusive])
  show "exclusive (task_thread_new :: 'a task_thread)"
    by (simp add: exclusive_def task_thread_new_def)
  show "exclusive (at_client t (C_lock x) s)" if "exclusive s" "q_clients s t = C_out" for s :: "'a task_thread" and t x
    using that by (simp add: exclusive_at_client)
  show "exclusive (s\<lparr>q_worker := W_woken\<rparr>)" if "exclusive s" "q_worker s = W_blocked" for s :: "'a task_thread"
    using that by (simp add: exclusive_def split: if_splits)
qed (auto intro: exclusive_worker exclusive_produce exclusive_stop)

text \<open>The threads that stand at an access of the list.\<close>

fun in_list :: "'a task_thread \<Rightarrow> who \<Rightarrow> bool" where
  "in_list s Worker = (q_worker s = W_test \<or> q_worker s = W_take \<or> (\<exists>a. q_worker s = W_swap a))"
| "in_list s (Client t) = (\<exists>x. q_clients s t = C_push x)"

lemma in_list_owner: "exclusive s \<Longrightarrow> \<not> q_fault s \<Longrightarrow> in_list s p \<Longrightarrow> m_mutex s = Some p"
proof (cases p)
  case (Client t)
  then show "m_mutex s = Some p" if "exclusive s" "\<not> q_fault s" "in_list s p"
    using exclusive_client [OF that(1,2), of t] that(3) by auto
qed (auto simp: exclusive_def)

text \<open>The list of messages is never in two hands while the logger thread runs: as long as the
  thread has not returned, at most one thread stands at an access of the list, it owns the mutex, and
  no thread has unlocked a mutex it does not own.\<close>

lemma list_exclusive:
  assumes "log_reach s" "q_worker s \<noteq> W_done" "in_list s p" "in_list s p'"
  shows "p = p' \<and> m_mutex s = Some p \<and> \<not> q_fault s"
proof -
  have e: "exclusive s" by (rule reach_exclusive [OF assms(1)])
  with assms(2) have f: "\<not> q_fault s" by (auto simp: exclusive_def)
  show ?thesis using in_list_owner [OF e f assms(3)] in_list_owner [OF e f assms(4)] f by simp
qed

lemma list_exclusive_witness:
  "\<exists>s. log_reach s \<and> in_list s (Client 0) \<and> m_mutex s = Some (Client (0 :: nat)) \<and> \<not> q_fault (s :: string task_thread)"
proof -
  obtain s :: "string task_thread" where s: "log_exec [A_call 0 ''a'', A_client 0] task_thread_new = Some s"
    "in_list s (Client 0)" "q_worker s \<noteq> W_done"
    by (simp add: log_run_simps)
  have r: "log_reach s" by (rule log_exec_reach [OF s(1) log_start])
  show ?thesis using list_exclusive [OF r s(3,2,2)] r s(2) by blast
qed

section \<open>Stopping the thread\<close>

text \<open>A run that stops an idle thread while two callers produce, and a stop that falls between the
  thread's test of the list and its wait.\<close>

definition log_run_double :: "string log_act list" where
  "log_run_double =
     [A_worker, A_worker, A_worker, A_worker, A_worker, A_stop, A_stop,
      A_worker, A_worker, A_worker, A_worker,
      A_call 0 ''a'', A_call 1 ''b'', A_client 0, A_worker, A_worker, A_client 1]"

definition log_run_hang :: "string log_act list" where
  "log_run_hang = [A_worker, A_worker, A_worker, A_stop, A_stop, A_worker, A_worker]"

lemma shutdown_unlocks_released:
  assumes "log_reach (s :: string task_thread)" and "q_worker s = W_unlock_again" and "worker_step s = Some s'"
  shows "q_fault s'"
proof -
  from assms reach_exclusive [of s] have "m_mutex s \<noteq> Some Worker" by (auto simp: exclusive_def split: if_splits)
  with assms show ?thesis by (auto simp: worker_step_def unlock_mutex_def)
qed

text \<open>Stopping a waiting logger thread unlocks its mutex twice.  Each time \<open>shutdown\<close> is called
  from the waiting loop, the destructor of the \<open>unique_lock\<close> unlocks the mutex that \<open>shutdown\<close> has
  released already, which is undefined behaviour (\<open>shutdown_unlocks_released\<close>); and there is a run in
  which a caller had taken the mutex meanwhile, so that two callers stand in \<open>emplace_back\<close> on the same
  list at once.\<close>

lemma shutdown_unlocks_twice:
  "\<exists>s. log_reach (s :: string task_thread) \<and> q_fault s \<and> in_list s (Client 0) \<and> in_list s (Client 1)"
proof -
  obtain s :: "string task_thread" where s: "log_exec log_run_double task_thread_new = Some s" "q_fault s"
    "in_list s (Client 0)" "in_list s (Client 1)"
    by (simp add: log_run_simps log_run_double_def)
  with log_exec_reach [OF s(1) log_start] show ?thesis by blast
qed

text \<open>A stop that misses the wait never ends.  The destructor sets the flag and notifies without
  the mutex; when both fall between the thread's test of the list and its wait, the thread waits with
  no message to come and the destructor waits for the thread: no caller is active, and neither of the
  two can take a step.\<close>

lemma stop_can_hang:
  "\<exists>s. log_reach (s :: string task_thread) \<and> m_stop_flag s \<and> q_stopper s = D_join \<and> q_clients s = (\<lambda>t. C_out) \<and>
     log_next s A_worker = None \<and> log_next s A_stop = None \<and> (\<forall>t. log_next s (A_client t) = None)"
proof -
  obtain s :: "string task_thread" where s: "log_exec log_run_hang task_thread_new = Some s"
    "m_stop_flag s" "q_stopper s = D_join" "q_clients s = (\<lambda>t. C_out)" "q_worker s = W_blocked"
    by (simp add: log_run_simps log_run_hang_def)
  with log_exec_reach [OF s(1) log_start] show ?thesis
    by (intro exI [of _ s]) (simp add: worker_step_def stop_step_def produce_step_def)
qed

text \<open>\<open>logger::wait\<close> does not wait for what was just logged: \<open>m_wait_flag\<close> is false until the
  thread has woken up, so after \<open>produce\<close> has returned its condition still holds while the message is
  in the list and nothing is written.\<close>

lemma wait_misses_messages:
  "\<exists>s. log_reach s \<and> q_clients s = (\<lambda>t. C_out) \<and> m_message_queue s = [''a''] \<and> q_written s = [] \<and> wait_over s"
proof -
  obtain s :: "string task_thread" where s:
    "log_exec [A_call 0 ''a'', A_client 0, A_client 0, A_client 0, A_client 0] task_thread_new = Some s"
    "q_clients s = (\<lambda>t. C_out)" "m_message_queue s = [''a'']" "q_written s = []" "wait_over s"
    by (simp add: log_run_simps wait_over_def fun_eq_iff)
  with log_exec_reach [OF s(1) log_start] show ?thesis by blast
qed

subsection \<open>A stop that ends\<close>

definition worker_ends :: "'a task_thread \<Rightarrow> bool" where
  "worker_ends s = (\<exists>n s'. log_exec (replicate n A_worker) s = Some s' \<and> q_worker s' = W_done \<and>
     m_message_queue s' = [] \<and> q_produced s' = q_produced s)"

lemma worker_ends_done: "q_worker s = W_done \<Longrightarrow> m_message_queue s = [] \<Longrightarrow> worker_ends s"
  unfolding worker_ends_def by (rule exI [of _ 0]) simp

lemma worker_ends_step:
  "(case worker_step s of None \<Rightarrow> False | Some s1 \<Rightarrow> q_produced s1 = q_produced s \<and> worker_ends s1) \<Longrightarrow>
   worker_ends s"
  unfolding worker_ends_def by (auto split: option.splits) (rule_tac x = "Suc n" in exI, simp)

lemma ends_unlock_again: "q_worker s = W_unlock_again \<Longrightarrow> m_message_queue s = [] \<Longrightarrow> worker_ends s"
  by (rule worker_ends_step) (simp_all add: worker_step_def unlock_mutex_def worker_ends_done)

lemma ends_drain: "q_worker s = W_drain again l \<Longrightarrow> m_message_queue s = [] \<Longrightarrow> worker_ends s"
proof (induction l arbitrary: s)
  case Nil
  then show ?case
    by (cases again; intro worker_ends_step [of s])
      (simp_all add: worker_step_def shutdown_step_def worker_ends_done ends_unlock_again)
next
  case (Cons x l)
  then show ?case
    by (intro worker_ends_step [of s]) (simp_all add: worker_step_def shutdown_step_def)
qed

lemma ends_release: "q_worker s = W_release again l \<Longrightarrow> m_message_queue s = [] \<Longrightarrow> worker_ends s"
  by (rule worker_ends_step) (simp_all add: worker_step_def shutdown_step_def unlock_mutex_def ends_drain)

lemma ends_swap: "q_worker s = W_swap again \<Longrightarrow> worker_ends s"
  by (rule worker_ends_step) (simp_all add: worker_step_def shutdown_step_def ends_release)

lemma ends_stop_lock: "q_worker s = W_stop_lock \<Longrightarrow> m_mutex s = None \<Longrightarrow> worker_ends s"
  by (rule worker_ends_step) (simp_all add: worker_step_def lock_mutex_def ends_swap [of _ False])

lemma ends_top: "q_worker s = W_top \<Longrightarrow> m_stop_flag s \<Longrightarrow> m_mutex s = None \<Longrightarrow> worker_ends s"
  by (rule worker_ends_step) (simp_all add: worker_step_def ends_stop_lock)

lemma ends_output: "q_worker s = W_output x \<Longrightarrow> m_stop_flag s \<Longrightarrow> m_mutex s = None \<Longrightarrow> worker_ends s"
  by (rule worker_ends_step) (simp_all add: worker_step_def ends_top)

lemma ends_unlock: "q_worker s = W_unlock x \<Longrightarrow> m_stop_flag s \<Longrightarrow> worker_ends s"
  by (rule worker_ends_step) (simp_all add: worker_step_def unlock_mutex_def ends_output)

lemma ends_take: "q_worker s = W_take \<Longrightarrow> m_message_queue s = x # l \<Longrightarrow> m_stop_flag s \<Longrightarrow> worker_ends s"
  by (rule worker_ends_step) (simp_all add: worker_step_def ends_unlock)

lemma ends_test: "q_worker s = W_test \<Longrightarrow> m_message_queue s = x # l \<Longrightarrow> m_stop_flag s \<Longrightarrow> worker_ends s"
  by (rule worker_ends_step) (simp_all add: worker_step_def ends_take)

lemma ends_check: "q_worker s = W_check \<Longrightarrow> m_stop_flag s \<Longrightarrow> worker_ends s"
  by (rule worker_ends_step) (simp_all add: worker_step_def ends_swap [of _ True])

lemma ends_woken: "q_worker s = W_woken \<Longrightarrow> m_stop_flag s \<Longrightarrow> m_mutex s = None \<Longrightarrow> worker_ends s"
  by (rule worker_ends_step) (simp_all add: worker_step_def lock_mutex_def ends_check)

lemma ends_lock:
  "q_worker s = W_lock \<Longrightarrow> m_message_queue s = x # l \<Longrightarrow> m_stop_flag s \<Longrightarrow> m_mutex s = None \<Longrightarrow> worker_ends s"
  by (rule worker_ends_step) (simp_all add: worker_step_def lock_mutex_def ends_test)

text \<open>Where the flag is still seen: everywhere but between a test that finds the list empty and the
  end of the wait.\<close>

fun sees_stop :: "'a wpc \<Rightarrow> 'a list \<Rightarrow> bool" where
  "sees_stop W_lock q = (q \<noteq> [])"
| "sees_stop W_test q = (q \<noteq> [])"
| "sees_stop W_take q = (q \<noteq> [])"
| "sees_stop W_flag q = False"
| "sees_stop W_sleep q = False"
| "sees_stop W_blocked q = False"
| "sees_stop W_done q = False"
| "sees_stop (W_release a l) q = (q = [])"
| "sees_stop (W_drain a l) q = (q = [])"
| "sees_stop W_unlock_again q = (q = [])"
| "sees_stop _ q = True"

text \<open>C33: A stop that the thread sees ends, and nothing is lost.  From any reachable state in which the
  flag is set, no caller is in \<open>produce\<close>, and the thread stands where it still tests the flag or was
  woken, the thread alone runs to its end in finitely many steps, and then every message produced is
  written, in order.\<close>

lemma stop_writes_everything:
  assumes reach: "log_reach s" and "m_stop_flag s" and "\<forall>t. q_clients s t = C_out"
    and sees: "sees_stop (q_worker s) (m_message_queue s)"
  shows "\<exists>n s'. log_exec (replicate n A_worker) s = Some s' \<and> q_worker s' = W_done \<and>
     map fst (q_written s') = q_produced s"
proof -
  have e: "exclusive s" by (rule reach_exclusive [OF reach])
  have nf: "\<not> q_fault s" using e sees by (auto simp: exclusive_def)
  have free: "m_mutex s = None" if "\<not> worker_holds (q_worker s)"
  proof (cases "m_mutex s")
    case (Some p)
    with that e nf assms(3) exclusive_client [OF e nf] show ?thesis
      by (cases p) (auto simp: exclusive_def)
  qed
  have "worker_ends s"
    using sees assms(2) free
    by (cases "q_worker s")
      (auto simp: neq_Nil_conv intro: ends_top ends_lock ends_test ends_woken ends_check ends_take ends_unlock
        ends_output ends_stop_lock ends_swap ends_release ends_drain ends_unlock_again)
  then obtain n s' where n: "log_exec (replicate n A_worker) s = Some s'" "q_worker s' = W_done"
    "m_message_queue s' = []" "q_produced s' = q_produced s"
    unfolding worker_ends_def by blast
  have "in_order s'" by (rule reach_in_order [OF log_exec_reach [OF n(1) reach]])
  with n show ?thesis by (auto simp: in_order_def)
qed

definition log_run_stop :: "string log_act list" where
  "log_run_stop = log_run_busy @ [A_stop, A_stop]"

lemma stop_writes_everything_witness:
  "\<exists>s n s'. log_exec log_run_stop task_thread_new = Some s \<and> log_exec (replicate n A_worker) s = Some s' \<and>
     q_worker s' = W_done \<and> map fst (q_written s') = [''a'', ''b'']"
proof -
  obtain s :: "string task_thread" where s: "log_exec log_run_stop task_thread_new = Some s"
    "m_stop_flag s" "\<forall>t. q_clients s t = C_out" "sees_stop (q_worker s) (m_message_queue s)"
    "q_produced s = [''a'', ''b'']"
    by (simp add: log_run_simps log_run_stop_def log_run_busy_def)
  have r: "log_reach s" by (rule log_exec_reach [OF s(1) log_start])
  from stop_writes_everything [OF r s(2-4)] s(1,5) show ?thesis by (intro exI [of _ s]) auto
qed

end
