(* ===== verification/LogFiles.thy ===== *)
theory LogFiles
  imports AppInfo "HOL-Library.AList"
begin

text \<open>
  What the logger writes and where: \<open>gts/log.cpp\<close> (the settings, \<open>message_handler\<close>, \<open>_output\<close> and the
  choice, rotation and removal of files) and \<open>gts/log_buffer.cpp\<close>, one call after the other; the thread
  behind the asynchronous mode is the theory \<open>LogQueue\<close>.

  The file system is a list of files in the order in which a directory lists them, each with its
  contents and the time of its last change, and a list of directories whose paths end in a slash.
  Creating a directory, listing it and opening a file may be refused, a file that is opened takes all
  that is written.  Sizes are \<open>std::size_t\<close>, 64 bits wide.  A time is the number of milliseconds since
  1970; how the formatting library prints its date and its time of day are arguments.  Messages to
  \<open>std::cerr\<close> about the logger itself are not modelled.
\<close>

datatype log_type = Debug | Info | Warning | Error | Fetal

record log_context =
  c_dir :: string
  c_category :: string
  max_size_one_file :: u64
  max_size_one_day :: u64
  max_size :: u64
  c_mask :: int
  time_category :: bool
  c_async :: bool
  no_stdout :: bool

definition default_context :: log_context where
  "default_context = \<lparr>c_dir = [], c_category = ''default'', max_size_one_file = 10240,
     max_size_one_day = 10485760, max_size = 1073741824, c_mask = 4, time_category = True,
     c_async = False, no_stdout = False\<rparr>"

record run_context =
  r_time :: int
  r_category :: string
  r_file :: string
  r_line :: int

record clock_format =
  date_of :: "int \<Rightarrow> string"
  clock_of :: "int \<Rightarrow> string"

text \<open>\<open>set_context\<close>; \<open>None\<close>: \<open>absolute_path\<close> ends the program.\<close>

definition slashes :: "string \<Rightarrow> string option" where
  "slashes s = map_option fst (str_replace s [CHR 0x5C] ''/'')"

definition set_context :: "string \<Rightarrow> string option \<Rightarrow> log_context \<Rightarrow> log_context option" where
  "set_context exe home con =
     (case slashes (c_dir con) of
        None \<Rightarrow> None
      | Some d \<Rightarrow>
          (case slashes (if c_category con = [] then ''default'' else c_category con) of
             None \<Rightarrow> None
           | Some cat \<Rightarrow>
               (case if d = [] then Some d else absolute_path exe home d of
                  None \<Rightarrow> None
                | Some d' \<Rightarrow> Some (con\<lparr>c_dir := d', c_category := cat\<rparr>))))"

section \<open>Files\<close>

record fsys =
  fs_files :: "(string \<times> (string \<times> nat)) list"
  fs_dirs :: "(string \<times> nat) list"
  fs_time :: nat
  fs_mkdir_ok :: "string \<Rightarrow> bool"
  fs_list_ok :: "string \<Rightarrow> bool"
  fs_open_ok :: "string \<Rightarrow> bool"

definition in_dir :: "string \<Rightarrow> string \<Rightarrow> bool" where
  "in_dir d p = (prefix d p \<and> drop (length d) p \<noteq> [] \<and> CHR ''/'' \<notin> set (drop (length d) p))"

definition sub_dir :: "string \<Rightarrow> string \<Rightarrow> bool" where
  "sub_dir d e = (e \<noteq> [] \<and> last e = CHR ''/'' \<and> in_dir d (butlast e))"

definition exists_dir :: "string \<Rightarrow> fsys \<Rightarrow> bool" where
  "exists_dir d fs = (map_of (fs_dirs fs) d \<noteq> None)"

definition contents :: "fsys \<Rightarrow> string \<Rightarrow> string option" where
  "contents fs p = map_option fst (map_of (fs_files fs) p)"

definition size_of :: "string \<Rightarrow> u64" where
  "size_of s = word_of_nat (length s)"

definition fs_file_size :: "fsys \<Rightarrow> string \<Rightarrow> u64 option" where
  "fs_file_size fs p = map_option size_of (contents fs p)"

definition create_time :: "fsys \<Rightarrow> string \<Rightarrow> nat" where
  "create_time fs p = (case map_of (fs_files fs) p of Some (c, t) \<Rightarrow> t | None \<Rightarrow> 0)"

definition dir_time :: "fsys \<Rightarrow> string \<Rightarrow> nat" where
  "dir_time fs d = (case map_of (fs_dirs fs) d of Some t \<Rightarrow> t | None \<Rightarrow> 0)"

text \<open>A change of an entry changes its directory.\<close>

definition touch_parent :: "string \<Rightarrow> fsys \<Rightarrow> fsys" where
  "touch_parent p fs = fs\<lparr>fs_dirs := map (\<lambda>(d, t). (d, if in_dir d p then fs_time fs else t)) (fs_dirs fs)\<rparr>"

definition fs_remove :: "string \<Rightarrow> fsys \<Rightarrow> fsys" where
  "fs_remove p fs = touch_parent p (fs\<lparr>fs_files := AList.delete p (fs_files fs)\<rparr>)"

definition fs_remove_dir :: "string \<Rightarrow> fsys \<Rightarrow> fsys" where
  "fs_remove_dir d fs = touch_parent (butlast d) (fs\<lparr>fs_dirs := AList.delete d (fs_dirs fs)\<rparr>)"

definition fs_rename :: "string \<Rightarrow> string \<Rightarrow> fsys \<Rightarrow> fsys" where
  "fs_rename old new fs =
     (if old = new then fs
      else case map_of (fs_files fs) old of
        None \<Rightarrow> fs
      | Some (c, t) \<Rightarrow> touch_parent old (touch_parent new
          (fs\<lparr>fs_files := AList.update new (c, fs_time fs) (AList.delete old (fs_files fs))\<rparr>)))"

definition fopen_append :: "string \<Rightarrow> fsys \<Rightarrow> fsys option" where
  "fopen_append p fs =
     (if \<not> fs_open_ok fs p \<or> \<not> list_ex (\<lambda>(d, t). in_dir d p) (fs_dirs fs) \<or> exists_dir (p @ ''/'') fs then None
      else if contents fs p = None
        then Some (touch_parent p (fs\<lparr>fs_files := AList.update p ([], fs_time fs) (fs_files fs)\<rparr>))
      else Some fs)"

definition fwrite :: "string \<Rightarrow> string \<Rightarrow> fsys \<Rightarrow> fsys" where
  "fwrite p text fs =
     (case contents fs p of
        None \<Rightarrow> fs
      | Some c \<Rightarrow> fs\<lparr>fs_files := AList.update p (c @ text, fs_time fs) (fs_files fs)\<rparr>)"

definition dir_prefixes :: "string \<Rightarrow> string list" where
  "dir_prefixes d = map (\<lambda>i. take (Suc i) d) (filter (\<lambda>i. d ! i = CHR ''/'') [0..<length d])"

definition create_directories :: "string \<Rightarrow> fsys \<Rightarrow> fsys option" where
  "create_directories d fs =
     (if fs_mkdir_ok fs d \<and> list_all (\<lambda>e. contents fs (butlast e) = None) (dir_prefixes d)
      then Some (fold (\<lambda>e fs. if exists_dir e fs then fs else fs\<lparr>fs_dirs := fs_dirs fs @ [(e, fs_time fs)]\<rparr>)
        (dir_prefixes d) fs)
      else None)"

definition list_files :: "fsys \<Rightarrow> string \<Rightarrow> string list" where
  "list_files fs d = filter (in_dir d) (map fst (fs_files fs))"

definition list_dirs :: "fsys \<Rightarrow> string \<Rightarrow> string list" where
  "list_dirs fs d = filter (sub_dir d) (map fst (fs_dirs fs))"

section \<open>Keeping the size\<close>

definition list_push_back :: "fsys \<Rightarrow> string list \<Rightarrow> string \<Rightarrow> string list" where
  "list_push_back fs l d =
     (if fs_list_ok fs d then sort_key (create_time fs) (l @ list_files fs d) else l)"

text \<open>\<open>None\<close>: \<open>file_size\<close> throws.\<close>

fun sum_sizes :: "fsys \<Rightarrow> string list \<Rightarrow> u64 \<Rightarrow> u64 option" where
  "sum_sizes fs [] n = Some n"
| "sum_sizes fs (p # l) n =
     (case fs_file_size fs p of None \<Rightarrow> None | Some k \<Rightarrow> sum_sizes fs l (n + k))"

fun remove_loop :: "string list \<Rightarrow> u64 \<Rightarrow> u64 \<Rightarrow> u64 \<Rightarrow> fsys \<Rightarrow> fsys option" where
  "remove_loop [] limit log_size n fs = Some fs"
| "remove_loop (p # l) limit log_size n fs =
     (case fs_file_size fs p of
        None \<Rightarrow> None
      | Some k \<Rightarrow>
          if n - k + log_size \<le> limit then Some (fs_remove p fs)
          else remove_loop l limit log_size (n - k) (fs_remove p fs))"

definition remove_if_too_big :: "string list \<Rightarrow> u64 \<Rightarrow> u64 \<Rightarrow> fsys \<Rightarrow> fsys option" where
  "remove_if_too_big l limit log_size fs =
     (case sum_sizes fs l 0 of
        None \<Rightarrow> None
      | Some n \<Rightarrow> if n + log_size \<le> limit then Some fs else remove_loop l limit log_size n fs)"

fun remove_empty_dirs :: "string list \<Rightarrow> fsys \<Rightarrow> fsys" where
  "remove_empty_dirs [] fs = fs"
| "remove_empty_dirs (d # ds) fs =
     (if \<not> exists_dir d fs then remove_empty_dirs ds fs
      else if \<not> fs_list_ok fs d then remove_empty_dirs ds fs
      else if list_files fs d = [] \<and> list_dirs fs d = [] then remove_empty_dirs ds (fs_remove_dir d fs)
      else fs)"

definition size_check :: "log_context \<Rightarrow> string \<Rightarrow> u64 \<Rightarrow> fsys \<Rightarrow> fsys option" where
  "size_check con dir_name log_size fs =
     (case remove_if_too_big (list_push_back fs [] dir_name) (max_size_one_day con) log_size fs of
        None \<Rightarrow> None
      | Some fs \<Rightarrow>
          if \<not> fs_list_ok fs dir_name then Some fs
          else let dirs = sort_key (dir_time fs) (list_dirs fs dir_name);
                   files = foldl (list_push_back fs) [] dirs
               in case remove_if_too_big files (max_size con) log_size fs of
                    None \<Rightarrow> None
                  | Some fs \<Rightarrow> Some (if length dirs = 1 then fs else remove_empty_dirs dirs fs))"

section \<open>The current file\<close>

text \<open>The global \<open>g_curr_log_file\<close>, the files, and what was printed on the standard streams.\<close>

record log_state =
  name_map :: "string \<Rightarrow> string option"
  last_time :: int
  log_fs :: fsys
  log_stdout :: string
  log_stderr :: string

datatype stream = Null | Stdout | Stderr | Opened string

definition curr_name :: "log_state \<Rightarrow> string \<Rightarrow> string" where
  "curr_name L cat = (case name_map L cat of None \<Rightarrow> [] | Some n \<Rightarrow> n)"

definition set_name :: "string \<Rightarrow> string \<Rightarrow> log_state \<Rightarrow> log_state" where
  "set_name cat n L = L\<lparr>name_map := (name_map L)(cat \<mapsto> n)\<rparr>"

text \<open>\<open>name.erase(name.size() - 5)\<close> throws for a shorter name.\<close>

definition save_last_name :: "clock_format \<Rightarrow> string \<Rightarrow> log_state \<Rightarrow> log_state option" where
  "save_last_name F cat L =
     (let old = curr_name L cat in
      if old = [] then Some (set_name cat [] L)
      else if length old < 5 then None
      else let new = take (length old - 5) old @ clock_of F (last_time L)
           in Some ((set_name cat new L)\<lparr>log_fs := fs_rename old new (log_fs L)\<rparr>))"

text \<open>\<open>time_point_cast<days>\<close>, in milliseconds again.\<close>

definition start_of_day :: "int \<Rightarrow> int" where
  "start_of_day t = (if 0 \<le> t then t div 86400000 * 86400000 else - ((- t) div 86400000 * 86400000))"

definition with_slash :: "string \<Rightarrow> string" where
  "with_slash s = (if str_ends_with s ''/'' then s else s @ ''/'')"

definition log_dir_name :: "clock_format \<Rightarrow> string \<Rightarrow> log_context \<Rightarrow> int \<Rightarrow> string" where
  "log_dir_name F cat con t =
     (if time_category con then with_slash (with_slash (c_dir con) @ date_of F t @ ''/'' @ cat)
      else with_slash (with_slash (c_dir con) @ cat) @ date_of F t @ ''/'')"

definition new_name :: "clock_format \<Rightarrow> string \<Rightarrow> int \<Rightarrow> string" where
  "new_name F d t = d @ clock_of F t @ ''-(now)''"

text \<open>The search for a file in use: the last one in the order of the directory.\<close>

definition find_now :: "fsys \<Rightarrow> string \<Rightarrow> string" where
  "find_now fs d = fold (\<lambda>p n. if str_ends_with p ''(now)'' then p else n) (list_files fs d) []"

text \<open>The end of \<open>open_log_output_device\<close>.\<close>

definition open_log_file ::
  "log_context \<Rightarrow> string \<Rightarrow> int \<Rightarrow> u64 \<Rightarrow> stream \<Rightarrow> string \<Rightarrow> log_state \<Rightarrow> (stream \<times> bool \<times> log_state) option" where
  "open_log_file con d t log_size std_dev cat L =
     (case size_check con d log_size (log_fs L) of
        None \<Rightarrow> None
      | Some fs \<Rightarrow>
          let L = L\<lparr>log_fs := fs, last_time := t\<rparr> in
          (case fopen_append (curr_name L cat) fs of
             None \<Rightarrow> Some (std_dev, False, L)
           | Some fs \<Rightarrow> Some (Opened (curr_name L cat), True, L\<lparr>log_fs := fs\<rparr>)))"

text \<open>The day is over: the name of the category's file is completed and forgotten.\<close>

definition end_of_day :: "clock_format \<Rightarrow> string \<Rightarrow> int \<Rightarrow> log_state \<Rightarrow> log_state option" where
  "end_of_day F cat t L =
     (if last_time L < start_of_day t then map_option (set_name cat []) (save_last_name F cat L) else Some L)"

text \<open>The file is chosen or, when the message does not fit, changed; \<open>Inl\<close> is a stream to return.\<close>

definition choose_file ::
  "clock_format \<Rightarrow> string \<Rightarrow> log_context \<Rightarrow> string \<Rightarrow> int \<Rightarrow> u64 \<Rightarrow> log_state \<Rightarrow> (stream \<times> log_state) + log_state option" where
  "choose_file F cat con d t log_size L =
     (if curr_name L cat = [] then
        (if \<not> fs_list_ok (log_fs L) d then Inl (Null, L)
         else let n = find_now (log_fs L) d
              in Inr (Some (set_name cat (if n = [] then new_name F d t else n) L)))
      else case fs_file_size (log_fs L) (curr_name L cat) of
        None \<Rightarrow> Inr None
      | Some k \<Rightarrow>
          if max_size_one_file con < k + log_size
          then Inr (map_option (set_name cat (new_name F d t)) (save_last_name F cat L))
          else Inr (Some L))"

text \<open>\<open>None\<close>: an exception leaves the function.  The third branch of the test of the directory, a path
  that exists and is no directory, cannot be taken: a path with a slash at its end exists only as a
  directory.\<close>

definition open_log_output_device ::
  "clock_format \<Rightarrow> string \<Rightarrow> log_context \<Rightarrow> int \<Rightarrow> u64 \<Rightarrow> stream \<Rightarrow> log_state \<Rightarrow>
   (stream \<times> bool \<times> log_state) option" where
  "open_log_output_device F cat con t log_size std_dev L =
     (if c_dir con = [] then Some (std_dev, False, L)
      else case end_of_day F cat t L of
        None \<Rightarrow> None
      | Some L \<Rightarrow>
          let d = log_dir_name F cat con t in
          (case if exists_dir d (log_fs L) then Some (log_fs L) else create_directories d (log_fs L) of
             None \<Rightarrow> Some (std_dev, False, L)
           | Some fs \<Rightarrow>
               (case choose_file F cat con d t log_size (L\<lparr>log_fs := fs\<rparr>) of
                  Inl (fp, L) \<Rightarrow> Some (fp, False, L)
                | Inr None \<Rightarrow> None
                | Inr (Some L) \<Rightarrow> open_log_file con d t log_size std_dev cat L)))"

section \<open>Messages\<close>

text \<open>How a call of \<open>_output\<close> ends: it returns, the program ends (\<open>abort\<close>), an exception reaches the
  destructor of the \<open>log_buffer\<close> or the thread and ends the program (\<open>Terminate\<close>), or \<open>fwrite\<close> is
  called with a null pointer.\<close>

datatype outcome = Returned log_state | Aborted log_state | Terminated log_state | Null_write log_state

definition put :: "stream \<Rightarrow> string \<Rightarrow> log_state \<Rightarrow> log_state" where
  "put fp text L =
     (case fp of
        Null \<Rightarrow> L
      | Stdout \<Rightarrow> L\<lparr>log_stdout := log_stdout L @ text\<rparr>
      | Stderr \<Rightarrow> L\<lparr>log_stderr := log_stderr L @ text\<rparr>
      | Opened p \<Rightarrow> L\<lparr>log_fs := fwrite p text (log_fs L)\<rparr>)"

definition log_level :: "log_type \<Rightarrow> int" where
  "log_level ty = (case ty of Debug \<Rightarrow> 4 | Info \<Rightarrow> 3 | Warning \<Rightarrow> 2 | Error \<Rightarrow> 1 | Fetal \<Rightarrow> 0)"

definition log_name :: "log_type \<Rightarrow> string" where
  "log_name ty = (case ty of Debug \<Rightarrow> ''Debug'' | Info \<Rightarrow> ''Info'' | Warning \<Rightarrow> ''Warning''
     | Error \<Rightarrow> ''Error'' | Fetal \<Rightarrow> ''Fetal'')"

definition log_stream :: "log_type \<Rightarrow> log_context \<Rightarrow> stream" where
  "log_stream ty con = (if (ty = Debug \<or> ty = Info) \<and> \<not> no_stdout con then Stdout else Stderr)"

definition int_text :: "int \<Rightarrow> string" where
  "int_text i = (if i < 0 then ''-'' @ dec (nat (- i)) else dec (nat i))"

definition used_category :: "log_context \<Rightarrow> run_context \<Rightarrow> string" where
  "used_category con rc =
     (if r_category rc = [] then if c_category con = ''default'' then [] else c_category con
      else r_category rc)"

definition log_text :: "clock_format \<Rightarrow> bool \<Rightarrow> log_type \<Rightarrow> log_context \<Rightarrow> run_context \<Rightarrow> string \<Rightarrow> string" where
  "log_text F breaks ty con rc msg =
     ''['' @ used_category con rc @ ''::'' @ log_name ty @ '']-['' @ date_of F (r_time rc) @ '' '' @
     clock_of F (r_time rc) @ '']-['' @ r_file rc @ '':'' @ int_text (r_line rc) @ '']:'' @
     (if breaks then [LF] else '' '') @ msg"

definition log_output ::
  "clock_format \<Rightarrow> bool \<Rightarrow> log_type \<Rightarrow> log_context \<Rightarrow> run_context \<Rightarrow> string \<Rightarrow> log_state \<Rightarrow> outcome" where
  "log_output F breaks ty con rc msg L =
     (if c_mask con < log_level ty then Returned L
      else let text = log_text F breaks ty con rc msg
        in case open_log_output_device F (used_category con rc) con (r_time rc) (size_of text) (log_stream ty con) L of
             None \<Rightarrow> Terminated L
           | Some (fp, need_close, L) \<Rightarrow>
               let text = text @ [LF, LF] in
               if ty = Fetal then
                 (let L = put Stderr text L in
                  if fp = Stderr then Aborted L
                  else if fp = Null then Null_write L
                  else Aborted (put fp text L))
               else if fp = Null then Null_write L
               else Returned (put fp text L))"

text \<open>\<open>message_handler\<close>, called by the destructor of a buffer that is not empty: a message for the
  thread, or one written by the caller.\<close>

datatype handled = To_thread log_type log_context run_context string | Written outcome

definition message_handler ::
  "clock_format \<Rightarrow> bool \<Rightarrow> log_context \<Rightarrow> log_type \<Rightarrow> run_context \<Rightarrow> string \<Rightarrow> log_state \<Rightarrow> handled" where
  "message_handler F breaks g_context ty rc msg L =
     (if c_async g_context \<and> ty \<noteq> Fetal then To_thread ty g_context rc msg
      else Written (log_output F breaks ty g_context rc msg L))"

section \<open>Buffers\<close>

text \<open>A \<open>log_buffer\<close>: its data, or the null pointer of a buffer that was moved from.  The operations
  that destroy a buffer return the messages that they hand to \<open>message_handler\<close>.\<close>

record buffer_data =
  b_type :: log_type
  b_context :: run_context
  b_text :: string

type_synonym log_buffer = "buffer_data option"

text \<open>\<open>LOG_OUTPUT\<close>: a new buffer with the position of the call and the category.\<close>

definition logger_buffer :: "log_type \<Rightarrow> run_context \<Rightarrow> string \<Rightarrow> log_buffer" where
  "logger_buffer ty rc cat = Some \<lparr>b_type = ty, b_context = rc\<lparr>r_category := cat\<rparr>, b_text = []\<rparr>"

definition buffer_write :: "string \<Rightarrow> log_buffer \<Rightarrow> log_buffer" where
  "buffer_write msg b = map_option (\<lambda>d. d\<lparr>b_text := b_text d @ msg @ '' ''\<rparr>) b"

definition buffer_move :: "log_buffer \<Rightarrow> log_buffer \<times> log_buffer" where
  "buffer_move b = (b, None)"

definition buffer_move_assign :: "log_buffer \<Rightarrow> log_buffer \<Rightarrow> log_buffer \<times> log_buffer" where
  "buffer_move_assign this other = (other, None)"

text \<open>\<open>None\<close>: the null pointer of one of the two is dereferenced.\<close>

definition buffer_copy_assign :: "log_buffer \<Rightarrow> log_buffer \<Rightarrow> log_buffer option" where
  "buffer_copy_assign this other =
     (case this of None \<Rightarrow> None | Some d \<Rightarrow> (case other of None \<Rightarrow> None | Some e \<Rightarrow> Some (Some e)))"

definition buffer_delete :: "log_buffer \<Rightarrow> (log_type \<times> run_context \<times> string) list" where
  "buffer_delete b =
     (case b of
        None \<Rightarrow> []
      | Some d \<Rightarrow> if b_text d = [] then [] else [(b_type d, b_context d, b_text d)])"

text \<open>\<open>logger::debug(msg)\<close> and its likes: the buffer is written, moved out, and both are destroyed.\<close>

definition logger_statement :: "log_type \<Rightarrow> run_context \<Rightarrow> string \<Rightarrow> string \<Rightarrow> (log_type \<times> run_context \<times> string) list" where
  "logger_statement ty rc cat msg =
     (let (result, rest) = buffer_move (buffer_write msg (logger_buffer ty rc cat))
      in buffer_delete rest @ buffer_delete result)"

lemma logger_statement_once: "logger_statement ty rc cat msg = [(ty, rc\<lparr>r_category := cat\<rparr>, msg @ '' '')]"
  by (simp add: logger_statement_def buffer_move_def buffer_write_def logger_buffer_def buffer_delete_def)

text \<open>Assigning by move to a buffer that holds a message loses the message.\<close>

lemma move_assign_loses: "buffer_move_assign (buffer_write msg (logger_buffer ty rc cat)) b = (b, None)"
  by (simp add: buffer_move_assign_def)

section \<open>The size of a day's directory\<close>

definition dir_total :: "string \<Rightarrow> fsys \<Rightarrow> nat" where
  "dir_total d fs = sum_list (map (\<lambda>(p, c, t). if in_dir d p then length c else 0) (fs_files fs))"

definition all_total :: "fsys \<Rightarrow> nat" where
  "all_total fs = sum_list (map (\<lambda>(p, c, t). length c) (fs_files fs))"

definition keys_distinct :: "fsys \<Rightarrow> bool" where
  "keys_distinct fs = distinct (map fst (fs_files fs))"

lemma fs_files_touch [simp]: "fs_files (touch_parent p fs) = fs_files fs"
  by (simp add: touch_parent_def)

lemma fs_files_remove [simp]: "fs_files (fs_remove p fs) = AList.delete p (fs_files fs)"
  by (simp add: fs_remove_def)

lemma fs_list_ok_remove [simp]: "fs_list_ok (fs_remove p fs) = fs_list_ok fs"
  by (simp add: fs_remove_def touch_parent_def)

lemma keys_distinct_remove: "keys_distinct fs \<Longrightarrow> keys_distinct (fs_remove p fs)"
  by (simp add: keys_distinct_def distinct_delete)

lemma dir_total_le_all: "dir_total d fs \<le> all_total fs"
  unfolding dir_total_def all_total_def by (rule sum_list_mono) auto

lemma delete_sum:
  "distinct (map fst l) \<Longrightarrow>
   sum_list (map f (AList.delete p l)) + (case map_of l p of None \<Rightarrow> 0 | Some v \<Rightarrow> f (p, v)) =
     (sum_list (map f l) :: nat)"
proof (induction l)
  case (Cons x l)
  obtain k v where x: "x = (k, v)" by (cases x)
  show ?case
  proof (cases "k = p")
    case True
    with Cons.prems x have "p \<notin> fst ` set l" by auto
    then have "AList.delete p l = l" "map_of l p = None"
      by (simp_all add: delete_id map_of_eq_None_iff)
    with True x show ?thesis by simp
  next
    case False
    with Cons x show ?thesis by simp
  qed
qed simp

lemma delete_sum_le: "sum_list (map f (AList.delete p l)) \<le> (sum_list (map f l) :: nat)"
  by (induction l) auto

lemma update_sum:
  "distinct (map fst l) \<Longrightarrow>
   sum_list (map f (AList.update p w l)) + (case map_of l p of None \<Rightarrow> 0 | Some v \<Rightarrow> f (p, v)) =
     (sum_list (map f l) + f (p, w) :: nat)"
proof (induction l)
  case (Cons x l)
  obtain k v where x: "x = (k, v)" by (cases x)
  show ?case using Cons x by (cases "k = p") simp_all
qed simp

lemma dir_total_remove:
  "keys_distinct fs \<Longrightarrow> contents fs p = Some c \<Longrightarrow>
   dir_total d (fs_remove p fs) + (if in_dir d p then length c else 0) = dir_total d fs"
  using delete_sum [of "fs_files fs" "\<lambda>(p, c, t). if in_dir d p then length c else 0" p]
  by (auto simp: dir_total_def keys_distinct_def contents_def)

lemma dir_total_remove_le: "dir_total d (fs_remove p fs) \<le> dir_total d fs"
  by (simp add: dir_total_def delete_sum_le)

lemma contents_remove: "contents (fs_remove p fs) q = (if q = p then None else contents fs q)"
  by (simp add: contents_def delete_conv')

text \<open>The files that a removal still has before it.\<close>

definition pending_files :: "string \<Rightarrow> string list \<Rightarrow> fsys \<Rightarrow> bool" where
  "pending_files d l fs = (distinct l \<and> set l = {p. contents fs p \<noteq> None \<and> in_dir d p})"

lemma pending_tl: "pending_files d (p # l) fs \<Longrightarrow> pending_files d l (fs_remove p fs)"
  by (auto simp: pending_files_def contents_remove split: if_splits)

lemma pending_hd: "pending_files d (p # l) fs \<Longrightarrow> \<exists>c. contents fs p = Some c \<and> in_dir d p"
  by (auto simp: pending_files_def)

lemma pending_Nil:
  assumes "pending_files d [] fs" shows "dir_total d fs = 0"
proof -
  have none: "contents fs p = None" if "in_dir d p" for p using that assms by (auto simp: pending_files_def)
  have "\<not> in_dir d p" if "(p, v) \<in> set (fs_files fs)" for p v
  proof
    assume "in_dir d p"
    from none [OF this] have "p \<notin> fst ` set (fs_files fs)" by (simp add: contents_def map_of_eq_None_iff)
    with that show False by force
  qed
  then show ?thesis by (force simp: dir_total_def sum_list_eq_0_iff)
qed

lemma sum_sizes_skip: "p \<notin> set l \<Longrightarrow> sum_sizes (fs_remove p fs) l n = sum_sizes fs l n"
  by (induction l arbitrary: n) (auto simp: fs_file_size_def contents_remove split: option.splits)

lemma sum_sizes_total:
  "keys_distinct fs \<Longrightarrow> pending_files d l fs \<Longrightarrow> sum_sizes fs l n = Some (n + word_of_nat (dir_total d fs))"
proof (induction l arbitrary: fs n)
  case Nil
  then show ?case by (simp add: pending_Nil)
next
  case (Cons p l)
  obtain c where c: "contents fs p = Some c" "in_dir d p" using pending_hd [OF Cons.prems(2)] by blast
  have "p \<notin> set l" using Cons.prems(2) by (simp add: pending_files_def)
  with Cons.IH [OF keys_distinct_remove [OF Cons.prems(1)] pending_tl [OF Cons.prems(2)], of "n + size_of c"]
  have "sum_sizes fs (p # l) n = Some (n + size_of c + word_of_nat (dir_total d (fs_remove p fs)))"
    by (simp add: sum_sizes_skip fs_file_size_def c(1))
  with dir_total_remove [OF Cons.prems(1) c(1), of d] c(2) show ?case
    by (simp add: size_of_def add.assoc flip: of_nat_add) (simp add: add.commute)
qed

lemma fits_unat:
  "n + unat (k :: u64) < 2 ^ 64 \<Longrightarrow> word_of_nat n + k \<le> limit \<longleftrightarrow> n + unat k \<le> unat limit"
proof -
  assume a: "n + unat k < 2 ^ 64"
  have "unat (word_of_nat n + k :: u64) = (n + unat k) mod 2 ^ 64"
    by (simp add: unat_word_ariths unat_of_nat mod_add_left_eq)
  with a have "unat (word_of_nat n + k :: u64) = n + unat k" by simp
  then show ?thesis by (simp add: word_le_nat_alt)
qed

lemma remove_loop_total:
  assumes "keys_distinct fs" "pending_files d l fs" "dir_total d fs + unat ls < 2 ^ 64"
  shows "\<exists>fs'. remove_loop l limit ls (word_of_nat (dir_total d fs)) fs = Some fs' \<and>
    (dir_total d fs' = 0 \<or> dir_total d fs' + unat ls \<le> unat limit)"
  using assms
proof (induction l arbitrary: fs)
  case Nil
  then show ?case by (simp add: pending_Nil)
next
  case (Cons p l)
  obtain c where c: "contents fs p = Some c" "in_dir d p" using pending_hd [OF Cons.prems(2)] by blast
  let ?fs = "fs_remove p fs"
  have t: "dir_total d fs = dir_total d ?fs + length c"
    using dir_total_remove [OF Cons.prems(1) c(1), of d] c(2) by simp
  then have n: "word_of_nat (dir_total d fs) - size_of c = (word_of_nat (dir_total d ?fs) :: u64)"
    by (simp add: size_of_def)
  have less: "dir_total d ?fs + unat ls < 2 ^ 64" using t Cons.prems(3) by simp
  show ?case
    using Cons.IH [OF keys_distinct_remove [OF Cons.prems(1)] pending_tl [OF Cons.prems(2)] less]
      fits_unat [OF less, of limit]
    by (auto simp: fs_file_size_def c(1) n)
qed

text \<open>Steps that only remove: the files left are a part of the files, with their contents.\<close>

definition only_removed :: "fsys \<Rightarrow> fsys \<Rightarrow> bool" where
  "only_removed fs fs' = (\<exists>P. fs_files fs' = filter P (fs_files fs))"

lemma only_removed_refl [simp]: "only_removed fs fs"
  unfolding only_removed_def by (rule exI [of _ "\<lambda>x. True"]) simp

lemma only_removed_trans: "only_removed a b \<Longrightarrow> only_removed b c \<Longrightarrow> only_removed a c"
  by (auto simp: only_removed_def)

lemma only_removed_remove [simp]: "only_removed fs (fs_remove p fs)"
  unfolding only_removed_def by (rule exI [of _ "\<lambda>(k, v). k \<noteq> p"]) (auto simp: AList.delete_eq intro!: filter_cong)

lemma only_removed_dir [simp]: "only_removed fs (fs_remove_dir d fs)"
  unfolding only_removed_def by (rule exI [of _ "\<lambda>x. True"]) (simp add: fs_remove_dir_def)

lemma only_removed_loop: "remove_loop l limit ls n fs = Some fs' \<Longrightarrow> only_removed fs fs'"
  by (induction l arbitrary: n fs)
    (auto split: option.splits if_splits intro: only_removed_trans [OF only_removed_remove])

lemma only_removed_big: "remove_if_too_big l limit ls fs = Some fs' \<Longrightarrow> only_removed fs fs'"
  by (auto simp: remove_if_too_big_def split: option.splits if_splits intro: only_removed_loop)

lemma only_removed_dirs [simp]: "only_removed fs (remove_empty_dirs ds fs)"
  by (induction ds arbitrary: fs) (auto intro: only_removed_trans [OF only_removed_dir])

lemma only_removed_dirs_after: "only_removed fs fs' \<Longrightarrow> only_removed fs (remove_empty_dirs ds fs')"
  using only_removed_trans only_removed_dirs by blast

lemma filter_sum_le: "sum_list (map f (filter P l)) \<le> (sum_list (map f l) :: nat)"
  by (induction l) auto

lemma only_removed_total: "only_removed fs fs' \<Longrightarrow> dir_total d fs' \<le> dir_total d fs"
  by (auto simp: only_removed_def dir_total_def filter_sum_le)

lemma only_removed_distinct: "only_removed fs fs' \<Longrightarrow> keys_distinct fs \<Longrightarrow> keys_distinct fs'"
  by (auto simp: only_removed_def keys_distinct_def distinct_map_filter)

lemma list_push_back_pending:
  "keys_distinct fs \<Longrightarrow> fs_list_ok fs d \<Longrightarrow> pending_files d (list_push_back fs [] d) fs"
  by (auto simp: pending_files_def list_push_back_def list_files_def keys_distinct_def contents_def
      map_of_eq_None_iff image_iff intro: distinct_filter)

lemma remove_big_total:
  assumes "keys_distinct fs" "fs_list_ok fs d" "dir_total d fs + unat ls < 2 ^ 64"
  shows "\<exists>fs'. remove_if_too_big (list_push_back fs [] d) limit ls fs = Some fs' \<and>
    (dir_total d fs' = 0 \<or> dir_total d fs' + unat ls \<le> unat limit)"
proof -
  let ?l = "list_push_back fs [] d"
  have j: "pending_files d ?l fs" by (rule list_push_back_pending [OF assms(1,2)])
  show ?thesis
  proof (cases "dir_total d fs + unat ls \<le> unat limit")
    case True
    then show ?thesis
      by (simp add: remove_if_too_big_def sum_sizes_total [OF assms(1) j] fits_unat [OF assms(3)])
  next
    case False
    then show ?thesis
      using remove_loop_total [OF assms(1) j assms(3)]
      by (simp add: remove_if_too_big_def sum_sizes_total [OF assms(1) j] fits_unat [OF assms(3)])
  qed
qed

lemma size_check_total:
  assumes "size_check con d ls fs = Some fs'" "keys_distinct fs" "fs_list_ok fs d"
    and "dir_total d fs + unat ls < 2 ^ 64"
  shows "dir_total d fs' = 0 \<or> dir_total d fs' + unat ls \<le> unat (max_size_one_day con)"
proof -
  obtain fs1 where fs1: "remove_if_too_big (list_push_back fs [] d) (max_size_one_day con) ls fs = Some fs1"
    "dir_total d fs1 = 0 \<or> dir_total d fs1 + unat ls \<le> unat (max_size_one_day con)"
    using remove_big_total [OF assms(2-4)] by blast
  have "only_removed fs1 fs'"
    using assms(1) fs1(1)
    by (auto simp: size_check_def Let_def split: option.splits if_splits
        intro: only_removed_trans only_removed_big)
  with only_removed_total [of fs1 fs' d] fs1(2) show ?thesis by auto
qed

lemma size_check_removes: "size_check con d ls fs = Some fs' \<Longrightarrow> only_removed fs fs'"
  by (auto simp: size_check_def Let_def split: option.splits if_splits
      intro: only_removed_trans only_removed_big only_removed_dirs_after)

text \<open>Steps before the check of the size: files are renamed and directories are made.\<close>

definition tidy :: "log_state \<Rightarrow> log_state \<Rightarrow> bool" where
  "tidy L L' = (all_total (log_fs L') \<le> all_total (log_fs L) \<and>
     (keys_distinct (log_fs L) \<longrightarrow> keys_distinct (log_fs L')) \<and>
     fs_list_ok (log_fs L') = fs_list_ok (log_fs L))"

lemma tidy_refl [simp]: "tidy L L" "tidy L (set_name cat n L)"
  by (simp_all add: tidy_def set_name_def)

lemma tidy_trans: "tidy a b \<Longrightarrow> tidy b c \<Longrightarrow> tidy a c"
  by (auto simp: tidy_def)

lemma rename_total: "keys_distinct fs \<Longrightarrow> all_total (fs_rename old new fs) \<le> all_total fs"
proof -
  assume d: "keys_distinct fs"
  let ?f = "\<lambda>(p, c, t). length c"
  let ?l = "AList.delete old (fs_files fs)"
  have "distinct (map fst ?l)" using d by (simp add: keys_distinct_def distinct_delete)
  note u = update_sum [OF this, of ?f new]
  show ?thesis
  proof (cases "map_of (fs_files fs) old")
    case (Some v)
    obtain c t where v: "v = (c, t)" by (cases v)
    have "sum_list (map ?f ?l) + length c = sum_list (map ?f (fs_files fs))"
      using delete_sum [of "fs_files fs" ?f old] d Some v by (simp add: keys_distinct_def)
    with u [of "(c, fs_time fs)"] Some v show ?thesis by (simp add: fs_rename_def all_total_def)
  qed (simp add: fs_rename_def)
qed

lemma tidy_save_last_name:
  assumes "save_last_name F cat L = Some L'" "keys_distinct (log_fs L)"
  shows "tidy L L'"
proof -
  have d: "keys_distinct (fs_rename old new fs)" if "keys_distinct fs" for old new fs
    using that by (auto simp: keys_distinct_def fs_rename_def distinct_delete distinct_update split: option.split)
  have l: "fs_list_ok (fs_rename old new fs) = fs_list_ok fs" for old new fs
    by (simp add: fs_rename_def touch_parent_def split: option.split)
  show ?thesis using assms d rename_total
    by (auto simp: save_last_name_def tidy_def Let_def set_name_def l split: if_splits)
qed

lemma fold_dirs_files:
  "fs_files (fold (\<lambda>e fs. if exists_dir e fs then fs else fs\<lparr>fs_dirs := fs_dirs fs @ [(e, fs_time fs)]\<rparr>) l fs) =
     fs_files fs"
  "fs_list_ok (fold (\<lambda>e fs. if exists_dir e fs then fs else fs\<lparr>fs_dirs := fs_dirs fs @ [(e, fs_time fs)]\<rparr>) l fs) =
     fs_list_ok fs"
  by (induction l arbitrary: fs) simp_all

lemma create_directories_files:
  "create_directories d fs = Some fs' \<Longrightarrow> fs_files fs' = fs_files fs \<and> fs_list_ok fs' = fs_list_ok fs"
  by (auto simp: create_directories_def fold_dirs_files split: if_splits)

lemma tidy_end_of_day:
  "end_of_day F cat t L = Some L' \<Longrightarrow> keys_distinct (log_fs L) \<Longrightarrow> tidy L L'"
  by (auto simp: end_of_day_def split: if_splits intro: tidy_trans [OF tidy_save_last_name])

lemma tidy_choose_file:
  "choose_file F cat con d t ls L = Inr (Some L') \<Longrightarrow> keys_distinct (log_fs L) \<Longrightarrow> tidy L L'"
  by (auto simp: choose_file_def Let_def split: if_splits option.splits
      intro: tidy_trans [OF tidy_save_last_name])

lemma choose_file_Inl: "choose_file F cat con d t ls L = Inl (fp, L') \<Longrightarrow> fp = Null"
  by (auto simp: choose_file_def Let_def split: if_splits option.splits)

text \<open>How a file comes to be opened.\<close>

lemma opened_file:
  assumes "open_log_output_device F cat con t ls std L = Some (Opened p, b, L1)"
    and "\<And>q. std \<noteq> Opened q" and "keys_distinct (log_fs L)"
  shows "\<exists>Lc fs. tidy L Lc \<and> p = curr_name Lc cat \<and> last_time L1 = t \<and> name_map L1 = name_map Lc \<and>
    size_check con (log_dir_name F cat con t) ls (log_fs Lc) = Some fs \<and> fopen_append p fs = Some (log_fs L1)"
proof -
  have "c_dir con \<noteq> []" using assms(1,2) by (auto simp: open_log_output_device_def)
  with assms(1) obtain La where La: "end_of_day F cat t L = Some La"
    and rest: "(case if exists_dir (log_dir_name F cat con t) (log_fs La) then Some (log_fs La)
        else create_directories (log_dir_name F cat con t) (log_fs La) of
        None \<Rightarrow> Some (std, False, La)
      | Some fs \<Rightarrow>
          (case choose_file F cat con (log_dir_name F cat con t) t ls (La\<lparr>log_fs := fs\<rparr>) of
             Inl (fp, L) \<Rightarrow> Some (fp, False, L)
           | Inr None \<Rightarrow> None
           | Inr (Some L) \<Rightarrow> open_log_file con (log_dir_name F cat con t) t ls std cat L)) = Some (Opened p, b, L1)"
    by (auto simp: open_log_output_device_def Let_def split: option.splits)
  then obtain fs0 where fs0: "fs0 = log_fs La \<or> create_directories (log_dir_name F cat con t) (log_fs La) = Some fs0"
    and rest0: "(case choose_file F cat con (log_dir_name F cat con t) t ls (La\<lparr>log_fs := fs0\<rparr>) of
             Inl (fp, L) \<Rightarrow> Some (fp, False, L)
           | Inr None \<Rightarrow> None
           | Inr (Some L) \<Rightarrow> open_log_file con (log_dir_name F cat con t) t ls std cat L) = Some (Opened p, b, L1)"
  proof (cases "exists_dir (log_dir_name F cat con t) (log_fs La)")
    case True
    with rest show thesis by (intro that [of "log_fs La"]) simp_all
  next
    case False
    with rest assms(2) show thesis
      by (cases "create_directories (log_dir_name F cat con t) (log_fs La)") (auto intro: that)
  qed
  obtain Lc where Lc: "choose_file F cat con (log_dir_name F cat con t) t ls (La\<lparr>log_fs := fs0\<rparr>) = Inr (Some Lc)"
    and o: "open_log_file con (log_dir_name F cat con t) t ls std cat Lc = Some (Opened p, b, L1)"
    using rest0 choose_file_Inl [of F cat con "log_dir_name F cat con t" t ls "La\<lparr>log_fs := fs0\<rparr>"]
    by (auto split: sum.splits option.splits)
  have 1: "tidy L La" by (rule tidy_end_of_day [OF La assms(3)])
  have files: "fs_files fs0 = fs_files (log_fs La) \<and> fs_list_ok fs0 = fs_list_ok (log_fs La)"
    using fs0 create_directories_files by blast
  then have 2: "tidy La (La\<lparr>log_fs := fs0\<rparr>)"
    by (simp add: tidy_def all_total_def keys_distinct_def)
  have k: "keys_distinct fs0" using 1 assms(3) files by (simp add: tidy_def keys_distinct_def)
  have 3: "tidy (La\<lparr>log_fs := fs0\<rparr>) Lc" by (rule tidy_choose_file [OF Lc]) (simp add: k)
  have "tidy L Lc" using tidy_trans [OF tidy_trans [OF 1 2] 3] .
  moreover have "\<exists>fs. p = curr_name Lc cat \<and> last_time L1 = t \<and> name_map L1 = name_map Lc \<and>
      size_check con (log_dir_name F cat con t) ls (log_fs Lc) = Some fs \<and> fopen_append p fs = Some (log_fs L1)"
    using o assms(2) by (auto simp: open_log_file_def Let_def curr_name_def split: option.splits)
  ultimately show ?thesis by blast
qed

lemma fopen_append_total:
  assumes "fopen_append p fs = Some fs'" "keys_distinct fs"
  shows "dir_total d fs' = dir_total d fs" "keys_distinct fs'" "contents fs' p \<noteq> None"
proof -
  have n: "map_of (fs_files fs) p = None" if "contents fs p = None" using that by (simp add: contents_def)
  show "dir_total d fs' = dir_total d fs" "keys_distinct fs'" "contents fs' p \<noteq> None"
    using assms n update_sum [of "fs_files fs" "\<lambda>(p, c, t). if in_dir d p then length c else 0" p "([], fs_time fs)"]
    by (auto simp: fopen_append_def dir_total_def keys_distinct_def distinct_update contents_def update_conv'
        split: if_splits)
qed

lemma fwrite_total:
  assumes "keys_distinct fs"
  shows "dir_total d (fwrite p text fs) \<le> dir_total d fs + length text"
proof (cases "map_of (fs_files fs) p")
  case (Some v)
  obtain c t where v: "v = (c, t)" by (cases v)
  show ?thesis
    using update_sum [of "fs_files fs" "\<lambda>(p, c, t). if in_dir d p then length c else 0" p "(c @ text, fs_time fs)"]
      assms Some v
    by (cases "in_dir d p") (simp_all add: fwrite_def contents_def dir_total_def keys_distinct_def)
qed (simp add: fwrite_def contents_def)

lemma contents_fwrite: "contents fs p = Some c \<Longrightarrow> contents (fwrite p text fs) p = Some (c @ text)"
  by (auto simp: fwrite_def contents_def update_conv')

text \<open>C34: A message in a file, and the size of its directory.  When a file is opened for a message that
  is not fatal, the message and two line ends are appended to that file, which is the category's current
  file; and when the directory of the day can be listed and the files together stay below \<open>2 ^ 64\<close>
  bytes, the directory holds afterwards at most \<open>max_size_one_day\<close> bytes and the two line ends, which the
  check does not count, or nothing but this message.\<close>

lemma day_directory_bounded:
  assumes level: "log_level ty \<le> c_mask con" "ty \<noteq> Fetal"
    and opened: "open_log_output_device F (used_category con rc) con (r_time rc)
      (size_of (log_text F breaks ty con rc msg)) (log_stream ty con) L = Some (Opened p, b, L1)"
    and keys: "keys_distinct (log_fs L)"
    and list_ok: "fs_list_ok (log_fs L) (log_dir_name F (used_category con rc) con (r_time rc))"
    and small: "all_total (log_fs L) + length (log_text F breaks ty con rc msg) < 2 ^ 64"
  shows "\<exists>L' c. log_output F breaks ty con rc msg L = Returned L' \<and>
    curr_name L' (used_category con rc) = p \<and>
    contents (log_fs L1) p = Some c \<and>
    contents (log_fs L') p = Some (c @ log_text F breaks ty con rc msg @ [LF, LF]) \<and>
    dir_total (log_dir_name F (used_category con rc) con (r_time rc)) (log_fs L') \<le>
      max (unat (max_size_one_day con)) (length (log_text F breaks ty con rc msg)) + 2"
proof -
  let ?cat = "used_category con rc" and ?text = "log_text F breaks ty con rc msg"
  let ?d = "log_dir_name F ?cat con (r_time rc)"
  have std: "log_stream ty con \<noteq> Opened q" for q by (simp add: log_stream_def)
  obtain Lc fs where o: "tidy L Lc" "p = curr_name Lc ?cat" "name_map L1 = name_map Lc"
    "size_check con ?d (size_of ?text) (log_fs Lc) = Some fs" "fopen_append p fs = Some (log_fs L1)"
    using opened_file [OF opened std keys] by blast
  have kc: "keys_distinct (log_fs Lc)" "fs_list_ok (log_fs Lc) ?d" using o(1) keys list_ok by (simp_all add: tidy_def)
  have len: "unat (size_of ?text) = length ?text" using small by (simp add: size_of_def unat_of_nat)
  have "dir_total ?d (log_fs Lc) \<le> all_total (log_fs L)"
    using dir_total_le_all [of ?d "log_fs Lc"] o(1) by (simp add: tidy_def)
  then have "dir_total ?d (log_fs Lc) + unat (size_of ?text) < 2 ^ 64" using small len by simp
  from size_check_total [OF o(4) kc this] len
  have fs: "dir_total ?d fs = 0 \<or> dir_total ?d fs + length ?text \<le> unat (max_size_one_day con)" by simp
  have kf: "keys_distinct fs" by (rule only_removed_distinct [OF size_check_removes [OF o(4)] kc(1)])
  note f = fopen_append_total [OF o(5) kf]
  obtain c where c: "contents (log_fs L1) p = Some c" using f(3) by blast
  have "log_output F breaks ty con rc msg L = Returned (L1\<lparr>log_fs := fwrite p (?text @ [LF, LF]) (log_fs L1)\<rparr>)"
    using level opened by (simp add: log_output_def put_def Let_def)
  moreover have "dir_total ?d (fwrite p (?text @ [LF, LF]) (log_fs L1)) \<le> dir_total ?d fs + length ?text + 2"
    using fwrite_total [OF f(2), of ?d p "?text @ [LF, LF]"] f(1) [of ?d] by simp
  moreover have "curr_name L1 ?cat = p" using o(2,3) by (simp add: curr_name_def)
  ultimately show ?thesis using fs c contents_fwrite [OF c] by (auto simp: curr_name_def)
qed

text \<open>A first message of a day, on an empty file system.\<close>

definition sample_format :: clock_format where
  "sample_format = \<lparr>date_of = (\<lambda>t. if t < 172800000 then ''d1'' else ''d2''),
     clock_of = (\<lambda>t. if t < 100000000 then ''c1'' else if t < 200000000 then ''c2'' else ''c3'')\<rparr>"

definition sample_fs :: fsys where
  "sample_fs = \<lparr>fs_files = [], fs_dirs = [(''/'', 0), (''/log/'', 0)], fs_time = 7, fs_mkdir_ok = (\<lambda>p. True),
     fs_list_ok = (\<lambda>p. True), fs_open_ok = (\<lambda>p. True)\<rparr>"

definition sample_state :: log_state where
  "sample_state = \<lparr>name_map = (\<lambda>c. None), last_time = 0, log_fs = sample_fs, log_stdout = [], log_stderr = []\<rparr>"

definition sample_context :: log_context where
  "sample_context = default_context\<lparr>c_dir := ''/log''\<rparr>"

definition sample_run :: run_context where
  "sample_run = \<lparr>r_time = 90000000, r_category = [], r_file = ''a.c'', r_line = 7\<rparr>"

definition sample_text :: string where
  "sample_text = log_text sample_format False Info sample_context sample_run ''hello ''"

lemma sample_opened:
  "map_option fst (open_log_output_device sample_format [] sample_context 90000000 (size_of sample_text) Stdout sample_state) =
     Some (Opened ''/log/d1/c1-(now)'')"
  by code_simp

lemma sample_text_length: "length sample_text = 32"
  by code_simp

lemma day_directory_bounded_witness:
  "\<exists>L' c. log_output sample_format False Info sample_context sample_run ''hello '' sample_state = Returned L' \<and>
    contents (log_fs L') ''/log/d1/c1-(now)'' = Some (c @ sample_text @ [LF, LF]) \<and>
    dir_total (log_dir_name sample_format [] sample_context 90000000) (log_fs L') \<le> 10485762"
proof -
  have cat: "used_category sample_context sample_run = []" and st: "log_stream Info sample_context = Stdout"
    and t: "r_time sample_run = 90000000"
    by (simp_all add: used_category_def log_stream_def sample_context_def default_context_def sample_run_def)
  obtain b L1 where o: "open_log_output_device sample_format [] sample_context 90000000 (size_of sample_text)
      Stdout sample_state = Some (Opened ''/log/d1/c1-(now)'', b, L1)"
    using sample_opened by auto
  have "unat (max_size_one_day sample_context) = 10485760"
    by (simp add: sample_context_def default_context_def)
  moreover note day_directory_bounded [of Info sample_context sample_format sample_run False "''hello ''" sample_state,
      folded sample_text_def, unfolded cat st t, OF _ _ o]
  ultimately show ?thesis
    by (auto simp: log_level_def sample_context_def default_context_def sample_state_def sample_fs_def
        keys_distinct_def all_total_def sample_text_length)
qed

section \<open>Other files\<close>

lemma in_dir_prefix: "in_dir d p \<Longrightarrow> prefix d p"
  by (simp add: in_dir_def)

lemma sub_dir_prefix: "sub_dir d e \<Longrightarrow> prefix d e"
  unfolding sub_dir_def using in_dir_prefix prefix_order.trans prefixeq_butlast by blast

lemma remove_loop_kept:
  "remove_loop l limit ls n fs = Some fs' \<Longrightarrow> q \<notin> set l \<Longrightarrow> contents fs' q = contents fs q"
  by (induction l arbitrary: n fs) (auto split: option.splits if_splits simp: contents_remove)

lemma remove_big_kept:
  "remove_if_too_big l limit ls fs = Some fs' \<Longrightarrow> q \<notin> set l \<Longrightarrow> contents fs' q = contents fs q"
  by (auto simp: remove_if_too_big_def remove_loop_kept split: option.splits if_splits)

lemma remove_dirs_kept [simp]: "contents (remove_empty_dirs ds fs) q = contents fs q"
  by (induction ds arbitrary: fs) (simp_all add: fs_remove_dir_def contents_def)

lemma list_push_back_set: "set (list_push_back fs l d) \<subseteq> set l \<union> {p. in_dir d p}"
  by (auto simp: list_push_back_def list_files_def)

lemma foldl_push_back_set: "set (foldl (list_push_back fs) l ds) \<subseteq> set l \<union> {p. \<exists>d \<in> set ds. in_dir d p}"
proof (induction ds arbitrary: l)
  case (Cons d ds)
  show ?case using Cons [of "list_push_back fs l d"] list_push_back_set [of fs l d] by auto
qed simp

text \<open>The limit \<open>max_size\<close> on the whole log never takes effect beyond the directory just written.
  The check of the sizes lists the directory of the message's day and the directories below it, so a
  file outside that directory is never removed and never changed, however large the limit is exceeded
  by the other days.\<close>

lemma other_days_kept:
  assumes "size_check con d log_size fs = Some fs'" and "\<not> prefix d q"
  shows "contents fs' q = contents fs q"
proof -
  obtain fs1 where fs1: "remove_if_too_big (list_push_back fs [] d) (max_size_one_day con) log_size fs = Some fs1"
    using assms(1) by (auto simp: size_check_def split: option.splits)
  have "q \<notin> set (list_push_back fs [] d)"
    using list_push_back_set [of fs "[]" d] assms(2) in_dir_prefix by auto
  with fs1 have 1: "contents fs1 q = contents fs q" by (rule remove_big_kept)
  let ?ds = "sort_key (dir_time fs1) (list_dirs fs1 d)"
  have "\<not> (\<exists>e \<in> set ?ds. in_dir e q)"
    using assms(2) in_dir_prefix sub_dir_prefix prefix_order.trans by (fastforce simp: list_dirs_def)
  then have q: "q \<notin> set (foldl (list_push_back fs1) [] ?ds)"
    using foldl_push_back_set [of fs1 "[]" ?ds] by auto
  show ?thesis
    using assms(1) fs1 remove_big_kept [OF _ q] 1
    by (auto simp: size_check_def Let_def split: option.splits if_splits)
qed

definition full_fs :: fsys where
  "full_fs = sample_fs\<lparr>fs_files := [(''/log/d0/c1-c2'', (''old message'', 1)), (''/log/d1/c1-(now)'', (''new message'', 2))],
     fs_dirs := [(''/'', 0), (''/log/'', 0), (''/log/d0/'', 0), (''/log/d1/'', 0)]\<rparr>"

lemma other_days_kept_witness:
  "\<exists>fs'. size_check (sample_context\<lparr>max_size_one_day := 5, max_size := 5\<rparr>) ''/log/d1/'' 5 full_fs = Some fs' \<and>
     contents fs' ''/log/d0/c1-c2'' = Some ''old message''"
proof -
  have "size_check (sample_context\<lparr>max_size_one_day := 5, max_size := 5\<rparr>) ''/log/d1/'' 5 full_fs \<noteq> None"
    by code_simp
  then obtain fs' where "size_check (sample_context\<lparr>max_size_one_day := 5, max_size := 5\<rparr>) ''/log/d1/'' 5 full_fs = Some fs'"
    by blast
  from this other_days_kept [OF this, of "''/log/d0/c1-c2''"] show ?thesis
    by (simp add: contents_def full_fs_def)
qed

section \<open>Which file is used\<close>

lemma save_last_name_other:
  "save_last_name F cat L = Some L' \<Longrightarrow> cat' \<noteq> cat \<Longrightarrow> name_map L' cat' = name_map L cat'"
  by (auto simp: save_last_name_def Let_def set_name_def split: if_splits)

lemma end_of_day_other:
  "end_of_day F cat t L = Some L' \<Longrightarrow> cat' \<noteq> cat \<Longrightarrow> name_map L' cat' = name_map L cat'"
  by (auto simp: end_of_day_def set_name_def save_last_name_other split: if_splits)

lemma choose_file_other:
  "choose_file F cat con d t ls L = Inr (Some L') \<Longrightarrow> cat' \<noteq> cat \<Longrightarrow> name_map L' cat' = name_map L cat'"
  "choose_file F cat con d t ls L = Inl (fp, L') \<Longrightarrow> name_map L' = name_map L"
  by (auto simp: choose_file_def Let_def set_name_def save_last_name_other split: if_splits option.splits)

lemma open_log_file_names:
  "open_log_file con d t ls std cat L = Some (fp, b, L') \<Longrightarrow> name_map L' = name_map L"
  by (auto simp: open_log_file_def Let_def split: option.splits)

lemma open_other_category:
  assumes "open_log_output_device F cat con t ls std L = Some (fp, b, L')" "cat' \<noteq> cat"
  shows "curr_name L' cat' = curr_name L cat'"
proof -
  have "name_map L' cat' = name_map L cat'"
    using assms
    by (auto simp: open_log_output_device_def Let_def end_of_day_other choose_file_other
        dest!: open_log_file_names split: if_splits option.splits sum.splits
        dest: choose_file_other(1) choose_file_other(2) end_of_day_other)
  then show ?thesis by (simp add: curr_name_def)
qed

text \<open>A current file with room is kept, whatever day its name is from.\<close>

lemma file_with_room_kept:
  assumes "open_log_output_device F cat con t ls std L = Some (fp, b, L')"
    and "start_of_day t \<le> last_time L" and "curr_name L cat = n" "n \<noteq> []"
    and "contents (log_fs L) n = Some c" and "size_of c + ls \<le> max_size_one_file con"
  shows "fp = Opened n \<or> fp = std"
proof (cases "c_dir con = []")
  case True
  with assms(1) show ?thesis by (simp add: open_log_output_device_def)
next
  case False
  have e: "end_of_day F cat t L = Some L" using assms(2) by (simp add: end_of_day_def)
  have c: "choose_file F cat con d t ls (L\<lparr>log_fs := fs\<rparr>) = Inr (Some (L\<lparr>log_fs := fs\<rparr>))"
    if "fs_files fs = fs_files (log_fs L)" for d fs
    using assms(3-6) that
    by (auto simp: choose_file_def curr_name_def fs_file_size_def contents_def simp flip: not_le)
  have k: "fp = Opened n \<or> fp = std"
    if "open_log_file con d t ls std cat (L\<lparr>log_fs := fs\<rparr>) = Some (fp, b, L')" for d fs
    using that assms(3) by (auto simp: open_log_file_def Let_def curr_name_def split: option.splits)
  let ?d = "log_dir_name F cat con t"
  show ?thesis
  proof (cases "if exists_dir ?d (log_fs L) then Some (log_fs L) else create_directories ?d (log_fs L)")
    case None
    with assms(1) False e show ?thesis by (simp add: open_log_output_device_def Let_def)
  next
    case (Some fs)
    then have "fs_files fs = fs_files (log_fs L)"
      using create_directories_files [of ?d "log_fs L" fs] by (auto split: if_splits)
    from c [OF this, of ?d] Some assms(1) False e k [of ?d fs] show ?thesis
      by (simp add: open_log_output_device_def Let_def)
  qed
qed

text \<open>Only the category that logs first on a new day gets a file of that day.  After a message of one
  category has been put into a file, the time of the last message is the time of all categories; the
  next message of another category, on the same day, goes on in the file that this category has used
  so far, if it has room, and so into the directory of an earlier day.\<close>

lemma other_category_keeps_file:
  assumes first: "open_log_output_device F cat con t ls std L = Some (Opened p, b, L1)"
    and std: "\<forall>q. std \<noteq> Opened q" and keys: "keys_distinct (log_fs L)"
    and other: "cat' \<noteq> cat" "curr_name L cat' = n" "n \<noteq> []"
    and room: "contents (log_fs L1) n = Some c" "size_of c + ls' \<le> max_size_one_file con"
    and day: "start_of_day t' \<le> t"
    and second: "open_log_output_device F cat' con t' ls' std' L1 = Some (fp, b', L2)"
  shows "fp = Opened n \<or> fp = std'"
proof -
  have "last_time L1 = t" using opened_file [OF first _ keys] std by blast
  moreover have "curr_name L1 cat' = n" using open_other_category [OF first other(1)] other(2) by simp
  ultimately show ?thesis using file_with_room_kept [OF second] day other(3) room by simp
qed

text \<open>Two categories on the second day; the second one had a file of the first day.\<close>

definition two_categories :: log_state where
  "two_categories = \<lparr>name_map = [''a'' \<mapsto> ''/log/d1/a/c2-(now)'', ''b'' \<mapsto> ''/log/d1/b/c2-(now)''], last_time = 100000000,
     log_fs = sample_fs\<lparr>fs_files := [(''/log/d1/a/c2-(now)'', (''x'', 1)), (''/log/d1/b/c2-(now)'', (''y'', 2))],
       fs_dirs := [(''/'', 0), (''/log/'', 0), (''/log/d1/'', 0), (''/log/d1/a/'', 0), (''/log/d1/b/'', 0)]\<rparr>,
     log_stdout = [], log_stderr = []\<rparr>"

definition second_day :: "(stream \<times> bool \<times> log_state) option" where
  "second_day = open_log_output_device sample_format ''a'' sample_context 180000000 5 Stdout two_categories"

lemma second_day_opened:
  "map_option fst second_day = Some (Opened ''/log/d2/a/c2-(now)'')"
  "map_option (\<lambda>(fp, b, L). contents (log_fs L) ''/log/d1/b/c2-(now)'') second_day = Some (Some ''y'')"
  "map_option (\<lambda>(fp, b, L). map_option fst
     (open_log_output_device sample_format ''b'' sample_context 190000000 5 Stdout L)) second_day =
     Some (Some (Opened ''/log/d1/b/c2-(now)''))"
  by code_simp+

lemma other_category_keeps_file_witness:
  "\<exists>L1 fp b' L2. second_day = Some (Opened ''/log/d2/a/c2-(now)'', True, L1) \<and>
     open_log_output_device sample_format ''b'' sample_context 190000000 5 Stdout L1 = Some (fp, b', L2) \<and>
     (fp = Opened ''/log/d1/b/c2-(now)'' \<or> fp = Stdout)"
proof -
  have keys: "keys_distinct (log_fs two_categories)"
    by (simp add: keys_distinct_def two_categories_def)
  obtain b L1 where 1: "second_day = Some (Opened ''/log/d2/a/c2-(now)'', b, L1)"
    "contents (log_fs L1) ''/log/d1/b/c2-(now)'' = Some ''y''"
  proof -
    obtain fp b L1 where x: "second_day = Some (fp, b, L1)" using second_day_opened(1) by auto
    show thesis using second_day_opened(1,2) [unfolded x] by (intro that [of b L1]) (simp_all add: x)
  qed
  have b: "b = True"
    using 1(1) by (auto simp: second_day_def open_log_output_device_def open_log_file_def Let_def
        split: option.splits sum.splits if_splits dest: choose_file_Inl)
  obtain fp b' L2 where 2: "open_log_output_device sample_format ''b'' sample_context 190000000 5 Stdout L1 = Some (fp, b', L2)"
    using second_day_opened(3) [unfolded 1(1)] by auto
  have "fp = Opened ''/log/d1/b/c2-(now)'' \<or> fp = Stdout"
    by (rule other_category_keeps_file [OF 1(1) [unfolded second_day_def] _ keys _ _ _ 1(2) _ _ 2])
      (simp_all add: two_categories_def curr_name_def size_of_def sample_context_def default_context_def start_of_day_def)
  with 1 2 b show ?thesis by blast
qed

section \<open>The search for a file in use\<close>

lemma find_now_none:
  assumes "\<forall>q \<in> set (list_files fs d). \<not> suffix '')won('' q"
  shows "find_now fs d = []"
proof -
  have "fold (\<lambda>p n. if str_ends_with p ''(now)'' then p else n) l [] = []"
    if "\<forall>q \<in> set l. \<not> suffix '')won('' q" for l
    using that by (induction l) (simp_all add: str_ends_with_rev)
  with assms show ?thesis by (simp add: find_now_def)
qed

lemma list_files_cong: "fs_files fs = fs_files fs' \<Longrightarrow> list_files fs d = list_files fs' d"
  by (simp add: list_files_def)

lemma curr_name_set [simp]: "curr_name (set_name cat n L) cat = n"
  by (simp add: curr_name_def set_name_def)

lemma log_fs_set [simp]: "log_fs (set_name cat n L) = log_fs L"
  by (simp add: set_name_def)

lemma end_of_day_nameless:
  "curr_name L cat = [] \<Longrightarrow> \<exists>L0. end_of_day F cat t L = Some L0 \<and> curr_name L0 cat = [] \<and> log_fs L0 = log_fs L"
  by (simp add: end_of_day_def save_last_name_def)

text \<open>A restarted program does not go on with its last file.  With no name remembered, the search for
  a file whose name ends in \<open>(now)\<close> compares the end of each name with the reversed text; unless some
  file ends in \<open>)won(\<close>, the first message of the category goes to the file named after its own time,
  and the file in use before keeps the name of a file in use.\<close>

lemma restart_new_file:
  assumes "open_log_output_device F cat con t ls std L = Some (Opened p, b, L1)"
    and "\<forall>q. std \<noteq> Opened q" and "curr_name L cat = []"
    and "\<forall>q \<in> set (list_files (log_fs L) (log_dir_name F cat con t)). \<not> suffix '')won('' q"
  shows "p = new_name F (log_dir_name F cat con t) t"
proof -
  let ?d = "log_dir_name F cat con t"
  have dir: "c_dir con \<noteq> []" using assms(1,2) by (auto simp: open_log_output_device_def)
  obtain L0 where e: "end_of_day F cat t L = Some L0" "curr_name L0 cat = []" "log_fs L0 = log_fs L"
    using end_of_day_nameless [OF assms(3)] by blast
  have o: "fp = Opened p \<Longrightarrow> p = new_name F ?d t"
    if "open_log_file con ?d t ls std cat (set_name cat (new_name F ?d t) L') = Some (fp, b', L'')" for fp b' L' L''
    using that assms(2) by (auto simp: open_log_file_def Let_def set_name_def curr_name_def split: option.splits)
  have c: "choose_file F cat con ?d t ls (L0\<lparr>log_fs := fs\<rparr>) =
      (if fs_list_ok fs ?d then Inr (Some (set_name cat (new_name F ?d t) (L0\<lparr>log_fs := fs\<rparr>)))
       else Inl (Null, L0\<lparr>log_fs := fs\<rparr>))" if f: "fs_files fs = fs_files (log_fs L)" for fs
  proof -
    have "find_now fs ?d = []"
      using assms(4) list_files_cong [OF f, of ?d] by (intro find_now_none) simp
    with e(2) show ?thesis by (simp add: choose_file_def curr_name_def Let_def)
  qed
  obtain fs where fs: "(if exists_dir ?d (log_fs L0) then Some (log_fs L0) else create_directories ?d (log_fs L0)) = Some fs"
    using assms(1,2) dir e(1) by (auto simp: open_log_output_device_def Let_def split: option.splits if_splits)
  then have f: "fs_files fs = fs_files (log_fs L)"
    using create_directories_files [of ?d "log_fs L0" fs] e(3) by (auto split: if_splits)
  show ?thesis
    using assms(1) dir e(1) fs c [OF f] o
    by (auto simp: open_log_output_device_def Let_def split: if_splits)
qed

definition restarted :: log_state where
  "restarted = sample_state\<lparr>log_fs := sample_fs\<lparr>fs_files := [(''/log/d1/c1-(now)'', (''before'', 1))],
     fs_dirs := [(''/'', 0), (''/log/'', 0), (''/log/d1/'', 0)]\<rparr>\<rparr>"

lemma restarted_opens:
  "map_option fst (open_log_output_device sample_format [] sample_context 110000000 5 Stdout restarted) =
     Some (Opened ''/log/d1/c2-(now)'')"
  by code_simp

lemma restarted_files:
  "list_files (log_fs restarted) (log_dir_name sample_format [] sample_context 110000000) = [''/log/d1/c1-(now)'']"
  by code_simp

lemma restart_new_file_witness:
  "\<exists>p b L1. open_log_output_device sample_format [] sample_context 110000000 5 Stdout restarted = Some (Opened p, b, L1) \<and>
     p = new_name sample_format (log_dir_name sample_format [] sample_context 110000000) 110000000"
proof -
  obtain b L1 where o: "open_log_output_device sample_format [] sample_context 110000000 5 Stdout restarted =
      Some (Opened ''/log/d1/c2-(now)'', b, L1)"
    using restarted_opens by auto
  have "\<not> suffix '')won('' ''/log/d1/c1-(now)''" by (simp add: suffix_to_prefix)
  then have "''/log/d1/c2-(now)'' = new_name sample_format (log_dir_name sample_format [] sample_context 110000000) 110000000"
    by (intro restart_new_file [OF o])
      (simp_all add: restarted_files, simp add: restarted_def sample_state_def curr_name_def)
  with o show ?thesis by blast
qed

section \<open>Refused directories\<close>

text \<open>A directory that cannot be listed makes the program write to a null pointer.  When the category
  has no current file and the traversal of the existing directory fails, the stream is left null, and
  the message is written to it.\<close>

lemma unlistable_directory:
  assumes "c_dir con \<noteq> []" "curr_name L (used_category con rc) = []" "log_level ty \<le> c_mask con" "ty \<noteq> Fetal"
    and "exists_dir (log_dir_name F (used_category con rc) con (r_time rc)) (log_fs L)"
    and "\<not> fs_list_ok (log_fs L) (log_dir_name F (used_category con rc) con (r_time rc))"
  shows "\<exists>L'. log_output F breaks ty con rc msg L = Null_write L'"
proof -
  let ?cat = "used_category con rc"
  obtain L0 where e: "end_of_day F ?cat (r_time rc) L = Some L0" "curr_name L0 ?cat = []" "log_fs L0 = log_fs L"
    using end_of_day_nameless [OF assms(2)] by blast
  then show ?thesis using assms
    by (simp add: log_output_def open_log_output_device_def choose_file_def Let_def curr_name_def)
qed

lemma unlistable_directory_witness:
  "\<exists>L'. log_output sample_format False Info sample_context sample_run ''x''
     (restarted\<lparr>log_fs := (log_fs restarted)\<lparr>fs_list_ok := (\<lambda>p. False)\<rparr>\<rparr>) = Null_write L'"
proof -
  have d: "log_dir_name sample_format (used_category sample_context sample_run) sample_context (r_time sample_run) =
      ''/log/d1/''" by code_simp
  show ?thesis
    by (rule unlistable_directory)
      (simp_all add: d, simp_all add: restarted_def sample_state_def curr_name_def sample_context_def
        default_context_def log_level_def exists_dir_def)
qed

section \<open>What is printed\<close>

lemma masked_message: "c_mask con < log_level ty \<Longrightarrow> log_output F breaks ty con rc msg L = Returned L"
  by (simp add: log_output_def)

lemma message_without_directory:
  "c_dir con = [] \<Longrightarrow> log_level ty \<le> c_mask con \<Longrightarrow> ty \<noteq> Fetal \<Longrightarrow>
   log_output F breaks ty con rc msg L =
     Returned (put (log_stream ty con) (log_text F breaks ty con rc msg @ [LF, LF]) L)"
  by (simp add: log_output_def open_log_output_device_def log_stream_def Let_def)

lemma fetal_message_ends:
  "0 \<le> c_mask con \<Longrightarrow> \<exists>L'. log_output F breaks Fetal con rc msg L \<in> {Aborted L', Terminated L', Null_write L'}"
  by (auto simp: log_output_def log_level_def Let_def split: option.splits)

text \<open>Rotating twice within what the clock's text tells apart replaces the first completed file.\<close>

lemma same_clock_replaces:
  assumes "keys_distinct (log_fs L)" "curr_name L cat = d @ a @ ''-(now)''"
    and "contents (log_fs L) (d @ a @ ''-(now)'') = Some c" "d @ a @ ''-(now)'' \<noteq> d @ a @ ''-'' @ clock_of F (last_time L)"
    and "save_last_name F cat L = Some L'"
  shows "contents (log_fs L') (d @ a @ ''-'' @ clock_of F (last_time L)) = Some c"
  using assms
  by (auto simp: save_last_name_def Let_def set_name_def fs_rename_def contents_def update_conv'
      split: if_splits option.splits)

end
