(* ===== verification/TcpServer.thy ===== *)
theory TcpServer
  imports AppInfo
begin

text \<open>
  The sites of the server: \<open>gts/server/server/tcp_server.cpp\<close>, and the choice of the plugin method for a
  connection in \<open>gts/server/server_tool.cpp\<close>.

  The configuration files are read by libraries; the model starts from the parsed value of the sites
  file, a list of named objects whose members are strings, numbers (by their integer part), booleans or
  other values.  Whether an address text can be parsed and which steps of opening an acceptor fail are
  arguments.  A call of \<open>gts_log_fatal\<close> ends the program; \<open>Fatal\<close> is that result.
\<close>

section \<open>Sites\<close>

datatype json = JString string | JNumber int | JBool bool | JOther

type_synonym json_object = "(string \<times> json) list"

record site_info =
  si_addr :: string
  si_port :: u16
  si_universal :: bool
  si_ssl :: bool

datatype json_error = Wrong_type

fun get_string :: "json \<Rightarrow> string option" where
  "get_string (JString s) = Some s"
| "get_string _ = None"

fun get_int :: "json \<Rightarrow> int option" where
  "get_int (JNumber i) = Some i"
| "get_int (JBool b) = Some (if b then 1 else 0)"
| "get_int _ = None"

fun get_bool :: "json \<Rightarrow> bool option" where
  "get_bool (JBool b) = Some b"
| "get_bool _ = None"

text \<open>One entry of the sites file; \<open>None\<close>: fatal, because a member has the wrong type or the port is
  missing.  \<open>ssl_built\<close> tells whether the server is compiled with SSL.  The port passes through an
  \<open>int\<close> into 16 bits.\<close>

definition read_site :: "bool \<Rightarrow> json_object \<Rightarrow> site_info option" where
  "read_site ssl_built obj =
     (case (case map_of obj ''address'' of None \<Rightarrow> Some ''ipv4'' | Some j \<Rightarrow> map_option str_to_lower (get_string j)) of
        None \<Rightarrow> None
      | Some addr \<Rightarrow>
     (case (case map_of obj ''port'' of None \<Rightarrow> None | Some j \<Rightarrow> get_int j) of
        None \<Rightarrow> None
      | Some port \<Rightarrow>
     (case (case map_of obj ''universal'' of None \<Rightarrow> Some True | Some j \<Rightarrow> get_bool j) of
        None \<Rightarrow> None
      | Some universal \<Rightarrow>
     (case (case map_of obj ''ssl'' of None \<Rightarrow> Some False | Some j \<Rightarrow> get_bool j) of
        None \<Rightarrow> None
      | Some ssl \<Rightarrow>
          Some \<lparr>si_addr = addr, si_port = word_of_int port, si_universal = universal,
            si_ssl = (ssl_built \<and> ssl)\<rparr>))))"

text \<open>\<open>std::map\<close> ordered by name; an entry that is there already is kept.\<close>

type_synonym site_info_map = "(string \<times> site_info) list"

fun site_emplace :: "string \<Rightarrow> 'a \<Rightarrow> (string \<times> 'a) list \<Rightarrow> (string \<times> 'a) list" where
  "site_emplace k v [] = [(k, v)]"
| "site_emplace k v ((k', v') # m) =
     (if k = k' then (k', v') # m
      else if k < k' then (k, v) # (k', v') # m
      else (k', v') # site_emplace k v m)"

fun read_sites :: "bool \<Rightarrow> (string \<times> json_object) list \<Rightarrow> site_info_map \<Rightarrow> site_info_map option" where
  "read_sites ssl_built [] m = Some m"
| "read_sites ssl_built ((name, obj) # es) m =
     (if map_of m name \<noteq> None then read_sites ssl_built es m
      else case read_site ssl_built obj of
        None \<Rightarrow> None
      | Some info \<Rightarrow> read_sites ssl_built es (site_emplace name info m))"

section \<open>Acceptors\<close>

datatype address = Any_v4 | Any_v6 | Loopback_v4 | Loopback_v6 | Given string

type_synonym endpoint = "address \<times> u16"

record site =
  m_endpoint :: endpoint
  m_addr :: string
  m_universal :: bool
  m_ssl :: bool
  m_listening :: bool
  m_accepting :: bool

text \<open>The constructor; \<open>valid\<close> tells whether \<open>ip::make_address\<close> accepts a text.\<close>

definition basic_site :: "(string \<Rightarrow> bool) \<Rightarrow> site_info \<Rightarrow> site" where
  "basic_site valid info =
     (let a = si_addr info in
      \<lparr>m_endpoint =
         (if a = ''localhost'' then Loopback_v4
          else if a = ''localhostipv6'' \<or> a = ''localhost_ipv6'' then Loopback_v6
          else if a = ''ipv6'' \<or> a = ''anyipv6'' then Any_v6
          else if a = ''ipv4'' \<or> a = ''anyipv4'' \<or> a = ''any'' \<or> a = ''auto'' then Any_v4
          else if valid a then Given a
          else Any_v4, si_port info),
       m_addr = a, m_universal = si_universal info, m_ssl = si_ssl info, m_listening = False, m_accepting = False\<rparr>)"

datatype accept_op = Op_open | Op_reuse | Op_bind | Op_listen

text \<open>\<open>basic_site::start\<close>: the four calls in order, until one fails.\<close>

fun acceptor_ops :: "(accept_op \<Rightarrow> endpoint \<Rightarrow> bool) \<Rightarrow> accept_op list \<Rightarrow> endpoint \<Rightarrow> bool" where
  "acceptor_ops ok [] e = True"
| "acceptor_ops ok (op # ops) e = (if ok op e then acceptor_ops ok ops e else False)"

definition basic_start :: "(accept_op \<Rightarrow> endpoint \<Rightarrow> bool) \<Rightarrow> site \<Rightarrow> site \<times> bool" where
  "basic_start ok s =
     (if acceptor_ops ok [Op_open, Op_reuse, Op_bind, Op_listen] (m_endpoint s)
      then (s\<lparr>m_listening := True\<rparr>, True) else (s, False))"

text \<open>\<open>tcp_site::start\<close> and \<open>ssl_site::start\<close>.\<close>

definition site_start :: "(accept_op \<Rightarrow> endpoint \<Rightarrow> bool) \<Rightarrow> bool \<Rightarrow> site \<Rightarrow> site \<times> bool" where
  "site_start ok no_ck_file s =
     (if m_ssl s \<and> no_ck_file then (s, False)
      else case basic_start ok s of
        (s, False) \<Rightarrow> (s, False)
      | (s, True) \<Rightarrow> (s\<lparr>m_accepting := True\<rparr>, True))"

definition site_stop :: "site \<Rightarrow> site" where
  "site_stop s = (if m_listening s then s\<lparr>m_listening := False, m_accepting := False\<rparr> else s)"

definition site_status :: "site \<Rightarrow> string" where
  "site_status s =
     ''  address : '' @ m_addr s @ [LF] @ ''  port    : '' @ dec (unat (snd (m_endpoint s))) @ [LF] @
     (if m_ssl s then ''  protocol: ssl'' else ''  protocol: tcp'') @ [LF]"

section \<open>The server\<close>

record tcp_server =
  m_sites :: "(string \<times> site) list"
  m_buffer_size :: int
  g_site_infos :: site_info_map
  plugins_started :: bool
  plugins_ended :: nat

definition tcp_server_new :: tcp_server where
  "tcp_server_new = \<lparr>m_sites = [], m_buffer_size = 65536, g_site_infos = [], plugins_started = False, plugins_ended = 0\<rparr>"

text \<open>What \<open>start\<close> finds: the setting of the sites file, its contents when it exists and can be parsed, the
  setting of the plugins file and whether it exists, and the configured buffer size.\<close>

record config =
  sites_file :: string
  sites_exist :: bool
  sites_json :: "(string \<times> json_object) list option"
  plugins_file :: string
  plugins_exist :: bool
  buffer_setting :: int
  ssl_built :: bool
  no_ck_file :: bool
  address_valid :: "string \<Rightarrow> bool"
  accept_ok :: "accept_op \<Rightarrow> endpoint \<Rightarrow> bool"

datatype start_result = Started tcp_server | Fatal

fun start_sites :: "config \<Rightarrow> site_info_map \<Rightarrow> (string \<times> site) list \<Rightarrow> (string \<times> site) list" where
  "start_sites c [] m = m"
| "start_sites c ((name, info) # is) m =
     (case site_start (accept_ok c) (no_ck_file c) (basic_site (address_valid c) info) of
        (s, True) \<Rightarrow> start_sites c is (site_emplace name s m)
      | (s, False) \<Rightarrow> start_sites c is m)"

definition default_site :: site_info where
  "default_site = \<lparr>si_addr = ''ipv4'', si_port = 80, si_universal = True, si_ssl = False\<rparr>"

definition server_start :: "config \<Rightarrow> tcp_server \<Rightarrow> start_result" where
  "server_start c v =
     (if sites_file c = [] then
        Started (v\<lparr>m_sites := site_emplace ''default'' (basic_site (address_valid c) default_site) (m_sites v)\<rparr>)
      else if \<not> sites_exist c then Fatal
      else case sites_json c of
        None \<Rightarrow> Fatal
      | Some js \<Rightarrow>
          (case read_sites (ssl_built c) js (g_site_infos v) of
             None \<Rightarrow> Fatal
           | Some infos \<Rightarrow>
               if plugins_file c = [] then Fatal
               else if \<not> plugins_exist c then Started (v\<lparr>g_site_infos := infos\<rparr>)
               else let sites = start_sites c infos (m_sites v) in
                 if sites = [] then Fatal
                 else Started (v\<lparr>m_sites := sites, m_buffer_size := max 1024 (buffer_setting c),
                   g_site_infos := infos, plugins_started := True\<rparr>)))"

text \<open>\<open>stop\<close> destroys the sites, which stops them, and ends the plugins.\<close>

definition server_stop :: "tcp_server \<Rightarrow> tcp_server" where
  "server_stop v =
     (if m_sites v = [] then v
      else v\<lparr>m_sites := [], plugins_ended := plugins_ended v + 1\<rparr>)"

definition server_status :: "string \<Rightarrow> tcp_server \<Rightarrow> string" where
  "server_status plugins v =
     [LF] @ concat (map (\<lambda>(n, s). ''site( '' @ n @ '' ):'' @ [LF] @ site_status s @ [LF]) (m_sites v)) @ plugins"

text \<open>\<open>new_connection\<close>: the global methods named \<open>gts.plugin.new_connection\<close> with a port or without; the
  result is the method called, \<open>None\<close> when there is none, and the caller ends the program.\<close>

definition new_connection :: "(string \<Rightarrow> bool) \<Rightarrow> u16 \<Rightarrow> bool \<Rightarrow> string option" where
  "new_connection method port universal =
     (let own = ''gts.plugin.new_connection.'' @ dec (unat port); general = ''gts.plugin.new_connection'' in
      if \<not> universal \<and> method own then Some own
      else if method general then Some general
      else None)"

section \<open>Accepting\<close>

text \<open>One acceptor with its pending operation; the result of an operation is an error number or none, and
  each connection is passed to \<open>service\<close> or, with SSL, to a handshake first.\<close>

datatype acceptor_state = Accepting | Handshaking | Ended | Aborted

record accept_loop =
  al_state :: acceptor_state
  al_served :: nat
  al_unconnected :: nat

definition accept_new :: accept_loop where
  "accept_new = \<lparr>al_state = Accepting, al_served = 0, al_unconnected = 0\<rparr>"

datatype accept_error = Operation_aborted | Interrupted | Other_error

text \<open>\<open>ERROR_CHECK\<close>: an aborted operation ends the loop, an interrupted call goes on as if it had
  succeeded, and every other error is fatal.\<close>

definition tcp_accepted :: "accept_error option \<Rightarrow> accept_loop \<Rightarrow> accept_loop" where
  "tcp_accepted e a =
     (if al_state a \<noteq> Accepting then a
      else case e of
        None \<Rightarrow> a\<lparr>al_served := al_served a + 1\<rparr>
      | Some Operation_aborted \<Rightarrow> a\<lparr>al_state := Ended\<rparr>
      | Some Interrupted \<Rightarrow> a\<lparr>al_unconnected := al_unconnected a + 1\<rparr>
      | Some Other_error \<Rightarrow> a\<lparr>al_state := Aborted\<rparr>)"

definition ssl_accepted :: "accept_error option \<Rightarrow> accept_loop \<Rightarrow> accept_loop" where
  "ssl_accepted e a =
     (if al_state a \<noteq> Accepting then a
      else case e of
        None \<Rightarrow> a\<lparr>al_state := Handshaking\<rparr>
      | Some Operation_aborted \<Rightarrow> a\<lparr>al_state := Ended\<rparr>
      | Some Interrupted \<Rightarrow> a\<lparr>al_state := Handshaking\<rparr>
      | Some Other_error \<Rightarrow> a\<lparr>al_state := Aborted\<rparr>)"

definition handshake_done :: "bool \<Rightarrow> accept_loop \<Rightarrow> accept_loop" where
  "handshake_done ok a =
     (if al_state a \<noteq> Handshaking then a
      else if ok then a\<lparr>al_state := Accepting, al_served := al_served a + 1\<rparr>
      else a\<lparr>al_state := Accepting\<rparr>)"

section \<open>Ordered maps\<close>

definition ordered :: "(string \<times> 'a) list \<Rightarrow> bool" where
  "ordered m = sorted_wrt (<) (map fst m)"

lemma ordered_Nil [simp]: "ordered []"
  by (simp add: ordered_def)

lemma ordered_tail_None: "ordered ((k, v) # m) \<Longrightarrow> k' \<le> k \<Longrightarrow> map_of m k' = None"
  by (auto simp: ordered_def map_of_eq_None_iff)

lemma site_emplace_keys: "fst ` set (site_emplace k v m) = insert k (fst ` set m)"
  by (induction k v m rule: site_emplace.induct) auto

lemma site_emplace_ordered: "ordered m \<Longrightarrow> ordered (site_emplace k v m)"
proof (induction k v m rule: site_emplace.induct)
  case (2 k v k' v' m)
  have "\<forall>x \<in> fst ` set (site_emplace k v m). k' < x" if "k' < k"
    using that 2(2) by (auto simp: site_emplace_keys ordered_def)
  with 2 show ?case by (auto simp: ordered_def)
qed (simp add: ordered_def)

lemma site_emplace_map:
  "ordered m \<Longrightarrow> map_of (site_emplace k v m) q = (if q = k \<and> map_of m k = None then Some v else map_of m q)"
proof (induction k v m rule: site_emplace.induct)
  case (2 k v k' v' m)
  have t: "ordered m" using 2(2) by (simp add: ordered_def)
  consider "k = k'" | "k < k'" | "k' < k" by (rule linorder_cases)
  then show ?case
  proof cases
    case 2
    then show ?thesis using ordered_tail_None [OF \<open>ordered ((k', v') # m)\<close>, of k] by auto
  next
    case 3
    then show ?thesis using "2.IH" t by auto
  qed simp
qed simp

section \<open>Starting\<close>

lemma read_sites_map:
  assumes "read_sites b js m = Some m'" "ordered m" "distinct (map fst js)"
  shows "ordered m' \<and> (\<forall>n. map_of m' n =
    (case map_of m n of Some i \<Rightarrow> Some i
     | None \<Rightarrow> (case map_of js n of None \<Rightarrow> None | Some obj \<Rightarrow> read_site b obj)))"
  using assms
proof (induction b js m rule: read_sites.induct)
  case (2 b name obj es m)
  show ?case
  proof (cases "map_of m name")
    case None
    with "2.prems"(1) obtain info where info: "read_site b obj = Some info"
      "read_sites b es (site_emplace name info m) = Some m'"
      by (auto split: option.splits)
    have "map_of es name = None" using "2.prems"(3) by (simp add: map_of_eq_None_iff)
    with "2.IH"(2) [OF _ info site_emplace_ordered [OF "2.prems"(2)]] None info "2.prems" show ?thesis
      by (auto simp: site_emplace_map split: option.splits)
  next
    case (Some i)
    with "2.IH"(1) "2.prems" show ?thesis by (auto split: option.splits)
  qed
qed (auto split: option.split)

lemma start_sites_map:
  assumes "ordered is" "ordered m"
  shows "ordered (start_sites c is m) \<and> (\<forall>n. map_of (start_sites c is m) n =
    (case map_of m n of Some s \<Rightarrow> Some s
     | None \<Rightarrow> (case map_of is n of None \<Rightarrow> None
        | Some info \<Rightarrow> (case site_start (accept_ok c) (no_ck_file c) (basic_site (address_valid c) info) of
            (s, True) \<Rightarrow> Some s | (s, False) \<Rightarrow> None))))"
  using assms
proof (induction c "is" m rule: start_sites.induct)
  case (2 c name info "is" m)
  let ?r = "site_start (accept_ok c) (no_ck_file c) (basic_site (address_valid c) info)"
  obtain s b where r: "?r = (s, b)" by (cases ?r)
  have o: "ordered is" using "2.prems"(1) by (simp add: ordered_def)
  have n: "map_of is name = None" by (rule ordered_tail_None [OF "2.prems"(1) order_refl])
  show ?case
  proof (cases b)
    case True
    with "2.IH"(1) r o site_emplace_ordered [OF "2.prems"(2)]
    show ?thesis using n "2.prems"(2)
      by (auto simp: site_emplace_map split: option.splits)
  next
    case False
    with "2.IH"(2) r o n "2.prems"(2) show ?thesis by (auto split: option.splits)
  qed
qed (auto split: option.split)

lemma site_start_True:
  "site_start ok nock s = (s', True) \<Longrightarrow> s' = s\<lparr>m_listening := True, m_accepting := True\<rparr>"
  by (auto simp: site_start_def basic_start_def split: if_splits)

lemma site_start_listens: "site_start ok nock s = (s', True) \<Longrightarrow> m_listening s' \<and> m_accepting s'"
  by (auto dest: site_start_True)


definition sample_config :: config where
  "sample_config = \<lparr>sites_file = ''sites.json'', sites_exist = True,
     sites_json = Some [(''b'', [(''address'', JString ''IPv4''), (''port'', JNumber 8080)]),
       (''a'', [(''port'', JNumber 80), (''universal'', JBool False)])],
     plugins_file = ''plugins.json'', plugins_exist = True, buffer_setting = 10, ssl_built = False, no_ck_file = True,
     address_valid = (\<lambda>a. False), accept_ok = (\<lambda>op e. snd e \<noteq> 80)\<rparr>"

lemma sample_config_starts:
  "case server_start sample_config tcp_server_new of
     Started v \<Rightarrow> map fst (m_sites v) = [''b''] \<and> map fst (g_site_infos v) = [''a'', ''b'']
   | Fatal \<Rightarrow> False"
  by code_simp


text \<open>Without a sites file nothing is served.  The server then keeps a default site for port 80 in its
  table and reports it in its status, but returns before the site is started and before the plugins
  are: no site listens, and no plugin ever gets a connection.\<close>

lemma default_site_not_served:
  assumes "sites_file c = []" "server_start c tcp_server_new = Started v"
  shows "map fst (m_sites v) = [''default''] \<and> (\<forall>(n, s) \<in> set (m_sites v). \<not> m_listening s \<and> \<not> m_accepting s) \<and>
    \<not> plugins_started v \<and>
    server_status [] v = [LF] @ ''site( default ):'' @ [LF] @ ''  address : ipv4'' @ [LF] @ ''  port    : 80'' @ [LF] @
      ''  protocol: tcp'' @ [LF, LF]"
proof -
  have p: "dec 80 = ''80''" by code_simp
  show ?thesis using assms
    by (auto simp: server_start_def tcp_server_new_def basic_site_def default_site_def server_status_def
        site_status_def p)
qed

lemma default_site_not_served_witness:
  "\<exists>v. server_start (sample_config\<lparr>sites_file := []\<rparr>) tcp_server_new = Started v \<and> map fst (m_sites v) = [''default''] \<and>
     \<not> plugins_started v"
proof -
  have f: "sites_file (sample_config\<lparr>sites_file := []\<rparr>) = []" by simp
  obtain v where v: "server_start (sample_config\<lparr>sites_file := []\<rparr>) tcp_server_new = Started v"
    by (simp add: server_start_def)
  from default_site_not_served [OF f v] v show ?thesis by (intro exI [of _ v]) simp
qed

text \<open>A port outside 16 bits becomes another port.\<close>

lemma port_wraps: "read_site b [(''port'', JNumber 65616)] = Some \<lparr>si_addr = ''ipv4'', si_port = 80, si_universal = True, si_ssl = False\<rparr>"
  by (simp add: read_site_def)

lemma stop_twice: "server_stop (server_stop v) = server_stop v"
  by (simp add: server_stop_def)

section \<open>Connections\<close>

lemma new_connection_own:
  "\<not> universal \<Longrightarrow> method (''gts.plugin.new_connection.'' @ dec (unat port)) \<Longrightarrow>
   new_connection method port universal = Some (''gts.plugin.new_connection.'' @ dec (unat port))"
  by (simp add: new_connection_def)

lemma new_connection_general:
  "universal \<or> \<not> method (''gts.plugin.new_connection.'' @ dec (unat port)) \<Longrightarrow> method ''gts.plugin.new_connection'' \<Longrightarrow>
   new_connection method port universal = Some ''gts.plugin.new_connection''"
  by (auto simp: new_connection_def)

text \<open>One slow client holds up an SSL site.  While the handshake of an accepted connection is pending,
  the site has no accept operation: whatever connections arrive, none of them is accepted or served
  before the handshake ends; a site without SSL serves each of them at once.\<close>

lemma handshake_blocks_site:
  "fold ssl_accepted (None # es) accept_new = accept_new\<lparr>al_state := Handshaking\<rparr> \<and>
   al_served (fold tcp_accepted (replicate n None) accept_new) = n \<and>
   ssl_accepted None (handshake_done False (fold ssl_accepted (None # es) accept_new)) =
     accept_new\<lparr>al_state := Handshaking\<rparr>"
proof -
  have h: "fold ssl_accepted es a = a" if "al_state a = Handshaking" for a
    using that by (induction es) (simp_all add: ssl_accepted_def)
  have t: "al_state a = Accepting \<Longrightarrow> al_state (fold tcp_accepted (replicate n None) a) = Accepting \<and>
      al_served (fold tcp_accepted (replicate n None) a) = al_served a + n" for a
    by (induction n arbitrary: a) (simp_all add: tcp_accepted_def)
  show ?thesis
    using t [of accept_new]
    by (simp add: accept_new_def ssl_accepted_def handshake_done_def h)
qed

text \<open>An error of one accept call other than an aborted or an interrupted one ends the whole server.\<close>

lemma accept_error_fatal:
  "al_state a = Accepting \<Longrightarrow> al_state (tcp_accepted (Some Other_error) a) = Aborted"
  "al_state a = Accepting \<Longrightarrow> al_state (ssl_accepted (Some Other_error) a) = Aborted"
  by (simp_all add: tcp_accepted_def ssl_accepted_def)

lemma interrupted_accept_served:
  "al_state a = Accepting \<Longrightarrow> al_unconnected (tcp_accepted (Some Interrupted) a) = al_unconnected a + 1"
  by (simp add: tcp_accepted_def)

end
