(* ===== verification/AppCore.thy ===== *)
theory AppCore
  imports AppInfo ArgsParser
begin

text \<open>
  The process of the server: \<open>gts/server/cmdline/app_core.cpp\<close> and
  \<open>gts/server/cmdline/private/app_core_unix.cpp\<close> (what the command line asks for, the lock file,
  stopping a running server) and the signals and the log category of \<open>gts/server/application.cpp\<close>.

  The lock file is modelled with the processes that use it: a path that leads to a file or to none,
  the files with their contents, and for each file the process that holds the lock of \<open>flock\<close> on it.
  Each system call is a step of one process.  A process can also be killed, which closes its files.
  Forking a daemon and the messages on the terminal are not modelled.
\<close>

section \<open>The command line\<close>

definition set_of_queries :: "string list" where
  "set_of_queries = [''status'', ''--view-subserver-all'', ''--view-subserver'', ''--start-subserver-all'',
     ''--stop-subserver-all'', ''--start-subserver'', ''--stop-subserver'']"

datatype cmd_error = Invalid | Too_many | Not_running

text \<open>The requests of \<open>gts/server/global.h\<close>.\<close>

definition CCMD_VSS :: string where "CCMD_VSS = ''view server status''"
definition CCMD_VASS :: string where "CCMD_VASS = ''view all subserver''"
definition CCMD_VRSS :: string where "CCMD_VRSS = ''view running subserver''"
definition CCMD_STSSA :: string where "CCMD_STSSA = ''start all subserver''"
definition CCMD_SPSSA :: string where "CCMD_SPSSA = ''stop all subserver''"
definition CCMD_STSS :: string where "CCMD_STSS = ''start subserver'' @ CRLF"
definition CCMD_SPSS :: string where "CCMD_SPSS = ''stop subserver'' @ CRLF"

lemmas ccmd_defs = CCMD_VSS_def CCMD_VASS_def CCMD_VRSS_def CCMD_STSSA_def CCMD_SPSSA_def CCMD_STSS_def CCMD_SPSS_def

text \<open>\<open>short_cmd_check\<close> up to the request it sends.\<close>

definition short_cmd_check :: "val umap \<Rightarrow> bool \<Rightarrow> cmd_error + string" where
  "short_cmd_check args lock_exists =
     (let cmd =
        (if args_has args ''status'' then Some CCMD_VSS
         else if args_has args ''--view-subserver-all'' then Some CCMD_VASS
         else if args_has args ''--view-subserver'' then Some CCMD_VRSS
         else if args_has args ''--start-subserver-all'' then Some CCMD_STSSA
         else if args_has args ''--stop-subserver-all'' then Some CCMD_SPSSA
         else if args_has args ''--start-subserver''
           then map_option (\<lambda>v. CCMD_STSS @ v) (umap_find args ''--start-subserver'')
         else if args_has args ''--stop-subserver''
           then map_option (\<lambda>v. CCMD_SPSS @ v) (umap_find args ''--stop-subserver'')
         else None)
      in case cmd of
           None \<Rightarrow> Inl Invalid
         | Some c \<Rightarrow>
             if length args > 1 then Inl Too_many
             else if \<not> lock_exists then Inl Not_running
             else Inr c)"

datatype cmd_result =
    Query "cmd_error + string"
  | Start "val umap"
  | Dir_failed
  | Restart "val umap"
  | Stop
  | Failed cmd_error
  | Help

text \<open>\<open>cmdline_handle\<close>: the instance name it leaves, and what follows.  The file system answers for a
  name whether the run directory exists or can be made and whether the lock file exists.\<close>

definition cmdline_handle ::
  "(string \<Rightarrow> bool) \<Rightarrow> (string \<Rightarrow> bool) \<Rightarrow> (string \<Rightarrow> bool) \<Rightarrow> string \<Rightarrow> val umap \<Rightarrow> string \<times> cmd_result" where
  "cmdline_handle dir_exists mkdir_ok lock_exists inst args =
     (let (inst, args) =
        (case umap_find args ''-i'' of
           None \<Rightarrow> (inst, args)
         | Some v \<Rightarrow> (set_instance_name v, umap_erase args ''-i''))
      in (inst,
        if list_ex (args_has args) set_of_queries then Query (short_cmd_check args (lock_exists inst))
        else if args_has args ''start'' then
          (if dir_exists inst \<or> mkdir_ok inst then Start args else Dir_failed)
        else if args_has args ''restart'' then
          (if lock_exists inst then Restart args else Failed Not_running)
        else if args_has args ''stop'' then
          (if length args > 1 then Failed Too_many
           else if lock_exists inst then Stop else Failed Not_running)
        else Help))"

text \<open>The category of the log, from the arguments that \<open>startup\<close> returns.\<close>

definition log_category :: "val umap \<Rightarrow> string" where
  "log_category args = (case umap_find args ''-i'' of Some v \<Rightarrow> v | None \<Rightarrow> ''gts'')"

lemma umap_find_erase: "umap_find (umap_erase m k) k = None"
  by (auto simp: umap_find_def umap_erase_def map_of_eq_None_iff)

text \<open>All instances log under one category.  \<open>cmdline_handle\<close> takes the option \<open>-i\<close> out of the
  arguments that the application gets, so whatever the command line names, a server that is started or
  restarted chooses the category \<open>gts\<close>, and instances with the same directory share their log files.\<close>

lemma log_category_always_gts:
  assumes "cmdline_handle de mk le inst args = (inst', r)" "r = Start args' \<or> r = Restart args'"
  shows "log_category args' = ''gts''"
proof -
  have "umap_find args' ''-i'' = None"
    using assms by (auto simp: cmdline_handle_def Let_def umap_find_erase split: option.splits if_splits)
  then show ?thesis by (simp add: log_category_def)
qed

lemma log_category_always_gts_witness:
  "cmdline_handle (\<lambda>i. True) (\<lambda>i. True) (\<lambda>i. False) ''gts'' [(''start'', ''start''), (''-i'', ''two'')] =
     (''two'', Start [(''start'', ''start'')]) \<and> log_category [(''start'', ''start'')] = ''gts''"
proof -
  have "set_instance_name ''two'' = ''two''" by code_simp
  then have h: "cmdline_handle (\<lambda>i. True) (\<lambda>i. True) (\<lambda>i. False) ''gts'' [(''start'', ''start''), (''-i'', ''two'')] =
      (''two'', Start [(''start'', ''start'')])"
    by (simp add: cmdline_handle_def set_of_queries_def umap_find_def umap_erase_def args_has_def)
  show ?thesis using log_category_always_gts [OF h, of "[(''start'', ''start'')]"] h by simp
qed

section \<open>The lock file\<close>

datatype proc_pc =
    P_out
  | P_open
  | P_flock nat
  | P_write nat
  | P_running nat
  | P_closed
  | P_gone

record procs =
  lock_path :: "nat option"
  file_text :: "nat \<Rightarrow> string"
  lock_holder :: "nat \<Rightarrow> nat option"
  next_inode :: nat
  proc_pc :: "nat \<Rightarrow> proc_pc"

definition procs_new :: procs where
  "procs_new = \<lparr>lock_path = None, file_text = (\<lambda>i. []), lock_holder = (\<lambda>i. None), next_inode = 0,
     proc_pc = (\<lambda>p. P_out)\<rparr>"

definition at_proc :: "nat \<Rightarrow> proc_pc \<Rightarrow> procs \<Rightarrow> procs" where
  "at_proc p c s = s\<lparr>proc_pc := (proc_pc s)(p := c)\<rparr>"

text \<open>\<open>startup\<close>: the file is opened and cut to length 0, locked, and gets the process id from its first
  byte on.\<close>

definition open_lock :: "nat \<Rightarrow> procs \<Rightarrow> procs" where
  "open_lock p s =
     (case lock_path s of
        Some i \<Rightarrow> at_proc p (P_flock i) (s\<lparr>file_text := (file_text s)(i := [])\<rparr>)
      | None \<Rightarrow> at_proc p (P_flock (next_inode s))
          (s\<lparr>lock_path := Some (next_inode s), file_text := (file_text s)(next_inode s := []),
             next_inode := next_inode s + 1\<rparr>))"

definition flock_lock :: "nat \<Rightarrow> nat \<Rightarrow> procs \<Rightarrow> procs" where
  "flock_lock p i s =
     (if lock_holder s i = None
      then at_proc p (P_write i) (s\<lparr>lock_holder := (lock_holder s)(i := Some p)\<rparr>)
      else at_proc p P_gone s)"

definition write_pid :: "nat \<Rightarrow> nat \<Rightarrow> procs \<Rightarrow> procs" where
  "write_pid p i s =
     at_proc p (P_running i) (s\<lparr>file_text := (file_text s)(i := dec p @ drop (length (dec p)) (file_text s i))\<rparr>)"

text \<open>\<open>app_unlock\<close>, which closes the file and removes the path.\<close>

definition close_lock :: "nat \<Rightarrow> nat \<Rightarrow> procs \<Rightarrow> procs" where
  "close_lock p i s = at_proc p P_closed (s\<lparr>lock_holder := (lock_holder s)(i := None)\<rparr>)"

definition remove_lock :: "nat \<Rightarrow> procs \<Rightarrow> procs" where
  "remove_lock p s = at_proc p P_gone (s\<lparr>lock_path := None\<rparr>)"

definition startup_step :: "nat \<Rightarrow> procs \<Rightarrow> procs option" where
  "startup_step p s =
     (case proc_pc s p of
        P_open \<Rightarrow> Some (open_lock p s)
      | P_flock i \<Rightarrow> Some (flock_lock p i s)
      | P_write i \<Rightarrow> Some (write_pid p i s)
      | _ \<Rightarrow> None)"

definition app_unlock :: "nat \<Rightarrow> procs \<Rightarrow> procs option" where
  "app_unlock p s =
     (case proc_pc s p of
        P_running i \<Rightarrow> Some (close_lock p i s)
      | P_closed \<Rightarrow> Some (remove_lock p s)
      | _ \<Rightarrow> None)"

datatype proc_act = A_start | A_startup | A_unlock | A_kill

definition proc_next :: "procs \<Rightarrow> nat \<Rightarrow> proc_act \<Rightarrow> procs option" where
  "proc_next s p a =
     (case a of
        A_start \<Rightarrow> if proc_pc s p = P_out then Some (at_proc p P_open s) else None
      | A_startup \<Rightarrow> startup_step p s
      | A_unlock \<Rightarrow> app_unlock p s
      | A_kill \<Rightarrow>
          Some (at_proc p P_gone (s\<lparr>lock_holder := (\<lambda>i. if lock_holder s i = Some p then None else lock_holder s i)\<rparr>)))"

text \<open>The states that the processes can reach with steps out of \<open>A\<close>.\<close>

inductive proc_reach :: "proc_act set \<Rightarrow> procs \<Rightarrow> bool" for A where
  proc_reach_new: "proc_reach A procs_new"
| proc_reach_next: "proc_reach A s \<Longrightarrow> a \<in> A \<Longrightarrow> proc_next s p a = Some s' \<Longrightarrow> proc_reach A s'"

fun proc_exec :: "(nat \<times> proc_act) list \<Rightarrow> procs \<Rightarrow> procs option" where
  "proc_exec [] s = Some s"
| "proc_exec ((p, a) # as) s = (case proc_next s p a of None \<Rightarrow> None | Some s' \<Rightarrow> proc_exec as s')"

lemma proc_exec_reach:
  "proc_exec as s = Some s' \<Longrightarrow> proc_reach A s \<Longrightarrow> list_all (\<lambda>(p, a). a \<in> A) as \<Longrightarrow> proc_reach A s'"
proof (induction as arbitrary: s)
  case (Cons x as)
  obtain p a where x: "x = (p, a)" by (cases x)
  with Cons.prems(1) obtain s1 where s1: "proc_next s p a = Some s1" "proc_exec as s1 = Some s'"
    by (auto split: option.splits)
  from Cons.prems(3) x have a: "a \<in> A" "list_all (\<lambda>(p, a). a \<in> A) as" by simp_all
  show ?case by (rule Cons.IH [OF s1(2) proc_reach_next [OF Cons.prems(2) a(1) s1(1)] a(2)])
qed simp

text \<open>The file whose lock a process holds.\<close>

fun locked :: "proc_pc \<Rightarrow> nat option" where
  "locked (P_write i) = Some i"
| "locked (P_running i) = Some i"
| "locked _ = None"

definition locks_ok :: "procs \<Rightarrow> bool" where
  "locks_ok s = (\<forall>p i. (locked (proc_pc s p) = Some i) = (lock_holder s i = Some p))"

lemma locks_okD: "locks_ok s \<Longrightarrow> (lock_holder s i = Some p) = (locked (proc_pc s p) = Some i)"
  by (simp add: locks_ok_def)

lemma locks_ok_new: "locks_ok procs_new"
  by (simp add: locks_ok_def procs_new_def)

lemma locks_ok_at: "locks_ok s \<Longrightarrow> locked c = locked (proc_pc s p) \<Longrightarrow> locks_ok (at_proc p c s)"
  by (simp add: locks_ok_def at_proc_def)

lemma locks_ok_fields [simp]:
  "locks_ok (s\<lparr>file_text := t\<rparr>) = locks_ok s"
  "locks_ok (s\<lparr>lock_path := l\<rparr>) = locks_ok s"
  "locks_ok (s\<lparr>lock_path := l, file_text := t, next_inode := n\<rparr>) = locks_ok s"
  by (simp_all add: locks_ok_def)

lemma locks_ok_flock:
  assumes "locks_ok s" "locked (proc_pc s p) = None"
  shows "locks_ok (flock_lock p i s)"
proof (cases "lock_holder s i")
  case None
  with assms have n: "locked (proc_pc s q) \<noteq> Some i" for q by (simp add: locks_ok_def)
  have m: "lock_holder s j \<noteq> Some p" for j using assms(2) by (simp add: locks_okD [OF assms(1)])
  show ?thesis
    unfolding locks_ok_def
  proof (intro allI)
    fix q j
    have "(locked (proc_pc s q) = Some j) = (lock_holder s j = Some q)"
      using assms(1) by (simp add: locks_ok_def)
    then show "(locked (proc_pc (flock_lock p i s) q) = Some j) = (lock_holder (flock_lock p i s) j = Some q)"
      using None n [of q] m [of j] by (auto simp: flock_lock_def at_proc_def)
  qed
next
  case (Some q)
  then show ?thesis using assms by (simp add: flock_lock_def locks_ok_at)
qed

lemma locks_ok_release:
  assumes "locks_ok s" "locked c = None"
  shows "locks_ok (at_proc p c (s\<lparr>lock_holder := (\<lambda>i. if lock_holder s i = Some p then None else lock_holder s i)\<rparr>))"
  unfolding locks_ok_def
proof (intro allI)
  fix q j
  have "(locked (proc_pc s q) = Some j) = (lock_holder s j = Some q)"
    using assms(1) by (simp add: locks_ok_def)
  then show "(locked (proc_pc (at_proc p c (s\<lparr>lock_holder := (\<lambda>i. if lock_holder s i = Some p then None else lock_holder s i)\<rparr>)) q) = Some j) =
      (lock_holder (at_proc p c (s\<lparr>lock_holder := (\<lambda>i. if lock_holder s i = Some p then None else lock_holder s i)\<rparr>)) j = Some q)"
    using assms(2) by (auto simp: at_proc_def)
qed

lemma close_lock_release:
  assumes "locks_ok s" "proc_pc s p = P_running i"
  shows "close_lock p i s =
    at_proc p P_closed (s\<lparr>lock_holder := (\<lambda>i. if lock_holder s i = Some p then None else lock_holder s i)\<rparr>)"
proof -
  have "lock_holder s j = Some p \<longleftrightarrow> j = i" for j
    using assms(2) by (auto simp: locks_okD [OF assms(1)])
  then show ?thesis by (auto simp: close_lock_def at_proc_def fun_eq_iff)
qed

lemma locks_ok_next:
  assumes ok: "locks_ok s" and step: "proc_next s p a = Some s'"
  shows "locks_ok s'"
proof (cases a)
  case A_start
  with step have "proc_pc s p = P_out" "s' = at_proc p P_open s" by (simp_all add: proc_next_def split: if_splits)
  with ok show ?thesis by (simp add: locks_ok_at)
next
  case A_kill
  with step locks_ok_release [OF ok, of P_gone p] show ?thesis by (auto simp: proc_next_def)
next
  case A_unlock
  with step ok show ?thesis
    by (cases "proc_pc s p")
      (auto simp: proc_next_def app_unlock_def remove_lock_def close_lock_release locks_ok_release
        intro: locks_ok_at)
next
  case A_startup
  show ?thesis
  proof (cases "proc_pc s p")
    case P_open
    with A_startup step have s': "s' = open_lock p s" by (simp add: proc_next_def startup_step_def)
    from ok P_open show ?thesis
      unfolding s' open_lock_def by (auto split: option.split intro!: locks_ok_at)
  next
    case (P_flock i)
    with A_startup step locks_ok_flock [OF ok, of p i] show ?thesis by (auto simp: proc_next_def startup_step_def)
  next
    case (P_write i)
    with A_startup step have s': "s' = write_pid p i s" by (simp add: proc_next_def startup_step_def)
    from ok P_write show ?thesis unfolding s' write_pid_def by (intro locks_ok_at) simp_all
  qed (use A_startup step in \<open>simp_all add: proc_next_def startup_step_def\<close>)
qed

lemma reach_locks_ok: "proc_reach A s \<Longrightarrow> locks_ok s"
  by (induction rule: proc_reach.induct) (auto intro: locks_ok_new locks_ok_next)

text \<open>Without \<open>app_unlock\<close> the path leads to one file all the time.\<close>

fun uses_file :: "proc_pc \<Rightarrow> nat option" where
  "uses_file (P_flock i) = Some i"
| "uses_file (P_write i) = Some i"
| "uses_file (P_running i) = Some i"
| "uses_file _ = None"

definition one_file :: "procs \<Rightarrow> bool" where
  "one_file s = (\<forall>p i. uses_file (proc_pc s p) = Some i \<longrightarrow> lock_path s = Some i)"

lemma one_file_next:
  assumes "one_file s" "proc_next s p a = Some s'" "a \<noteq> A_unlock"
  shows "one_file s'"
proof -
  have *: "uses_file (proc_pc s q) = Some i \<Longrightarrow> lock_path s = Some i" for q i
    using assms(1) by (simp add: one_file_def)
  show ?thesis
  proof (cases a)
    case A_startup
    with assms(2,3) * show ?thesis
      by (cases "proc_pc s p")
        (force simp: one_file_def proc_next_def startup_step_def open_lock_def flock_lock_def write_pid_def at_proc_def
          split: if_splits option.splits)+
  qed (use assms(2,3) * in \<open>auto simp: one_file_def proc_next_def at_proc_def split: if_splits\<close>)
qed

lemma reach_one_file: "proc_reach A s \<Longrightarrow> A_unlock \<notin> A \<Longrightarrow> one_file s"
proof (induction rule: proc_reach.induct)
  case proc_reach_new
  then show ?case by (simp add: one_file_def procs_new_def)
next
  case (proc_reach_next s a p s')
  then show ?case by (metis one_file_next)
qed

text \<open>C36: One running instance per lock file, while none shuts down.  With processes that start, also at
  the same time, and that are killed, at most one process of an instance name gets past the lock, and
  the path leads to the file that it holds.\<close>

lemma one_instance:
  assumes "proc_reach A s" "A_unlock \<notin> A"
    and "proc_pc s p = P_running i" "proc_pc s q = P_running j"
  shows "p = q \<and> lock_path s = Some i \<and> lock_holder s i = Some p"
proof -
  have o: "one_file s" by (rule reach_one_file [OF assms(1,2)])
  have "lock_path s = Some i" "lock_path s = Some j"
    using o assms(3,4) by (auto simp: one_file_def dest: spec [of _ p] spec [of _ q])
  moreover have "lock_holder s i = Some p" "lock_holder s j = Some q"
    using assms(3,4) by (simp_all add: locks_okD [OF reach_locks_ok [OF assms(1)]])
  ultimately show ?thesis by simp
qed

definition run_one :: "(nat \<times> proc_act) list" where
  "run_one = [(7, A_start), (7, A_startup), (7, A_startup), (7, A_startup)]"

lemmas proc_simps = procs_new_def proc_next_def startup_step_def app_unlock_def open_lock_def flock_lock_def
  write_pid_def close_lock_def remove_lock_def at_proc_def

lemma one_instance_witness:
  "\<exists>s. proc_exec run_one procs_new = Some s \<and> proc_pc s 7 = P_running 0 \<and> lock_path s = Some 0 \<and> lock_holder s 0 = Some 7"
proof -
  obtain s where s: "proc_exec run_one procs_new = Some s" "proc_pc s 7 = P_running 0"
    by (simp add: run_one_def proc_simps)
  have r: "proc_reach {A_start, A_startup} s"
    by (rule proc_exec_reach [OF s(1) proc_reach_new]) (simp add: run_one_def)
  from one_instance [OF r _ s(2) s(2)] s show ?thesis by auto
qed

definition run_two :: "(nat \<times> proc_act) list" where
  "run_two = run_one @ [(7, A_unlock), (8, A_start), (8, A_startup), (8, A_startup), (8, A_startup), (7, A_unlock),
     (9, A_start), (9, A_startup), (9, A_startup), (9, A_startup)]"

text \<open>Two instances can run at once around a shutdown.  \<open>app_unlock\<close> gives up the lock first and
  removes the path afterwards: a process that opens and locks the old file in between runs on a file
  without a path, and the next process makes a new file and runs beside it.\<close>

lemma two_instances:
  "\<exists>s. proc_reach {A_start, A_startup, A_unlock} s \<and> proc_pc s 8 = P_running 0 \<and> proc_pc s 9 = P_running 1"
proof -
  obtain s where s: "proc_exec run_two procs_new = Some s" "proc_pc s 8 = P_running 0" "proc_pc s 9 = P_running 1"
    by (simp add: run_two_def run_one_def proc_simps)
  have "proc_reach {A_start, A_startup, A_unlock} s"
    by (rule proc_exec_reach [OF s(1) proc_reach_new]) (simp add: run_two_def run_one_def)
  with s show ?thesis by blast
qed

section \<open>Stopping a running server\<close>

text \<open>\<open>stop_app\<close>.  The process to be stopped has a state; \<open>kill(pid, SIGTERM)\<close> and \<open>kill(pid, 0)\<close> are
  functions on it that also tell whether the call succeeds.\<close>

fun stop_polls :: "nat \<Rightarrow> ('s \<Rightarrow> 's \<times> bool) \<Rightarrow> 's \<Rightarrow> 's \<times> bool" where
  "stop_polls 0 poll s = (s, False)"
| "stop_polls (Suc n) poll s =
     (case poll s of (s, ok) \<Rightarrow> if \<not> ok then (s, True) else stop_polls n poll s)"

datatype stop_result = Server_not_running | Open_failed | Pid_error | Unable | Server_is_stop | Stop_timeout | Overrun

fun stop_rounds :: "nat \<Rightarrow> ('s \<Rightarrow> 's \<times> bool) \<Rightarrow> ('s \<Rightarrow> 's \<times> bool) \<Rightarrow> 's \<Rightarrow> 's \<times> stop_result" where
  "stop_rounds 0 kill_term poll s = (s, Stop_timeout)"
| "stop_rounds (Suc n) kill_term poll s =
     (case kill_term s of
        (s, False) \<Rightarrow> (s, Unable)
      | (s, True) \<Rightarrow>
          (case stop_polls 100 poll s of
             (s, True) \<Rightarrow> (s, Server_is_stop)
           | (s, False) \<Rightarrow> stop_rounds n kill_term poll s))"

definition trimmed :: "string \<Rightarrow> string" where
  "trimmed s = filter (\<lambda>c. \<not> (c = CHR '' '' \<or> c = CHR 0x09 \<or> c = LF)) s"

text \<open>The text of the lock file, \<open>None\<close> when the path does not exist; the buffer of 1024 zeros is read as
  a string, past its end when the file fills it without a zero.  A result that is below 1 as an
  \<open>int32_t\<close> is no process id.\<close>

definition stop_app ::
  "string option \<Rightarrow> bool \<Rightarrow> (u32 \<Rightarrow> 's \<Rightarrow> 's \<times> bool) \<Rightarrow> (u32 \<Rightarrow> 's \<Rightarrow> 's \<times> bool) \<Rightarrow> 's \<Rightarrow> 's \<times> stop_result" where
  "stop_app lock open_ok kill_term poll s =
     (case lock of
        None \<Rightarrow> (s, Server_not_running)
      | Some text \<Rightarrow>
          if \<not> open_ok then (s, Open_failed)
          else let str = takeWhile (\<lambda>c. c \<noteq> CHR 0x00) (take 1024 text) in
            if length str = 1024 then (s, Overrun)
            else if str = [] then (s, Server_not_running)
            else let pid = stoi32 (trimmed str) 10 in
              if sint pid < 1 then (s, Pid_error)
              else stop_rounds 3 (kill_term pid) (poll pid) s)"

definition run_wipe :: "(nat \<times> proc_act) list" where
  "run_wipe = run_one @ [(8, A_start), (8, A_startup), (8, A_startup)]"

text \<open>A second start takes away the means to stop the server.  \<open>startup\<close> cuts the lock file to length
  0 before it tries the lock; so once a second process has failed to start, the first one runs on, its
  process id is gone from the file, and \<open>stop_app\<close> reports that no server is running, without sending
  a signal.\<close>

lemma second_start_wipes_pid:
  "\<exists>s i. proc_reach {A_start, A_startup} s \<and> proc_pc s 7 = P_running i \<and> proc_pc s 8 = P_gone \<and> lock_path s = Some i \<and>
     stop_app (Some (file_text s i)) True kill_term poll (x :: 'x) = (x, Server_not_running)"
proof -
  obtain s where s: "proc_exec run_wipe procs_new = Some s" "proc_pc s 7 = P_running 0" "proc_pc s 8 = P_gone"
    "lock_path s = Some 0" "file_text s 0 = []"
    by (simp add: run_wipe_def run_one_def proc_simps)
  have "proc_reach {A_start, A_startup} s"
    by (rule proc_exec_reach [OF s(1) proc_reach_new]) (simp add: run_wipe_def run_one_def)
  with s show ?thesis by (intro exI [of _ s] exI [of _ 0]) (simp add: stop_app_def)
qed

section \<open>Signals of the server\<close>

datatype signo = SIGINT | SIGTERM | SIGPIPE

text \<open>The handler of \<open>m_sigs\<close>: \<open>async_wait\<close> is called once, by the constructor, and its handler runs once.\<close>

record signals =
  sg_waiting :: bool
  sg_exit :: bool

definition signals_new :: signals where
  "signals_new = \<lparr>sg_waiting = True, sg_exit = False\<rparr>"

definition on_signal :: "signo \<Rightarrow> signals \<Rightarrow> signals" where
  "on_signal n g =
     (if \<not> sg_waiting g then g
      else g\<lparr>sg_waiting := False, sg_exit := (sg_exit g \<or> n = SIGINT \<or> n = SIGTERM)\<rparr>)"

lemma on_signal_exit: "\<not> sg_waiting g \<Longrightarrow> fold on_signal ns g = g"
  by (induction ns) (simp_all add: on_signal_def)

lemma on_signal_first:
  "sg_exit (fold on_signal ns signals_new) \<longleftrightarrow> ns \<noteq> [] \<and> hd ns \<noteq> SIGPIPE"
proof (cases ns)
  case (Cons n ns')
  then show ?thesis by (cases n) (simp_all add: on_signal_def signals_new_def on_signal_exit)
qed (simp add: signals_new_def)

text \<open>A server that is asked to stop: its event loop ends when the exit is requested, and the process is
  gone some polls later.\<close>

record server =
  sv_signals :: signals
  sv_left :: nat

definition server_term :: "server \<Rightarrow> server \<times> bool" where
  "server_term v =
     (if sg_exit (sv_signals v) \<and> sv_left v = 0 then (v, False)
      else (v\<lparr>sv_signals := on_signal SIGTERM (sv_signals v)\<rparr>, True))"

definition server_poll :: "server \<Rightarrow> server \<times> bool" where
  "server_poll v =
     (if sg_exit (sv_signals v) then if sv_left v = 0 then (v, False) else (v\<lparr>sv_left := sv_left v - 1\<rparr>, True)
      else (v, True))"

lemma polls_exit:
  "sg_exit (sv_signals v) \<Longrightarrow>
   stop_polls n server_poll v = (v\<lparr>sv_left := sv_left v - min n (sv_left v)\<rparr>, sv_left v < n)"
proof (induction n arbitrary: v)
  case (Suc n)
  show ?case
  proof (cases "sv_left v")
    case 0
    with Suc.prems show ?thesis by (simp add: server_poll_def)
  next
    case (Suc k)
    with Suc.prems Suc.IH [of "v\<lparr>sv_left := k\<rparr>"] show ?thesis by (simp add: server_poll_def)
  qed
qed simp

lemma polls_alive: "\<not> sg_exit (sv_signals v) \<Longrightarrow> stop_polls n server_poll v = (v, False)"
  by (induction n) (simp_all add: server_poll_def)

lemma rounds_alive:
  "\<not> sg_exit (sv_signals v) \<Longrightarrow> \<not> sg_waiting (sv_signals v) \<Longrightarrow>
   stop_rounds n server_term server_poll v = (v, Stop_timeout)"
  by (induction n) (simp_all add: server_term_def on_signal_def polls_alive)

lemma dec_length: "n < 10 ^ k \<Longrightarrow> 0 < k \<Longrightarrow> length (dec n) \<le> k"
proof (induction k arbitrary: n)
  case (Suc k)
  show ?case
  proof (cases "n < 10")
    case False
    have "0 < k" using Suc.prems False by (cases k) auto
    moreover have "n div 10 < 10 ^ k" using Suc.prems by (simp add: less_mult_imp_div_less mult.commute)
    ultimately show ?thesis using Suc.IH False by (simp add: dec_def radix_str_step)
  qed (simp add: dec_def radix_str_small)
qed simp

lemma dec_plain: "c \<in> set (dec n) \<Longrightarrow> 48 \<le> uchar c"
  using radix_str_digits [of 10 n] by (auto simp: dec_def digit_char_uchar)

lemma pid_text_trimmed: "trimmed (dec n) = dec n"
proof -
  have "\<not> (c = CHR '' '' \<or> c = CHR 0x09 \<or> c = LF)" if "c \<in> set (dec n)" for c
    using dec_plain [OF that] by (auto simp: LF_def)
  then show ?thesis by (simp add: trimmed_def filter_id_conv)
qed

text \<open>The process id is read back from the file.\<close>

lemma stop_app_pid:
  assumes "0 < pid" "pid < 2 ^ 31"
  shows "stop_app (Some (dec pid)) True kill_term poll s =
    stop_rounds 3 (kill_term (word_of_nat pid)) (poll (word_of_nat pid)) s"
proof -
  have "pid < 10 ^ 10" using assms(2) by simp
  then have len: "length (dec pid) \<le> 10" by (rule dec_length) simp
  have z: "takeWhile (\<lambda>c. c \<noteq> CHR 0x00) (dec pid) = dec pid"
    by (rule takeWhile_eq_all_conv [THEN iffD2]) (auto dest: dec_plain)
  have w: "stoi32 (dec pid) 10 = word_of_nat pid"
    using assms(2) by (simp add: stoi32_def strtol_dec)
  have "sint (word_of_nat pid :: u32) = int pid"
    using assms(2) by (simp add: signed_of_nat signed_take_bit_int_eq_self)
  with len w assms show ?thesis
    by (simp add: stop_app_def Let_def z pid_text_trimmed)
qed

text \<open>Stopping ends the server it names.  Against a running server whose first signal this is, and
  whose process is gone after \<open>d\<close> more polls, \<open>stop_app\<close> with the process id in the lock file reports the
  stop when \<open>d < 300\<close>, and a timeout otherwise; only when the process ends exactly between the last poll
  of a round and the next \<open>SIGTERM\<close> (\<open>d\<close> is 100 or 200) it reports that it cannot kill it.\<close>

lemma stop_app_stops:
  assumes "0 < pid" "pid < 2 ^ 31"
  shows "snd (stop_app (Some (dec pid)) True (\<lambda>p. server_term) (\<lambda>p. server_poll)
      \<lparr>sv_signals = signals_new, sv_left = d\<rparr>) =
    (if 300 \<le> d then Stop_timeout else if d = 100 \<or> d = 200 then Unable else Server_is_stop)"
proof -
  define g where "g = \<lparr>sg_waiting = False, sg_exit = True\<rparr>"
  have g: "on_signal SIGTERM signals_new = g" "on_signal SIGTERM g = g" "sg_exit g"
    by (simp_all add: g_def on_signal_def signals_new_def)
  have round: "stop_rounds (Suc n) server_term server_poll \<lparr>sv_signals = g, sv_left = k\<rparr> =
      (if k = 0 then (\<lparr>sv_signals = g, sv_left = 0\<rparr>, Unable)
       else if k < 100 then (\<lparr>sv_signals = g, sv_left = 0\<rparr>, Server_is_stop)
       else stop_rounds n server_term server_poll \<lparr>sv_signals = g, sv_left = k - 100\<rparr>)" for n k
    by (simp add: server_term_def g polls_exit)
  have first: "stop_rounds 3 server_term server_poll \<lparr>sv_signals = signals_new, sv_left = d\<rparr> =
      (if d < 100 then (\<lparr>sv_signals = g, sv_left = 0\<rparr>, Server_is_stop)
       else stop_rounds 2 server_term server_poll \<lparr>sv_signals = g, sv_left = d - 100\<rparr>)"
  proof -
    have three: "stop_rounds 3 t q v = stop_rounds (Suc 2) t q v"
      for t q :: "server \<Rightarrow> server \<times> bool" and v by simp
    have "\<not> sg_exit signals_new" by (simp add: signals_new_def)
    then show ?thesis by (subst three, subst stop_rounds.simps(2)) (simp add: server_term_def g polls_exit)
  qed
  show ?thesis
    unfolding stop_app_pid [OF assms] first numeral_2_eq_2 round by auto
qed

lemma stop_app_stops_witness:
  "snd (stop_app (Some (dec 4711)) True (\<lambda>p. server_term) (\<lambda>p. server_poll)
      \<lparr>sv_signals = signals_new, sv_left = 7\<rparr>) = Server_is_stop"
  using stop_app_stops [of 4711 7] by simp

text \<open>After a \<open>SIGPIPE\<close> the server cannot be stopped.  The signal handler is armed once, and its first
  signal uses it up: when that was a \<open>SIGPIPE\<close>, which the handler ignores, every later \<open>SIGTERM\<close> is left
  waiting, and \<open>stop_app\<close> ends with a timeout however fast the server would end.\<close>

lemma sigpipe_disables_stop:
  assumes "0 < pid" "pid < 2 ^ 31"
  shows "snd (stop_app (Some (dec pid)) True (\<lambda>p. server_term) (\<lambda>p. server_poll)
      \<lparr>sv_signals = fold on_signal (SIGPIPE # ns) signals_new, sv_left = d\<rparr>) = Stop_timeout"
proof -
  have "fold on_signal (SIGPIPE # ns) signals_new = \<lparr>sg_waiting = False, sg_exit = False\<rparr>"
    by (simp add: on_signal_def signals_new_def on_signal_exit)
  then show ?thesis by (simp add: stop_app_pid [OF assms] rounds_alive)
qed

lemma sigpipe_disables_stop_witness:
  "snd (stop_app (Some (dec 4711)) True (\<lambda>p. server_term) (\<lambda>p. server_poll)
      \<lparr>sv_signals = fold on_signal [SIGPIPE, SIGTERM] signals_new, sv_left = 0\<rparr>) = Stop_timeout"
  using sigpipe_disables_stop [of 4711 "[SIGTERM]" 0] by simp

end
