(* ===== verification/CmdServer.thy ===== *)
theory CmdServer
  imports AppCore
begin

text \<open>
  Asking a running server from the command line: the named pipes of
  \<open>gts/server/cmdline/private/interaction_unix.cpp\<close>, the server's side in
  \<open>gts/server/server/cmdline_server.cpp\<close> and the client's side in \<open>short_cmd_check\<close> of
  \<open>gts/server/cmdline/app_core.cpp\<close>.

  The server keeps both pipes open for reading and writing, so what is in them stays there between the
  clients.  A pipe is the bytes in it, and is taken never to be full; a read whose time is over before
  bytes arrive is a read from an empty pipe.
\<close>

section \<open>Pipes\<close>

record pipes =
  to_server :: string
  to_client :: string

definition pipes_new :: pipes where
  "pipes_new = \<lparr>to_server = [], to_client = []\<rparr>"

record pipe_ope =
  m_is_server :: bool
  m_open :: bool
  m_reading :: bool

definition incoming :: "pipe_ope \<Rightarrow> pipes \<Rightarrow> string" where
  "incoming e p = (if m_is_server e then to_server p else to_client p)"

definition set_incoming :: "pipe_ope \<Rightarrow> string \<Rightarrow> pipes \<Rightarrow> pipes" where
  "set_incoming e q p = (if m_is_server e then p\<lparr>to_server := q\<rparr> else p\<lparr>to_client := q\<rparr>)"

text \<open>\<open>read\<close>: the value returned, the bytes stored, the end and the pipes afterwards.  A return before
  the call of \<open>::read\<close> leaves \<open>m_reading\<close> set.\<close>

definition pipe_read :: "int \<Rightarrow> pipe_ope \<Rightarrow> pipes \<Rightarrow> int \<times> string \<times> pipe_ope \<times> pipes" where
  "pipe_read len e p =
     (if \<not> m_open e then (-1, [], e, p)
      else if len < 0 then (-1, [], e, p)
      else if len = 0 then (0, [], e, p)
      else if incoming e p = [] then (0, [], e\<lparr>m_reading := True\<rparr>, p)
      else let d = take (nat len) (incoming e p);
               e' = e\<lparr>m_reading := False\<rparr>;
               p' = set_incoming e (drop (nat len) (incoming e p)) p
           in if prefix ''__c'' d then (0, CHR 0x00 # tl d, e', p') else (int (length d), d, e', p'))"

definition pipe_write :: "string \<Rightarrow> pipe_ope \<Rightarrow> pipes \<Rightarrow> int \<times> pipes" where
  "pipe_write d e p =
     (if \<not> m_open e then (-1, p)
      else if d = [] then (0, p)
      else (int (length d),
        if m_is_server e then p\<lparr>to_client := to_client p @ d\<rparr> else p\<lparr>to_server := to_server p @ d\<rparr>))"

text \<open>\<open>close\<close>: a pending read is woken by bytes in its own pipe; the server also removes the pipes.\<close>

definition pipe_close :: "pipe_ope \<Rightarrow> pipes \<Rightarrow> pipe_ope \<times> pipes" where
  "pipe_close e p =
     (if \<not> m_open e then (e, p)
      else (e\<lparr>m_open := False\<rparr>,
        if m_is_server e then pipes_new
        else if m_reading e then set_incoming e (incoming e p @ ''__c'') p else p))"

section \<open>The server's side\<close>

definition strip_newlines :: "string \<Rightarrow> string" where
  "strip_newlines s = rev (dropWhile (\<lambda>c. c = LF) (rev s))"

text \<open>The reply to what was read; \<open>None\<close>: the text is no known request, and nothing is written.\<close>

definition cmd_reply :: "nat \<Rightarrow> string \<Rightarrow> string \<Rightarrow> string option" where
  "cmd_reply pid status str =
     (let text =
        (if str = CCMD_VSS then Some ([LF] @ (''pid: '' @ dec pid @ [LF]) @ status)
         else if str_starts_with str CCMD_STSS then Some ''accepted''
         else if str_starts_with str CCMD_SPSS then Some ''accepted''
         else if str = CCMD_STSSA then Some ''accepted''
         else if str = CCMD_SPSSA then Some ''accepted''
         else if str = CCMD_VASS then Some ''unrealized''
         else if str = CCMD_VRSS then Some ''unrealized''
         else None)
      in case text of
           None \<Rightarrow> None
         | Some t \<Rightarrow> if strip_newlines t = [] then None else Some (strip_newlines t @ [LF]))"

text \<open>One completed \<open>async_read\<close> with its handler.\<close>

definition server_turn :: "nat \<Rightarrow> string \<Rightarrow> pipes \<Rightarrow> pipes" where
  "server_turn pid status p =
     (if to_server p = [] then p
      else let str = take 8192 (to_server p); p = p\<lparr>to_server := drop 8192 (to_server p)\<rparr> in
        (case cmd_reply pid status str of
           None \<Rightarrow> p
         | Some r \<Rightarrow> p\<lparr>to_client := to_client p @ r\<rparr>))"

section \<open>The client's side\<close>

datatype answer = Printed string | Reply_timeout | Read_failed int | Unterminated

definition client_new :: pipe_ope where
  "client_new = \<lparr>m_is_server = False, m_open = True, m_reading = False\<rparr>"

definition client_send :: "string \<Rightarrow> pipes \<Rightarrow> pipes" where
  "client_send cmd p = snd (pipe_write cmd client_new p)"

text \<open>The read of 8192 bytes into a buffer of zeros, which is then printed as a string; the process ends
  with \<open>exit\<close>, which does not run the destructor of the pipes.\<close>

definition client_receive :: "pipes \<Rightarrow> answer \<times> pipes" where
  "client_receive p =
     (case pipe_read 8192 client_new p of
        (res, buf, e, p) \<Rightarrow>
          (if res < 0 then Read_failed res
           else if res = 0 then Reply_timeout
           else if length (takeWhile (\<lambda>c. c \<noteq> CHR 0x00) buf) = 8192 then Unterminated
           else Printed (takeWhile (\<lambda>c. c \<noteq> CHR 0x00) buf), p))"

section \<open>Requests and replies\<close>

lemma strip_newlines_snoc: "c \<noteq> LF \<Longrightarrow> strip_newlines (s @ [c]) = s @ [c]"
  by (simp add: strip_newlines_def)

lemma strip_newlines_id: "s \<noteq> [] \<Longrightarrow> last s \<noteq> LF \<Longrightarrow> strip_newlines s = s"
  by (cases s rule: rev_cases) (simp_all add: strip_newlines_snoc)

lemma strip_newlines_prefix: "prefix (strip_newlines s) s"
proof -
  have "suffix (dropWhile (\<lambda>c. c = LF) (rev s)) (rev s)" by (rule suffix_dropWhile)
  then show ?thesis by (simp add: strip_newlines_def suffix_to_prefix)
qed

text \<open>Every request that the client can send has a reply.\<close>

lemma short_cmd_values:
  assumes "short_cmd_check args lock = Inr c"
  shows "c = CCMD_VSS \<or> c = CCMD_VASS \<or> c = CCMD_VRSS \<or> c = CCMD_STSSA \<or> c = CCMD_SPSSA \<or>
      str_starts_with c CCMD_STSS \<or> str_starts_with c CCMD_SPSS"
proof -
  have "str_starts_with (x @ v) x" for x v by (simp add: str_starts_with_prefix)
  with assms show ?thesis by (auto simp: short_cmd_check_def Let_def split: if_splits option.splits)
qed

lemma reply_not_empty:
  "strip_newlines ''accepted'' = ''accepted''" "strip_newlines ''unrealized'' = ''unrealized''"
  "strip_newlines (LF # CHR ''p'' # s) \<noteq> []"
proof -
  have "CHR ''p'' \<noteq> LF" by (simp add: LF_def)
  then have "dropWhile (\<lambda>c. c = LF) (rev (LF # CHR ''p'' # s)) \<noteq> []"
    by (auto simp: dropWhile_eq_Nil_conv)
  then show "strip_newlines (LF # CHR ''p'' # s) \<noteq> []" by (simp add: strip_newlines_def)
qed (simp_all add: strip_newlines_def LF_def)

lemma request_has_reply:
  assumes "short_cmd_check args lock = Inr c"
  shows "\<exists>r. cmd_reply pid status c = Some r"
proof (cases "c = CCMD_VSS")
  case True
  then show ?thesis by (simp add: cmd_reply_def reply_not_empty)
next
  case False
  with short_cmd_values [OF assms] show ?thesis
    by (auto simp: cmd_reply_def reply_not_empty Let_def)
qed

text \<open>A turn of the server between the two halves of a client, on empty pipes.\<close>

definition query :: "nat \<Rightarrow> string \<Rightarrow> string \<Rightarrow> pipes \<Rightarrow> answer \<times> pipes" where
  "query pid status cmd p = client_receive (server_turn pid status (client_send cmd p))"



text \<open>A late reply answers the wrong question.  When a client has given up before the server's turn, the
  reply stays in the pipe; the next client prints that reply, to whatever it has asked, and leaves its
  own reply for the client after it.\<close>

lemma late_reply_misleads:
  assumes "cmd_reply pid status c = Some r" "length c \<le> 8192" "c \<noteq> []" "length r < 8192" "CHR 0x00 \<notin> set r" "\<not> prefix ''__c'' r"
    and "c' \<noteq> []"
  shows "fst (client_receive (client_send c pipes_new)) = Reply_timeout \<and>
    client_receive (client_send c' (server_turn pid status (snd (client_receive (client_send c pipes_new))))) =
      (Printed r, \<lparr>to_server = c', to_client = []\<rparr>)"
proof -
  have r: "r \<noteq> []" using assms(1) by (auto simp: cmd_reply_def Let_def split: option.splits if_splits)
  have z: "takeWhile (\<lambda>c. c \<noteq> CHR 0x00) r = r"
    using assms(5) by (auto simp: takeWhile_eq_all_conv)
  show ?thesis
    using assms r
    by (simp add: client_send_def pipe_write_def client_new_def pipes_new_def server_turn_def Let_def
        client_receive_def pipe_read_def incoming_def set_incoming_def z)
qed

lemma late_reply_misleads_witness:
  "client_receive (client_send CCMD_VSS (server_turn 42 ''up''
     (snd (client_receive (client_send CCMD_VASS pipes_new))))) =
     (Printed (''unrealized'' @ [LF]), \<lparr>to_server = CCMD_VSS, to_client = []\<rparr>)"
proof -
  have "cmd_reply 42 ''up'' CCMD_VASS = Some (''unrealized'' @ [LF])" by code_simp
  from late_reply_misleads [OF this, of "CCMD_VSS"] show ?thesis
    by (simp add: LF_def CCMD_VASS_def [THEN arg_cong, of length] CCMD_VASS_def [THEN arg_cong, of "\<lambda>x. x = []"]
        CCMD_VSS_def [THEN arg_cong, of "\<lambda>x. x = []"])
qed

text \<open>Two requests in the pipe at once are read as one text, and neither is answered.\<close>

lemma client_send_pipes: "c \<noteq> [] \<Longrightarrow> client_send c p = p\<lparr>to_server := to_server p @ c\<rparr>"
  by (simp add: client_send_def pipe_write_def client_new_def)

lemma joined_requests_unanswered:
  "to_client (server_turn pid status (client_send CCMD_VSS (client_send CCMD_VSS pipes_new))) = []"
proof -
  have "cmd_reply pid status (CCMD_VSS @ CCMD_VSS) = None"
    by (simp add: cmd_reply_def Let_def str_starts_with_prefix ccmd_defs)
  moreover have "take 8192 (CCMD_VSS @ CCMD_VSS) = CCMD_VSS @ CCMD_VSS" "CCMD_VSS \<noteq> []"
    by (simp_all add: CCMD_VSS_def)
  ultimately show ?thesis
    by (simp add: client_send_pipes pipes_new_def server_turn_def del: take_append)
qed

text \<open>A read that timed out leaves its mark when the pipes are closed, and the next read takes it.\<close>

lemma closed_read_mark:
  assumes "m_open e" "\<not> m_is_server e" "m_reading e" "to_client p = []" "r \<noteq> []" "length r < 8000"
  shows "fst (pipe_read 8192 client_new ((snd (pipe_close e p))\<lparr>to_client := to_client (snd (pipe_close e p)) @ r\<rparr>)) = 0"
  using assms by (simp add: pipe_close_def set_incoming_def incoming_def pipe_read_def client_new_def Let_def)

end
