(* ===== verification/PluginCalls.thy ===== *)
theory PluginCalls
  imports Algorithm
begin

text \<open>
  How the server finds and calls the functions of its plugins: \<open>gts/server/server_tool.cpp\<close>, and the names
  under which \<open>gts/detail/registration.h\<close> registers them.

  The reflection library is not part of the program: its global methods and its types are lists, in the
  order of the library, of methods with a name, parameter and return types, and the value a call
  returns.  Loading a shared library succeeds or not, an argument of the model.  The calls made are
  recorded in their order.
\<close>

section \<open>Methods\<close>

datatype ty = T_void | T_future | T_string | T_bool | T_int | T_argv | T_string_list | T_other

record plugin_method =
  pm_name :: string
  pm_params :: "ty list"
  pm_return :: ty
  pm_text :: string
  pm_bool :: bool

record plugin_type =
  pt_name :: string
  pt_id :: nat
  pt_creates :: bool
  pt_methods :: "plugin_method list"

text \<open>A call: the method, the object's type if there is one, and the arguments that were passed.\<close>

datatype passed = No_args | Config_file string | Main_args | Args_list

record plugins =
  global_methods :: "plugin_method list"
  types_list :: "plugin_type list"
  g_obj_hash :: "plugin_type list"
  calls :: "(plugin_method \<times> nat option \<times> passed) list"
  futures :: nat
  waited :: nat
  env_set :: "(string \<times> string) list"

definition invoke_method :: "plugin_method \<Rightarrow> nat option \<Rightarrow> passed \<Rightarrow> plugins \<Rightarrow> plugins" where
  "invoke_method m obj a p = p\<lparr>calls := calls p @ [(m, obj, a)]\<rparr>"

text \<open>\<open>CHECK_RETURN_CALL\<close> keeps the future a method returns, to wait for it later.\<close>

definition record_call :: "plugin_method \<Rightarrow> nat option \<Rightarrow> passed \<Rightarrow> plugins \<Rightarrow> plugins" where
  "record_call m obj a p =
     (let q = invoke_method m obj a p in
      if pm_return m = T_future then q\<lparr>futures := futures q + 1\<rparr> else q)"

section \<open>Registered names\<close>

text \<open>\<open>register_method\<close>: \<open>tail\<close> is the printed address of a function or \<open>co.\<close> and a counter.\<close>

definition registered_name :: "string \<Rightarrow> string \<Rightarrow> string \<Rightarrow> string" where
  "registered_name pre name tail = ''gts'' @ pre @ ''.plugin'' @ name @ ''.'' @ tail"

definition init_method :: "string \<Rightarrow> string" where "init_method tail = registered_name [] ''.init'' tail"
definition exit_method :: "string \<Rightarrow> string" where "exit_method tail = registered_name [] ''.exit'' tail"
definition view_status_method :: "string \<Rightarrow> string" where "view_status_method tail = registered_name [] ''.view_status'' tail"
definition ext_init_method :: "string \<Rightarrow> string" where "ext_init_method tail = registered_name ''.extension'' ''.init'' tail"
definition ext_exit_method :: "string \<Rightarrow> string" where "ext_exit_method tail = registered_name ''.extension'' ''.exit'' tail"

section \<open>Loading\<close>

datatype json = JString string | JArray "json list" | JObject "(string \<times> json) list" | JNull | JOther

text \<open>\<open>load_library\<close>; \<open>None\<close>: a member has the wrong type, and the program ends.  \<open>ok\<close> tells of a path
  whether the library can be loaded.\<close>

definition load_library :: "(string \<Rightarrow> bool) \<Rightarrow> json \<Rightarrow> (string \<times> json) list \<Rightarrow> string \<Rightarrow> bool option" where
  "load_library ok name lib dir =
     (case name of
        JString n \<Rightarrow>
          (let file = ''lib'' @ n @ ''.so'' in
           case map_of lib ''path'' of
             None \<Rightarrow> Some (ok (''./'' @ file))
           | Some (JString q) \<Rightarrow>
               (let q = (if str_ends_with q ''/'' then q else q @ ''/'');
                    q = (if str_starts_with q ''/'' \<or> str_starts_with q ''~/'' then q else dir @ q)
                in Some (ok (q @ file)))
           | Some _ \<Rightarrow> None)
      | _ \<Rightarrow> None)"

fun load_names :: "(string \<Rightarrow> bool) \<Rightarrow> json list \<Rightarrow> (string \<times> json) list \<Rightarrow> string \<Rightarrow> nat \<Rightarrow> nat option" where
  "load_names ok [] lib dir n = Some n"
| "load_names ok (j # js) lib dir n =
     (case load_library ok j lib dir of
        None \<Rightarrow> None
      | Some b \<Rightarrow> load_names ok js lib dir (if b then n + 1 else n))"

text \<open>An element of \<open>libs\<close> that is no object makes the access to its member throw.\<close>

fun load_libs :: "(string \<Rightarrow> bool) \<Rightarrow> json list \<Rightarrow> string \<Rightarrow> nat \<Rightarrow> nat option" where
  "load_libs ok [] dir n = Some n"
| "load_libs ok (JObject lib # ls) dir n =
     (case (case map_of lib ''name'' of None \<Rightarrow> JNull | Some j \<Rightarrow> j) of
        JArray js \<Rightarrow> (case load_names ok js lib dir n of None \<Rightarrow> None | Some n \<Rightarrow> load_libs ok ls dir n)
      | j \<Rightarrow> (case load_library ok j lib dir of
          None \<Rightarrow> None
        | Some b \<Rightarrow> load_libs ok ls dir (if b then n + 1 else n)))"
| "load_libs ok (j # ls) dir n = None"

text \<open>The environment is set entry by entry until one has no text.\<close>

fun set_envs :: "(string \<times> json) list \<Rightarrow> (string \<times> string) list" where
  "set_envs ((k, JString v) # es) = (k, v) # set_envs es"
| "set_envs _ = []"

section \<open>Starting and ending the plugins\<close>

definition call_init :: "string \<Rightarrow> plugin_method \<Rightarrow> nat option \<Rightarrow> plugins \<Rightarrow> plugins" where
  "call_init config m obj p =
     (if pm_params m = [] then record_call m obj No_args p
      else if pm_params m = [T_string] then record_call m obj (Config_file config) p
      else p)"

definition find_method :: "plugin_type \<Rightarrow> string \<Rightarrow> plugin_method option" where
  "find_method t n = List.find (\<lambda>m. pm_name m = n) (pt_methods t)"

definition init_globals :: "string \<Rightarrow> plugins \<Rightarrow> plugins" where
  "init_globals config p =
     fold (\<lambda>m p. if str_starts_with (pm_name m) ''gts.plugin.init.'' then call_init config m None p else p)
       (global_methods p) p"

definition init_type :: "string \<Rightarrow> plugin_type \<Rightarrow> plugins \<Rightarrow> plugins" where
  "init_type config t p =
     (if \<not> str_starts_with (pt_name t) ''gts.plugin.class.'' \<or> str_ends_with (pt_name t) ''*'' then p
      else if list_ex (\<lambda>u. pt_id u = pt_id t) (g_obj_hash p) then p
      else if \<not> pt_creates t then p
      else let p = p\<lparr>g_obj_hash := g_obj_hash p @ [t]\<rparr> in
        (case find_method t (''init.'' @ dec (pt_id t)) of
           None \<Rightarrow> p
         | Some m \<Rightarrow> call_init config m (Some (pt_id t)) p))"

definition wait_all :: "plugins \<Rightarrow> plugins" where
  "wait_all p = p\<lparr>waited := waited p + futures p, futures := 0\<rparr>"

text \<open>\<open>init\<close>; \<open>None\<close>: the program ends.\<close>

definition plugins_init :: "(string \<Rightarrow> bool) \<Rightarrow> json option \<Rightarrow> string \<Rightarrow> string \<Rightarrow> plugins \<Rightarrow> plugins option" where
  "plugins_init ok config_json json_file config p =
     (case config_json of
        Some (JObject o') \<Rightarrow>
          (let p = (case map_of o' ''envs'' of Some (JObject es) \<Rightarrow> p\<lparr>env_set := env_set p @ set_envs es\<rparr> | _ \<Rightarrow> p) in
           case map_of o' ''libs'' of
             Some (JArray ls) \<Rightarrow>
               (case load_libs ok ls (file_path json_file) 0 of
                  None \<Rightarrow> None
                | Some n \<Rightarrow>
                    if n = 0 then None
                    else Some (wait_all (fold (init_type config) (types_list p) (init_globals config p))))
           | _ \<Rightarrow> None)
      | _ \<Rightarrow> None)"

definition call_exit :: "plugin_method \<Rightarrow> nat option \<Rightarrow> plugins \<Rightarrow> plugins" where
  "call_exit m obj p = (if pm_params m = [] then record_call m obj No_args p else p)"

definition exit_object :: "plugin_type \<Rightarrow> plugins \<Rightarrow> plugins" where
  "exit_object t p =
     (case find_method t (''exit.'' @ dec (pt_id t)) of
        None \<Rightarrow> p
      | Some m \<Rightarrow> call_exit m (Some (pt_id t)) p)"

definition plugins_exit :: "plugins \<Rightarrow> plugins" where
  "plugins_exit p =
     (let p = fold exit_object (g_obj_hash p) p;
          p = fold (\<lambda>m p. if str_starts_with (pm_name m) ''gts.web.plugin.exit.'' then call_exit m None p else p)
                (global_methods p) p
      in (wait_all p)\<lparr>g_obj_hash := []\<rparr>)"

definition plugins_status :: "plugins \<Rightarrow> string" where
  "plugins_status p =
     concat (map pm_text (filter (\<lambda>m. str_starts_with (pm_name m) ''gts.plugin.view_status.'' \<and> pm_return m = T_string)
       (global_methods p))) @
     concat (map (\<lambda>t. case find_method t (''view_status.'' @ dec (pt_id t)) of
        Some m \<Rightarrow> if pm_return m = T_string then pm_text m else []
      | None \<Rightarrow> []) (g_obj_hash p))"

section \<open>Extensions\<close>

definition ext_init :: "string \<Rightarrow> plugins \<Rightarrow> plugins" where
  "ext_init config p =
     fold (\<lambda>m p. if \<not> str_starts_with (pm_name m) ''gts.extension.plugin.init.'' then p
         else if pm_params m = [] then invoke_method m None No_args p
         else if pm_params m = [T_string] then invoke_method m None (Config_file config) p
         else p)
       (global_methods p) p"

definition ext_exit :: "plugins \<Rightarrow> plugins" where
  "ext_exit p =
     fold (\<lambda>m p. if str_starts_with (pm_name m) ''gts.extension.plugin.exit.'' \<and> pm_params m = [] then invoke_method m None No_args p else p)
       (global_methods p) p"

text \<open>Each method of the right type decides on the arguments; one refusal ends the loop.\<close>

fun args_loop :: "plugin_method list \<Rightarrow> nat \<Rightarrow> plugins \<Rightarrow> plugins \<times> bool" where
  "args_loop [] ct p = (p, 0 < ct)"
| "args_loop (m # ms) ct p =
     (if \<not> str_starts_with (pm_name m) ''gts.extension.plugin.args_parsing.'' then args_loop ms ct p
      else if pm_params m \<in> {[T_int, T_argv], [T_string_list]} then
        (if pm_return m \<noteq> T_bool then args_loop ms ct p
         else let p = invoke_method m None (if pm_params m = [T_string_list] then Args_list else Main_args) p in
           if pm_bool m then args_loop ms (ct + 1) p else (p, False))
      else args_loop ms ct p)"

definition args_parsing :: "plugins \<Rightarrow> plugins \<times> bool" where
  "args_parsing p = args_loop (global_methods p) 0 p"

fun view_loop :: "string \<Rightarrow> plugin_method list \<Rightarrow> string \<Rightarrow> string" where
  "view_loop name [] result = result"
| "view_loop name (m # ms) result =
     (if \<not> str_starts_with (pm_name m) name \<or> pm_return m \<noteq> T_string \<or> pm_params m \<noteq> [] then view_loop name ms result
      else if pm_text m = [] then view_loop name ms result
      else view_loop name ms (result @ rev (dropWhile (\<lambda>c. c = LF) (rev (pm_text m))) @ [LF]))"

definition view_extension :: "string \<Rightarrow> plugins \<Rightarrow> string" where
  "view_extension name p =
     (let r = view_loop name (global_methods p) [] in if r = [] then [] else butlast r)"

section \<open>The calls that are made\<close>

lemma calls_fold:
  assumes "\<And>m p. calls (f m p) = calls p @ g m"
  shows "calls (fold (\<lambda>m p. if P m then f m p else p) ms p) = calls p @ concat (map g (filter P ms))"
  by (induction ms arbitrary: p) (simp_all add: assms)

definition init_calls :: "string \<Rightarrow> nat option \<Rightarrow> plugin_method \<Rightarrow> (plugin_method \<times> nat option \<times> passed) list" where
  "init_calls config obj m =
     (if pm_params m = [] then [(m, obj, No_args)]
      else if pm_params m = [T_string] then [(m, obj, Config_file config)] else [])"

definition exit_calls :: "nat option \<Rightarrow> plugin_method \<Rightarrow> (plugin_method \<times> nat option \<times> passed) list" where
  "exit_calls obj m = (if pm_params m = [] then [(m, obj, No_args)] else [])"

lemma calls_init: "calls (call_init config m obj p) = calls p @ init_calls config obj m"
  by (simp add: call_init_def record_call_def invoke_method_def init_calls_def Let_def)

lemma calls_exit: "calls (call_exit m obj p) = calls p @ exit_calls obj m"
  by (simp add: call_exit_def record_call_def invoke_method_def exit_calls_def Let_def)

lemma calls_init_globals:
  "calls (init_globals config p) =
     calls p @ concat (map (init_calls config None)
       (filter (\<lambda>m. str_starts_with (pm_name m) ''gts.plugin.init.'') (global_methods p)))"
  unfolding init_globals_def by (rule calls_fold) (rule calls_init)

lemma calls_exit_object:
  "calls (exit_object t p) = calls p @
     (case find_method t (''exit.'' @ dec (pt_id t)) of None \<Rightarrow> [] | Some m \<Rightarrow> exit_calls (Some (pt_id t)) m)"
  by (simp add: exit_object_def calls_exit split: option.split)

lemma calls_exit_objects:
  "calls (fold exit_object ts p) = calls p @ concat (map (\<lambda>t.
     case find_method t (''exit.'' @ dec (pt_id t)) of None \<Rightarrow> [] | Some m \<Rightarrow> exit_calls (Some (pt_id t)) m) ts)"
  by (induction ts arbitrary: p) (simp_all add: calls_exit_object)

lemma global_methods_exit: "global_methods (fold exit_object ts p) = global_methods p"
proof (induction ts arbitrary: p)
  case (Cons t ts)
  have "global_methods (exit_object t p) = global_methods p"
    by (simp add: exit_object_def call_exit_def record_call_def invoke_method_def Let_def split: option.split)
  with Cons show ?case by simp
qed simp

lemma calls_plugins_exit:
  "calls (plugins_exit p) = calls p @
     concat (map (\<lambda>t. case find_method t (''exit.'' @ dec (pt_id t)) of
        None \<Rightarrow> [] | Some m \<Rightarrow> exit_calls (Some (pt_id t)) m) (g_obj_hash p)) @
     concat (map (exit_calls None) (filter (\<lambda>m. str_starts_with (pm_name m) ''gts.web.plugin.exit.'') (global_methods p)))"
proof -
  have "calls (fold (\<lambda>m p. if str_starts_with (pm_name m) ''gts.web.plugin.exit.'' then call_exit m None p else p) ms q) =
      calls q @ concat (map (exit_calls None) (filter (\<lambda>m. str_starts_with (pm_name m) ''gts.web.plugin.exit.'') ms))" for ms q
    by (rule calls_fold) (rule calls_exit)
  then show ?thesis
    by (simp add: plugins_exit_def Let_def wait_all_def calls_exit_objects global_methods_exit)
qed

text \<open>Plugins are started and never ended.  Every function registered with \<open>init_method\<close> without
  parameters is called when the plugins start, in the order of the library; but no function registered
  with \<open>exit_method\<close> is called when they end, because the ending looks for another name than the one
  under which the function is registered.\<close>

lemma exit_methods_not_called:
  assumes "mi \<in> set (global_methods p)" "pm_params mi = []" "pm_name mi = init_method t"
    and "pm_name me = exit_method t'"
  shows "(mi, None, No_args) \<in> set (calls (init_globals config p)) \<and>
    ((me, None, a) \<in> set (calls (plugins_exit p)) \<longleftrightarrow> (me, None, a) \<in> set (calls p))"
proof
  have "str_starts_with (pm_name mi) ''gts.plugin.init.''"
    using assms(3) by (simp add: init_method_def registered_name_def str_starts_with_prefix)
  with assms(1,2) show "(mi, None, No_args) \<in> set (calls (init_globals config p))"
    by (auto simp: calls_init_globals init_calls_def intro!: bexI [of _ mi])
  have "\<not> str_starts_with (pm_name me) ''gts.web.plugin.exit.''"
    by (simp add: assms(4) exit_method_def registered_name_def str_starts_with_prefix)
  then show "(me, None, a) \<in> set (calls (plugins_exit p)) \<longleftrightarrow> (me, None, a) \<in> set (calls p)"
    by (auto simp: calls_plugins_exit exit_calls_def split: option.splits if_splits)
qed

definition example_plugins :: plugins where
  "example_plugins =
     \<lparr>global_methods = [\<lparr>pm_name = init_method ''0x10'', pm_params = [], pm_return = T_void, pm_text = [], pm_bool = False\<rparr>,
                        \<lparr>pm_name = exit_method ''0x20'', pm_params = [], pm_return = T_void, pm_text = [], pm_bool = False\<rparr>],
      types_list = [], g_obj_hash = [], calls = [], futures = 0, waited = 0, env_set = []\<rparr>"

lemma exit_methods_not_called_witness:
  "(global_methods example_plugins ! 0, None, No_args) \<in> set (calls (init_globals ''gts.ini'' example_plugins)) \<and>
   (global_methods example_plugins ! 1, None, No_args) \<notin> set (calls (plugins_exit example_plugins))"
  using exit_methods_not_called [of "global_methods example_plugins ! 0" example_plugins "''0x10''"
      "global_methods example_plugins ! 1" "''0x20''" "''gts.ini''" No_args]
  by (simp add: example_plugins_def)

end
