(* ===== verification/Arguments.thy ===== *)
theory Arguments
  imports AppCore PluginCalls
begin

text \<open>
  The command line of the server, \<open>gts/server/cmdline/arguments.cpp\<close>: the rules it registers with the parser, and
  the words that are left for the extensions, put before what \<open>cmdline_handle\<close> makes of the result.

  The texts that the compiler puts in (the version, the versions of the libraries and of the compiler) are
  arguments; the extensions that were loaded are the state of the plugins.
\<close>

section \<open>The rules\<close>

definition view_version :: "string \<Rightarrow> string \<Rightarrow> plugins \<Rightarrow> bool \<Rightarrow> string" where
  "view_version version build p all =
     (let result = ''GTS '' @ version in
      if \<not> all then result
      else let result = result @ [LF] @ build; ext = view_extension ''gts.extension.plugin.view_version.'' p
        in if ext \<noteq> [] then result @ [LF] @ ext else result)"

definition server_rules :: "string \<Rightarrow> args_parser" where
  "server_rules title =
     (let p = args_parser_new title;
          p = add_flag p ''start, -start, --start'' ''Start the server.'' ''start'';
          p = add_flag p ''stop, -stop, --stop'' ''Stop the server.'' ''stop'';
          p = add_flag p ''restart, -restart, --restart'' ''Restart the server.'' ''restart'';
          p = add_flag p ''-d, --daemon'' ''Start as a daemon process.'' ''-d'';
          p = add_group p ''-i, --instace''
            ''Specify the server instance name to start multiple instances. (default is 'gts')'' ''-i'';
          p = add_group p ''-f, --file'' ''Specify the configuration file (default is './config.ini').'' ''-f''
      in add_flag p ''status, -status, --status'' ''Viewing server status.'' ''status'')"

definition server_parser :: "string \<Rightarrow> string \<Rightarrow> plugins \<Rightarrow> args_parser" where
  "server_parser version build p =
     set_v
       (set_version
         (set_help_extension (enable_h (server_rules (''GTS '' @ version @ [LF] @ ''Description of command line parameters:'')))
           (view_extension ''gts.extension.plugin.view_help.'' p))
         (view_version version build p False))
       (view_version version build p True)"

text \<open>\<open>argument_check\<close>: what it returns or the end of the process, and the extensions after it.\<close>

definition argument_check :: "string \<Rightarrow> string \<Rightarrow> plugins \<Rightarrow> string list \<Rightarrow> (exit_with + val umap) \<times> plugins" where
  "argument_check version build p argv =
     (case parsing_other (server_parser version build p) argv of
        Inl e \<Rightarrow> (Inl e, p)
      | Inr (args_hash, others) \<Rightarrow>
          if others = [] then (Inr args_hash, p)
          else (case args_parsing p of (p, ok) \<Rightarrow> (if ok then Inr args_hash else Inl Invalid_arguments, p)))"

section \<open>The rules as tables\<close>

lemma rule_words:
  "splitted ''start, -start, --start'' '','' True = [''start'', '' -start'', '' --start'']"
  "splitted ''stop, -stop, --stop'' '','' True = [''stop'', '' -stop'', '' --stop'']"
  "splitted ''restart, -restart, --restart'' '','' True = [''restart'', '' -restart'', '' --restart'']"
  "splitted ''-d, --daemon'' '','' True = [''-d'', '' --daemon'']"
  "splitted ''-i, --instace'' '','' True = [''-i'', '' --instace'']"
  "splitted ''-f, --file'' '','' True = [''-f'', '' --file'']"
  "splitted ''status, -status, --status'' '','' True = [''status'', '' -status'', '' --status'']"
  by (simp_all add: splitted_char)

definition clean_rule :: "string \<Rightarrow> string \<Rightarrow> bool" where
  "clean_rule w r = (str_trimmed w = r \<and> arg_check r \<and> r \<noteq> ''--'' \<and> length r \<noteq> 1)"

lemma add_clean_rule:
  "clean_rule w r \<Longrightarrow> add_rule g i cache w = fst (umap_emplace cache r \<lparr>ai_group = g, ai_iden = (if i = [] then r else i)\<rparr>)"
  by (simp add: clean_rule_def add_rule_def Let_def)

lemma clean_rules:
  "clean_rule ''start'' ''start''" "clean_rule '' -start'' ''-start''" "clean_rule '' --start'' ''--start''"
  "clean_rule ''stop'' ''stop''" "clean_rule '' -stop'' ''-stop''" "clean_rule '' --stop'' ''--stop''"
  "clean_rule ''restart'' ''restart''" "clean_rule '' -restart'' ''-restart''" "clean_rule '' --restart'' ''--restart''"
  "clean_rule ''-d'' ''-d''" "clean_rule '' --daemon'' ''--daemon''"
  "clean_rule ''-i'' ''-i''" "clean_rule '' --instace'' ''--instace''"
  "clean_rule ''-f'' ''-f''" "clean_rule '' --file'' ''--file''"
  "clean_rule ''status'' ''status''" "clean_rule '' -status'' ''-status''" "clean_rule '' --status'' ''--status''"
  by code_simp+

lemma rule_ids:
  "dec 0 = ''0''" "dec (Suc 0) = ''1''" "dec (Suc (Suc 0)) = ''2''" "dec (Suc (Suc (Suc 0))) = ''3''"
  "dec (Suc (Suc (Suc (Suc 0)))) = ''4''" "dec (Suc (Suc (Suc (Suc (Suc 0))))) = ''5''"
  "dec (Suc (Suc (Suc (Suc (Suc (Suc 0)))))) = ''6''"
  by code_simp+

definition rule :: "string \<Rightarrow> string \<Rightarrow> string \<Rightarrow> string \<times> arg_info" where
  "rule w g i = (w, \<lparr>ai_group = g, ai_iden = i\<rparr>)"

lemma fst_rule [simp]: "fst (rule w g i) = w"
  by (simp add: rule_def)

lemma add_rules:
  "list_all2 clean_rule raw ws \<Longrightarrow> distinct ws \<Longrightarrow> set ws \<inter> set (map fst m) = {} \<Longrightarrow> i \<noteq> [] \<Longrightarrow>
   fold (\<lambda>arg c. add_rule g i c arg) raw m = m @ map (\<lambda>w. rule w g i) ws"
proof (induction raw ws arbitrary: m rule: list_all2_induct)
  case (Cons w raw r ws)
  then have "map_of m r = None" by (simp add: map_of_eq_None_iff)
  with Cons.hyps(1) Cons.prems have "add_rule g i m w = m @ [rule r g i]"
    by (simp add: add_clean_rule umap_emplace_def umap_find_def rule_def)
  with Cons show ?case by (simp add: rule_def)
qed simp

lemma add_fields [simp]:
  "ap_flag (add_flag p r d i) = fold (\<lambda>arg c. add_rule (dec (ap_id_source p)) i c arg) (splitted r '','' True) (ap_flag p)"
  "ap_group (add_flag p r d i) = ap_group p"
  "ap_id_source (add_flag p r d i) = Suc (ap_id_source p)"
  "ap_group (add_group p r d i) = fold (\<lambda>arg c. add_rule (dec (ap_id_source p)) i c arg) (splitted r '','' True) (ap_group p)"
  "ap_flag (add_group p r d i) = ap_flag p"
  "ap_id_source (add_group p r d i) = Suc (ap_id_source p)"
  by (simp_all add: add_flag_def add_group_def)

lemma parser_fields [simp]:
  "ap_flag (server_parser v b p) = ap_flag (server_rules [])"
  "ap_group (server_parser v b p) = ap_group (server_rules [])"
  "ap_flag (args_parser_new t) = []" "ap_group (args_parser_new t) = []" "ap_id_source (args_parser_new t) = 0"
  by (simp_all add: server_parser_def set_v_def set_version_def set_help_extension_def enable_h_def server_rules_def
      args_parser_new_def Let_def del: splitted_char)

lemmas server_parser_simps = server_rules_def rule_words Let_def rule_ids

lemma rule_cleaned:
  "list_all2 clean_rule [''start'', '' -start'', '' --start''] [''start'', ''-start'', ''--start'']"
  "list_all2 clean_rule [''stop'', '' -stop'', '' --stop''] [''stop'', ''-stop'', ''--stop'']"
  "list_all2 clean_rule [''restart'', '' -restart'', '' --restart''] [''restart'', ''-restart'', ''--restart'']"
  "list_all2 clean_rule [''-d'', '' --daemon''] [''-d'', ''--daemon'']"
  "list_all2 clean_rule [''-i'', '' --instace''] [''-i'', ''--instace'']"
  "list_all2 clean_rule [''-f'', '' --file''] [''-f'', ''--file'']"
  "list_all2 clean_rule [''status'', '' -status'', '' --status''] [''status'', ''-status'', ''--status'']"
  by (simp_all only: list_all2_Cons list.rel_inject clean_rules list_all2_Nil simp_thms)

lemma server_flags:
  "ap_flag (server_rules t) =
     map (\<lambda>w. rule w ''0'' ''start'') [''start'', ''-start'', ''--start''] @
     map (\<lambda>w. rule w ''1'' ''stop'') [''stop'', ''-stop'', ''--stop''] @
     map (\<lambda>w. rule w ''2'' ''restart'') [''restart'', ''-restart'', ''--restart''] @
     map (\<lambda>w. rule w ''3'' ''-d'') [''-d'', ''--daemon''] @
     map (\<lambda>w. rule w ''6'' ''status'') [''status'', ''-status'', ''--status'']"
  by (simp add: server_parser_simps rule_cleaned [THEN add_rules] del: fold_simps fold.simps)

lemma server_groups:
  "ap_group (server_rules t) =
     map (\<lambda>w. rule w ''4'' ''-i'') [''-i'', ''--instace''] @ map (\<lambda>w. rule w ''5'' ''-f'') [''-f'', ''--file'']"
  by (simp add: server_parser_simps rule_cleaned [THEN add_rules] del: fold_simps fold.simps)

section \<open>Starting from the command line\<close>

definition is_rule :: "string \<Rightarrow> bool" where
  "is_rule w = (w \<in> set (map fst (ap_flag (server_rules [])) @ map fst (ap_group (server_rules []))))"

text \<open>\<open>cmdline_handle\<close> with the call of \<open>argument_check\<close> before it.\<close>

definition server_command ::
  "(string \<Rightarrow> bool) \<Rightarrow> (string \<Rightarrow> bool) \<Rightarrow> (string \<Rightarrow> bool) \<Rightarrow> string \<Rightarrow> string \<Rightarrow> string \<Rightarrow> plugins \<Rightarrow> string list \<Rightarrow>
   exit_with + string \<times> cmd_result" where
  "server_command dir_exists mkdir_ok lock_exists version build inst p argv =
     (case argument_check version build p argv of
        (Inl e, p) \<Rightarrow> Inl e
      | (Inr args_hash, p) \<Rightarrow> Inr (cmdline_handle dir_exists mkdir_ok lock_exists inst args_hash))"

text \<open>A command line that starts or restarts the server: the command in one of its spellings, then options.\<close>

datatype command = Start_command | Restart_command

fun command_word :: "command \<Rightarrow> string" where
  "command_word Start_command = ''start''"
| "command_word Restart_command = ''restart''"

definition command_line :: "command \<Rightarrow> string \<Rightarrow> bool \<Rightarrow> string option \<Rightarrow> string option \<Rightarrow> opt list" where
  "command_line c dashes daemon inst file =
     [Flag (dashes @ command_word c)] @ (if daemon then [Flag ''--daemon''] else []) @
     (case inst of None \<Rightarrow> [] | Some n \<Rightarrow> [Valued ''-i'' n]) @ (case file of None \<Rightarrow> [] | Some f \<Rightarrow> [Valued ''-f'' f])"

lemma command_line_parsed:
  assumes "dashes \<in> {[], ''-'', ''--''}" "\<And>n. inst = Some n \<Longrightarrow> \<not> is_rule n" "\<And>f. file = Some f \<Longrightarrow> \<not> is_rule f"
  shows "argument_check v b p (concat (map opt_words (command_line c dashes daemon inst file))) =
    (Inr ([(command_word c, command_word c)] @ (if daemon then [(''-d'', ''-d'')] else []) @
       (case inst of None \<Rightarrow> [] | Some n \<Rightarrow> [(''-i'', n)]) @ (case file of None \<Rightarrow> [] | Some f \<Rightarrow> [(''-f'', f)])), p)"
proof -
  let ?p = "server_parser v b p" and ?os = "command_line c dashes daemon inst file"
  have nr: "map_of (ap_group (server_rules [])) n = None" "map_of (ap_flag (server_rules [])) n = None" if "\<not> is_rule n" for n
    using that by (auto simp: is_rule_def map_of_eq_None_iff)
  have "list_all (opt_ok ?p) ?os"
    using assms nr
    by (cases c) (auto simp: command_line_def opt_ok_def ordinary_def special_word_def server_flags server_groups rule_def
        umap_find_def split: option.splits)
  moreover have "distinct (opts_groups ?p ?os)"
    using assms nr
    by (cases c) (auto simp: command_line_def opts_groups_def server_flags server_groups rule_def
        umap_find_def split: option.splits)
  ultimately have "parsing_other ?p (concat (map opt_words ?os)) =
      Inr (fold (\<lambda>(k, v) m. fst (umap_emplace m k v)) (opts_values ?p ?os) [], [])"
    by (rule parse_opts)
  moreover have "opts_values ?p ?os = [(command_word c, command_word c)] @ (if daemon then [(''-d'', ''-d'')] else []) @
       (case inst of None \<Rightarrow> [] | Some n \<Rightarrow> [(''-i'', n)]) @ (case file of None \<Rightarrow> [] | Some f \<Rightarrow> [(''-f'', f)])"
    using assms nr
    by (cases c) (auto simp: command_line_def opts_values_def server_flags server_groups rule_def
        umap_find_def split: option.splits)
  ultimately show ?thesis
    by (cases c) (auto simp: argument_check_def umap_emplace_def umap_find_def split: option.splits)
qed

text \<open>C35: From the command line to the start of the server.  A command line that begins with \<open>start\<close> or \<open>restart\<close> in
  one of its three spellings and goes on with \<open>--daemon\<close>, \<open>-i\<close> and a name, \<open>-f\<close> and a file, each or not, is
  understood whatever the extensions: the instance gets the name after its check; a start goes ahead when the directory
  of the instance is there or can be made, a restart when its lock file is there, with the other options under
  the names by which the program asks for them.\<close>

theorem start_command_line:
  assumes "dashes \<in> {[], ''-'', ''--''}" "\<And>n. name = Some n \<Longrightarrow> \<not> is_rule n" "\<And>f. file = Some f \<Longrightarrow> \<not> is_rule f"
    and "i = (case name of None \<Rightarrow> inst | Some n \<Rightarrow> set_instance_name n)"
    and "rest = (if daemon then [(''-d'', ''-d'')] else []) @ (case file of None \<Rightarrow> [] | Some f \<Rightarrow> [(''-f'', f)])"
  shows "server_command de mk le v b inst p (concat (map opt_words (command_line c dashes daemon name file))) =
    Inr (i, case c of
       Start_command \<Rightarrow> if de i \<or> mk i then Start ((''start'', ''start'') # rest) else Dir_failed
     | Restart_command \<Rightarrow> if le i then Restart ((''restart'', ''restart'') # rest) else Failed Not_running)"
proof -
  have parsed: "argument_check v b p (concat (map opt_words (command_line c dashes daemon name file))) =
    (Inr ([(command_word c, command_word c)] @ (if daemon then [(''-d'', ''-d'')] else []) @
       (case name of None \<Rightarrow> [] | Some n \<Rightarrow> [(''-i'', n)]) @ (case file of None \<Rightarrow> [] | Some f \<Rightarrow> [(''-f'', f)])), p)"
    using assms(1-3) by (rule command_line_parsed)
  show ?thesis
    unfolding server_command_def parsed assms(4,5)
    by (cases c) (auto simp: cmdline_handle_def set_of_queries_def args_has_def umap_find_def umap_erase_def Let_def
        split: option.split)
qed

lemma not_rules: "\<not> is_rule ''two''" "\<not> is_rule ''b.ini''"
  by (simp_all add: is_rule_def server_flags server_groups)

lemma start_command_line_witness:
  "server_command (\<lambda>i. False) (\<lambda>i. i = ''two'') (\<lambda>i. False) ''0.1'' ''GCC'' ''gts'' example_plugins
     [''--start'', ''--daemon'', ''-i'', ''two'', ''-f'', ''b.ini''] =
   Inr (''two'', Start [(''start'', ''start''), (''-d'', ''-d''), (''-f'', ''b.ini'')])"
proof -
  have "set_instance_name ''two'' = ''two''" by code_simp
  then show ?thesis
    using start_command_line [of "''--''" "Some ''two''" "Some ''b.ini''" "''two''" "''gts''"
        "[(''-d'', ''-d''), (''-f'', ''b.ini'')]" True "\<lambda>i. False" "\<lambda>i. i = ''two''" "\<lambda>i. False" "''0.1''" "''GCC''"
        example_plugins Start_command] not_rules
    by (simp add: command_line_def)
qed

text \<open>Words that no rule takes go to the extensions, and their refusal ends the process.\<close>

lemma unknown_word_refused:
  assumes "parsing_other (server_parser v b p) argv = Inr (args, other)" "other \<noteq> []" "\<not> snd (args_parsing p)"
  shows "fst (argument_check v b p argv) = Inl Invalid_arguments"
  using assms by (cases "args_parsing p") (simp add: argument_check_def)

end
