(* ===== verification/Dbi.thy ===== *)
theory Dbi
  imports Algorithm
begin

text \<open>
  The database interface: the table of drivers (\<open>gts/dbi/manager.cpp\<close>), error codes and the calls that
  throw them (\<open>gts/dbi/detail/error.h\<close>, \<open>gts/dbi/detail/connection.h\<close>), cells and rows
  (\<open>gts/dbi/detail/cell.h\<close>, \<open>gts/dbi/types.h\<close>), the look-ups of a result (\<open>gts/dbi/result_iterator.cpp\<close>) and
  the query that collects them (\<open>gts/dbi/connection.cpp\<close>).

  Drivers, connections and result sets are classes of plugins that are not part of the program: a
  driver is a number with its name, and a result set is a record of the functions the code calls on
  it.  The floating point readers are not modelled.
\<close>

section \<open>Errors\<close>

record error_code =
  e_value :: u32
  e_message :: string

definition error_new :: error_code where
  "error_new = \<lparr>e_value = 0, e_message = ''success''\<rparr>"

definition error_bool :: "error_code \<Rightarrow> bool" where
  "error_bool e = (e_value e \<noteq> 0)"

definition minus_one :: "string \<Rightarrow> error_code" where
  "minus_one m = \<lparr>e_value = - 1, e_message = m\<rparr>"

text \<open>The pattern of every throwing call of \<open>connection\<close> and \<open>driver\<close>: the call with a new error code, whose
  error is thrown.\<close>

definition throwing :: "(error_code \<Rightarrow> error_code \<times> 'a) \<Rightarrow> error_code + 'a" where
  "throwing f = (case f error_new of (e, r) \<Rightarrow> if error_bool e then Inl e else Inr r)"

section \<open>The table of drivers\<close>

record manager =
  g_driver_map :: "(string \<times> nat) list"
  g_default_driver :: "nat option"
  deleted :: "nat set"

definition manager_new :: manager where
  "manager_new = \<lparr>g_driver_map = [], g_default_driver = None, deleted = {}\<rparr>"

text \<open>\<open>std::map::emplace\<close>, ordered by name.\<close>

fun driver_emplace :: "string \<Rightarrow> nat \<Rightarrow> (string \<times> nat) list \<Rightarrow> (string \<times> nat) list" where
  "driver_emplace k v [] = [(k, v)]"
| "driver_emplace k v ((k', v') # m) =
     (if k = k' then (k', v') # m
      else if k < k' then (k, v) # (k', v') # m
      else (k', v') # driver_emplace k v m)"

text \<open>\<open>name\<close> is the virtual function of the driver.\<close>

definition register_driver :: "(nat \<Rightarrow> string) \<Rightarrow> nat \<Rightarrow> bool \<Rightarrow> manager \<Rightarrow> error_code option \<times> manager" where
  "register_driver name d as_default m =
     (case map_of (g_driver_map m) (name d) of
        Some d' \<Rightarrow> (if d' = d then Some (minus_one ''driver multiple registration.'') else None, m)
      | None \<Rightarrow>
          let t = driver_emplace (name d) d (g_driver_map m) in
          (None, m\<lparr>g_driver_map := t,
             g_default_driver := (if length t = 1 \<or> as_default then Some d else g_default_driver m)\<rparr>))"

definition unregister_name :: "string \<Rightarrow> manager \<Rightarrow> manager" where
  "unregister_name k m =
     (case map_of (g_driver_map m) k of
        None \<Rightarrow> m
      | Some d \<Rightarrow>
          let t = filter (\<lambda>(q, w). q \<noteq> k) (g_driver_map m) in
          m\<lparr>g_driver_map := t, deleted := insert d (deleted m),
            g_default_driver :=
              (if g_default_driver m = Some d then (case t of [] \<Rightarrow> None | (q, w) # r \<Rightarrow> Some w)
               else g_default_driver m)\<rparr>)"

definition unregister_driver :: "(nat \<Rightarrow> string) \<Rightarrow> nat \<Rightarrow> manager \<Rightarrow> manager" where
  "unregister_driver name d m = unregister_name (name d) m"

text \<open>\<open>driver(name)\<close>; \<open>None\<close> is \<open>g_invalid_driver\<close>.\<close>

definition find_driver :: "string \<Rightarrow> manager \<Rightarrow> nat option" where
  "find_driver k m = (if k = [] then g_default_driver m else map_of (g_driver_map m) k)"

definition set_default_driver :: "(nat \<Rightarrow> string) \<Rightarrow> nat \<Rightarrow> manager \<Rightarrow> manager" where
  "set_default_driver name d m =
     (case map_of (g_driver_map m) (name d) of
        None \<Rightarrow> m\<lparr>g_driver_map := driver_emplace (name d) d (g_driver_map m), g_default_driver := Some d\<rparr>
      | Some d' \<Rightarrow> m\<lparr>g_default_driver := Some d\<rparr>)"

definition set_default_name :: "string \<Rightarrow> manager \<Rightarrow> manager" where
  "set_default_name k m =
     (case map_of (g_driver_map m) k of
        None \<Rightarrow> m
      | Some d \<Rightarrow> m\<lparr>g_default_driver := Some d\<rparr>)"

section \<open>Cells\<close>

record cell =
  m_column_name :: string
  m_data :: "string option"

definition cell_null :: "string \<Rightarrow> cell" where
  "cell_null n = \<lparr>m_column_name = n, m_data = None\<rparr>"

definition cell_new :: "string \<Rightarrow> string \<Rightarrow> cell" where
  "cell_new n d = \<lparr>m_column_name = n, m_data = Some d\<rparr>"

definition has_value :: "cell \<Rightarrow> bool" where
  "has_value c = (m_data c \<noteq> None)"

definition clamp_base :: "int \<Rightarrow> nat" where
  "clamp_base b = (if b < 2 then 2 else if b > 16 then 16 else nat b)"

text \<open>\<open>_get\<close> with a conversion function, with a default and throwing; \<open>T\<close> is the name of the type in the
  message.\<close>

definition get_or :: "int \<Rightarrow> (string \<Rightarrow> nat \<Rightarrow> 'a) \<Rightarrow> 'a \<Rightarrow> cell \<Rightarrow> 'a" where
  "get_or base f d c = (case m_data c of Some s \<Rightarrow> f s (clamp_base base) | None \<Rightarrow> d)"

definition get_throw :: "string \<Rightarrow> int \<Rightarrow> (string \<Rightarrow> nat \<Rightarrow> 'a) \<Rightarrow> cell \<Rightarrow> error_code + 'a" where
  "get_throw T base f c =
     (case m_data c of
        Some s \<Rightarrow> Inr (f s (clamp_base base))
      | None \<Rightarrow> Inl (minus_one (''dbi::cell_data::get<'' @ T @ ''>: Optional is empty.'')))"

text \<open>The conversions of the integer getters: \<open>strtol\<close> for all types but the unsigned ones of 32 and 64
  bits, with the result narrowed.\<close>

definition conv_char :: "string \<Rightarrow> nat \<Rightarrow> u8" where "conv_char s b = word_of_int (strtol s b)"
definition conv_short :: "string \<Rightarrow> nat \<Rightarrow> u16" where "conv_short s b = word_of_int (strtol s b)"
definition conv_int :: "string \<Rightarrow> nat \<Rightarrow> u32" where "conv_int s b = word_of_int (strtol s b)"
definition conv_uint :: "string \<Rightarrow> nat \<Rightarrow> u32" where "conv_uint s b = ucast (strtoul s b)"
definition conv_long :: "string \<Rightarrow> nat \<Rightarrow> u64" where "conv_long s b = word_of_int (strtol s b)"
definition conv_ulong :: "string \<Rightarrow> nat \<Rightarrow> u64" where "conv_ulong s b = strtoul s b"

definition get_char_or :: "u8 \<Rightarrow> int \<Rightarrow> cell \<Rightarrow> u8" where "get_char_or d b c = get_or b conv_char d c"
definition get_short_or :: "u16 \<Rightarrow> int \<Rightarrow> cell \<Rightarrow> u16" where "get_short_or d b c = get_or b conv_short d c"
definition get_int_or :: "u32 \<Rightarrow> int \<Rightarrow> cell \<Rightarrow> u32" where "get_int_or d b c = get_or b conv_int d c"
definition get_uint_or :: "u32 \<Rightarrow> int \<Rightarrow> cell \<Rightarrow> u32" where "get_uint_or d b c = get_or b conv_uint d c"
definition get_long_or :: "u64 \<Rightarrow> int \<Rightarrow> cell \<Rightarrow> u64" where "get_long_or d b c = get_or b conv_long d c"
definition get_ulong_or :: "u64 \<Rightarrow> int \<Rightarrow> cell \<Rightarrow> u64" where "get_ulong_or d b c = get_or b conv_ulong d c"

text \<open>The text of a cell.\<close>

definition cell_string :: "cell \<Rightarrow> error_code + string" where
  "cell_string c =
     (case m_data c of
        Some s \<Rightarrow> Inr s
      | None \<Rightarrow> Inl (minus_one ''dbi::cell_data::to_string: Optional is empty.''))"

definition cell_string_or :: "string \<Rightarrow> cell \<Rightarrow> string" where
  "cell_string_or d c = (case m_data c of Some s \<Rightarrow> s | None \<Rightarrow> d)"

text \<open>\<open>std::stoi\<close>: without a digit or outside 32 bits it throws.\<close>

definition stoi :: "string \<Rightarrow> int option" where
  "stoi s =
     (let s1 = dropWhile isspace s;
          neg = (s1 \<noteq> [] \<and> hd s1 = CHR ''-'');
          s2 = (if neg \<or> s1 \<noteq> [] \<and> hd s1 = CHR ''+'' then tl s1 else s1);
          m = digits_value 10 0 s2;
          v = (if neg then - int m else int m)
      in if s2 = [] \<or> (case digit_val (hd s2) of None \<Rightarrow> True | Some d \<Rightarrow> 10 \<le> d) then None
         else if v < - (2 ^ 31) \<or> 2 ^ 31 \<le> v then None
         else Some v)"

definition cell_to_bool :: "string \<Rightarrow> bool" where
  "cell_to_bool s =
     (if length s = 4 \<and> str_to_lower s = ''true'' then True
      else if length s = 5 \<and> str_to_lower s = ''false'' then False
      else case stoi s of Some v \<Rightarrow> v \<noteq> 0 | None \<Rightarrow> False)"

definition get_bool_or :: "bool \<Rightarrow> cell \<Rightarrow> bool" where
  "get_bool_or d c =
     (if has_value c then cell_to_bool (cell_string_or (if d then ''true'' else ''false'') c) else d)"

definition cell_eq :: "cell \<Rightarrow> cell \<Rightarrow> bool" where
  "cell_eq a b = (has_value a \<and> has_value b \<and> m_data a = m_data b)"

definition cell_less :: "cell \<Rightarrow> cell \<Rightarrow> error_code + bool" where
  "cell_less a b =
     (case cell_string a of
        Inl e \<Rightarrow> Inl e
      | Inr s \<Rightarrow> (case cell_string b of Inl e \<Rightarrow> Inl e | Inr t \<Rightarrow> Inr (s < t)))"

definition cell_eq_string :: "cell \<Rightarrow> string \<Rightarrow> bool" where
  "cell_eq_string c s = (has_value c \<and> cell_string c = Inr s)"

definition cell_append :: "cell \<Rightarrow> string \<Rightarrow> string" where
  "cell_append c s = (case m_data c of Some t \<Rightarrow> t @ s | None \<Rightarrow> s)"

text \<open>\<open>row_vector::operator[]\<close> with a name: the first cell of that name.\<close>

fun row_cell :: "string \<Rightarrow> cell list \<Rightarrow> error_code + cell" where
  "row_cell n [] = Inl (minus_one (''row_vector::operator[](std::string): Invalid column name: '' @ [CHR 0x27] @ n @ [CHR 0x27] @ ''.''))"
| "row_cell n (c # cs) = (if m_column_name c = n then Inr c else row_cell n cs)"

section \<open>Result sets\<close>

record 's result_set =
  it_next :: "'s \<Rightarrow> 's \<times> bool"
  it_count :: "'s \<Rightarrow> nat"
  it_name :: "'s \<Rightarrow> nat \<Rightarrow> string"
  it_opt_string :: "'s \<Rightarrow> nat \<Rightarrow> nat \<Rightarrow> string option"

text \<open>The look-ups by name: the first column of that name, or an exception.  \<open>get\<close> is the look-up by
  index.\<close>

function by_name_loop :: "'s result_set \<Rightarrow> 's \<Rightarrow> string \<Rightarrow> string \<Rightarrow> (nat \<Rightarrow> 'a) \<Rightarrow> nat \<Rightarrow> error_code + 'a" where
  "by_name_loop it s func n get column =
     (if it_count it s \<le> column then Inl (minus_one (''dbi::result_set::'' @ func @ '': Invalid column name.''))
      else if it_name it s column = n then Inr (get column)
      else by_name_loop it s func n get (column + 1))"
  by pat_completeness auto
termination by (relation "measure (\<lambda>(it, s, func, n, get, column). it_count it s - column)") auto

declare by_name_loop.simps [simp del]

definition by_name :: "'s result_set \<Rightarrow> 's \<Rightarrow> string \<Rightarrow> string \<Rightarrow> (nat \<Rightarrow> 'a) \<Rightarrow> error_code + 'a" where
  "by_name it s func n get = by_name_loop it s func n get 0"

definition by_index :: "string \<Rightarrow> (nat \<Rightarrow> 'a option) \<Rightarrow> nat \<Rightarrow> error_code + 'a" where
  "by_index func get_opt column =
     (case get_opt column of
        Some v \<Rightarrow> Inr v
      | None \<Rightarrow> Inl (minus_one (''dbi::result_set::get_'' @ func @ '': Optional is empty.'')))"

definition row_id :: "(nat \<Rightarrow> u32 option) \<Rightarrow> u32" where
  "row_id get_opt_int = (case get_opt_int 0 of Some i \<Rightarrow> i | None \<Rightarrow> - 1)"

text \<open>\<open>prepare_query\<close> from the created result set on.  The loop runs as long as \<open>next\<close> returns true.\<close>

definition read_row :: "'s result_set \<Rightarrow> nat \<Rightarrow> 's \<Rightarrow> cell list" where
  "read_row it buf_size s =
     map (\<lambda>column. case it_opt_string it s column buf_size of
        Some v \<Rightarrow> cell_new (it_name it s column) v
      | None \<Rightarrow> cell_null (it_name it s column)) [0..<it_count it s]"

partial_function (option) query_loop :: "'s result_set \<Rightarrow> nat \<Rightarrow> 's \<Rightarrow> cell list list \<Rightarrow> cell list list option" where
  "query_loop it buf_size s result =
     (case it_next it s of
        (s, again) \<Rightarrow>
          if again then query_loop it buf_size s (result @ [read_row it buf_size s]) else Some result)"

text \<open>\<open>create\<close> is the driver's \<open>create_query_work\<close>: the error code it sets and the result set.\<close>

definition prepare_query ::
  "(string \<Rightarrow> error_code \<Rightarrow> error_code \<times> 's result_set \<times> 's) \<Rightarrow> nat \<Rightarrow> string \<Rightarrow> error_code \<Rightarrow>
   (error_code \<times> cell list list) option" where
  "prepare_query create buf_size statement e =
     (case create statement e of
        (e, it, s) \<Rightarrow>
          if error_bool e then Some (e, [])
          else map_option (\<lambda>t. (e, t)) (query_loop it buf_size s []))"

text \<open>\<open>query(sql)\<close>, which throws.\<close>

definition query :: "(string \<Rightarrow> error_code \<Rightarrow> error_code \<times> 's result_set \<times> 's) \<Rightarrow> nat \<Rightarrow> string \<Rightarrow> (error_code + cell list list) option" where
  "query create buf_size sql =
     map_option (\<lambda>(e, r). throwing (\<lambda>e0. (e, r))) (prepare_query create buf_size sql error_new)"

section \<open>The default driver\<close>

text \<open>A default driver is registered, and no registered driver is deleted.\<close>

definition manager_ok :: "(nat \<Rightarrow> string) \<Rightarrow> manager \<Rightarrow> bool" where
  "manager_ok name m =
     (sorted_wrt (<) (map fst (g_driver_map m)) \<and>
      (\<forall>(k, d) \<in> set (g_driver_map m). name d = k \<and> d \<notin> deleted m) \<and>
      (g_default_driver m = None \<longleftrightarrow> g_driver_map m = []) \<and>
      (\<forall>d. g_default_driver m = Some d \<longrightarrow> (name d, d) \<in> set (g_driver_map m)))"

lemma driver_emplace_set: "map_of m k = None \<Longrightarrow> set (driver_emplace k v m) = insert (k, v) (set m)"
  by (induction k v m rule: driver_emplace.induct) (auto split: if_splits)

lemma driver_emplace_sorted:
  "sorted_wrt (<) (map fst m) \<Longrightarrow> sorted_wrt (<) (map fst (driver_emplace k v m))"
proof (induction k v m rule: driver_emplace.induct)
  case (2 k v k' v' m)
  have "fst ` set (driver_emplace k v m) \<subseteq> insert k (fst ` set m)"
    by (induction k v m rule: driver_emplace.induct) auto
  then have "k' < x" if "x \<in> fst ` set (driver_emplace k v m)" "k' < k" "\<forall>x \<in> fst ` set m. k' < x" for x
    using that by blast
  with 2 show ?case by auto
qed simp

lemma driver_emplace_length: "map_of m k = None \<Longrightarrow> length (driver_emplace k v m) = Suc (length m)"
  by (induction k v m rule: driver_emplace.induct) (auto split: if_splits)

lemma map_of_ordered:
  fixes m :: "(string \<times> nat) list"
  shows "sorted_wrt (<) (map fst m) \<Longrightarrow> (map_of m k = Some v) = ((k, v) \<in> set m)"
proof -
  assume s: "sorted_wrt (<) (map fst m)"
  then have "distinct (map fst m)" by (simp only: strict_sorted_iff)
  then show ?thesis by simp
qed

lemma manager_okI:
  "sorted_wrt (<) (map fst (g_driver_map m)) \<Longrightarrow> (\<forall>(k, d) \<in> set (g_driver_map m). name d = k \<and> d \<notin> deleted m) \<Longrightarrow>
   g_default_driver m = Some d' \<Longrightarrow> (name d', d') \<in> set (g_driver_map m) \<Longrightarrow> manager_ok name m"
  by (auto simp: manager_ok_def)

lemma manager_ok_new: "manager_ok name manager_new"
  by (simp add: manager_ok_def manager_new_def)

lemma manager_ok_register:
  assumes ok: "manager_ok name m" and new: "d \<notin> deleted m"
  shows "manager_ok name (snd (register_driver name d as_default m))"
proof (cases "map_of (g_driver_map m) (name d)")
  case None
  let ?t = "driver_emplace (name d) d (g_driver_map m)"
  have t: "set ?t = insert (name d, d) (set (g_driver_map m))" "sorted_wrt (<) (map fst ?t)" "?t \<noteq> []"
    "length ?t = Suc (length (g_driver_map m))"
    using None ok driver_emplace_set driver_emplace_sorted driver_emplace_length [OF None, of d]
    by (auto simp: manager_ok_def)
  show ?thesis
    using ok new None t by (auto simp: register_driver_def manager_ok_def Let_def)
qed (use ok in \<open>simp add: register_driver_def\<close>)

lemma manager_ok_unregister:
  assumes ok: "manager_ok name m"
  shows "manager_ok name (unregister_name k m)"
proof (cases "map_of (g_driver_map m) k")
  case (Some d)
  let ?t = "filter (\<lambda>(q, w). q \<noteq> k) (g_driver_map m)"
  have kd: "(k, d) \<in> set (g_driver_map m)" using Some by (rule map_of_SomeD)
  have name: "\<And>q w. (q, w) \<in> set (g_driver_map m) \<Longrightarrow> name w = q \<and> w \<notin> deleted m"
    using ok by (auto simp: manager_ok_def)
  have sorted: "sorted_wrt (<) (map fst ?t)"
    using ok by (auto simp: manager_ok_def sorted_wrt_map sorted_wrt_filter)
  have live: "name w = q \<and> w \<noteq> d \<and> w \<notin> deleted m" if "(q, w) \<in> set ?t" for q w
    using that name [of q w] name [OF kd] by auto
  show ?thesis
  proof (cases "g_default_driver m = Some d")
    case True
    with Some sorted live name show ?thesis
      by (cases ?t) (auto simp: unregister_name_def manager_ok_def Let_def split: list.splits)
  next
    case False
    obtain d' where d': "g_default_driver m = Some d'" "(name d', d') \<in> set (g_driver_map m)" "d' \<noteq> d"
      using ok kd False by (cases "g_default_driver m") (auto simp: manager_ok_def)
    have "name d' \<noteq> k"
    proof
      assume "name d' = k"
      with d'(2) have "(k, d') \<in> set (g_driver_map m)" by simp
      then have "map_of (g_driver_map m) k = Some d'"
        using ok by (simp add: map_of_ordered manager_ok_def)
      with Some d'(3) show False by simp
    qed
    with d' have t: "(name d', d') \<in> set ?t" by simp
    have f: "g_driver_map (unregister_name k m) = ?t" "deleted (unregister_name k m) = insert d (deleted m)"
      "g_default_driver (unregister_name k m) = Some d'"
      using Some False d'(1) by (simp_all add: unregister_name_def Let_def)
    have l: "\<forall>(q, w) \<in> set ?t. name w = q \<and> w \<notin> insert d (deleted m)"
      using live by blast
    show ?thesis by (rule manager_okI [where d' = d'], unfold f) (rule sorted, rule l, rule refl, rule t)
  qed
qed (use ok in \<open>simp add: unregister_name_def\<close>)

lemma manager_ok_default: "manager_ok name m \<Longrightarrow> manager_ok name (set_default_name k m)"
  by (auto simp: set_default_name_def manager_ok_def split: option.split dest: map_of_SomeD)

text \<open>The tables that programs build with drivers that they register once, and with defaults chosen by
  name.\<close>

inductive manager_reach :: "(nat \<Rightarrow> string) \<Rightarrow> manager \<Rightarrow> bool" for name where
  "manager_reach name manager_new"
| "manager_reach name m \<Longrightarrow> d \<notin> deleted m \<Longrightarrow> manager_reach name (snd (register_driver name d as_default m))"
| "manager_reach name m \<Longrightarrow> manager_reach name (unregister_name k m)"
| "manager_reach name m \<Longrightarrow> manager_reach name (set_default_name k m)"

lemma reach_manager_ok: "manager_reach name m \<Longrightarrow> manager_ok name m"
  by (induction rule: manager_reach.induct)
    (auto intro: manager_ok_new manager_ok_register manager_ok_unregister manager_ok_default)

text \<open>C39: The default driver is always a registered one that is alive.  However drivers are registered,
  unregistered and chosen as default by name, asking for the default driver gives a driver exactly when
  one is registered, and it and every driver found by a name carry that entry's name and have not been
  deleted.\<close>

lemma found_driver_alive:
  assumes "manager_reach name m"
  shows "(find_driver [] m = None \<longleftrightarrow> g_driver_map m = []) \<and>
    (\<forall>k d. find_driver k m = Some d \<longrightarrow> d \<notin> deleted m \<and> map_of (g_driver_map m) (name d) = Some d \<and> (k = [] \<or> name d = k))"
proof -
  have ok: "manager_ok name m" by (rule reach_manager_ok [OF assms])
  have f: "(name d, d) \<in> set (g_driver_map m) \<and> (k = [] \<or> name d = k)" if "find_driver k m = Some d" for k d
    using that ok by (auto simp: find_driver_def manager_ok_def split: if_splits dest: map_of_SomeD)
  show ?thesis
    using ok f map_of_ordered [of "g_driver_map m"] by (fastforce simp: manager_ok_def find_driver_def)
qed

lemma found_driver_alive_witness:
  "find_driver [] (snd (register_driver (\<lambda>d. ''odbc'') 7 False manager_new)) = Some 7 \<and>
   7 \<notin> deleted (snd (register_driver (\<lambda>d. ''odbc'') 7 False manager_new))"
proof -
  have r: "manager_reach (\<lambda>d. ''odbc'') (snd (register_driver (\<lambda>d. ''odbc'') 7 False manager_new))"
    by (intro manager_reach.intros) (simp add: manager_new_def)
  have "find_driver [] (snd (register_driver (\<lambda>d. ''odbc'') 7 False manager_new)) = Some 7"
    by (simp add: find_driver_def register_driver_def manager_new_def)
  with found_driver_alive [OF r] show ?thesis by blast
qed

text \<open>A default set by pointer may carry the name of another driver; unregistering it deletes the other.\<close>

lemma foreign_default:
  assumes "name 1 = name 2"
  shows "unregister_driver name 2 (set_default_driver name 2 (snd (register_driver name 1 False manager_new))) =
    \<lparr>g_driver_map = [], g_default_driver = Some 2, deleted = {1}\<rparr>"
  using assms by (simp add: register_driver_def manager_new_def set_default_driver_def unregister_driver_def unregister_name_def)

section \<open>Queries\<close>

text \<open>The states a result set passes through.\<close>

fun steps :: "'s result_set \<Rightarrow> 's \<Rightarrow> 's list \<Rightarrow> bool" where
  "steps it s [] = (\<not> snd (it_next it s))"
| "steps it s (r # rs) = (it_next it s = (r, True) \<and> steps it r rs)"

lemma query_loop_steps:
  "steps it s rs \<Longrightarrow> query_loop it n s acc = Some (acc @ map (read_row it n) rs)"
proof (induction rs arbitrary: s acc)
  case Nil
  then show ?case by (subst query_loop.simps) (auto split: prod.split)
next
  case (Cons r rs)
  then show ?case by (subst query_loop.simps) simp
qed

lemma query_loop_returns: "query_loop it n s acc = Some t \<Longrightarrow> \<exists>rs. steps it s rs"
proof (erule query_loop.raw_induct [where P = "\<lambda>it n s acc t. \<exists>rs. steps it s rs", rotated])
  fix f :: "'a result_set \<Rightarrow> nat \<Rightarrow> 'a \<Rightarrow> cell list list \<Rightarrow> cell list list option" and it n s acc t
  assume IH: "\<And>it n s acc t. f it n s acc = Some t \<Longrightarrow> \<exists>rs. steps it s rs"
    and r: "(case it_next it s of (s, again) \<Rightarrow> if again then f it n s (acc @ [read_row it n s]) else Some acc) = Some t"
  obtain s' b where b: "it_next it s = (s', b)" by (cases "it_next it s")
  show "\<exists>rs. steps it s rs"
  proof (cases b)
    case True
    with r b have "f it n s' (acc @ [read_row it n s']) = Some t" by simp
    from IH [OF this] obtain rs where "steps it s' rs" by blast
    with b True show ?thesis by (intro exI [of _ "s' # rs"]) simp
  next
    case False
    with b show ?thesis by (intro exI [of _ "[]"]) simp
  qed
qed


section \<open>Cells\<close>

lemma get_int_read_back: "i < 2 ^ 31 \<Longrightarrow> get_int_or d 10 (cell_new n (dec i)) = word_of_nat i"
  by (simp add: get_int_or_def get_or_def cell_new_def clamp_base_def conv_int_def strtol_dec)

lemma get_or_null: "get_or b f d (cell_null n) = d"
  by (simp add: get_or_def cell_null_def)

lemma null_differs_from_itself: "\<not> cell_eq (cell_null n) (cell_null n)"
  by (simp add: cell_eq_def cell_null_def has_value_def)

lemma read_row_names: "map m_column_name (read_row it n s) = map (it_name it s) [0..<it_count it s]"
  by (simp add: read_row_def cell_new_def cell_null_def comp_def cong: option.case_cong)
    (simp split: option.split)

text \<open>A look-up by name finds the first column of that name, or throws.\<close>

lemma by_name_loop_find:
  "by_name_loop it s func n get column =
     (case List.find (\<lambda>c. it_name it s c = n) [column..<it_count it s] of
        Some c \<Rightarrow> Inr (get c)
      | None \<Rightarrow> Inl (minus_one (''dbi::result_set::'' @ func @ '': Invalid column name.'')))"
proof (induction it s func n get column rule: by_name_loop.induct)
  case (1 it s func n get column)
  then show ?case by (subst by_name_loop.simps) (simp add: upt_rec)
qed

lemma row_cell_read_row:
  "row_cell n (read_row it k s) =
     (case List.find (\<lambda>c. it_name it s c = n) [0..<it_count it s] of
        Some c \<Rightarrow> Inr (case it_opt_string it s c k of Some v \<Rightarrow> cell_new n v | None \<Rightarrow> cell_null n)
      | None \<Rightarrow> row_cell n [])"
proof -
  have "row_cell n (map (\<lambda>c. case it_opt_string it s c k of
        Some v \<Rightarrow> cell_new (it_name it s c) v | None \<Rightarrow> cell_null (it_name it s c)) l) =
     (case List.find (\<lambda>c. it_name it s c = n) l of
        Some c \<Rightarrow> Inr (case it_opt_string it s c k of Some v \<Rightarrow> cell_new n v | None \<Rightarrow> cell_null n)
      | None \<Rightarrow> row_cell n [])" for l
    by (induction l) (auto simp: cell_new_def cell_null_def split: option.split)
  then show ?thesis by (simp add: read_row_def)
qed

end
