(* ===== verification/Flags.thy ===== *)
theory Flags
  imports Prelude
begin

text \<open>
  The template \<open>flags\<close> of \<open>gts/flags.h\<close> and \<open>gts/detail/flags.h\<close>: sets of enumerators in an \<open>int\<close>.  An
  enumerator is its value, at most as wide as an \<open>int\<close>.  \<open>setFlag\<close>, a \<open>const\<close> function that assigns to
  the object, can not be instantiated and has no definition here.
\<close>

unbundle bit_operations_syntax

record flags =
  m_value :: u32

definition flags_new :: flags where
  "flags_new = \<lparr>m_value = 0\<rparr>"

definition flags_of :: "u32 \<Rightarrow> flags" where
  "flags_of f = \<lparr>m_value = f\<rparr>"

fun initializer_list_helper :: "u32 list \<Rightarrow> u32" where
  "initializer_list_helper [] = 0"
| "initializer_list_helper (f # fs) = (f OR initializer_list_helper fs)"

definition flags_list :: "u32 list \<Rightarrow> flags" where
  "flags_list fs = \<lparr>m_value = initializer_list_helper fs\<rparr>"

definition and_assign :: "u32 \<Rightarrow> flags \<Rightarrow> flags" where
  "and_assign k s = s\<lparr>m_value := m_value s AND k\<rparr>"

definition or_assign :: "flags \<Rightarrow> flags \<Rightarrow> flags" where
  "or_assign f s = s\<lparr>m_value := m_value s OR m_value f\<rparr>"

definition or_assign_enum :: "u32 \<Rightarrow> flags \<Rightarrow> flags" where
  "or_assign_enum f s = s\<lparr>m_value := m_value s OR f\<rparr>"

definition xor_assign :: "flags \<Rightarrow> flags \<Rightarrow> flags" where
  "xor_assign f s = s\<lparr>m_value := m_value s XOR m_value f\<rparr>"

definition xor_assign_enum :: "u32 \<Rightarrow> flags \<Rightarrow> flags" where
  "xor_assign_enum f s = s\<lparr>m_value := m_value s XOR f\<rparr>"

definition flags_or :: "flags \<Rightarrow> flags \<Rightarrow> flags" where
  "flags_or s f = flags_of (m_value s OR m_value f)"

definition flags_or_enum :: "flags \<Rightarrow> u32 \<Rightarrow> flags" where
  "flags_or_enum s f = flags_of (m_value s OR f)"

definition flags_xor :: "flags \<Rightarrow> flags \<Rightarrow> flags" where
  "flags_xor s f = flags_of (m_value s XOR m_value f)"

definition flags_xor_enum :: "flags \<Rightarrow> u32 \<Rightarrow> flags" where
  "flags_xor_enum s f = flags_of (m_value s XOR f)"

definition flags_and :: "flags \<Rightarrow> u32 \<Rightarrow> flags" where
  "flags_and s k = flags_of (m_value s AND k)"

definition flags_not :: "flags \<Rightarrow> flags" where
  "flags_not s = flags_of (NOT (m_value s))"

definition flags_none :: "flags \<Rightarrow> bool" where
  "flags_none s = (m_value s = 0)"

definition test_flag :: "u32 \<Rightarrow> flags \<Rightarrow> bool" where
  "test_flag f s = (m_value s AND f = f \<and> (f \<noteq> 0 \<or> m_value s = f))"

lemmas flags_defs = flags_new_def flags_of_def flags_list_def and_assign_def or_assign_def or_assign_enum_def
  xor_assign_def xor_assign_enum_def flags_or_def flags_or_enum_def flags_xor_def flags_xor_enum_def flags_and_def
  flags_not_def flags_none_def

lemma u32_bit_less: "bit (f :: u32) i \<Longrightarrow> i < 32"
  using bit_imp_le_length [of f i] by simp

lemma test_flag_iff:
  "test_flag f s \<longleftrightarrow> (if f = 0 then flags_none s else \<forall>i. bit f i \<longrightarrow> bit (m_value s) i)"
  by (auto simp: test_flag_def flags_none_def bit_eq_iff bit_simps dest: u32_bit_less)

lemma bit_initializer: "bit (initializer_list_helper fs) i \<longleftrightarrow> (\<exists>f \<in> set fs. bit f i)"
  by (induction fs) (auto simp: bit_simps)

text \<open>A set built from enumerators contains each of them, and one that is added; taking the complement
  of an enumerator's bits out removes it.\<close>

lemma test_flag_list: "f \<in> set fs \<Longrightarrow> f \<noteq> 0 \<Longrightarrow> test_flag f (flags_list fs)"
  by (auto simp: test_flag_iff flags_list_def bit_initializer)

lemma test_flag_or: "f \<noteq> 0 \<Longrightarrow> test_flag f (or_assign_enum f s)"
  by (auto simp: test_flag_iff or_assign_enum_def bit_simps)

lemma test_flag_cleared: "f \<noteq> 0 \<Longrightarrow> \<not> test_flag f (and_assign (NOT f) s)"
proof -
  assume "f \<noteq> 0"
  then obtain i where "bit f i" by (auto simp: bit_eq_iff)
  with \<open>f \<noteq> 0\<close> show ?thesis by (auto simp: test_flag_iff and_assign_def bit_simps)
qed

lemma xor_twice: "xor_assign f (xor_assign f s) = s"
  by (simp add: xor_assign_def xor.assoc)

lemma flags_or_comm: "flags_or a b = flags_or b a"
  by (simp add: flags_or_def or.commute)

lemma flags_list_append: "flags_list (as @ bs) = flags_or (flags_list as) (flags_list bs)"
  by (auto simp: flags_defs bit_eq_iff bit_initializer bit_simps)

end
