(* ===== verification/SharedLock.thy ===== *)
theory SharedLock
  imports RwMutex
begin

text \<open>
  The guard \<open>basic_shared_lock\<close> and the timed operations of \<open>gts/rw_mutex.h\<close> and
  \<open>gts/detail/rw_mutex.h\<close>.  An operation of the mutex is run here to its end by one thread, on the state
  of the theory \<open>RwMutex\<close>; that the runs are the steps of that theory is proved below.  A call that
  waits has the result \<open>None\<close>.  For a timed operation, whether the wait for the mutex ends in time is an
  argument.  \<open>swap\<close> and the move assignment that uses it name a member that does not exist, and the timed
  operations of the guard call a pointer with a dot; they can not be instantiated.
\<close>

section \<open>Operations of the mutex\<close>

definition rw_lock_shared :: "nat \<Rightarrow> rw \<Rightarrow> rw option" where
  "rw_lock_shared t s =
     (if rw_writer s then
        if rw_owner s = None then Some (s\<lparr>rw_owner := Some t, rw_reader := rw_reader s + 1\<rparr>) else None
      else Some (s\<lparr>rw_reader := rw_reader s + 1\<rparr>))"

definition rw_try_lock_shared :: "rw \<Rightarrow> rw \<times> bool" where
  "rw_try_lock_shared s = (if rw_writer s then (s, False) else (s\<lparr>rw_reader := rw_reader s + 1\<rparr>, True))"

definition rw_lock :: "nat \<Rightarrow> rw \<Rightarrow> rw option" where
  "rw_lock t s = (if rw_owner s = None then Some (s\<lparr>rw_owner := Some t, rw_writer := True\<rparr>) else None)"

definition rw_release :: "nat \<Rightarrow> rw \<Rightarrow> rw" where
  "rw_release t s = (if rw_owner s = Some t then s\<lparr>rw_owner := None\<rparr> else s\<lparr>rw_fault := True\<rparr>)"

definition rw_unlock :: "nat \<Rightarrow> rw \<Rightarrow> rw" where
  "rw_unlock t s =
     (if rw_writer s then rw_release t (s\<lparr>rw_writer := False\<rparr>)
      else if 0 < rw_reader s then
        (if rw_reader s - 1 = 0 then rw_release t (s\<lparr>rw_reader := 0\<rparr>) else s\<lparr>rw_reader := rw_reader s - 1\<rparr>)
      else s)"

text \<open>The timed operations; \<open>in_time\<close> tells whether \<open>m_mutex\<close> becomes free in time.\<close>

definition rw_try_lock_shared_until :: "bool \<Rightarrow> nat \<Rightarrow> rw \<Rightarrow> rw \<times> bool" where
  "rw_try_lock_shared_until in_time t s =
     (if rw_writer s \<and> \<not> in_time then (s, False)
      else if rw_writer s then (s\<lparr>rw_owner := Some t, rw_reader := rw_reader s + 1\<rparr>, True)
      else (s\<lparr>rw_reader := rw_reader s + 1\<rparr>, True))"

definition rw_try_lock_until :: "bool \<Rightarrow> nat \<Rightarrow> rw \<Rightarrow> rw \<times> bool" where
  "rw_try_lock_until in_time t s =
     (if in_time then (s\<lparr>rw_owner := Some t, rw_writer := True\<rparr>, True) else (s, False))"

text \<open>The destructor of the mutex throws while it is locked.\<close>

definition rw_delete_throws :: "rw \<Rightarrow> bool" where
  "rw_delete_throws s = (rw_writer s \<or> 0 < rw_reader s)"

section \<open>The runs are the steps\<close>

lemma lock_shared_steps:
  "rw_lock_shared t s = Some s' \<Longrightarrow>
   call_lock_shared t s = Some s1 \<Longrightarrow>
   \<exists>s2. (if rw_writer s then go_lock_shared t s1 = Some s2 else s2 = s1) \<and> go_lock_shared t s2 = Some (goto t Reading s')"
  by (auto simp: rw_lock_shared_def call_lock_shared_def go_lock_shared_def goto_def split: if_splits)

lemma lock_steps:
  "rw_lock t s = Some s' \<Longrightarrow> \<exists>s1. call_lock t s = Some s1 \<and> go_lock t s1 = Some (goto t Writing s')"
  by (auto simp: rw_lock_def call_lock_def go_lock_def goto_def split: if_splits)

fun unlock_run :: "nat \<Rightarrow> nat \<Rightarrow> rw \<Rightarrow> rw option" where
  "unlock_run 0 t s = None"
| "unlock_run (Suc n) t s = (if rw_pc s t = Outside then Some s else Option.bind (go_unlock t s) (unlock_run n t))"

lemma unlock_steps: "Option.bind (call_unlock t s) (unlock_run 4 t) = Some (goto t Outside (rw_unlock t s))"
proof -
  have "(0 < rw_reader s) = (rw_reader s \<noteq> 0)" by (rule word_neq_0_conv [symmetric])
  then show ?thesis
    by (auto simp: rw_unlock_def call_unlock_def go_unlock_def goto_def rw_release_def numeral_eq_Suc)
qed

section \<open>The guard\<close>

record shared_lock =
  sl_mutex :: bool
  sl_owns :: bool

definition guard_new :: "nat \<Rightarrow> rw \<Rightarrow> (shared_lock \<times> rw) option" where
  "guard_new t s = map_option (\<lambda>s. (\<lparr>sl_mutex = True, sl_owns = True\<rparr>, s)) (rw_lock_shared t s)"

definition guard_try :: "rw \<Rightarrow> shared_lock \<times> rw" where
  "guard_try s = (case rw_try_lock_shared s of (s, b) \<Rightarrow> (\<lparr>sl_mutex = True, sl_owns = b\<rparr>, s))"

definition guard_until :: "bool \<Rightarrow> nat \<Rightarrow> rw \<Rightarrow> shared_lock \<times> rw" where
  "guard_until in_time t s =
     (case rw_try_lock_shared_until in_time t s of (s, b) \<Rightarrow> (\<lparr>sl_mutex = True, sl_owns = b\<rparr>, s))"

text \<open>Moved from: a guard without mutex.\<close>

definition guard_move :: "shared_lock \<Rightarrow> shared_lock \<times> shared_lock" where
  "guard_move g = (g, \<lparr>sl_mutex = False, sl_owns = False\<rparr>)"

definition guard_delete :: "nat \<Rightarrow> shared_lock \<Rightarrow> rw \<Rightarrow> rw" where
  "guard_delete t g s = (if sl_mutex g then rw_unlock t s else s)"

datatype guard_error = Not_permitted | Would_deadlock

text \<open>The member functions; \<open>Inr None\<close>: the call waits.\<close>

definition guard_lock :: "nat \<Rightarrow> shared_lock \<Rightarrow> rw \<Rightarrow> guard_error + (shared_lock \<times> rw) option" where
  "guard_lock t g s =
     (if \<not> sl_mutex g then Inl Not_permitted
      else if sl_owns g then Inl Would_deadlock
      else Inr (map_option (\<lambda>s. (g\<lparr>sl_owns := True\<rparr>, s)) (rw_lock_shared t s)))"

definition guard_unlock :: "nat \<Rightarrow> shared_lock \<Rightarrow> rw \<Rightarrow> guard_error + shared_lock \<times> rw" where
  "guard_unlock t g s =
     (if \<not> sl_mutex g then Inl Not_permitted
      else if sl_owns g then Inr (g\<lparr>sl_owns := False\<rparr>, rw_unlock t s)
      else Inr (g, s))"

definition guard_try_lock :: "shared_lock \<Rightarrow> rw \<Rightarrow> guard_error + shared_lock \<times> rw" where
  "guard_try_lock g s =
     (if \<not> sl_mutex g then Inl Not_permitted
      else if sl_owns g then Inl Would_deadlock
      else case rw_try_lock_shared s of (s, b) \<Rightarrow> Inr (g\<lparr>sl_owns := b\<rparr>, s))"

definition guard_release :: "shared_lock \<Rightarrow> shared_lock" where
  "guard_release g = \<lparr>sl_mutex = False, sl_owns = False\<rparr>"

text \<open>A guard that did not get the lock takes it from its owner.  The destructor of the guard unlocks
  whenever it has a mutex, also when the attempt to lock failed: with a writer inside, a guard that
  another thread tries and drops ends the writer's lock, unlocks a mutex the thread does not own, and
  lets the next reader in beside the writer.\<close>

lemma failed_guard_unlocks_writer:
  assumes "rw_lock w rw_new = Some s" "t \<noteq> w"
    and "guard_try s = (g, s1)" and "guard_try (guard_delete t g s1) = (g', s2)"
  shows "\<not> sl_owns g \<and> s1 = s \<and> rw_fault (guard_delete t g s1) \<and> sl_owns g' \<and> rw_owner s2 = Some w"
  using assms
  by (auto simp: rw_lock_def rw_new_def guard_try_def rw_try_lock_shared_def guard_delete_def rw_unlock_def
      rw_release_def)

lemma failed_guard_unlocks_writer_witness:
  "\<exists>s g s1 g' s2. rw_lock 1 rw_new = Some s \<and> guard_try s = (g, s1) \<and> guard_try (guard_delete 2 g s1) = (g', s2) \<and>
     \<not> sl_owns g \<and> sl_owns g' \<and> rw_owner s2 = Some 1"
proof -
  obtain s where s: "rw_lock 1 rw_new = Some s" by (simp add: rw_lock_def rw_new_def)
  obtain g s1 where g: "guard_try s = (g, s1)" by (cases "guard_try s")
  obtain g' s2 where g': "guard_try (guard_delete 2 g s1) = (g', s2)" by (cases "guard_try (guard_delete 2 g s1)")
  from failed_guard_unlocks_writer [OF s _ g g'] s g g' show ?thesis by auto
qed

text \<open>A guard that is unlocked by hand is unlocked again by its destructor, for another reader.\<close>

lemma unlocked_guard_unlocks_again:
  assumes "\<not> rw_writer s" "rw_reader s = 2" "sl_mutex g" "sl_owns g" "guard_unlock t g s = Inr (g', s')"
  shows "rw_reader (guard_delete t g' s') = 0"
  using assms by (auto simp: guard_unlock_def guard_delete_def rw_unlock_def rw_release_def)

end
