(* ===== verification/Spec2Isabelle.thy ===== *)
theory Spec2Isabelle
  imports ByteOrder Sha1 HttpParser FileTransfer Session RwMutex WebSocket ArgsParser Connection CgiService Settings Mime Uuid
    SaveFile LogQueue LogFiles TcpServer CmdServer Arguments Dbi Flags SharedLock
begin

text \<open>
  A verification library for gts3, a TCP, HTTP and WebSocket server framework in C++ that loads the
  handlers of its sites from plugins.  The definitions are translations of the functions under
  \<open>src/gts\<close> (and of \<open>src/3rd_party/inifile/inicpp.h\<close>, which the program uses for its configuration);
  they keep the names of the source.  This root theory states the properties that span components.

  \<^bold>\<open>The program and its parts.\<close>  The server process (\<open>AppInfo\<close>, \<open>AppCore\<close>) reads the command line
  (\<open>ArgsParser\<close>) and the configuration (\<open>Ini\<close>, \<open>Settings\<close>), takes its lock file, starts the sites
  (\<open>TcpServer\<close>) and calls the functions of the plugins (\<open>PluginCalls\<close>); a second process of the program
  can ask it questions through pipes (\<open>CmdServer\<close>).  The web plugin keeps a connection for each socket
  (\<open>Connection\<close>), feeds what it reads to a parser (\<open>HttpParser\<close>) that builds requests (\<open>HttpRequest\<close>),
  and hands them to a task, which answers by handlers, filters, files, CGI programs or WebSockets
  (\<open>Dispatch\<close>, \<open>Registration\<close>, \<open>FileTransfer\<close>, \<open>CgiService\<close>, \<open>WebSocket\<close>) through a response
  (\<open>HttpResponse\<close>); sessions live beside the requests (\<open>Session\<close>).  All parts log (\<open>LogFiles\<close>,
  \<open>LogQueue\<close>).

  \<^bold>\<open>Theories and sources.\<close>
  \<^item> \<open>Prelude\<close>: bytes, characters, generic lemmas on lists, maps and words.
  \<^item> \<open>Algorithm\<close> (\<open>algorithm.cpp\<close>), \<open>ByteOrder\<close> (\<open>byte_order.cpp\<close>), \<open>Sha1\<close> (\<open>sha1.cpp\<close>), \<open>Uuid\<close>
    (\<open>uuid.cpp\<close>), \<open>Flags\<close> (\<open>flags.h\<close>), \<open>Mime\<close> and \<open>MimeTables\<close> (\<open>mime_type.cpp\<close>): the tools.
  \<^item> \<open>RwMutex\<close> and \<open>SharedLock\<close> (\<open>rw_mutex.h\<close>): the mutex as an interleaving of the steps of its
    callers, and the guard and the timed operations as runs of one caller in that relation.
  \<^item> \<open>HttpMap\<close> (\<open>http/container.h\<close>, \<open>value.h\<close>), \<open>HttpTypes\<close> (\<open>http/types.cpp\<close>), \<open>Cookies\<close>
    (\<open>http/cookies.cpp\<close>): the vocabulary of HTTP.  The locale \<open>keyed_store\<close> is the interface of the
    two containers, and both interpret it.
  \<^item> \<open>TcpSocket\<close> (\<open>tcp_socket.cpp\<close>): a socket is the script of the results of asio's calls.
  \<^item> \<open>HttpParser\<close>, \<open>HttpRequest\<close> and \<open>SaveFile\<close> (\<open>http/request.cpp\<close>), \<open>HttpResponse\<close>, \<open>FileTransfer\<close>, \<open>Session\<close>, \<open>WebSocket\<close>: the files of
    these names under \<open>http\<close> and \<open>web\<close>.
  \<^item> \<open>Registration\<close> (\<open>web/detail/registration.h\<close>), \<open>Dispatch\<close> (\<open>web/service/task.cpp\<close>,
    \<open>plugins_service.cpp\<close>, \<open>service_io.cpp\<close>), \<open>Connection\<close> (\<open>web/service/connection.cpp\<close>) over a model of
    the event loop, \<open>CgiProcess\<close>, \<open>CgiPump\<close>, \<open>CgiService\<close> (\<open>web/service/cgi\<close>) over a model of
    processes, pipes and descriptors.
  \<^item> \<open>ArgsParser\<close> (\<open>args_parser.cpp\<close>) and \<open>Arguments\<close> (\<open>server/cmdline/arguments.cpp\<close>), \<open>Ini\<close> (\<open>inicpp.h\<close>), \<open>Settings\<close> (\<open>settings.cpp\<close>,
    \<open>server/application.cpp\<close>, \<open>web/main.cpp\<close>): options and configuration.
  \<^item> \<open>LogQueue\<close> (class \<open>task_thread\<close> of \<open>log.cpp\<close>) and \<open>LogFiles\<close> (the rest of \<open>log.cpp\<close>,
    \<open>log_buffer.cpp\<close>) over a model of the file system.
  \<^item> \<open>AppInfo\<close> (\<open>application.cpp\<close>, \<open>private\<close>), \<open>AppCore\<close> (\<open>server/cmdline/app_core.cpp\<close>,
    \<open>app_core_unix.cpp\<close>, signals of \<open>server/application.cpp\<close>), \<open>CmdServer\<close>
    (\<open>server/server/cmdline_server.cpp\<close>, \<open>interaction_unix.cpp\<close>), \<open>TcpServer\<close>
    (\<open>server/server/tcp_server.cpp\<close>), \<open>PluginCalls\<close> (\<open>server/server_tool.cpp\<close>): the server process.
  \<^item> \<open>Dbi\<close> (\<open>dbi\<close>): drivers, cells, rows and queries of the database interface.

  \<^bold>\<open>State and effects.\<close>  A class is a record with the names of its members; a member function takes
  and returns the record.  Exceptions and fatal errors are values: a sum for an exception that carries
  something the caller sees, \<open>None\<close> for an abort or undefined behaviour; each theory says which.
  Integers that can wrap are words of their width.  Threads, processes and handlers of the event loop
  are step relations, with one step for each access to shared state, and their properties are
  invariants of the reachable states.  What libraries and the operating system do is an argument of the
  definitions (scripts of results, functions, file systems), with their documented contract built in.

  \<^bold>\<open>What the lemmas show.\<close>
  \<^item> From bytes to answers: a request sent in any pieces reaches its handler with its head and its
    body (\<open>served_request\<close>, \<open>load_segmentation\<close>), what the server writes in chunks the server reads
    back (\<open>chunked_exchange\<close>) when its lines arrive whole (\<open>unfinished_line_hangs\<close>
    says what happens otherwise), the parser never gets stuck or builds an incomplete request
    (\<open>parser_safe\<close>), a read takes exactly the announced body; responses and ranges have the form and
    the length they announce.
  \<^item> Reference definitions: the unrolled SHA-1 computes the digest of FIPS 180-4, cookies implement
    the abstract cookie, files of settings, options and chunked bodies are read back as
    written, searches are compared with plain look-ups.
  \<^item> Life of objects: connections are owned by exactly one operation and bounded in number, sessions
    live as long as their time and no longer, database drivers found are alive, readers and writers
    exclude each other as far as the mutex promises, one instance runs per lock file.
  \<^item> Asynchronous parts: the CGI pump relays the bytes in order and wakes its waiting thread, the
    logger thread writes every message once and in order and ends when it sees the stop flag.
  \<^item> Errors: where the code does something else than its names and comments say, a theorem states what
    it does, on all inputs concerned or by a reachable state.

  \<^bold>\<open>Bounds and fuel.\<close>  Loops over data are structural or have a measure.  A loop whose end is not evident
  from its code is a \<open>partial_function (option)\<close>, and the theorems about it say that it returns: \<open>str_split\<close>
  and \<open>str_replace\<close> (for which arguments), the body reader \<open>read_all_loop\<close>, \<open>log2_loop\<close>, the escaping of
  \<open>Ini\<close>, the binary search of \<open>Mime\<close>, the loop of the frame parser and the row loop of a database query
  (\<open>query_rows\<close> says when it returns).  The constants are those of the code: three rounds of a hundred
  polls in \<open>stop_app\<close>, 8192 bytes for a read from a pipe, 1024 bytes as the smallest buffer.  Fuel is
  used where the system, not the code, decides how long to go on: \<open>drain\<close> in \<open>Connection\<close> runs the
  handlers that one deletion or cancellation leaves in the queue, of which there are at most four, and in
  \<open>SharedLock\<close> an unlock takes at most four steps of \<open>RwMutex\<close>.

  \<^bold>\<open>Not modelled.\<close>  Floating point conversions, since the standard library's rounding is not in the
  repository; timed polling of descriptors, the thread pool, which runs tasks
  in any order, forking a daemon and the terminal, which only call the operating system; the Windows
  variants; coroutines, which switch contexts with a library; the conversions of \<open>utls\<close> between JSON
  values and reflected types; database drivers, the reflection, JSON, formatting and asio libraries
  under \<open>3rd_party\<close>, which the program only calls.
\<close>

section \<open>From the bytes of a connection to the body of a request\<close>

lemma stored_request_valid:
  assumes "m_path r \<noteq> []" and "m_version r \<noteq> []" and "sk_open sk"
    and "header_find (m_headers r) hdr_content_length = Some v"
    and "m_method r = GET \<Longrightarrow> unat (get_u64 v) \<le> 1024"
  shows "is_valid ((finish r b)\<lparr>m_socket := Some sk\<rparr>)"
  using assms by (auto simp: is_valid_def word_less_nat_alt)

lemma read_all_of_finished:
  assumes h: "header_find (m_headers q) hdr_content_length = Some v"
    and valid: "is_valid ((finish q part)\<lparr>m_socket := Some sk\<rparr>)"
    and len: "unat (get_u64 v) = length (part @ sk_stream sk)" and sk: "clean sk" "0 < sk_buffer_size sk"
  shows "\<exists>r'. read_all_body ((finish q part)\<lparr>m_socket := Some sk\<rparr>) = Some (r', part @ sk_stream sk, False) \<and>
    m_rb_status r' = RB_finished"
proof -
  define r where "r = (finish q part)\<lparr>m_socket := Some sk\<rparr>"
  let ?n = "unat (get_u64 v)"
  have ok: "length_ok ?n r" using finish_length [OF h] by (simp add: length_ok_def r_def)
  have valid': "is_valid r" using valid by (simp add: r_def)
  have pend: "pending r = part @ sk_stream sk" "clean_request r" "tcp_ip_buffer_size r = Some (sk_buffer_size sk)"
    using finish_length [OF h] len sk(1) by (simp_all add: pending_def clean_request_def tcp_ip_buffer_size_def r_def)
  from read_all_length [OF ok valid' sk(2), of "replicate 65536 (CHR 0x00)" "[]"] len pend obtain r' out
    where "read_all_loop r (replicate 65536 (CHR 0x00)) (sk_buffer_size sk) [] = Some (r', out, False)"
    "part @ sk_stream sk = out @ pending r'" "length out = length (part @ sk_stream sk)" "m_rb_status r' = RB_finished"
    by (metis append_Nil order_refl)
  with pend(3) show ?thesis
    unfolding r_def [symmetric] by (auto simp: read_all_body_def append_eq_append_conv)
qed




section \<open>What the response writes in chunks, the request reader puts together again\<close>

text \<open>C2: The two sides of the chunked coding agree.  On a fresh version 1.1 response with
  \<open>Transfer-Encoding: chunked\<close>, writing any non-empty pieces without line ends and calling
  \<open>chunk_end\<close> sends one head and an encoded body; a version 1.1 request announced as chunked that has
  received these bytes as its body reads the concatenation of the pieces, without an error, and
  is finished.\<close>

theorem chunked_exchange:
  assumes "full_socket rs" and "headers_ok rs" and "\<not> m_headers_writed rs" and "\<not> m_chunk_end_writed rs"
    and "status_description (m_status rs) = Some d" and "m_chunk_attributes rs = []"
    and "\<not> rs_headers_contains rs hdr_content_length" and "is_chunked rs"
    and "list_all (\<lambda>c. c \<noteq> [] \<and> str_find CRLF c = None \<and> length c < 2 ^ 64) (c # cs)"
    and "header_find (m_headers r) hdr_content_length = None" and "m_version r = ''1.1''"
    and "header_find (m_headers r) hdr_transfer_encoding = Some ''chunked''"
    and "length (concat (c # cs)) < room"
  shows "\<exists>rs1 rs2 wire r'. write_all rs (c # cs) = Some rs1 \<and> chunk_end rs1 [] = Some rs2 \<and>
     sent rs2 = sent rs @ message_head rs1 d @ wire \<and>
     read_body_string (finish r wire) room = Some (r', concat (c # cs), False) \<and> m_rb_status r' = RB_finished"
proof -
  have "list_all (\<lambda>c. c \<noteq> []) (c # cs)" using assms(9) by (auto simp: list_all_iff)
  from write_chunks [OF assms(1-8) this] obtain rs1 rs2 where w:
    "write_all rs (c # cs) = Some rs1" "chunk_end rs1 [] = Some rs2"
    "sent rs2 = sent rs @ message_head rs1 d @ chunked (c # cs)" by blast
  have "m_body (finish r (chunked (c # cs))) = []"
    "m_rb_context (finish r (chunked (c # cs))) = Ctx_string (chunked (c # cs))"
    "m_rb_status (finish r (chunked (c # cs))) = RB_wait_size"
    using finish_chunked [OF assms(10-12)] by auto
  from read_chunked [OF this assms(9,13)] w show ?thesis by auto
qed

lemma chunked_exchange_witness:
  "\<exists>rs1 rs2 wire r'. write_all chunked_response [''ab'', ''c''] = Some rs1 \<and> chunk_end rs1 [] = Some rs2 \<and>
     sent rs2 = message_head rs1 ''OK'' @ wire \<and>
     read_body_string (finish chunked_request wire) 16 = Some (r', ''abc'', False)"
proof -
  have h: "header_find (m_headers chunked_request) hdr_content_length = None"
    "m_version chunked_request = ''1.1''"
    "header_find (m_headers chunked_request) hdr_transfer_encoding = Some ''chunked''"
    by code_simp+
  have c: "list_all (\<lambda>c. c \<noteq> [] \<and> str_find CRLF c = None \<and> length c < 2 ^ 64) [''ab'', ''c'']"
    by (simp add: CRLF_def CR_def)
  have "length (concat [''ab'', ''c'']) < 16" by simp
  from chunked_exchange [OF chunked_response_ok(1,2,3,9,7,8,5,4) c h this] chunked_response_ok(6)
  show ?thesis by auto
qed

end
